(* ===== verification/Prelude.thy ===== *)
theory Prelude
  imports Main "HOL-Library.Word" "HOL-Library.Finite_Map"
begin

unbundle bit_operations_syntax

section \<open>Shared types, error results and generic lemmas\<close>

text \<open>
  What the component theories share: the integer types of the C++ sources at their width,
  the error-or-value result type that stands for a function that may throw, and lemmas on
  lists, options and maps that no component owns.
\<close>

named_theorems serde_simps \<open>unfolding rules of the wire format\<close>
named_theorems step_inv \<open>invariant preservation, one rule per operation\<close>

type_synonym u8 = "8 word"
type_synonym u16 = "16 word"
type_synonym u32 = "32 word"
type_synonym u64 = "64 word"

type_synonym ('e, 'a) result = "'e + 'a"

text \<open>\<open>bindR\<close> runs the continuation unless the first computation has thrown.\<close>

definition bindR :: "('e, 'a) result \<Rightarrow> ('a \<Rightarrow> ('e, 'b) result) \<Rightarrow> ('e, 'b) result" where
  "bindR m f = (case m of Inl e \<Rightarrow> Inl e | Inr x \<Rightarrow> f x)"

lemma bindR_simps [simp]:
  "bindR (Inl e) f = Inl e"
  "bindR (Inr x) f = f x"
  by (simp_all add: bindR_def)

lemma bindR_eq_Inr:
  "bindR m f = Inr y \<longleftrightarrow> (\<exists>x. m = Inr x \<and> f x = Inr y)"
  by (cases m) simp_all

lemma bindR_eq_Inl:
  "bindR m f = Inl e \<longleftrightarrow> m = Inl e \<or> (\<exists>x. m = Inr x \<and> f x = Inl e)"
  by (cases m) simp_all

text \<open>A loop that threads state through a fallible body and stops at the first throw.\<close>

fun foldR :: "('s \<Rightarrow> 'a \<Rightarrow> ('e, 's) result) \<Rightarrow> 's \<Rightarrow> 'a list \<Rightarrow> ('e, 's) result" where
  "foldR f s [] = Inr s"
| "foldR f s (x # xs) = bindR (f s x) (\<lambda>s'. foldR f s' xs)"

lemma list_update_Cons_numeral [simp]:
  "(x # xs)[numeral k := y] = x # xs[pred_numeral k := y]"
  by (simp add: numeral_eq_Suc)

lemma nth_list_update_if:
  "xs[i := y] ! j = (if i = j \<and> i < length xs then y else xs ! j)"
  by (cases "i < length xs") (auto simp: nth_list_update list_update_beyond)

subsection \<open>Finite tables\<close>

text \<open>\<open>size()\<close> of a hash table that is modelled by a finite map.\<close>

definition fmsize :: "('k, 'v) fmap \<Rightarrow> nat" where
  "fmsize m = fcard (fmdom m)"

lemma fmsize_empty [simp]: "fmsize fmempty = 0"
  by (simp add: fmsize_def)

lemma fmsize_drop:
  "fmsize (fmdrop k m) = (if fmlookup m k = None then fmsize m else fmsize m - 1)"
  by (auto simp: fmsize_def fcard.rep_eq fmlookup_dom_iff card_Diff_singleton_if)

lemma fmsize_upd:
  "fmsize (fmupd k v m) = (if fmlookup m k = None then fmsize m + 1 else fmsize m)"
  by (auto simp: fmsize_def fcard.rep_eq fmlookup_dom_iff card_insert_if)

lemma fmsize_pos: "fmlookup m k = Some i \<Longrightarrow> 0 < fmsize m"
  by (auto simp: fmsize_def fcard.rep_eq card_gt_0_iff dest: fmdomI)

lemma fmsize_add:
  "(\<And>k i. fmlookup n k = Some i \<Longrightarrow> fmlookup m k = None) \<Longrightarrow> fmsize (m ++\<^sub>f n) = fmsize m + fmsize n"
  unfolding fmsize_def fmdom_add
  by (rule fcard_funion_disjoint) (auto simp: fset_eq_iff fmlookup_dom_iff)

subsection \<open>Runs of a machine and refinement\<close>

text \<open>A machine answers each operation and moves to a next state; \<open>run_ops\<close> collects the answers.\<close>

primrec run_ops :: "('op \<Rightarrow> 's \<Rightarrow> 'a \<times> 's) \<Rightarrow> 'op list \<Rightarrow> 's \<Rightarrow> 'a list \<times> 's" where
  "run_ops step [] s = ([], s)"
| "run_ops step (x # xs) s =
     (let (a, s1) = step x s; (as, s2) = run_ops step xs s1 in (a # as, s2))"

locale refinement =
  fixes inv :: "'s \<Rightarrow> bool" and abs :: "'s \<Rightarrow> 't"
    and step :: "'op \<Rightarrow> 's \<Rightarrow> 'a \<times> 's" and spec :: "'op \<Rightarrow> 't \<Rightarrow> 'a \<times> 't"
  assumes step_inv: "inv s \<Longrightarrow> inv (snd (step x s))"
    and step_spec: "inv s \<Longrightarrow> spec x (abs s) = (fst (step x s), abs (snd (step x s)))"
begin

lemma run_inv: "inv s \<Longrightarrow> inv (snd (run_ops step xs s))"
  by (induction xs arbitrary: s) (simp_all add: split_beta step_inv)

lemma run_spec:
  "inv s \<Longrightarrow> run_ops spec xs (abs s) = (fst (run_ops step xs s), abs (snd (run_ops step xs s)))"
  by (induction xs arbitrary: s) (simp_all add: split_beta step_spec step_inv)

end

subsection \<open>Decimal numbers\<close>

text \<open>\<open>std::to_string\<close> and the digit loop of \<open>std::from_chars\<close> for unsigned numbers.\<close>

definition digit_char :: "nat \<Rightarrow> char" where
  "digit_char d = char_of (48 + d)"

definition digit_value :: "char \<Rightarrow> nat option" where
  "digit_value c = (let n = (of_char c :: nat) in if 48 \<le> n \<and> n \<le> 57 then Some (n - 48) else None)"

fun to_decimal :: "nat \<Rightarrow> string" where
  "to_decimal n = (if n < 10 then [digit_char n] else to_decimal (n div 10) @ [digit_char (n mod 10)])"

declare to_decimal.simps [simp del]

fun of_decimal :: "nat \<Rightarrow> string \<Rightarrow> nat option" where
  "of_decimal acc [] = Some acc"
| "of_decimal acc (c # cs) =
     (case digit_value c of Some d \<Rightarrow> of_decimal (10 * acc + d) cs | None \<Rightarrow> None)"

lemma digit_value_char [simp]: "d < 10 \<Longrightarrow> digit_value (digit_char d) = Some d"
  by (simp add: digit_value_def digit_char_def)

lemma of_decimal_append:
  "of_decimal acc (xs @ ys) = (case of_decimal acc xs of Some a \<Rightarrow> of_decimal a ys | None \<Rightarrow> None)"
  by (induction xs arbitrary: acc) (simp_all split: option.split)

lemma of_decimal_to_decimal [simp]: "of_decimal 0 (to_decimal n) = Some n"
proof (induction n rule: to_decimal.induct)
  case (1 n)
  show ?case
  proof (cases "n < 10")
    case False
    have "10 * (n div 10) + n mod 10 = n" by simp
    then show ?thesis using 1 False by (subst to_decimal.simps) (simp add: of_decimal_append)
  qed (simp add: to_decimal.simps)
qed

lemma to_decimal_not_Nil [simp]: "to_decimal n \<noteq> []"
  by (subst to_decimal.simps) simp

lemma digit_char_not_minus: "d < 10 \<Longrightarrow> digit_char d \<noteq> CHR ''-''"
proof
  assume d: "d < 10" and "digit_char d = CHR ''-''"
  then have "digit_value (digit_char d) = digit_value (CHR ''-'')" by simp
  moreover have "digit_value (CHR ''-'') = None" by (simp add: digit_value_def)
  ultimately show False using d by simp
qed

definition int_to_decimal :: "int \<Rightarrow> string" where
  "int_to_decimal i = (if i < 0 then CHR ''-'' # to_decimal (nat (- i)) else to_decimal (nat i))"

definition int_of_decimal :: "string \<Rightarrow> int option" where
  "int_of_decimal s =
     (case s of
        [] \<Rightarrow> None
      | c # cs \<Rightarrow> if c = CHR ''-'' then map_option (\<lambda>n. - int n) (of_decimal 0 cs) else map_option int (of_decimal 0 s))"

lemma to_decimal_head: "\<exists>c cs. to_decimal n = c # cs \<and> c \<noteq> CHR ''-''"
proof (induction n rule: to_decimal.induct)
  case (1 n)
  show ?case
  proof (cases "n < 10")
    case True
    then show ?thesis by (subst to_decimal.simps) (simp add: digit_char_not_minus)
  next
    case False
    then show ?thesis using 1 by (subst to_decimal.simps) auto
  qed
qed

lemma int_of_decimal_to_decimal [simp]: "int_of_decimal (int_to_decimal i) = Some i"
proof (cases "i < 0")
  case False
  obtain c cs where "to_decimal (nat i) = c # cs" "c \<noteq> CHR ''-''" using to_decimal_head by blast
  then show ?thesis using False of_decimal_to_decimal [of "nat i"] by (simp add: int_of_decimal_def int_to_decimal_def)
qed (simp add: int_of_decimal_def int_to_decimal_def)

end
