(* ===== verification/Serde.thy ===== *)
theory Serde
  imports Prelude
begin

unbundle bit_operations_syntax

section \<open>The binary wire format (runtime/serde/serde.hpp, serdeimpl.hpp)\<close>

text \<open>
  Every value that crosses a service boundary is written by a \<open>Serde\<close>: big-endian
  integers, signed ones with the sign bit flipped, strings and containers behind 64-bit
  length headers that are reserved first and patched afterwards (\<open>set_u64_be\<close>).
  Bytes are \<open>8 word\<close>; an \<open>std::string\<close> is a HOL string (one char per byte); a
  \<open>float\<close> or \<open>double\<close> is its bit pattern; a \<open>std::vector\<close> is a list whose length
  is a \<open>size_t\<close>, so sizes are naturals compared with \<open>size_max\<close>.
  The locale \<open>serde_codec\<close> is the contract of \<open>Serde<T>\<close>; every serializer
  of the source is an interpretation of it or a lemma that lifts it.
\<close>

subsection \<open>Errors, limits, the interface\<close>

datatype serde_error =
    SerdeError string nat
  | InvalidArgument string
  | RuntimeError string
  | LengthError

definition size_max :: nat where
  "size_max = 2 ^ 64 - 1"

text \<open>\<open>std::vector<std::byte>::max_size()\<close>, which is \<open>PTRDIFF_MAX\<close>.\<close>

definition vector_max_size :: nat where
  "vector_max_size = 2 ^ 63 - 1"

record SerdeLimits =
  maxStringBytes :: nat
  maxBytes :: nat
  maxContainerElements :: nat
  maxTotalBytes :: nat

definition default_SerdeLimits :: SerdeLimits where
  "default_SerdeLimits = \<lparr>maxStringBytes = size_max, maxBytes = size_max,
     maxContainerElements = size_max, maxTotalBytes = size_max\<rparr>"

type_synonym SerdeData = "u8 list"

record 'a Serde =
  IsStub :: bool
  Serialize :: "'a \<Rightarrow> (serde_error, SerdeData) result"
  SerializeTo :: "SerdeData \<Rightarrow> 'a \<Rightarrow> (serde_error, SerdeData) result"
  Deserialize :: "SerdeData \<Rightarrow> (serde_error, 'a) result"

subsection \<open>Primitive writers\<close>

definition kSizeBytes :: nat where
  "kSizeBytes = 8"

definition checked_add :: "nat \<Rightarrow> nat \<Rightarrow> string \<Rightarrow> (serde_error, nat) result" where
  "checked_add lhs rhs what =
     (if rhs > size_max - lhs
      then Inl (SerdeError (''serde size overflow while encoding '' @ what) 0)
      else Inr (lhs + rhs))"

definition reserve_more :: "SerdeData \<Rightarrow> nat \<Rightarrow> (serde_error, SerdeData) result" where
  "reserve_more output additional =
     (if additional > vector_max_size - length output
      then Inl (SerdeError ''serde output size overflow'' (length output))
      else Inr output)"

definition put_u8 :: "SerdeData \<Rightarrow> u8 \<Rightarrow> SerdeData" where
  "put_u8 output v = output @ [v]"

definition put_u16_be :: "SerdeData \<Rightarrow> u16 \<Rightarrow> SerdeData" where
  "put_u16_be output v =
     (output @ [ucast (drop_bit 8 v AND 0xff)]) @ [ucast (v AND 0xff)]"

definition put_u32_be :: "SerdeData \<Rightarrow> u32 \<Rightarrow> SerdeData" where
  "put_u32_be output v =
     (((output @ [ucast (drop_bit 24 v AND 0xff)]) @ [ucast (drop_bit 16 v AND 0xff)])
        @ [ucast (drop_bit 8 v AND 0xff)]) @ [ucast (v AND 0xff)]"

definition put_u64_be :: "SerdeData \<Rightarrow> u64 \<Rightarrow> SerdeData" where
  "put_u64_be output v =
     foldl (\<lambda>out index. out @ [ucast (drop_bit (index * 8) v AND 0xff)]) output
       [7, 6, 5, 4, 3, 2, 1, 0]"

definition set_u64_be :: "SerdeData \<Rightarrow> nat \<Rightarrow> u64 \<Rightarrow> (serde_error, SerdeData) result" where
  "set_u64_be output offset v =
     (if offset > length output \<or> length output - offset < kSizeBytes
      then Inl (SerdeError ''invalid serde frame offset'' offset)
      else Inr (foldl (\<lambda>out index. out[offset + (7 - index) := ucast (drop_bit (index * 8) v AND 0xff)])
                  output [7, 6, 5, 4, 3, 2, 1, 0]))"

definition put_size :: "SerdeData \<Rightarrow> nat \<Rightarrow> SerdeData" where
  "put_size output n = put_u64_be output (of_nat n)"

subsection \<open>The bounds-checked reader\<close>

record Reader =
  rd_data :: SerdeData
  rd_offset :: nat

definition make_Reader :: "SerdeData \<Rightarrow> nat \<Rightarrow> (serde_error, Reader) result" where
  "make_Reader data maxTotal =
     (if length data > maxTotal then Inl (SerdeError ''serde input exceeds configured limit'' 0)
      else Inr \<lparr>rd_data = data, rd_offset = 0\<rparr>)"

definition remaining :: "Reader \<Rightarrow> nat" where
  "remaining r = length (rd_data r) - rd_offset r"

definition read :: "nat \<Rightarrow> string \<Rightarrow> Reader \<Rightarrow> (serde_error, SerdeData \<times> Reader) result" where
  "read n what r =
     (if n > remaining r
      then Inl (SerdeError (''serde underflow while reading '' @ what) (rd_offset r))
      else Inr (take n (drop (rd_offset r) (rd_data r)), r\<lparr>rd_offset := rd_offset r + n\<rparr>))"

definition read_u8 :: "Reader \<Rightarrow> (serde_error, u8 \<times> Reader) result" where
  "read_u8 r = bindR (read 1 ''u8'' r) (\<lambda>(bytes, r'). Inr (bytes ! 0, r'))"

definition read_u16_be :: "Reader \<Rightarrow> (serde_error, u16 \<times> Reader) result" where
  "read_u16_be r = bindR (read 2 ''u16'' r) (\<lambda>(bytes, r').
     Inr (push_bit 8 (ucast (bytes ! 0)) OR ucast (bytes ! 1), r'))"

definition read_u32_be :: "Reader \<Rightarrow> (serde_error, u32 \<times> Reader) result" where
  "read_u32_be r = bindR (read 4 ''u32'' r) (\<lambda>(bytes, r').
     Inr (push_bit 24 (ucast (bytes ! 0)) OR push_bit 16 (ucast (bytes ! 1))
            OR push_bit 8 (ucast (bytes ! 2)) OR ucast (bytes ! 3), r'))"

definition read_u64_be :: "Reader \<Rightarrow> (serde_error, u64 \<times> Reader) result" where
  "read_u64_be r = bindR (read 8 ''u64'' r) (\<lambda>(bytes, r').
     Inr (foldl (\<lambda>v b. push_bit 8 v OR ucast b) 0 bytes, r'))"

definition read_size :: "nat \<Rightarrow> string \<Rightarrow> Reader \<Rightarrow> (serde_error, nat \<times> Reader) result" where
  "read_size maximum what r = bindR (read_u64_be r) (\<lambda>(encoded, r').
     if unat encoded > size_max
     then Inl (SerdeError (''serde '' @ what @ '' does not fit size_t'') (rd_offset r' - kSizeBytes))
     else if unat encoded > maximum
     then Inl (SerdeError (''serde '' @ what @ '' exceeds configured limit'') (rd_offset r' - kSizeBytes))
     else Inr (unat encoded, r'))"

definition serialize_fresh ::
  "(SerdeData \<Rightarrow> 'a \<Rightarrow> (serde_error, SerdeData) result) \<Rightarrow> 'a \<Rightarrow> nat \<Rightarrow> (serde_error, SerdeData) result"
where
  "serialize_fresh serTo v n = (if n > vector_max_size then Inl LengthError else serTo [] v)"

subsection \<open>Fixed-width serializers\<close>

definition scalar_Serde ::
  "(SerdeData \<Rightarrow> 'a \<Rightarrow> SerdeData) \<Rightarrow> nat \<Rightarrow> (Reader \<Rightarrow> (serde_error, 'a \<times> Reader) result) \<Rightarrow> 'a Serde"
where
  "scalar_Serde put n rd =
     \<lparr>IsStub = False,
      Serialize = (\<lambda>v. serialize_fresh (\<lambda>out v. Inr (put out v)) v n),
      SerializeTo = (\<lambda>out v. Inr (put out v)),
      Deserialize = (\<lambda>data. bindR (make_Reader data size_max) (\<lambda>r. bindR (rd r) (\<lambda>(v, _). Inr v)))\<rparr>"

definition BoolSerde :: "bool Serde" where
  "BoolSerde = scalar_Serde (\<lambda>out v. put_u8 out (if v then 1 else 0)) 1
     (\<lambda>r. bindR (read_u8 r) (\<lambda>(b, r'). Inr (b \<noteq> 0, r')))"

definition Int8Serde :: "u8 Serde" where
  "Int8Serde = scalar_Serde put_u8 1 read_u8"

definition UInt8Serde :: "u8 Serde" where
  "UInt8Serde = scalar_Serde put_u8 1 read_u8"

definition Int16Serde :: "u16 Serde" where
  "Int16Serde = scalar_Serde (\<lambda>out v. put_u16_be out (v XOR 0x8000)) 2
     (\<lambda>r. bindR (read_u16_be r) (\<lambda>(v, r'). Inr (v XOR 0x8000, r')))"

definition UInt16Serde :: "u16 Serde" where
  "UInt16Serde = scalar_Serde put_u16_be 2 read_u16_be"

definition Int32Serde :: "u32 Serde" where
  "Int32Serde = scalar_Serde (\<lambda>out v. put_u32_be out (v XOR 0x80000000)) 4
     (\<lambda>r. bindR (read_u32_be r) (\<lambda>(v, r'). Inr (v XOR 0x80000000, r')))"

definition UInt32Serde :: "u32 Serde" where
  "UInt32Serde = scalar_Serde put_u32_be 4 read_u32_be"

definition Int64Serde :: "u64 Serde" where
  "Int64Serde = scalar_Serde (\<lambda>out v. put_u64_be out (v XOR 0x8000000000000000)) 8
     (\<lambda>r. bindR (read_u64_be r) (\<lambda>(v, r'). Inr (v XOR 0x8000000000000000, r')))"

definition UInt64Serde :: "u64 Serde" where
  "UInt64Serde = scalar_Serde put_u64_be 8 read_u64_be"

definition RuneSerde :: "u32 Serde" where
  "RuneSerde = scalar_Serde put_u32_be 4 read_u32_be"

definition Float32Serde :: "u32 Serde" where
  "Float32Serde = scalar_Serde put_u32_be 4 read_u32_be"

definition Float64Serde :: "u64 Serde" where
  "Float64Serde = scalar_Serde put_u64_be 8 read_u64_be"

text \<open>The placeholder used where no serializer is registered: every use throws.\<close>

definition StubSerde :: "'a Serde" where
  "StubSerde =
     \<lparr>IsStub = True,
      Serialize = (\<lambda>_. Inl (RuntimeError ''serde for type is not implemented'')),
      SerializeTo = (\<lambda>_ _. Inl (RuntimeError ''serde for type is not implemented'')),
      Deserialize = (\<lambda>_. Inl (RuntimeError ''serde for type is not implemented''))\<rparr>"

subsection \<open>Strings and byte sequences\<close>

definition string_bytes :: "string \<Rightarrow> SerdeData" where
  "string_bytes s = map of_char s"

definition bytes_string :: "SerdeData \<Rightarrow> string" where
  "bytes_string bs = map (\<lambda>b. char_of (unat b)) bs"

definition StringSerde_SerializeTo ::
  "SerdeLimits \<Rightarrow> SerdeData \<Rightarrow> string \<Rightarrow> (serde_error, SerdeData) result"
where
  "StringSerde_SerializeTo limits output v =
     (if length v > maxStringBytes limits
      then Inl (SerdeError ''string exceeds configured serde limit'' 0)
      else bindR (checked_add kSizeBytes (length v) ''string'') (\<lambda>n.
           bindR (reserve_more output n) (\<lambda>out.
           Inr (put_size out (length v) @ string_bytes v))))"

definition StringSerde_Deserialize ::
  "SerdeLimits \<Rightarrow> SerdeData \<Rightarrow> (serde_error, string) result"
where
  "StringSerde_Deserialize limits data =
     bindR (make_Reader data (maxTotalBytes limits)) (\<lambda>r.
     bindR (read_size (maxStringBytes limits) ''string length'' r) (\<lambda>(n, r).
     bindR (read n ''string'' r) (\<lambda>(bytes, _). Inr (bytes_string bytes))))"

definition StringSerde :: "SerdeLimits \<Rightarrow> string Serde" where
  "StringSerde limits =
     \<lparr>IsStub = False,
      Serialize = (\<lambda>v. bindR (checked_add kSizeBytes (length v) ''string'')
                      (serialize_fresh (StringSerde_SerializeTo limits) v)),
      SerializeTo = StringSerde_SerializeTo limits,
      Deserialize = StringSerde_Deserialize limits\<rparr>"

definition BytesSerde_SerializeTo ::
  "SerdeLimits \<Rightarrow> SerdeData \<Rightarrow> u8 list \<Rightarrow> (serde_error, SerdeData) result"
where
  "BytesSerde_SerializeTo limits output v =
     (if length v > maxBytes limits
      then Inl (SerdeError ''byte sequence exceeds configured serde limit'' 0)
      else bindR (checked_add kSizeBytes (length v) ''bytes'') (\<lambda>n.
           bindR (reserve_more output n) (\<lambda>out.
           Inr (foldl (\<lambda>acc b. acc @ [b]) (put_size out (length v)) v))))"

definition BytesSerde_Deserialize ::
  "SerdeLimits \<Rightarrow> SerdeData \<Rightarrow> (serde_error, u8 list) result"
where
  "BytesSerde_Deserialize limits data =
     bindR (make_Reader data (maxTotalBytes limits)) (\<lambda>r.
     bindR (read_size (maxBytes limits) ''bytes length'' r) (\<lambda>(n, r).
     bindR (read n ''bytes'' r) (\<lambda>(bytes, _). Inr (foldl (\<lambda>acc b. acc @ [b]) [] bytes))))"

definition BytesSerde :: "SerdeLimits \<Rightarrow> u8 list Serde" where
  "BytesSerde limits =
     \<lparr>IsStub = False,
      Serialize = (\<lambda>v. bindR (checked_add kSizeBytes (length v) ''bytes'')
                      (serialize_fresh (BytesSerde_SerializeTo limits) v)),
      SerializeTo = BytesSerde_SerializeTo limits,
      Deserialize = BytesSerde_Deserialize limits\<rparr>"

subsection \<open>Arrays\<close>

text \<open>
  \<open>std::vector<T>::reserve\<close> throws \<open>std::length_error\<close> above \<open>max_size()\<close>, which is
  \<open>PTRDIFF_MAX / sizeof(T)\<close>.
\<close>

definition reserve_elements :: "nat \<Rightarrow> nat \<Rightarrow> (serde_error, unit) result" where
  "reserve_elements sizeofT count =
     (if count > vector_max_size div sizeofT then Inl LengthError else Inr ())"

definition FixedSizeArraySerde_SerializeTo ::
  "'a Serde \<Rightarrow> SerdeLimits \<Rightarrow> SerdeData \<Rightarrow> 'a list \<Rightarrow> (serde_error, SerdeData) result"
where
  "FixedSizeArraySerde_SerializeTo el limits output v =
     (if length v > maxContainerElements limits
      then Inl (SerdeError ''array exceeds configured element limit'' 0)
      else foldR (SerializeTo el) (put_size output (length v)) v)"

fun FixedSizeArraySerde_elements ::
  "'a Serde \<Rightarrow> nat \<Rightarrow> nat \<Rightarrow> Reader \<Rightarrow> 'a list \<Rightarrow> (serde_error, 'a list) result"
where
  "FixedSizeArraySerde_elements el w 0 r acc = Inr acc"
| "FixedSizeArraySerde_elements el w (Suc n) r acc =
     bindR (read w ''fixed-size array element'' r) (\<lambda>(bytes, r').
     bindR (Deserialize el bytes) (\<lambda>x.
     FixedSizeArraySerde_elements el w n r' (acc @ [x])))"

definition FixedSizeArraySerde_Deserialize ::
  "'a Serde \<Rightarrow> nat \<Rightarrow> nat \<Rightarrow> SerdeLimits \<Rightarrow> SerdeData \<Rightarrow> (serde_error, 'a list) result"
where
  "FixedSizeArraySerde_Deserialize el w sizeofT limits data =
     bindR (make_Reader data (maxTotalBytes limits)) (\<lambda>r.
     bindR (read_size (maxContainerElements limits) ''array count'' r) (\<lambda>(count, r).
     if count > remaining r div w
     then Inl (SerdeError ''fixed-size array payload is truncated'' (rd_offset r))
     else bindR (reserve_elements sizeofT count) (\<lambda>_.
          FixedSizeArraySerde_elements el w count r [])))"

definition FixedSizeArraySerde :: "'a Serde \<Rightarrow> nat \<Rightarrow> nat \<Rightarrow> SerdeLimits \<Rightarrow> 'a list Serde" where
  "FixedSizeArraySerde el w sizeofT limits =
     \<lparr>IsStub = False,
      Serialize = (\<lambda>v. if length v > (size_max - kSizeBytes) div w
                      then Inl (SerdeError ''fixed-size array output size overflow'' 0)
                      else serialize_fresh (FixedSizeArraySerde_SerializeTo el limits) v
                             (kSizeBytes + length v * w)),
      SerializeTo = FixedSizeArraySerde_SerializeTo el limits,
      Deserialize = FixedSizeArraySerde_Deserialize el w sizeofT limits\<rparr>"

definition StringArraySerde_SerializeTo ::
  "SerdeLimits \<Rightarrow> SerdeData \<Rightarrow> string list \<Rightarrow> (serde_error, SerdeData) result"
where
  "StringArraySerde_SerializeTo limits output v =
     (if length v > maxContainerElements limits
      then Inl (SerdeError ''string array exceeds configured element limit'' 0)
      else foldR (SerializeTo (StringSerde limits)) (put_size output (length v)) v)"

fun StringArraySerde_elements ::
  "SerdeLimits \<Rightarrow> nat \<Rightarrow> Reader \<Rightarrow> string list \<Rightarrow> (serde_error, string list) result"
where
  "StringArraySerde_elements limits 0 r acc = Inr acc"
| "StringArraySerde_elements limits (Suc n) r acc =
     bindR (read_size (maxStringBytes limits) ''string length'' r) (\<lambda>(len, r).
     bindR (read len ''string array element'' r) (\<lambda>(bytes, r).
     StringArraySerde_elements limits n r (acc @ [bytes_string bytes])))"

text \<open>\<open>sizeof(std::string)\<close> is 32 in libstdc++.\<close>

definition StringArraySerde_Deserialize ::
  "SerdeLimits \<Rightarrow> SerdeData \<Rightarrow> (serde_error, string list) result"
where
  "StringArraySerde_Deserialize limits data =
     bindR (make_Reader data (maxTotalBytes limits)) (\<lambda>r.
     bindR (read_size (maxContainerElements limits) ''string array count'' r) (\<lambda>(count, r).
     bindR (reserve_elements 32 count) (\<lambda>_.
     StringArraySerde_elements limits count r [])))"

definition StringArraySerde :: "SerdeLimits \<Rightarrow> string list Serde" where
  "StringArraySerde limits =
     \<lparr>IsStub = False,
      Serialize = (\<lambda>v. serialize_fresh (StringArraySerde_SerializeTo limits) v 0),
      SerializeTo = StringArraySerde_SerializeTo limits,
      Deserialize = StringArraySerde_Deserialize limits\<rparr>"

text \<open>
  A framed value: the length header is written as zero, the payload appended, and the header
  patched with the payload's length. \<open>ArraySerde\<close>, \<open>MapSerde\<close> and the key-value
  serializer all write their parts this way.
\<close>

definition write_framed ::
  "(SerdeData \<Rightarrow> 'a \<Rightarrow> (serde_error, SerdeData) result) \<Rightarrow> SerdeData \<Rightarrow> 'a
    \<Rightarrow> (serde_error, SerdeData) result"
where
  "write_framed serTo output item =
     (let headerOffset = length output;
          output = put_u64_be output 0;
          valueOffset = length output
      in bindR (serTo output item) (\<lambda>output.
         set_u64_be output headerOffset (of_nat (length output - valueOffset))))"

definition ArraySerde_SerializeTo ::
  "'a Serde \<Rightarrow> SerdeLimits \<Rightarrow> SerdeData \<Rightarrow> 'a list \<Rightarrow> (serde_error, SerdeData) result"
where
  "ArraySerde_SerializeTo el limits output v =
     (if length v > maxContainerElements limits
      then Inl (SerdeError ''array exceeds configured element limit'' 0)
      else foldR (write_framed (SerializeTo el)) (put_size output (length v)) v)"

fun ArraySerde_elements ::
  "'a Serde \<Rightarrow> SerdeLimits \<Rightarrow> nat \<Rightarrow> Reader \<Rightarrow> 'a list \<Rightarrow> (serde_error, 'a list) result"
where
  "ArraySerde_elements el limits 0 r acc = Inr acc"
| "ArraySerde_elements el limits (Suc n) r acc =
     bindR (read_size (maxTotalBytes limits) ''array element length'' r) (\<lambda>(len, r).
     bindR (read len ''array element payload'' r) (\<lambda>(bytes, r).
     bindR (Deserialize el bytes) (\<lambda>x.
     ArraySerde_elements el limits n r (acc @ [x]))))"

definition ArraySerde_Deserialize ::
  "'a Serde \<Rightarrow> nat \<Rightarrow> SerdeLimits \<Rightarrow> SerdeData \<Rightarrow> (serde_error, 'a list) result"
where
  "ArraySerde_Deserialize el sizeofT limits data =
     bindR (make_Reader data (maxTotalBytes limits)) (\<lambda>r.
     bindR (read_size (maxContainerElements limits) ''array count'' r) (\<lambda>(count, r).
     bindR (reserve_elements sizeofT count) (\<lambda>_.
     ArraySerde_elements el limits count r [])))"

definition ArraySerde :: "'a Serde \<Rightarrow> nat \<Rightarrow> SerdeLimits \<Rightarrow> 'a list Serde" where
  "ArraySerde el sizeofT limits =
     \<lparr>IsStub = IsStub el,
      Serialize = (\<lambda>v. serialize_fresh (ArraySerde_SerializeTo el limits) v 0),
      SerializeTo = ArraySerde_SerializeTo el limits,
      Deserialize = ArraySerde_Deserialize el sizeofT limits\<rparr>"

subsection \<open>Maps and key-value pairs\<close>

text \<open>
  The map to be written is given in its iteration order (an association list with distinct
  keys); the map that is read is built by \<open>insert_or_assign\<close> and is a HOL map.
\<close>

definition MapSerde_SerializeTo ::
  "'k list Serde \<Rightarrow> 'v list Serde \<Rightarrow> SerdeLimits \<Rightarrow> SerdeData \<Rightarrow> ('k \<times> 'v) list
    \<Rightarrow> (serde_error, SerdeData) result"
where
  "MapSerde_SerializeTo ks vs limits output m =
     (if length m > maxContainerElements limits
      then Inl (SerdeError ''map exceeds configured element limit'' 0)
      else bindR (write_framed (SerializeTo ks) output (map fst m)) (\<lambda>output.
           write_framed (SerializeTo vs) output (map snd m)))"

definition MapSerde_Deserialize ::
  "'k list Serde \<Rightarrow> 'v list Serde \<Rightarrow> SerdeLimits \<Rightarrow> SerdeData
    \<Rightarrow> (serde_error, 'k \<rightharpoonup> 'v) result"
where
  "MapSerde_Deserialize ks vs limits data =
     bindR (make_Reader data (maxTotalBytes limits)) (\<lambda>r.
     bindR (read_size (maxTotalBytes limits) ''map keys length'' r) (\<lambda>(n, r).
     bindR (read n ''map keys payload'' r) (\<lambda>(bytes, r).
     bindR (Deserialize ks bytes) (\<lambda>keys.
     bindR (read_size (maxTotalBytes limits) ''map values length'' r) (\<lambda>(n, r).
     bindR (read n ''map values payload'' r) (\<lambda>(bytes, r).
     bindR (Deserialize vs bytes) (\<lambda>vals.
     if length keys \<noteq> length vals
     then Inl (SerdeError ''map key/value count mismatch'' (rd_offset r))
     else if length keys > maxContainerElements limits
     then Inl (SerdeError ''map exceeds configured element limit'' 0)
     else Inr (foldl (\<lambda>m (k, v). m(k \<mapsto> v)) Map.empty (zip keys vals)))))))))"

definition StreamKeyValue_Serialize ::
  "'k Serde \<Rightarrow> 'v Serde \<Rightarrow> 'k \<times> 'v \<Rightarrow> (serde_error, SerdeData) result"
where
  "StreamKeyValue_Serialize ks vs kv =
     bindR (write_framed (SerializeTo ks) [] (fst kv)) (\<lambda>output.
     write_framed (SerializeTo vs) output (snd kv))"

definition StreamKeyValue_Deserialize ::
  "'k Serde \<Rightarrow> 'v Serde \<Rightarrow> SerdeLimits \<Rightarrow> SerdeData \<Rightarrow> (serde_error, 'k \<times> 'v) result"
where
  "StreamKeyValue_Deserialize ks vs limits data =
     bindR (make_Reader data (maxTotalBytes limits)) (\<lambda>r.
     bindR (read_size (maxTotalBytes limits) ''key length'' r) (\<lambda>(n, r).
     bindR (read n ''key payload'' r) (\<lambda>(bytes, r).
     bindR (Deserialize ks bytes) (\<lambda>key.
     bindR (read_size (maxTotalBytes limits) ''value length'' r) (\<lambda>(n, r).
     bindR (read n ''value payload'' r) (\<lambda>(bytes, r).
     bindR (Deserialize vs bytes) (\<lambda>val. Inr (key, val))))))))"

definition StreamKeyValue_SerializeKey ::
  "'k Serde \<Rightarrow> 'k \<times> 'v \<Rightarrow> (serde_error, SerdeData) result"
where
  "StreamKeyValue_SerializeKey ks kv = Serialize ks (fst kv)"

definition StreamKeyValue_SerializeValue ::
  "'v Serde \<Rightarrow> 'k \<times> 'v \<Rightarrow> (serde_error, SerdeData) result"
where
  "StreamKeyValue_SerializeValue vs kv = Serialize vs (snd kv)"

definition StreamKeyValue_DeserializeKeyValue ::
  "'k Serde \<Rightarrow> 'v Serde \<Rightarrow> SerdeData \<Rightarrow> SerdeData \<Rightarrow> (serde_error, 'k \<times> 'v) result"
where
  "StreamKeyValue_DeserializeKeyValue ks vs keyData valueData =
     bindR (Deserialize ks keyData) (\<lambda>key.
     bindR (Deserialize vs valueData) (\<lambda>val. Inr (key, val)))"

subsection \<open>Big-endian bytes\<close>

definition be_bytes :: "nat \<Rightarrow> 'a::len word \<Rightarrow> SerdeData" where
  "be_bytes n v = map (\<lambda>i. ucast (drop_bit (i * 8) v)) (rev [0..<n])"

lemma length_be_bytes [simp]: "length (be_bytes n v) = n"
  by (simp add: be_bytes_def)

lemma be_bytes_num:
  "be_bytes (Suc 0) v = [ucast v]"
  "be_bytes 2 v = [ucast (drop_bit 8 v), ucast v]"
  "be_bytes 4 v = [ucast (drop_bit 24 v), ucast (drop_bit 16 v), ucast (drop_bit 8 v), ucast v]"
  "be_bytes 8 v = [ucast (drop_bit 56 v), ucast (drop_bit 48 v), ucast (drop_bit 40 v),
     ucast (drop_bit 32 v), ucast (drop_bit 24 v), ucast (drop_bit 16 v), ucast (drop_bit 8 v), ucast v]"
  by (simp_all add: be_bytes_def numeral_eq_Suc)

lemma ucast_and_ff: "(ucast (w AND 0xff) :: u8) = (ucast (w::'a::len word) :: u8)"
proof (rule bit_word_eqI)
  have m: "(0xff::'a word) = mask 8" by (simp add: mask_eq_exp_minus_1)
  fix n assume "n < LENGTH(8)"
  then show "bit (ucast (w AND 0xff) :: u8) n = bit (ucast w :: u8) n"
    unfolding m by (auto simp: bit_simps dest: bit_imp_le_length)
qed

lemma be_step:
  "push_bit 8 (drop_bit (8 + k) v) OR ucast (ucast (drop_bit k v) :: u8) = drop_bit k (v::'a::len word)"
proof (rule bit_word_eqI)
  fix n assume n: "n < LENGTH('a)"
  show "bit (push_bit 8 (drop_bit (8 + k) v) OR ucast (ucast (drop_bit k v) :: u8)) n
        = bit (drop_bit k v) n"
    using n by (cases "n < 8") (auto simp: bit_simps)
qed

lemma drop_bit_length [simp]: "drop_bit LENGTH('a) (v::'a::len word) = 0"
  by (rule bit_word_eqI) (auto simp: bit_simps dest: bit_imp_le_length)

lemma put_be [serde_simps]:
  "put_u8 out b = out @ be_bytes 1 b"
  "put_u16_be out v2 = out @ be_bytes 2 v2"
  "put_u32_be out v4 = out @ be_bytes 4 v4"
  "put_u64_be out v8 = out @ be_bytes 8 v8"
  by (simp_all add: put_u8_def put_u16_be_def put_u32_be_def put_u64_be_def be_bytes_num ucast_and_ff)

lemma be_join_u16:
  "push_bit 8 (ucast (be_bytes 2 v ! 0)) OR ucast (be_bytes 2 v ! 1) = (v::u16)"
  using be_step [of 8 v] be_step [of 0 v] drop_bit_length [of v] by (simp add: be_bytes_num)

lemma be_join_u32:
  "push_bit 24 (ucast (be_bytes 4 v ! 0)) OR push_bit 16 (ucast (be_bytes 4 v ! 1))
     OR push_bit 8 (ucast (be_bytes 4 v ! 2)) OR ucast (be_bytes 4 v ! 3) = (v::u32)"
proof -
  have "push_bit 24 (ucast (be_bytes 4 v ! 0)) OR push_bit 16 (ucast (be_bytes 4 v ! 1))
     OR push_bit 8 (ucast (be_bytes 4 v ! 2)) OR ucast (be_bytes 4 v ! 3)
     = push_bit 8 (push_bit 8 (push_bit 8 (ucast (be_bytes 4 v ! 0) :: u32) OR ucast (be_bytes 4 v ! 1))
          OR ucast (be_bytes 4 v ! 2)) OR (ucast (be_bytes 4 v ! 3) :: u32)"
    by (simp add: push_bit_or ac_simps)
  also have "\<dots> = v"
    using be_step [of 24 v] be_step [of 16 v] be_step [of 8 v] be_step [of 0 v] drop_bit_length [of v]
    by (simp add: be_bytes_num)
  finally show ?thesis .
qed

lemma be_join_u64:
  "foldl (\<lambda>v b. push_bit 8 v OR ucast b) 0 (be_bytes 8 v) = (v::u64)"
  using drop_bit_length [of v] be_step [of 56 v] be_step [of 48 v] be_step [of 40 v] be_step [of 32 v]
    be_step [of 24 v] be_step [of 16 v] be_step [of 8 v] be_step [of 0 v]
  by (simp add: be_bytes_num)

subsection \<open>Reading what has been written\<close>

text \<open>A reader is known by the bytes it has not consumed.\<close>

definition rest :: "Reader \<Rightarrow> SerdeData" where
  "rest r = drop (rd_offset r) (rd_data r)"

definition advance :: "nat \<Rightarrow> Reader \<Rightarrow> Reader" where
  "advance n r = r\<lparr>rd_offset := rd_offset r + n\<rparr>"

lemma rest_advance [simp]: "rest (advance n r) = drop n (rest r)"
  by (simp add: rest_def advance_def add.commute)

lemma rd_offset_advance [simp]: "rd_offset (advance n r) = rd_offset r + n"
  by (simp add: advance_def)

lemma rest_make [simp]: "rest \<lparr>rd_data = data, rd_offset = 0\<rparr> = data"
  by (simp add: rest_def)

lemma remaining_rest: "remaining r = length (rest r)"
  by (simp add: remaining_def rest_def)

lemma read_rest:
  "read n what r =
     (if n > length (rest r)
      then Inl (SerdeError (''serde underflow while reading '' @ what) (rd_offset r))
      else Inr (take n (rest r), advance n r))"
  by (simp add: read_def remaining_rest rest_def advance_def)

lemma read_append [simp]:
  "rest r = bs @ post \<Longrightarrow> length bs = n \<Longrightarrow> read n what r = Inr (bs, advance n r)"
  by (simp add: read_rest)

lemma read_be:
  "rest r = be_bytes 1 b @ post \<Longrightarrow> read_u8 r = Inr (b, advance 1 r)"
  "rest r = be_bytes 2 v2 @ post \<Longrightarrow> read_u16_be r = Inr (v2, advance 2 r)"
  "rest r = be_bytes 4 v4 @ post \<Longrightarrow> read_u32_be r = Inr (v4, advance 4 r)"
  "rest r = be_bytes 8 v8 @ post \<Longrightarrow> read_u64_be r = Inr (v8, advance 8 r)"
  using be_join_u16 [of v2] be_join_u32 [of v4] be_join_u64 [of v8]
  by (simp_all add: read_u8_def read_u16_be_def read_u32_be_def read_u64_be_def be_bytes_num(1) read_rest)

lemma size_max_word: "unat (w::u64) \<le> size_max"
proof -
  have "unat w < 2 ^ LENGTH(64)" by (rule unsigned_less)
  then show ?thesis by (simp add: size_max_def)
qed

lemma unat_of_nat_size: "n \<le> size_max \<Longrightarrow> unat (of_nat n :: u64) = n"
  by (simp add: size_max_def unat_of_nat)

lemma vector_le_size_max: "vector_max_size \<le> size_max"
  by (simp add: vector_max_size_def size_max_def)

lemma read_size_be:
  "rest r = be_bytes 8 (of_nat n :: u64) @ post \<Longrightarrow> n \<le> size_max \<Longrightarrow> n \<le> maximum \<Longrightarrow>
   read_size maximum what r = Inr (n, advance 8 r)"
  using size_max_word [of "of_nat n"] by (simp add: read_size_def read_be unat_of_nat_size)


subsection \<open>Frames\<close>

definition framed :: "SerdeData \<Rightarrow> SerdeData" where
  "framed bs = be_bytes 8 (of_nat (length bs) :: u64) @ bs"

text \<open>A sequence of framed payloads.\<close>

primrec frames :: "('a \<Rightarrow> SerdeData) \<Rightarrow> 'a list \<Rightarrow> SerdeData" where
  "frames f [] = []"
| "frames f (v # vs) = framed (f v) @ frames f vs"

lemma length_framed [simp]: "length (framed bs) = 8 + length bs"
  by (simp add: framed_def)

lemma set_u64_be_overwrites:
  "length old = 8 \<Longrightarrow> set_u64_be (pre @ old @ post) (length pre) v = Inr (pre @ be_bytes 8 v @ post)"
proof -
  assume "length old = 8"
  then obtain a b c d e f g h where old: "old = [a, b, c, d, e, f, g, h]"
    by (auto simp: numeral_eq_Suc length_Suc_conv)
  show ?thesis
    by (simp add: old set_u64_be_def kSizeBytes_def be_bytes_num ucast_and_ff list_update_append
        list_update_Cons_numeral)
qed

lemma write_framed_eq:
  assumes "serTo (out @ be_bytes 8 (0::u64)) x = Inr (out @ be_bytes 8 (0::u64) @ bs)"
  shows "write_framed serTo out x = Inr (out @ framed bs)"
  using assms
  by (simp add: write_framed_def put_be framed_def
      set_u64_be_overwrites [of "be_bytes 8 (0::u64)" out bs, simplified])

lemma read_framed:
  assumes "rest r = framed bs @ post" and "length bs \<le> size_max" and "length bs \<le> maximum"
  shows "read_size maximum what r = Inr (length bs, advance 8 r)"
    and "read (length bs) what' (advance 8 r) = Inr (bs, advance (length bs) (advance 8 r))"
    and "rest (advance (length bs) (advance 8 r)) = post"
  using assms by (simp_all add: read_size_be framed_def)

lemma read_framed_le:
  "length bs \<le> vector_max_size \<Longrightarrow> length bs \<le> size_max"
  using vector_le_size_max by simp

subsection \<open>The contract of a serializer\<close>

locale serde_codec =
  fixes ser :: "'a Serde" and ok :: "'a \<Rightarrow> bool" and enc :: "'a \<Rightarrow> SerdeData"
  assumes SerializeTo_enc:
    "ok v \<Longrightarrow> length out + length (enc v) \<le> vector_max_size \<Longrightarrow> SerializeTo ser out v = Inr (out @ enc v)"
  and Serialize_enc:
    "ok v \<Longrightarrow> length (enc v) \<le> vector_max_size \<Longrightarrow> Serialize ser v = Inr (enc v)"
  and Deserialize_enc:
    "ok v \<Longrightarrow> length (enc v) \<le> vector_max_size \<Longrightarrow> Deserialize ser (enc v) = Inr v"
begin

lemma round_trip:
  "ok v \<Longrightarrow> length (enc v) \<le> vector_max_size \<Longrightarrow> bindR (Serialize ser v) (Deserialize ser) = Inr v"
  by (simp add: Serialize_enc Deserialize_enc)

lemma enc_inj:
  assumes "ok u" "ok v" "length (enc u) \<le> vector_max_size" "enc u = enc v"
  shows "u = v"
  using Deserialize_enc [of u] Deserialize_enc [of v] assms by simp

lemma write_framed_enc:
  "ok v \<Longrightarrow> length out + 8 + length (enc v) \<le> vector_max_size \<Longrightarrow>
   write_framed (SerializeTo ser) out v = Inr (out @ framed (enc v))"
  by (rule write_framed_eq) (simp add: SerializeTo_enc)

lemma write_frames_enc:
  "\<forall>v \<in> set vs. ok v \<Longrightarrow>
   length out + length (frames enc vs) \<le> vector_max_size \<Longrightarrow>
   foldR (write_framed (SerializeTo ser)) out vs = Inr (out @ frames enc vs)"
  by (induction vs arbitrary: out) (simp_all add: write_framed_enc)

lemma read_frames_enc:
  assumes "\<forall>v \<in> set vs. ok v"
    and "rest r = frames enc vs @ post"
    and "length (frames enc vs) \<le> vector_max_size"
    and "length (frames enc vs) \<le> maxTotalBytes limits"
  shows "ArraySerde_elements ser limits (length vs) r acc = Inr (acc @ vs)"
  using assms
proof (induction vs arbitrary: r acc)
  case Nil
  then show ?case by simp
next
  case (Cons v vs)
  have le: "length (enc v) \<le> size_max"
    using Cons.prems(3) vector_le_size_max by simp
  have rest: "rest r = framed (enc v) @ frames enc vs @ post"
    using Cons.prems(2) by simp
  note rd = read_framed [OF rest le, of "maxTotalBytes limits"]
  show ?case
    using Cons.prems Cons.IH [OF _ rd(3)] rd(1,2) by (simp add: Deserialize_enc)
qed

lemma ArraySerde_codec:
  "serde_codec (ArraySerde ser sizeofT limits)
     (\<lambda>vs. (\<forall>v \<in> set vs. ok v) \<and> length vs \<le> maxContainerElements limits
         \<and> length vs \<le> vector_max_size div sizeofT
         \<and> 8 + length (frames enc vs) \<le> maxTotalBytes limits)
     (\<lambda>vs. be_bytes 8 (of_nat (length vs) :: u64) @ frames enc vs)"
proof (unfold_locales, goal_cases)
  case (1 v out)
  then show ?case
    by (simp add: ArraySerde_def ArraySerde_SerializeTo_def put_size_def put_be write_frames_enc)
next
  case (2 v)
  then show ?case
    by (simp add: ArraySerde_def ArraySerde_SerializeTo_def put_size_def put_be write_frames_enc
        serialize_fresh_def)
next
  case (3 v)
  let ?r = "\<lparr>rd_data = be_bytes 8 (of_nat (length v) :: u64) @ frames enc v, rd_offset = 0\<rparr>"
  have len: "length v \<le> size_max"
  proof -
    have "length v \<le> length (frames enc v)" by (induction v) simp_all
    then show ?thesis using 3 vector_le_size_max by simp
  qed
  have "read_size (maxContainerElements limits) ''array count'' ?r = Inr (length v, advance 8 ?r)"
    using 3 len by (intro read_size_be [where post = "frames enc v"]) simp_all
  moreover have "ArraySerde_elements ser limits (length v) (advance 8 ?r) [] = Inr ([] @ v)"
    using 3 by (intro read_frames_enc [where post = "[]"]) simp_all
  ultimately show ?case
    using 3 by (simp add: ArraySerde_def ArraySerde_Deserialize_def make_Reader_def reserve_elements_def)
qed

end


text \<open>A codec whose encodings all have the same width, for the flat arrays.\<close>

locale fixed_codec = serde_codec ser "\<lambda>_. True" enc for ser :: "'a Serde" and enc +
  fixes width :: nat
  assumes length_enc: "length (enc v) = width"
    and width_pos: "0 < width" and width_small: "width \<le> 8"
begin

lemma length_concat_enc: "length (concat (map enc vs)) = length vs * width"
  by (induction vs) (simp_all add: length_enc)

lemma write_flat_enc:
  "length out + length vs * width \<le> vector_max_size \<Longrightarrow>
   foldR (SerializeTo ser) out vs = Inr (out @ concat (map enc vs))"
  by (induction vs arbitrary: out) (simp_all add: SerializeTo_enc length_enc)

lemma read_flat_enc:
  assumes "rest r = concat (map enc vs) @ post"
  shows "FixedSizeArraySerde_elements ser width (length vs) r acc = Inr (acc @ vs)"
  using assms
proof (induction vs arbitrary: r acc)
  case Nil
  then show ?case by simp
next
  case (Cons v vs)
  then have "read width ''fixed-size array element'' r = Inr (enc v, advance width r)"
    by (intro read_append [where post = "concat (map enc vs) @ post"]) (simp_all add: length_enc)
  moreover have "rest (advance width r) = concat (map enc vs) @ post"
    using Cons.prems length_enc [of v] by simp
  moreover have "width \<le> vector_max_size"
    using width_small by (simp add: vector_max_size_def)
  ultimately show ?case
    using Cons.IH by (simp add: Deserialize_enc length_enc)
qed

lemma FixedSizeArraySerde_codec:
  "serde_codec (FixedSizeArraySerde ser width sizeofT limits)
     (\<lambda>vs. length vs \<le> maxContainerElements limits \<and> length vs \<le> vector_max_size div sizeofT
         \<and> 8 + length vs * width \<le> maxTotalBytes limits)
     (\<lambda>vs. be_bytes 8 (of_nat (length vs) :: u64) @ concat (map enc vs))"
proof (unfold_locales, goal_cases)
  case (1 v out)
  then show ?case
    by (simp add: FixedSizeArraySerde_def FixedSizeArraySerde_SerializeTo_def put_size_def put_be
        write_flat_enc length_concat_enc)
next
  case (2 v)
  have "length v * width \<le> size_max - kSizeBytes"
    using 2 vector_le_size_max by (simp add: kSizeBytes_def length_concat_enc)
  then have "length v \<le> (size_max - kSizeBytes) div width"
    using width_pos by (simp add: less_eq_div_iff_mult_less_eq)
  with 2 show ?case
    by (simp add: FixedSizeArraySerde_def FixedSizeArraySerde_SerializeTo_def put_size_def put_be
        write_flat_enc length_concat_enc serialize_fresh_def kSizeBytes_def)
next
  case (3 v)
  let ?r = "\<lparr>rd_data = be_bytes 8 (of_nat (length v) :: u64) @ concat (map enc v), rd_offset = 0\<rparr>"
  have len: "length v \<le> size_max"
  proof -
    have "length v \<le> length v * width" using width_pos by (cases width) simp_all
    moreover have "8 + length v * width \<le> vector_max_size" using 3(2) by (simp add: length_concat_enc)
    ultimately show ?thesis using vector_le_size_max by linarith
  qed
  have "read_size (maxContainerElements limits) ''array count'' ?r = Inr (length v, advance 8 ?r)"
    using 3 len by (intro read_size_be [where post = "concat (map enc v)"]) simp_all
  moreover have "FixedSizeArraySerde_elements ser width (length v) (advance 8 ?r) [] = Inr ([] @ v)"
    by (intro read_flat_enc [where post = "[]"]) simp
  ultimately show ?case
    using 3 width_pos
    by (simp add: FixedSizeArraySerde_def FixedSizeArraySerde_Deserialize_def make_Reader_def
        reserve_elements_def remaining_rest length_concat_enc)
qed

end


text \<open>The two parts of a key-value frame, for \<open>MapSerde\<close> and the key-value serializer.\<close>

locale pair_codec =
  k: serde_codec ks kok kenc + v: serde_codec vs vok venc
  for ks :: "'k Serde" and kok kenc and vs :: "'v Serde" and vok venc
begin

lemma StreamKeyValue_round_trip:
  assumes "kok (fst kv)" and "vok (snd kv)"
    and "16 + length (kenc (fst kv)) + length (venc (snd kv)) \<le> vector_max_size"
    and "16 + length (kenc (fst kv)) + length (venc (snd kv)) \<le> maxTotalBytes limits"
  shows "StreamKeyValue_Serialize ks vs kv = Inr (framed (kenc (fst kv)) @ framed (venc (snd kv)))"
    and "StreamKeyValue_Deserialize ks vs limits (framed (kenc (fst kv)) @ framed (venc (snd kv))) = Inr kv"
proof -
  show "StreamKeyValue_Serialize ks vs kv = Inr (framed (kenc (fst kv)) @ framed (venc (snd kv)))"
    using assms by (simp add: StreamKeyValue_Serialize_def k.write_framed_enc v.write_framed_enc)
  let ?r = "\<lparr>rd_data = framed (kenc (fst kv)) @ framed (venc (snd kv)), rd_offset = 0\<rparr>"
  have kl: "length (kenc (fst kv)) \<le> size_max" and vl: "length (venc (snd kv)) \<le> size_max"
    using assms(3) vector_le_size_max by simp_all
  have r1: "rest ?r = framed (kenc (fst kv)) @ framed (venc (snd kv))" by simp
  note k = read_framed [OF r1 kl, of "maxTotalBytes limits"]
  from k(3) have r2: "rest (advance (length (kenc (fst kv))) (advance 8 ?r)) = framed (venc (snd kv)) @ []"
    using assms by simp
  note v = read_framed [OF r2 vl, of "maxTotalBytes limits"]
  show "StreamKeyValue_Deserialize ks vs limits (framed (kenc (fst kv)) @ framed (venc (snd kv))) = Inr kv"
    using assms k(1,2) v(1,2)
    by (simp add: StreamKeyValue_Deserialize_def make_Reader_def k.Deserialize_enc v.Deserialize_enc)
qed

end

lemma scalar_codec:
  assumes "\<And>out v. put out v = out @ enc v" and "\<And>v. length (enc v) = n" and "0 < n" and "n \<le> 8"
    and "\<And>r v post. rest r = enc v @ post \<Longrightarrow> rd r = Inr (v, advance n r)"
  shows "fixed_codec (scalar_Serde put n rd) enc n"
proof -
  have "n \<le> vector_max_size" and "n \<le> size_max"
    using assms(4) by (simp_all add: vector_max_size_def size_max_def)
  moreover have "rd \<lparr>rd_data = enc v, rd_offset = 0\<rparr> = Inr (v, advance n \<lparr>rd_data = enc v, rd_offset = 0\<rparr>)" for v
    by (rule assms(5) [where post = "[]"]) simp
  ultimately show ?thesis
    using assms(1-4)
    by unfold_locales (simp_all add: scalar_Serde_def serialize_fresh_def make_Reader_def)
qed

lemma read_be_Suc: "rest r = be_bytes (Suc 0) b @ post \<Longrightarrow> read_u8 r = Inr (b, advance (Suc 0) r)"
  using read_be(1) by simp

lemma xor_cancel [simp]: "(v XOR m) XOR m = (v::'a::len word)"
  by (simp add: xor.assoc)

interpretation Bool: fixed_codec BoolSerde "\<lambda>v. be_bytes 1 (if v then 1 else 0 :: u8)" 1
  unfolding BoolSerde_def by (rule scalar_codec) (auto simp: put_be read_be_Suc)

interpretation Int8: fixed_codec Int8Serde "be_bytes 1" 1
  unfolding Int8Serde_def by (rule scalar_codec) (simp_all add: put_be read_be_Suc)

interpretation UInt8: fixed_codec UInt8Serde "be_bytes 1" 1
  unfolding UInt8Serde_def by (rule scalar_codec) (simp_all add: put_be read_be_Suc)

interpretation Int16: fixed_codec Int16Serde "\<lambda>v. be_bytes 2 (v XOR 0x8000)" 2
  unfolding Int16Serde_def by (rule scalar_codec) (simp_all add: put_be read_be)

interpretation UInt16: fixed_codec UInt16Serde "be_bytes 2" 2
  unfolding UInt16Serde_def by (rule scalar_codec) (simp_all add: put_be read_be)

interpretation Int32: fixed_codec Int32Serde "\<lambda>v. be_bytes 4 (v XOR 0x80000000)" 4
  unfolding Int32Serde_def by (rule scalar_codec) (simp_all add: put_be read_be)

interpretation UInt32: fixed_codec UInt32Serde "be_bytes 4" 4
  unfolding UInt32Serde_def by (rule scalar_codec) (simp_all add: put_be read_be)

interpretation Int64: fixed_codec Int64Serde "\<lambda>v. be_bytes 8 (v XOR 0x8000000000000000)" 8
  unfolding Int64Serde_def by (rule scalar_codec) (simp_all add: put_be read_be)

interpretation UInt64: fixed_codec UInt64Serde "be_bytes 8" 8
  unfolding UInt64Serde_def by (rule scalar_codec) (simp_all add: put_be read_be)

interpretation Rune: fixed_codec RuneSerde "be_bytes 4" 4
  unfolding RuneSerde_def by (rule scalar_codec) (simp_all add: put_be read_be)

interpretation Float32: fixed_codec Float32Serde "be_bytes 4" 4
  unfolding Float32Serde_def by (rule scalar_codec) (simp_all add: put_be read_be)

interpretation Float64: fixed_codec Float64Serde "be_bytes 8" 8
  unfolding Float64Serde_def by (rule scalar_codec) (simp_all add: put_be read_be)

subsection \<open>Strings, byte sequences and their arrays\<close>

lemma length_string_bytes [simp]: "length (string_bytes s) = length s"
  by (simp add: string_bytes_def)

lemma of_nat_of_char_word: "of_nat (of_char c) = (of_char c :: u8)"
  by (cases c) (simp add: of_char_def)

lemma unat_of_char: "unat (of_char c :: u8) = of_char c"
proof -
  have "unat (of_nat (of_char c) :: u8) = of_char c"
    by (simp add: unat_of_nat take_bit_eq_mod)
  then show ?thesis by (simp add: of_nat_of_char_word)
qed

lemma bytes_string_inverse [simp]: "bytes_string (string_bytes s) = s"
  unfolding bytes_string_def string_bytes_def map_map
  by (rule map_idI) (simp add: unat_of_char)

lemma foldl_push_back [simp]: "foldl (\<lambda>acc b. acc @ [b]) acc bs = acc @ bs"
  by (induction bs arbitrary: acc) simp_all

lemma length_framed_size: "8 + n \<le> vector_max_size \<Longrightarrow> \<not> size_max - 8 < n"
  using vector_le_size_max by simp

lemma StringSerde_codec:
  "serde_codec (StringSerde limits)
     (\<lambda>s. length s \<le> maxStringBytes limits \<and> 8 + length s \<le> maxTotalBytes limits)
     (\<lambda>s. framed (string_bytes s))"
proof (unfold_locales, goal_cases)
  case (1 s out)
  then show ?case
    by (simp add: StringSerde_def StringSerde_SerializeTo_def checked_add_def reserve_more_def
        length_framed_size kSizeBytes_def put_size_def put_be framed_def)
next
  case (2 s)
  then show ?case
    by (simp add: StringSerde_def StringSerde_SerializeTo_def checked_add_def reserve_more_def
        length_framed_size kSizeBytes_def put_size_def put_be framed_def serialize_fresh_def)
next
  case (3 s)
  let ?r = "\<lparr>rd_data = framed (string_bytes s), rd_offset = 0\<rparr>"
  have "rest ?r = framed (string_bytes s) @ []" by simp
  from read_framed [OF this, of "maxStringBytes limits"] 3 show ?case
    using vector_le_size_max
    by (simp add: StringSerde_def StringSerde_Deserialize_def make_Reader_def)
qed

lemma BytesSerde_codec:
  "serde_codec (BytesSerde limits)
     (\<lambda>bs. length bs \<le> maxBytes limits \<and> 8 + length bs \<le> maxTotalBytes limits) framed"
proof (unfold_locales, goal_cases)
  case (1 bs out)
  then show ?case
    by (simp add: BytesSerde_def BytesSerde_SerializeTo_def checked_add_def reserve_more_def
        length_framed_size kSizeBytes_def put_size_def put_be framed_def)
next
  case (2 bs)
  then show ?case
    by (simp add: BytesSerde_def BytesSerde_SerializeTo_def checked_add_def reserve_more_def
        length_framed_size kSizeBytes_def put_size_def put_be framed_def serialize_fresh_def)
next
  case (3 bs)
  let ?r = "\<lparr>rd_data = framed bs, rd_offset = 0\<rparr>"
  have "rest ?r = framed bs @ []" by simp
  from read_framed [OF this, of "maxBytes limits"] 3 show ?case
    using vector_le_size_max
    by (simp add: BytesSerde_def BytesSerde_Deserialize_def make_Reader_def)
qed

interpretation String: serde_codec "StringSerde limits"
  "\<lambda>s. length s \<le> maxStringBytes limits \<and> 8 + length s \<le> maxTotalBytes limits"
  "\<lambda>s. framed (string_bytes s)" for limits
  by (rule StringSerde_codec)

interpretation Bytes: serde_codec "BytesSerde limits"
  "\<lambda>bs. length bs \<le> maxBytes limits \<and> 8 + length bs \<le> maxTotalBytes limits" framed for limits
  by (rule BytesSerde_codec)

lemma write_strings:
  "\<forall>s \<in> set ss. length s \<le> maxStringBytes limits \<and> 8 + length s \<le> maxTotalBytes limits \<Longrightarrow>
   length out + length (frames string_bytes ss) \<le> vector_max_size \<Longrightarrow>
   foldR (SerializeTo (StringSerde limits)) out ss = Inr (out @ frames string_bytes ss)"
  by (induction ss arbitrary: out) (simp_all add: String.SerializeTo_enc)

lemma read_strings:
  assumes "\<forall>s \<in> set ss. length s \<le> maxStringBytes limits"
    and "rest r = frames string_bytes ss @ post"
    and "length (frames string_bytes ss) \<le> vector_max_size"
  shows "StringArraySerde_elements limits (length ss) r acc = Inr (acc @ ss)"
  using assms
proof (induction ss arbitrary: r acc)
  case Nil
  then show ?case by simp
next
  case (Cons s ss)
  have le: "length (string_bytes s) \<le> size_max"
    using Cons.prems(3) vector_le_size_max by simp
  have "rest r = framed (string_bytes s) @ frames string_bytes ss @ post"
    using Cons.prems(2) by simp
  note rd = read_framed [OF this le, of "maxStringBytes limits"]
  show ?case
    using Cons.prems Cons.IH [OF _ rd(3)] rd(1,2) by simp
qed

lemma length_le_frames: "length vs \<le> length (frames f vs)"
  by (induction vs) simp_all

lemma StringArraySerde_codec:
  "serde_codec (StringArraySerde limits)
     (\<lambda>ss. (\<forall>s \<in> set ss. length s \<le> maxStringBytes limits \<and> 8 + length s \<le> maxTotalBytes limits)
         \<and> length ss \<le> maxContainerElements limits \<and> length ss \<le> vector_max_size div 32
         \<and> 8 + length (frames string_bytes ss) \<le> maxTotalBytes limits)
     (\<lambda>ss. be_bytes 8 (of_nat (length ss) :: u64) @ frames string_bytes ss)"
proof (unfold_locales, goal_cases)
  case (1 v out)
  then show ?case
    by (simp add: StringArraySerde_def StringArraySerde_SerializeTo_def put_size_def put_be write_strings)
next
  case (2 v)
  then show ?case
    by (simp add: StringArraySerde_def StringArraySerde_SerializeTo_def put_size_def put_be write_strings
        serialize_fresh_def)
next
  case (3 v)
  let ?r = "\<lparr>rd_data = be_bytes 8 (of_nat (length v) :: u64) @ frames string_bytes v, rd_offset = 0\<rparr>"
  have len: "length v \<le> size_max"
    using 3 length_le_frames [of v string_bytes] vector_le_size_max by simp
  have "read_size (maxContainerElements limits) ''string array count'' ?r = Inr (length v, advance 8 ?r)"
    using 3 len by (intro read_size_be [where post = "frames string_bytes v"]) simp_all
  moreover have "StringArraySerde_elements limits (length v) (advance 8 ?r) [] = Inr ([] @ v)"
    using 3 by (intro read_strings [where post = "[]"]) simp_all
  ultimately show ?case
    using 3 by (simp add: StringArraySerde_def StringArraySerde_Deserialize_def make_Reader_def
        reserve_elements_def)
qed

interpretation StringArray: serde_codec "StringArraySerde limits"
  "\<lambda>ss. (\<forall>s \<in> set ss. length s \<le> maxStringBytes limits \<and> 8 + length s \<le> maxTotalBytes limits)
      \<and> length ss \<le> maxContainerElements limits \<and> length ss \<le> vector_max_size div 32
      \<and> 8 + length (frames string_bytes ss) \<le> maxTotalBytes limits"
  "\<lambda>ss. be_bytes 8 (of_nat (length ss) :: u64) @ frames string_bytes ss" for limits
  by (rule StringArraySerde_codec)

subsection \<open>The order of encoded integers\<close>

lemma uint_flip_sign:
  "uint (w XOR 2 ^ (LENGTH('a) - 1)) = sint w + 2 ^ (LENGTH('a) - 1)" for w :: "'a::len word"
proof -
  let ?n = "LENGTH('a) - 1"
  have n: "Suc ?n = LENGTH('a)" by simp
  have two: "(2::'a word) ^ ?n + 2 ^ ?n = 0"
    by (metis n mult_2 power_Suc word_exp_length_eq_0)
  have "w XOR 2 ^ ?n = flip_bit ?n w" by (simp add: flip_bit_eq_xor push_bit_eq_mult)
  also have "\<dots> = w + 2 ^ ?n"
    using two by (simp add: flip_bit_eq_if set_bit_eq unset_bit_eq diff_eq_eq add.assoc)
  also have "\<dots> = word_of_int (uint w + 2 ^ ?n)" by simp
  finally have "uint (w XOR 2 ^ ?n) = take_bit LENGTH('a) (uint w + 2 ^ ?n)"
    by (simp only: uint_word_of_int_eq)
  also have "\<dots> = signed_take_bit ?n (uint w) + 2 ^ ?n"
    by (simp add: signed_take_bit_eq_take_bit_shift n)
  finally show ?thesis by (simp add: sint_uint)
qed

lemma be_bytes_Suc: "be_bytes (Suc n) v = ucast (drop_bit (n * 8) v) # be_bytes n v"
  by (simp add: be_bytes_def)

lemma unat_byte: "unat (ucast (drop_bit k v) :: u8) = unat v div 2 ^ k mod 256"
  unfolding unsigned_ucast_eq unsigned_drop_bit_eq by (simp add: drop_bit_eq_div take_bit_eq_mod)

lemma less_digits:
  assumes "x < p" and "y < p"
  shows "u * p + x < v * p + y \<longleftrightarrow> u < v \<or> u = v \<and> x < (y::nat)"
proof -
  have "u * p + x < v * p + y" if "u < v" and "x < p" for u v x y :: nat
  proof -
    have "Suc u * p \<le> v * p" using that by (intro mult_le_mono1) simp
    then show ?thesis using that by simp
  qed
  from this [of u v x y] this [of v u y x] assms show ?thesis
    by (metis linorder_neqE_nat nat_add_left_cancel_less not_less_iff_gr_or_eq)
qed

lemma lexordp_be_bytes:
  "ord_class.lexordp (be_bytes n a) (be_bytes n b) \<longleftrightarrow> unat a mod 256 ^ n < unat b mod 256 ^ n"
proof (induction n)
  case 0
  then show ?case by (simp add: be_bytes_def)
next
  case (Suc n)
  have p: "(2::nat) ^ (n * 8) = 256 ^ n" by (simp add: power_mult mult.commute [of n 8])
  have split: "x mod 256 ^ Suc n = (x div 256 ^ n mod 256) * 256 ^ n + x mod 256 ^ n" for x :: nat
    by (metis mod_mult2_eq mult.commute power_Suc2)
  note less = less_digits [of "_ mod 256 ^ n" "256 ^ n" "_ mod 256 ^ n"]
  show ?case
    unfolding split by (auto simp: be_bytes_Suc Suc word_less_nat_alt unat_byte p less simp del: power_Suc)
qed

subsection \<open>Maps\<close>

lemma foldl_insert_or_assign:
  "foldl (\<lambda>m (k, v). m(k \<mapsto> v)) m kvs = m ++ map_of (rev kvs)"
  by (induction kvs arbitrary: m) (auto simp: fun_eq_iff map_add_def split: option.splits)

locale map_codec =
  k: serde_codec ks kok kenc + v: serde_codec vs vok venc
  for ks :: "'k list Serde" and kok kenc and vs :: "'v list Serde" and vok venc
begin

lemma MapSerde_write:
  assumes "kok (map fst m)" and "vok (map snd m)" and "length m \<le> maxContainerElements limits"
    and "length out + 16 + length (kenc (map fst m)) + length (venc (map snd m)) \<le> vector_max_size"
  shows "MapSerde_SerializeTo ks vs limits out m
           = Inr (out @ framed (kenc (map fst m)) @ framed (venc (map snd m)))"
  using assms by (simp add: MapSerde_SerializeTo_def k.write_framed_enc v.write_framed_enc)

lemma MapSerde_read:
  assumes "kok (map fst m)" and "vok (map snd m)" and "length m \<le> maxContainerElements limits"
    and "16 + length (kenc (map fst m)) + length (venc (map snd m)) \<le> vector_max_size"
    and "16 + length (kenc (map fst m)) + length (venc (map snd m)) \<le> maxTotalBytes limits"
  shows "MapSerde_Deserialize ks vs limits (framed (kenc (map fst m)) @ framed (venc (map snd m)))
           = Inr (map_of (rev m))"
proof -
  let ?k = "kenc (map fst m)" and ?v = "venc (map snd m)"
  let ?r = "\<lparr>rd_data = framed ?k @ framed ?v, rd_offset = 0\<rparr>"
  have kl: "length ?k \<le> size_max" and vl: "length ?v \<le> size_max"
    using assms(4) vector_le_size_max by simp_all
  have r1: "rest ?r = framed ?k @ framed ?v" by simp
  note k = read_framed [OF r1 kl, of "maxTotalBytes limits"]
  from k(3) have r2: "rest (advance (length ?k) (advance 8 ?r)) = framed ?v @ []"
    using assms by simp
  note v = read_framed [OF r2 vl, of "maxTotalBytes limits"]
  show ?thesis
    using assms k(1,2) v(1,2)
    by (simp add: MapSerde_Deserialize_def make_Reader_def k.Deserialize_enc v.Deserialize_enc
        foldl_insert_or_assign zip_map_fst_snd)
qed

end

lemma map_of_rev_distinct: "distinct (map fst m) \<Longrightarrow> map_of (rev m) = map_of m"
  by (intro map_of_eqI) (auto simp: map_of_eq_Some_iff rev_map [symmetric] distinct_rev)

interpretation StringStringMap: map_codec "StringArraySerde limits"
  "\<lambda>ss. (\<forall>s \<in> set ss. length s \<le> maxStringBytes limits \<and> 8 + length s \<le> maxTotalBytes limits)
      \<and> length ss \<le> maxContainerElements limits \<and> length ss \<le> vector_max_size div 32
      \<and> 8 + length (frames string_bytes ss) \<le> maxTotalBytes limits"
  "\<lambda>ss. be_bytes 8 (of_nat (length ss) :: u64) @ frames string_bytes ss"
  "ArraySerde (StringSerde limits) 32 limits"
  "\<lambda>ss. (\<forall>s \<in> set ss. length s \<le> maxStringBytes limits \<and> 8 + length s \<le> maxTotalBytes limits)
      \<and> length ss \<le> maxContainerElements limits \<and> length ss \<le> vector_max_size div 32
      \<and> 8 + length (frames (\<lambda>s. framed (string_bytes s)) ss) \<le> maxTotalBytes limits"
  "\<lambda>ss. be_bytes 8 (of_nat (length ss) :: u64) @ frames (\<lambda>s. framed (string_bytes s)) ss"
  for limits
  by (intro map_codec.intro StringArraySerde_codec String.ArraySerde_codec)

interpretation StringInt64: pair_codec "StringSerde limits"
  "\<lambda>s. length s \<le> maxStringBytes limits \<and> 8 + length s \<le> maxTotalBytes limits"
  "\<lambda>s. framed (string_bytes s)"
  Int64Serde "\<lambda>_. True" "\<lambda>v. be_bytes 8 (v XOR 0x8000000000000000)" for limits
  by (intro pair_codec.intro StringSerde_codec Int64.serde_codec_axioms)

subsection \<open>What the readers accept\<close>

lemma lexordp_be_flip:
  fixes a b :: "'a::len word"
  assumes "256 ^ n = (2::nat) ^ LENGTH('a)"
  shows "ord_class.lexordp (be_bytes n (a XOR 2 ^ (LENGTH('a) - 1))) (be_bytes n (b XOR 2 ^ (LENGTH('a) - 1)))
    \<longleftrightarrow> sint a < sint b"
proof -
  have "unat w mod 256 ^ n = unat w" for w :: "'a word"
    using unsigned_less [of w] by (simp add: assms)
  then have "ord_class.lexordp (be_bytes n u) (be_bytes n w) \<longleftrightarrow> uint u < uint w" for u w :: "'a word"
    by (simp add: lexordp_be_bytes flip: word_less_nat_alt word_less_def)
  then show ?thesis by (simp only: uint_flip_sign add_less_cancel_right)
qed

lemma byte_above:
  "8 + k = j \<Longrightarrow> j + 8 \<le> LENGTH('a) \<Longrightarrow>
   (ucast (drop_bit j (push_bit 8 v OR ucast (b::u8) :: 'a::len word)) :: u8) = ucast (drop_bit k v)"
  by (rule bit_word_eqI) (auto simp: bit_simps dest: bit_imp_le_length)

lemma byte_below:
  "8 \<le> LENGTH('a) \<Longrightarrow> (ucast (push_bit 8 v OR ucast (b::u8) :: 'a::len word) :: u8) = b"
  by (rule bit_word_eqI) (auto simp: bit_simps)

lemma be_split_u64:
  assumes "length bs = 8"
  shows "be_bytes 8 (foldl (\<lambda>v b. push_bit 8 v OR ucast b) 0 bs :: u64) = bs"
proof -
  obtain a b c d e f g h where bs: "bs = [a, b, c, d, e, f, g, h]"
    using assms by (auto simp: numeral_eq_Suc length_Suc_conv)
  note up = byte_above [where 'a = 64]
  have "(ucast (drop_bit 56 (push_bit 8 v OR ucast x :: u64)) :: u8) = ucast (drop_bit 48 v)"
    "(ucast (drop_bit 48 (push_bit 8 v OR ucast x :: u64)) :: u8) = ucast (drop_bit 40 v)"
    "(ucast (drop_bit 40 (push_bit 8 v OR ucast x :: u64)) :: u8) = ucast (drop_bit 32 v)"
    "(ucast (drop_bit 32 (push_bit 8 v OR ucast x :: u64)) :: u8) = ucast (drop_bit 24 v)"
    "(ucast (drop_bit 24 (push_bit 8 v OR ucast x :: u64)) :: u8) = ucast (drop_bit 16 v)"
    "(ucast (drop_bit 16 (push_bit 8 v OR ucast x :: u64)) :: u8) = ucast (drop_bit 8 v)" for v and x :: u8
    by (rule up; simp)+
  moreover have "(ucast (drop_bit 8 (push_bit 8 v OR ucast x :: u64)) :: u8) = ucast v" for v and x :: u8
    using up [of 0 8] by simp
  ultimately show ?thesis
    by (simp only: bs foldl.simps be_bytes_num byte_below [where 'a = 64, simplified])
qed

lemma string_bytes_inverse [simp]: "string_bytes (bytes_string bs) = bs"
proof -
  have "of_char (char_of (unat b)) = b" for b :: u8
  proof -
    have "of_char (char_of (unat b)) = (of_nat (of_char (char_of (unat b))) :: u8)"
      by (simp only: of_nat_of_char_word)
    moreover have "unat b mod 256 = unat b" using unsigned_less [of b, where 'a = nat] by simp
    ultimately show ?thesis by simp
  qed
  then show ?thesis by (simp add: string_bytes_def bytes_string_def comp_def)
qed

lemma length_bytes_string [simp]: "length (bytes_string bs) = length bs"
  by (simp add: bytes_string_def)

lemma read_size_header:
  assumes "read_size maximum what r = Inr (n, r')"
  shows "8 \<le> length (rest r)" and "n \<le> maximum" and "n \<le> size_max" and "r' = advance 8 r"
    and "be_bytes 8 (of_nat n :: u64) = take 8 (rest r)"
proof -
  let ?w = "foldl (\<lambda>v b. push_bit 8 v OR ucast b) 0 (take 8 (rest r)) :: u64"
  from assms have n: "n = unat ?w" "n \<le> maximum" "8 \<le> length (rest r)" "r' = advance 8 r"
    by (auto simp: read_size_def read_u64_be_def read_rest bindR_eq_Inr split: if_splits)
  then show "8 \<le> length (rest r)" "n \<le> maximum" "n \<le> size_max" "r' = advance 8 r"
    using size_max_word by simp_all
  show "be_bytes 8 (of_nat n :: u64) = take 8 (rest r)"
    using be_split_u64 [of "take 8 (rest r)"] n by simp
qed

lemma read_size_framed:
  assumes "read_size maximum what r = Inr (n, r')" and "read n what' r' = Inr (bytes, r'')"
  shows "\<exists>trailing. rest r = framed bytes @ trailing" and "length bytes \<le> maximum"
    and "length bytes = n" and "n \<le> size_max"
proof -
  note h = read_size_header [OF assms(1)]
  from assms(2) have b: "bytes = take n (drop 8 (rest r))" "length bytes = n"
    by (auto simp: read_rest h(4) split: if_splits)
  then show "length bytes = n" "length bytes \<le> maximum" "n \<le> size_max"
    using h by simp_all
  have "framed bytes = take 8 (rest r) @ take n (drop 8 (rest r))"
    using b h(5) by (simp add: framed_def)
  then have "framed bytes @ drop n (drop 8 (rest r)) = rest r"
    by (metis append_take_drop_id append_assoc)
  then show "\<exists>trailing. rest r = framed bytes @ trailing" by metis
qed

lemma FixedSizeArray_elements_length:
  "FixedSizeArraySerde_elements el w n r acc = Inr vs \<Longrightarrow> length vs = length acc + n"
  by (induction n arbitrary: r acc) (auto simp: bindR_eq_Inr)

subsection \<open>Properties of the wire format\<close>

text \<open>C1. Map round trip. For any two serializers that meet the contract, writing a map (its
  entries in iteration order) behind any prefix appends one frame of keys and one frame of values,
  and reading these bytes back gives the same map.\<close>

theorem MapSerde_round_trip:
  assumes "serde_codec ks kok kenc" and "serde_codec vs vok venc"
    and "distinct (map fst m)" and "kok (map fst m)" and "vok (map snd m)"
    and "length m \<le> maxContainerElements limits"
    and "bytes = framed (kenc (map fst m)) @ framed (venc (map snd m))"
    and "length out + length bytes \<le> vector_max_size" and "length bytes \<le> maxTotalBytes limits"
  shows "MapSerde_SerializeTo ks vs limits out m = Inr (out @ bytes)
    \<and> MapSerde_Deserialize ks vs limits bytes = Inr (map_of m)"
proof -
  note mc = map_codec.intro [OF assms(1,2)]
  show ?thesis
    using map_codec.MapSerde_write [OF mc assms(4,5,6), of out]
      map_codec.MapSerde_read [OF mc assms(4,5,6)] assms(7-9)
    by (simp add: map_of_rev_distinct [OF assms(3)])
qed


theorem MapSerde_round_trip_witness:
  "MapSerde_Deserialize (StringArraySerde default_SerdeLimits)
     (FixedSizeArraySerde Int64Serde 8 8 default_SerdeLimits) default_SerdeLimits
     (framed (be_bytes 8 (1 :: u64) @ framed (string_bytes ''k''))
       @ framed (be_bytes 8 (1 :: u64) @ be_bytes 8 (7 XOR 0x8000000000000000 :: u64)))
   = Inr [''k'' \<mapsto> 7]"
  using MapSerde_round_trip [OF StringArraySerde_codec [of default_SerdeLimits]
      Int64.FixedSizeArraySerde_codec [of 8 default_SerdeLimits], where m = "[(''k'', 7)]" and
      limits = default_SerdeLimits and out = "[]"]
  by (simp add: default_SerdeLimits_def size_max_def vector_max_size_def)

text \<open>Key-value round trip. A key-value pair written as two frames is read back unchanged, and
  the split form (key and value serialized apart, as the transports do for keyed streams) gives
  the same pair.\<close>

theorem StreamKeyValue_round_trip_both:
  assumes "serde_codec ks kok kenc" and "serde_codec vs vok venc" and "kok k" and "vok v"
    and "16 + length (kenc k) + length (venc v) \<le> min vector_max_size (maxTotalBytes limits)"
  shows "bindR (StreamKeyValue_Serialize ks vs (k, v)) (StreamKeyValue_Deserialize ks vs limits) = Inr (k, v)
    \<and> bindR (StreamKeyValue_SerializeKey ks (k, v)) (\<lambda>kd.
        bindR (StreamKeyValue_SerializeValue vs (k, v)) (StreamKeyValue_DeserializeKeyValue ks vs kd))
      = Inr (k, v)"
proof -
  note pc = pair_codec.intro [OF assms(1,2)]
  show ?thesis
    using pair_codec.StreamKeyValue_round_trip [OF pc, of "(k, v)" limits] assms
    by (simp add: StreamKeyValue_SerializeKey_def StreamKeyValue_SerializeValue_def
        StreamKeyValue_DeserializeKeyValue_def serde_codec.Serialize_enc serde_codec.Deserialize_enc)
qed

theorem StreamKeyValue_round_trip_both_witness:
  "bindR (StreamKeyValue_Serialize (StringSerde default_SerdeLimits) Int64Serde (''key'', 5))
     (StreamKeyValue_Deserialize (StringSerde default_SerdeLimits) Int64Serde default_SerdeLimits)
   = Inr (''key'', 5)"
  using StreamKeyValue_round_trip_both [OF StringSerde_codec [of default_SerdeLimits]
      Int64.serde_codec_axioms, where k = "''key''" and v = 5 and limits = default_SerdeLimits]
  by (simp add: default_SerdeLimits_def size_max_def vector_max_size_def)

text \<open>C37. Nested arrays. If the element serializer meets the contract then so does the framed array
  serializer over it, at any nesting depth: here an array of arrays is written and read back,
  within the configured limits.\<close>

theorem ArraySerde_round_trip:
  assumes "serde_codec el ok enc"
    and "\<forall>v \<in> set vs. ok v" and "length vs \<le> maxContainerElements limits"
    and "length vs \<le> vector_max_size div sizeofT"
    and "8 + length (frames enc vs) \<le> min vector_max_size (maxTotalBytes limits)"
  shows "bindR (Serialize (ArraySerde el sizeofT limits) vs) (Deserialize (ArraySerde el sizeofT limits))
    = Inr vs"
  using serde_codec.round_trip [OF serde_codec.ArraySerde_codec [OF assms(1)], of vs limits sizeofT] assms
  by simp

theorem ArraySerde_round_trip_witness:
  "bindR (Serialize (ArraySerde (FixedSizeArraySerde UInt16Serde 2 2 default_SerdeLimits) 24 default_SerdeLimits)
            [[1, 2], [], [3]])
     (Deserialize (ArraySerde (FixedSizeArraySerde UInt16Serde 2 2 default_SerdeLimits) 24 default_SerdeLimits))
   = Inr [[1, 2], [], [3]]"
  by (rule ArraySerde_round_trip [OF UInt16.FixedSizeArraySerde_codec [of 2 default_SerdeLimits]])
    (simp_all add: default_SerdeLimits_def size_max_def vector_max_size_def)


text \<open>C39. What the string decoder accepts. Decoding succeeds with \<open>s\<close> exactly when the input is
  the frame of \<open>s\<close> followed by any trailing bytes, and both the string and the whole input are
  within the configured limits; every other input raises an error.\<close>

theorem StringSerde_Deserialize_iff:
  "StringSerde_Deserialize limits data = Inr s \<longleftrightarrow>
     (\<exists>trailing. data = framed (string_bytes s) @ trailing \<and> length s \<le> size_max)
     \<and> length data \<le> maxTotalBytes limits \<and> length s \<le> maxStringBytes limits"
  (is "?lhs \<longleftrightarrow> ?rhs")
proof
  assume ?lhs
  then obtain n r bytes r' where
    lim: "length data \<le> maxTotalBytes limits"
    and n: "read_size (maxStringBytes limits) ''string length'' \<lparr>rd_data = data, rd_offset = 0\<rparr> = Inr (n, r)"
    and b: "read n ''string'' r = Inr (bytes, r')" and s: "s = bytes_string bytes"
    by (auto simp: StringSerde_Deserialize_def make_Reader_def bindR_eq_Inr split: if_splits)
  from read_size_framed [OF n b] lim s show ?rhs by auto
next
  assume ?rhs
  then obtain trailing where d: "data = framed (string_bytes s) @ trailing" and "length s \<le> size_max"
    and "length data \<le> maxTotalBytes limits" and "length s \<le> maxStringBytes limits" by blast
  moreover have "rest \<lparr>rd_data = data, rd_offset = 0\<rparr> = framed (string_bytes s) @ trailing"
    by (simp add: d)
  from read_framed [OF this, of "maxStringBytes limits"] calculation
  show ?lhs by (simp add: StringSerde_Deserialize_def make_Reader_def)
qed


text \<open>No over-allocation in fixed-width arrays. Whatever the bytes, a successful decode has as
  many elements as the header announced, these elements were all present in the input, and the
  counts respect the configured limits.\<close>

theorem FixedSizeArray_decode_bounds:
  assumes "FixedSizeArraySerde_Deserialize el w sizeofT limits data = Inr vs" and "0 < w"
  shows "8 + length vs * w \<le> length data \<and> length data \<le> maxTotalBytes limits
    \<and> length vs \<le> maxContainerElements limits \<and> length vs \<le> vector_max_size div sizeofT
    \<and> be_bytes 8 (of_nat (length vs) :: u64) = take 8 data"
proof -
  let ?r = "\<lparr>rd_data = data, rd_offset = 0\<rparr>"
  from assms(1) obtain n r where lim: "length data \<le> maxTotalBytes limits"
    and n: "read_size (maxContainerElements limits) ''array count'' ?r = Inr (n, r)"
    and le: "n \<le> remaining r div w" and res: "n \<le> vector_max_size div sizeofT"
    and vs: "FixedSizeArraySerde_elements el w n r [] = Inr vs"
    by (auto simp: FixedSizeArraySerde_Deserialize_def make_Reader_def reserve_elements_def
        bindR_eq_Inr split: if_splits)
  from FixedSizeArray_elements_length [OF vs] have len: "length vs = n" by simp
  from read_size_header [OF n] have h: "8 \<le> length data" "n \<le> maxContainerElements limits"
    "r = advance 8 ?r" "be_bytes 8 (of_nat n :: u64) = take 8 data" by simp_all
  from le h have "n * w \<le> length data - 8"
    using assms(2) by (simp add: remaining_rest less_eq_div_iff_mult_less_eq)
  with h lim len res show ?thesis by simp
qed

theorem FixedSizeArray_decode_bounds_witness:
  "FixedSizeArraySerde_Deserialize UInt16Serde 2 2 default_SerdeLimits
     (be_bytes 8 (2::u64) @ be_bytes 2 (7::u16) @ be_bytes 2 (9::u16)) = Inr [7, 9]
   \<and> 8 + length [7, 9::u16] * 2 \<le> length (be_bytes 8 (2::u64) @ be_bytes 2 (7::u16) @ be_bytes 2 (9::u16))"
proof -
  have r: "FixedSizeArraySerde_Deserialize UInt16Serde 2 2 default_SerdeLimits
     (be_bytes 8 (2::u64) @ be_bytes 2 (7::u16) @ be_bytes 2 (9::u16)) = Inr [7, 9]"
    using serde_codec.Deserialize_enc [OF UInt16.FixedSizeArraySerde_codec [of 2 default_SerdeLimits],
        of "[7, 9]"]
    by (simp add: FixedSizeArraySerde_def default_SerdeLimits_def size_max_def vector_max_size_def)
  from FixedSizeArray_decode_bounds [OF r] r show ?thesis by simp
qed

text \<open>C40. Hostile element counts. With a count header that no vector can hold, the string-array
  decoder reserves before it looks at the payload and fails with \<open>std::length_error\<close>, which is
  not a \<open>SerdeError\<close>; the fixed-width decoder checks the payload first and reports truncation.\<close>

theorem array_hostile_count:
  assumes "vector_max_size div 32 < unat c" and "unat c \<le> maxContainerElements limits"
    and "8 + length payload \<le> maxTotalBytes limits" and "length payload < unat c"
  shows "StringArraySerde_Deserialize limits (be_bytes 8 c @ payload) = Inl LengthError
    \<and> FixedSizeArraySerde_Deserialize el w sizeofT limits (be_bytes 8 (c::u64) @ payload)
        = Inl (SerdeError ''fixed-size array payload is truncated'' 8)"
proof -
  let ?r = "\<lparr>rd_data = be_bytes 8 c @ payload, rd_offset = 0\<rparr>"
  have "read_size (maxContainerElements limits) what ?r = Inr (unat c, advance 8 ?r)" for what
    using assms(2) size_max_word [of c] by (intro read_size_be [where post = payload]) simp_all
  moreover have "\<not> unat c \<le> length payload div w"
    using assms(4) div_le_dividend [of "length payload" w] by linarith
  ultimately show ?thesis
    using assms
    by (simp add: StringArraySerde_Deserialize_def FixedSizeArraySerde_Deserialize_def make_Reader_def
        reserve_elements_def remaining_rest)
qed


theorem array_hostile_count_witness:
  "StringArraySerde_Deserialize default_SerdeLimits (be_bytes 8 (0x8000000000000000 :: u64) @ [1, 2, 3])
     = Inl LengthError"
  using array_hostile_count [where c = "0x8000000000000000" and limits = default_SerdeLimits
      and payload = "[1, 2, 3]" and el = UInt8Serde and w = 1 and sizeofT = 1]
  by (simp add: default_SerdeLimits_def size_max_def vector_max_size_def)

end
