(* ===== verification/RotatingMap.thy ===== *)
theory RotatingMap
  imports Prelude
begin

section \<open>The rotating map (runtime/store/storage.hpp, rotatingmap.hpp)\<close>

text \<open>
  \<open>RotatingMap\<close> is a hash map in 64 shards. Every shard has a \<open>current\<close> and a \<open>previous\<close>
  generation; a timer merges the two into a freshly sized table when a shard has shrunk below a
  quarter of its high-water mark, so that memory is given back. Shards are finite maps
  (\<open>fmap\<close>), the hash function is a parameter, every operation runs under the mutex of one
  shard and is one function on the state. The theory shows that the rotation is not observable:
  any sequence of operations and rotations answers as a plain map does.
\<close>

subsection \<open>Errors of the stores\<close>

datatype store_error =
    StoreAlreadyStartedError
  | StoreStoppedError
  | StoreNotStartedError
  | DuplicateKeyError
  | UnsupportedStoreError
  | StoreInvalidArgument string
  | StoreTerminate

subsection \<open>State\<close>

definition kRotatingMapShrinkFactor :: nat where
  "kRotatingMapShrinkFactor = 4"

definition kRotatingMapShardCount :: nat where
  "kRotatingMapShardCount = 64"

definition kRotatingMapMinCapacity :: nat where
  "kRotatingMapMinCapacity = 1000"

record ('k, 'v) rm_Shard =
  rm_current :: "('k, 'v) fmap"
  rm_previous :: "('k, 'v) fmap"
  rm_highWaterMark :: nat

text \<open>\<open>rm_armed\<close> says that a wait of the steady timer is pending.\<close>

record ('k, 'v) rm_State =
  rm_interval :: int
  rm_minCapacity :: nat
  rm_running :: bool
  rm_stopped :: bool
  rm_armed :: bool
  rm_shards :: "('k, 'v) rm_Shard list"

definition rm_empty_Shard :: "('k, 'v) rm_Shard" where
  "rm_empty_Shard = \<lparr>rm_current = fmempty, rm_previous = fmempty, rm_highWaterMark = 0\<rparr>"

definition RotatingMap :: "int \<Rightarrow> nat \<Rightarrow> (store_error, ('k, 'v) rm_State) result" where
  "RotatingMap interval minCapacity =
     (if interval \<le> 0 then Inl (StoreInvalidArgument ''rotating map interval must be positive'')
      else Inr \<lparr>rm_interval = interval, rm_minCapacity = minCapacity, rm_running = False,
                rm_stopped = False, rm_armed = False,
                rm_shards = replicate kRotatingMapShardCount rm_empty_Shard\<rparr>)"

definition makeRotatingMap :: "int \<Rightarrow> (store_error, ('k, 'v) rm_State) result" where
  "makeRotatingMap interval = RotatingMap interval kRotatingMapMinCapacity"

definition rm_destroy :: "('k, 'v) rm_State \<Rightarrow> (store_error, unit) result" where
  "rm_destroy st = (if rm_running st then Inl StoreTerminate else Inr ())"

subsection \<open>Lifecycle\<close>

definition rm_Arm :: "('k, 'v) rm_State \<Rightarrow> ('k, 'v) rm_State" where
  "rm_Arm st = st\<lparr>rm_armed := True\<rparr>"

definition rm_start :: "('k, 'v) rm_State \<Rightarrow> (store_error, ('k, 'v) rm_State) result" where
  "rm_start st =
     (if rm_running st then Inl StoreAlreadyStartedError
      else if rm_stopped st then Inl StoreStoppedError
      else Inr (rm_Arm (st\<lparr>rm_running := True\<rparr>)))"

definition rm_stop :: "('k, 'v) rm_State \<Rightarrow> ('k, 'v) rm_State" where
  "rm_stop st =
     (if rm_stopped st then st
      else st\<lparr>rm_running := False, rm_stopped := True, rm_armed := False\<rparr>)"

subsection \<open>Keyed operations\<close>

definition rm_index :: "('k \<Rightarrow> nat) \<Rightarrow> ('k, 'v) rm_State \<Rightarrow> 'k \<Rightarrow> nat" where
  "rm_index hash st key = hash key mod length (rm_shards st)"

definition ShardFor :: "('k \<Rightarrow> nat) \<Rightarrow> ('k, 'v) rm_State \<Rightarrow> 'k \<Rightarrow> ('k, 'v) rm_Shard" where
  "ShardFor hash st key = rm_shards st ! rm_index hash st key"

definition rm_put_shard ::
  "('k \<Rightarrow> nat) \<Rightarrow> ('k, 'v) rm_State \<Rightarrow> 'k \<Rightarrow> ('k, 'v) rm_Shard \<Rightarrow> ('k, 'v) rm_State"
where
  "rm_put_shard hash st key sh = st\<lparr>rm_shards := (rm_shards st)[rm_index hash st key := sh]\<rparr>"

definition rm_set ::
  "('k \<Rightarrow> nat) \<Rightarrow> 'k \<Rightarrow> 'v \<Rightarrow> ('k, 'v) rm_State \<Rightarrow> (store_error, ('k, 'v) rm_State) result"
where
  "rm_set hash key v st =
     (let shard = ShardFor hash st key in
      if fmlookup (rm_current shard) key \<noteq> None \<or> fmlookup (rm_previous shard) key \<noteq> None
      then Inl DuplicateKeyError
      else Inr (rm_put_shard hash st key (shard\<lparr>rm_current := fmupd key v (rm_current shard)\<rparr>)))"

definition rm_getOrCreate ::
  "('k \<Rightarrow> nat) \<Rightarrow> 'k \<Rightarrow> (unit \<Rightarrow> 'v) \<Rightarrow> ('k, 'v) rm_State \<Rightarrow> ('v \<times> bool) \<times> ('k, 'v) rm_State"
where
  "rm_getOrCreate hash key factory st =
     (let shard = ShardFor hash st key in
      case fmlookup (rm_current shard) key of
        Some v \<Rightarrow> ((v, True), st)
      | None \<Rightarrow>
         (case fmlookup (rm_previous shard) key of
            Some v \<Rightarrow> ((v, True), st)
          | None \<Rightarrow>
              let v = factory () in
              ((v, False),
               rm_put_shard hash st key (shard\<lparr>rm_current := fmupd key v (rm_current shard)\<rparr>))))"

definition rm_Get :: "('k \<Rightarrow> nat) \<Rightarrow> 'k \<Rightarrow> ('k, 'v) rm_State \<Rightarrow> 'v option" where
  "rm_Get hash key st =
     (let shard = ShardFor hash st key in
      case fmlookup (rm_current shard) key of
        Some v \<Rightarrow> Some v
      | None \<Rightarrow> (case fmlookup (rm_previous shard) key of Some v \<Rightarrow> Some v | None \<Rightarrow> None))"

definition rm_pop ::
  "('k \<Rightarrow> nat) \<Rightarrow> 'k \<Rightarrow> ('k, 'v) rm_State \<Rightarrow> 'v option \<times> ('k, 'v) rm_State"
where
  "rm_pop hash key st =
     (let shard = ShardFor hash st key in
      case fmlookup (rm_current shard) key of
        Some v \<Rightarrow> (Some v, rm_put_shard hash st key (shard\<lparr>rm_current := fmdrop key (rm_current shard)\<rparr>))
      | None \<Rightarrow>
         (case fmlookup (rm_previous shard) key of
            Some v \<Rightarrow> (Some v, rm_put_shard hash st key (shard\<lparr>rm_previous := fmdrop key (rm_previous shard)\<rparr>))
          | None \<Rightarrow> (None, st)))"

definition rm_total :: "('k, 'v) rm_Shard \<Rightarrow> nat" where
  "rm_total shard = fmsize (rm_current shard) + fmsize (rm_previous shard)"

definition rm_size :: "('k, 'v) rm_State \<Rightarrow> nat" where
  "rm_size st = foldl (\<lambda>result shard. result + rm_total shard) 0 (rm_shards st)"

subsection \<open>Rotation\<close>

text \<open>\<open>emplace\<close> of all of \<open>current\<close>, then \<open>try_emplace\<close> of \<open>previous\<close>: the entries of
  \<open>current\<close> win, which is \<open>previous ++\<^sub>f current\<close>.\<close>

definition rm_RotateShard :: "nat \<Rightarrow> ('k, 'v) rm_Shard \<Rightarrow> ('k, 'v) rm_Shard" where
  "rm_RotateShard minCapacity shard =
     (let total = rm_total shard;
          shouldRotate = (rm_highWaterMark shard = 0
            \<or> total < (rm_highWaterMark shard + kRotatingMapShrinkFactor - 1) div kRotatingMapShrinkFactor);
          shard = shard\<lparr>rm_highWaterMark := max (rm_highWaterMark shard) total\<rparr>
      in if rm_highWaterMark shard < minCapacity \<or> \<not> shouldRotate then shard
         else shard\<lparr>rm_highWaterMark := total,
                    rm_previous := rm_previous shard ++\<^sub>f rm_current shard,
                    rm_current := fmempty\<rparr>)"

definition rm_Rotate :: "('k, 'v) rm_State \<Rightarrow> ('k, 'v) rm_State" where
  "rm_Rotate st = st\<lparr>rm_shards := map (rm_RotateShard (rm_minCapacity st)) (rm_shards st)\<rparr>"

text \<open>The completion of the timer's wait (the lambda of \<open>Arm\<close>); \<open>cancelled\<close> is its error code.\<close>

definition rm_on_timer :: "bool \<Rightarrow> ('k, 'v) rm_State \<Rightarrow> ('k, 'v) rm_State" where
  "rm_on_timer cancelled st =
     (if cancelled then st
      else let st = st\<lparr>rm_armed := False\<rparr> in
      if \<not> rm_running st then st
      else let st = rm_Rotate st in
      if rm_running st then rm_Arm st else st)"

subsection \<open>Invariant and abstraction\<close>

definition rm_shard_ok :: "('k \<Rightarrow> nat) \<Rightarrow> nat \<Rightarrow> nat \<Rightarrow> ('k, 'v) rm_Shard \<Rightarrow> bool" where
  "rm_shard_ok hash n i shard \<longleftrightarrow>
     fmdom (rm_current shard) |\<inter>| fmdom (rm_previous shard) = {||}
     \<and> fBall (fmdom (rm_current shard) |\<union>| fmdom (rm_previous shard)) (\<lambda>k. hash k mod n = i)"

definition rm_inv :: "('k \<Rightarrow> nat) \<Rightarrow> ('k, 'v) rm_State \<Rightarrow> bool" where
  "rm_inv hash st \<longleftrightarrow>
     length (rm_shards st) = kRotatingMapShardCount
     \<and> (\<forall>i < kRotatingMapShardCount. rm_shard_ok hash kRotatingMapShardCount i (rm_shards st ! i))"

definition rm_content :: "('k, 'v) rm_Shard \<Rightarrow> ('k, 'v) fmap" where
  "rm_content shard = rm_previous shard ++\<^sub>f rm_current shard"

definition rm_abs :: "('k \<Rightarrow> nat) \<Rightarrow> ('k, 'v) rm_State \<Rightarrow> ('k \<rightharpoonup> 'v)" where
  "rm_abs hash st = (\<lambda>k. fmlookup (rm_content (ShardFor hash st k)) k)"

text \<open>The operations a client and the timer perform, with their answers.\<close>

datatype ('k, 'v) store_op =
    SetOp 'k 'v | CreateOp 'k 'v | GetOp 'k | PopOp 'k | SizeOp
  | StartOp | StopOp | TimerOp bool | RotateShardOp nat

datatype 'v store_answer =
    Done | Failed store_error | Found 'v bool | Maybe "'v option" | Count nat

fun rm_step ::
  "('k \<Rightarrow> nat) \<Rightarrow> ('k, 'v) store_op \<Rightarrow> ('k, 'v) rm_State \<Rightarrow> 'v store_answer \<times> ('k, 'v) rm_State"
where
  "rm_step hash (SetOp k v) st =
     (case rm_set hash k v st of Inl e \<Rightarrow> (Failed e, st) | Inr st' \<Rightarrow> (Done, st'))"
| "rm_step hash (CreateOp k v) st =
     (case rm_getOrCreate hash k (\<lambda>_. v) st of ((w, found), st') \<Rightarrow> (Found w found, st'))"
| "rm_step hash (GetOp k) st = (Maybe (rm_Get hash k st), st)"
| "rm_step hash (PopOp k) st = (case rm_pop hash k st of (r, st') \<Rightarrow> (Maybe r, st'))"
| "rm_step hash SizeOp st = (Count (rm_size st), st)"
| "rm_step hash StartOp st = (Done, case rm_start st of Inl _ \<Rightarrow> st | Inr st' \<Rightarrow> st')"
| "rm_step hash StopOp st = (Done, rm_stop st)"
| "rm_step hash (TimerOp cancelled) st = (Done, rm_on_timer cancelled st)"
| "rm_step hash (RotateShardOp i) st =
     (Done, st\<lparr>rm_shards := (rm_shards st)[i := rm_RotateShard (rm_minCapacity st) (rm_shards st ! i)]\<rparr>)"

text \<open>The specification: a plain map, on which the timer's operations do nothing.\<close>

fun map_step :: "('k, 'v) store_op \<Rightarrow> ('k \<rightharpoonup> 'v) \<Rightarrow> 'v store_answer \<times> ('k \<rightharpoonup> 'v)" where
  "map_step (SetOp k v) m =
     (case m k of Some _ \<Rightarrow> (Failed DuplicateKeyError, m) | None \<Rightarrow> (Done, m(k \<mapsto> v)))"
| "map_step (CreateOp k v) m =
     (case m k of Some w \<Rightarrow> (Found w True, m) | None \<Rightarrow> (Found v False, m(k \<mapsto> v)))"
| "map_step (GetOp k) m = (Maybe (m k), m)"
| "map_step (PopOp k) m = (Maybe (m k), m(k := None))"
| "map_step SizeOp m = (Count (card (dom m)), m)"
| "map_step StartOp m = (Done, m)"
| "map_step StopOp m = (Done, m)"
| "map_step (TimerOp _) m = (Done, m)"
| "map_step (RotateShardOp _) m = (Done, m)"

lemma length_put_shard [simp]: "length (rm_shards (rm_put_shard hash st k sh)) = length (rm_shards st)"
  by (simp add: rm_put_shard_def)

lemma rm_put_shard_nth:
  "rm_shards (rm_put_shard hash st k sh) = (rm_shards st)[rm_index hash st k := sh]"
  by (simp add: rm_put_shard_def)

lemma rm_index_put [simp]: "rm_index hash (rm_put_shard hash st k sh) k' = rm_index hash st k'"
  by (simp add: rm_index_def)

lemma rm_index_less: "rm_inv hash st \<Longrightarrow> rm_index hash st k < kRotatingMapShardCount"
  by (simp add: rm_inv_def rm_index_def kRotatingMapShardCount_def)

lemma rm_inv_shard:
  "rm_inv hash st \<Longrightarrow> rm_shard_ok hash kRotatingMapShardCount (rm_index hash st k) (ShardFor hash st k)"
  using rm_index_less [of hash st k] by (simp add: rm_inv_def ShardFor_def)

lemma rm_inv_put:
  "rm_inv hash st \<Longrightarrow> rm_shard_ok hash kRotatingMapShardCount (rm_index hash st k) sh \<Longrightarrow>
   rm_inv hash (rm_put_shard hash st k sh)"
  using rm_index_less [of hash st k]
  by (simp add: rm_inv_def rm_put_shard_nth nth_list_update)

lemma ShardFor_put:
  "rm_inv hash st \<Longrightarrow>
   ShardFor hash (rm_put_shard hash st k sh) k' =
     (if rm_index hash st k' = rm_index hash st k then sh else ShardFor hash st k')"
  using rm_index_less [of hash st k]
  by (simp add: ShardFor_def rm_put_shard_nth rm_inv_def)

lemma rm_abs_put:
  assumes "rm_inv hash st"
    and "\<And>k'. fmlookup (rm_content sh) k' =
          (if k' = k then x else fmlookup (rm_content (ShardFor hash st k)) k')"
  shows "rm_abs hash (rm_put_shard hash st k sh) = (rm_abs hash st)(k := x)"
proof
  fix k'
  have "rm_index hash st k' = rm_index hash st k \<Longrightarrow> ShardFor hash st k' = ShardFor hash st k"
    by (simp add: ShardFor_def)
  then show "rm_abs hash (rm_put_shard hash st k sh) k' = ((rm_abs hash st)(k := x)) k'"
    by (simp add: rm_abs_def ShardFor_put [OF assms(1)] assms(2))
qed

lemma rm_content_lookup:
  "fmlookup (rm_content shard) k =
     (case fmlookup (rm_current shard) k of Some v \<Rightarrow> Some v | None \<Rightarrow> fmlookup (rm_previous shard) k)"
  by (auto simp: rm_content_def fmdom_notI split: option.splits)

lemma rm_Get_abs: "rm_Get hash k st = rm_abs hash st k"
  by (simp add: rm_Get_def rm_abs_def rm_content_lookup Let_def split: option.splits)

lemma rm_abs_None:
  "rm_abs hash st k = None \<longleftrightarrow>
     fmlookup (rm_current (ShardFor hash st k)) k = None \<and> fmlookup (rm_previous (ShardFor hash st k)) k = None"
  by (simp add: rm_abs_def rm_content_lookup split: option.splits)

lemma rm_shard_ok_alt:
  "rm_shard_ok hash n i shard \<longleftrightarrow>
     (\<forall>k. (fmlookup (rm_current shard) k = None \<or> fmlookup (rm_previous shard) k = None)
        \<and> (fmlookup (rm_current shard) k \<noteq> None \<or> fmlookup (rm_previous shard) k \<noteq> None \<longrightarrow> hash k mod n = i))"
  unfolding rm_shard_ok_def by (auto simp: fset_eq_iff fmlookup_dom_iff)

lemma rm_insert:
  assumes "rm_inv hash st" and "rm_abs hash st k = None"
    and st'_def: "st' = rm_put_shard hash st k
      ((ShardFor hash st k)\<lparr>rm_current := fmupd k v (rm_current (ShardFor hash st k))\<rparr>)"
  shows "rm_inv hash st'" and "rm_abs hash st' = (rm_abs hash st)(k \<mapsto> v)"
proof -
  have idx: "rm_index hash st k = hash k mod kRotatingMapShardCount"
    using assms(1) by (simp add: rm_inv_def rm_index_def)
  show "rm_inv hash st'"
    using rm_inv_shard [OF assms(1), of k] assms(2) unfolding st'_def idx
    by (intro rm_inv_put assms(1)) (auto simp: rm_shard_ok_alt rm_abs_None idx)
  show "rm_abs hash st' = (rm_abs hash st)(k \<mapsto> v)"
    unfolding st'_def by (rule rm_abs_put [OF assms(1)]) (simp add: rm_content_lookup split: option.split)
qed

lemma rm_pop_correct:
  assumes "rm_inv hash st"
  shows "rm_inv hash (snd (rm_pop hash k st))"
    and "fst (rm_pop hash k st) = rm_abs hash st k"
    and "rm_abs hash (snd (rm_pop hash k st)) = (rm_abs hash st)(k := None)"
proof -
  let ?s = "ShardFor hash st k"
  note ok = rm_inv_shard [OF assms, of k]
  have cur: "rm_inv hash (rm_put_shard hash st k (?s\<lparr>rm_current := fmdrop k (rm_current ?s)\<rparr>))"
    and prev: "rm_inv hash (rm_put_shard hash st k (?s\<lparr>rm_previous := fmdrop k (rm_previous ?s)\<rparr>))"
    using ok by (auto intro!: rm_inv_put assms simp: rm_shard_ok_alt split: if_splits)
  then show "rm_inv hash (snd (rm_pop hash k st))"
    using assms by (simp add: rm_pop_def Let_def split: option.splits)
  show "fst (rm_pop hash k st) = rm_abs hash st k"
    by (simp add: rm_pop_def Let_def rm_abs_def rm_content_lookup split: option.splits)
  from ok have "fmlookup (rm_current ?s) k = None \<or> fmlookup (rm_previous ?s) k = None"
    by (simp add: rm_shard_ok_alt)
  then have "rm_abs hash (rm_put_shard hash st k (?s\<lparr>rm_current := fmdrop k (rm_current ?s)\<rparr>))
      = (rm_abs hash st)(k := None)" if "fmlookup (rm_current ?s) k \<noteq> None"
    using that by (intro rm_abs_put assms) (auto simp: rm_content_lookup split: option.splits)
  moreover have "rm_abs hash (rm_put_shard hash st k (?s\<lparr>rm_previous := fmdrop k (rm_previous ?s)\<rparr>))
      = (rm_abs hash st)(k := None)" if "fmlookup (rm_current ?s) k = None"
    using that by (intro rm_abs_put assms) (auto simp: rm_content_lookup split: option.splits)
  ultimately show "rm_abs hash (snd (rm_pop hash k st)) = (rm_abs hash st)(k := None)"
    using rm_abs_None [of hash st k] by (auto simp: rm_pop_def Let_def fun_eq_iff split: option.splits)
qed

lemma rm_RotateShard_content [simp]: "rm_content (rm_RotateShard c shard) = rm_content shard"
  by (simp add: rm_RotateShard_def rm_content_def Let_def)

lemma rm_RotateShard_ok:
  "rm_shard_ok hash n i shard \<Longrightarrow> rm_shard_ok hash n i (rm_RotateShard c shard)"
  by (auto simp: rm_shard_ok_alt rm_RotateShard_def Let_def)

lemma rm_content_eq:
  assumes "rm_inv hash st" and "length (rm_shards st') = length (rm_shards st)"
    and "\<And>i. i < kRotatingMapShardCount \<Longrightarrow> rm_content (rm_shards st' ! i) = rm_content (rm_shards st ! i)
          \<and> rm_shard_ok hash kRotatingMapShardCount i (rm_shards st' ! i)"
  shows "rm_inv hash st'" and "rm_abs hash st' = rm_abs hash st"
proof -
  show "rm_inv hash st'" using assms by (simp add: rm_inv_def)
  show "rm_abs hash st' = rm_abs hash st"
    using rm_index_less [OF assms(1)] assms(2,3)
    by (simp add: fun_eq_iff rm_abs_def ShardFor_def rm_index_def)
qed

lemma rm_total_content:
  "rm_shard_ok hash n i shard \<Longrightarrow> rm_total shard = fcard (fmdom (rm_content shard))"
  by (simp add: rm_total_def fmsize_def rm_content_def rm_shard_ok_def fcard_funion_disjoint finter_commute)

lemma rm_size_sum: "rm_size (st :: ('k, 'v) rm_State) = sum_list (map rm_total (rm_shards st))"
proof -
  have "foldl (\<lambda>r s. r + rm_total s) a shards = a + sum_list (map rm_total shards)" for a and shards :: "('k, 'v) rm_Shard list"
    by (induction shards arbitrary: a) simp_all
  then show ?thesis by (simp add: rm_size_def)
qed

lemma rm_size_abs:
  assumes "rm_inv hash st"
  shows "rm_size st = card (dom (rm_abs hash st))"
proof -
  let ?D = "\<lambda>i. fset (fmdom (rm_content (rm_shards st ! i)))"
  let ?n = kRotatingMapShardCount
  have len: "length (rm_shards st) = ?n" and ok: "i < ?n \<Longrightarrow> rm_shard_ok hash ?n i (rm_shards st ! i)" for i
    using assms by (simp_all add: rm_inv_def)
  have idx: "k \<in> ?D i \<Longrightarrow> i < ?n \<Longrightarrow> hash k mod ?n = i" for i k
    using ok [of i] by (auto simp: rm_shard_ok_alt rm_content_def)
  have "dom (rm_abs hash st) = (\<Union>i < ?n. ?D i)"
  proof (intro equalityI subsetI)
    fix k assume "k \<in> dom (rm_abs hash st)"
    then have "k \<in> ?D (rm_index hash st k)"
      by (auto simp: rm_abs_def ShardFor_def fmlookup_dom_iff)
    then show "k \<in> (\<Union>i < ?n. ?D i)" using rm_index_less [OF assms] by blast
  next
    fix k assume "k \<in> (\<Union>i < ?n. ?D i)"
    then obtain i where i: "i < ?n" "k \<in> ?D i" by blast
    from idx [OF i(2,1)] i show "k \<in> dom (rm_abs hash st)"
      by (auto simp: rm_abs_def ShardFor_def rm_index_def len fmlookup_dom_iff)
  qed
  moreover have "card (\<Union>i < ?n. ?D i) = (\<Sum>i < ?n. card (?D i))"
    by (rule card_UN_disjoint) (auto dest: idx)
  moreover have "(\<Sum>i < ?n. card (?D i)) = (\<Sum>i < ?n. rm_total (rm_shards st ! i))"
    using rm_total_content [OF ok] by (intro sum.cong) (simp_all add: fcard.rep_eq)
  ultimately show ?thesis
    by (simp add: rm_size_sum sum_list_sum_nth len atLeast0LessThan)
qed


lemma rm_set_correct:
  assumes "rm_inv hash st"
  shows "rm_set hash k v st =
    (case rm_abs hash st k of
       Some _ \<Rightarrow> Inl DuplicateKeyError
     | None \<Rightarrow> Inr (rm_put_shard hash st k
         ((ShardFor hash st k)\<lparr>rm_current := fmupd k v (rm_current (ShardFor hash st k))\<rparr>)))"
  using rm_abs_None [of hash st k] by (auto simp: rm_set_def Let_def split: option.split)

lemma rm_getOrCreate_correct:
  "rm_getOrCreate hash k f st =
    (case rm_abs hash st k of
       Some w \<Rightarrow> ((w, True), st)
     | None \<Rightarrow> ((f (), False), rm_put_shard hash st k
         ((ShardFor hash st k)\<lparr>rm_current := fmupd k (f ()) (rm_current (ShardFor hash st k))\<rparr>)))"
  by (simp add: rm_getOrCreate_def Let_def rm_abs_def rm_content_lookup split: option.split)

lemma rm_Rotate_correct:
  assumes "rm_inv hash st"
  shows "rm_inv hash (rm_Rotate st)" and "rm_abs hash (rm_Rotate st) = rm_abs hash st"
  using assms by (auto intro!: rm_content_eq [OF assms] simp: rm_inv_def rm_Rotate_def rm_RotateShard_ok)

lemma rm_RotateShardOp_correct:
  assumes "rm_inv hash st"
  shows "rm_inv hash (snd (rm_step hash (RotateShardOp i) st))"
    and "rm_abs hash (snd (rm_step hash (RotateShardOp i) st)) = rm_abs hash st"
  using assms
  by (auto intro!: rm_content_eq [OF assms] simp: rm_inv_def rm_RotateShard_ok nth_list_update_if)

lemma rm_lifecycle_fields [simp]:
  "rm_inv hash (st\<lparr>rm_running := b\<rparr>) = rm_inv hash st" "rm_abs hash (st\<lparr>rm_running := b\<rparr>) = rm_abs hash st"
  "rm_inv hash (st\<lparr>rm_stopped := b\<rparr>) = rm_inv hash st" "rm_abs hash (st\<lparr>rm_stopped := b\<rparr>) = rm_abs hash st"
  "rm_inv hash (st\<lparr>rm_armed := b\<rparr>) = rm_inv hash st" "rm_abs hash (st\<lparr>rm_armed := b\<rparr>) = rm_abs hash st"
  by (simp_all add: rm_inv_def rm_abs_def ShardFor_def rm_index_def)

lemma rm_on_timer_correct:
  assumes "rm_inv hash st"
  shows "rm_inv hash (rm_on_timer c st)" and "rm_abs hash (rm_on_timer c st) = rm_abs hash st"
  using assms rm_Rotate_correct [of hash "st\<lparr>rm_armed := False\<rparr>"]
  by (simp_all add: rm_on_timer_def rm_Arm_def Let_def)

lemma rm_step_inv:
  assumes "rm_inv hash st"
  shows "rm_inv hash (snd (rm_step hash x st))"
proof (cases x)
  case (SetOp k v)
  then show ?thesis
    using assms rm_insert(1) [OF assms _ refl] by (simp add: rm_set_correct split: option.split)
next
  case (CreateOp k v)
  then show ?thesis
    using assms rm_insert(1) [OF assms _ refl] by (simp add: rm_getOrCreate_correct split: option.split)
next
  case (PopOp k)
  then show ?thesis using rm_pop_correct [OF assms] by (simp add: split_beta)
next
  case (RotateShardOp i)
  then show ?thesis using rm_RotateShardOp_correct(1) [OF assms] by blast
qed (use assms rm_on_timer_correct [OF assms] in \<open>simp_all add: rm_start_def rm_stop_def rm_Arm_def\<close>)

lemma rm_step_spec:
  assumes "rm_inv hash st"
  shows "map_step x (rm_abs hash st) = (fst (rm_step hash x st), rm_abs hash (snd (rm_step hash x st)))"
proof (cases x)
  case (SetOp k v)
  then show ?thesis
    using assms rm_insert(2) [OF assms _ refl] by (simp add: rm_set_correct split: option.split)
next
  case (CreateOp k v)
  then show ?thesis
    using assms rm_insert(2) [OF assms _ refl] by (simp add: rm_getOrCreate_correct split: option.split)
next
  case (PopOp k)
  then show ?thesis using rm_pop_correct [OF assms] by (simp add: split_beta)
next
  case (RotateShardOp i)
  then show ?thesis using rm_RotateShardOp_correct(2) [OF assms, of i] by simp
qed (use assms rm_on_timer_correct [OF assms] in
    \<open>simp_all add: rm_start_def rm_stop_def rm_Arm_def rm_Get_abs rm_size_abs\<close>)

interpretation rm: refinement "rm_inv hash" "rm_abs hash" "rm_step hash" map_step for hash
  by unfold_locales (fact rm_step_inv, fact rm_step_spec)

subsection \<open>Properties\<close>

lemma rm_make_correct:
  assumes "RotatingMap interval minCapacity = Inr st"
  shows "rm_inv hash st" and "rm_abs hash st = Map.empty"
proof -
  have st: "rm_shards st = replicate kRotatingMapShardCount rm_empty_Shard"
    using assms by (auto simp: RotatingMap_def split: if_splits)
  have ok: "rm_shard_ok hash n i rm_empty_Shard" and lk: "fmlookup (rm_content rm_empty_Shard) k = None" for n i k
    by (simp_all add: rm_shard_ok_def rm_empty_Shard_def rm_content_def)
  show "rm_inv hash st" by (simp add: rm_inv_def st ok)
  show "rm_abs hash st = Map.empty"
    by (simp add: fun_eq_iff rm_abs_def ShardFor_def rm_index_def st lk kRotatingMapShardCount_def)
qed

text \<open>C4. The rotation is not observable. Whatever the hash function, the capacity and the sequence of
  client operations, lifecycle calls, timer completions and rotations of single shards, a freshly
  built rotating map gives the answers that a plain map gives, \<open>size()\<close> included, and its
  shards stay disjoint.\<close>

theorem rotating_map_refines_map:
  assumes "RotatingMap interval minCapacity = Inr st"
  shows "fst (run_ops (rm_step hash) ops st) = fst (run_ops map_step ops Map.empty)
    \<and> rm_inv hash (snd (run_ops (rm_step hash) ops st))"
  using rm.run_spec [OF rm_make_correct(1) [OF assms], of ops hash]
    rm.run_inv [OF rm_make_correct(1) [OF assms], of hash ops]
  by (simp add: rm_make_correct(2) [OF assms])

theorem rotating_map_refines_map_witness:
  "\<exists>st. RotatingMap 5 0 = Inr st
     \<and> fst (run_ops (rm_step (\<lambda>k. k)) [SetOp 3 ''x'', RotateShardOp 3, SetOp 3 ''y'', SizeOp, PopOp 3, GetOp 3] st)
       = [Done, Done, Failed DuplicateKeyError, Count 1, Maybe (Some ''x''), Maybe None]"
proof -
  obtain st :: "(nat, string) rm_State" where st: "RotatingMap 5 0 = Inr st"
    by (simp add: RotatingMap_def)
  have "fst (run_ops map_step [SetOp 3 ''x'', RotateShardOp 3, SetOp 3 ''y'', SizeOp, PopOp 3, GetOp (3::nat)] Map.empty)
      = [Done, Done, Failed DuplicateKeyError, Count 1, Maybe (Some ''x''), Maybe None]" by simp
  with rotating_map_refines_map [OF st] st show ?thesis by metis
qed

text \<open>When a shard is rotated. A shard gives up its tables exactly when it was never measured or
  holds less than a quarter of its high-water mark, and the mark reaches the configured capacity.
  A rotation keeps every entry, empties \<open>current\<close> and lowers the mark to the number of
  entries; otherwise only the mark may rise. The mark is never below the number of entries.\<close>

theorem rm_RotateShard_policy:
  assumes "rm_shard_ok hash n i shard" and "shard' = rm_RotateShard minCapacity shard"
  shows "rm_total shard' = rm_total shard \<and> rm_total shard' \<le> rm_highWaterMark shard'
    \<and> (if (rm_highWaterMark shard = 0 \<or> 4 * rm_total shard < rm_highWaterMark shard)
           \<and> minCapacity \<le> max (rm_highWaterMark shard) (rm_total shard)
       then rm_current shard' = fmempty \<and> rm_highWaterMark shard' = rm_total shard
       else rm_current shard' = rm_current shard \<and> rm_previous shard' = rm_previous shard
         \<and> rm_highWaterMark shard' = max (rm_highWaterMark shard) (rm_total shard))"
proof -
  have quarter: "t < (h + 3) div 4 \<longleftrightarrow> 4 * t < h" for t h :: nat by presburger
  have "rm_total shard' = rm_total shard"
    using rm_total_content [OF assms(1)] rm_total_content [OF rm_RotateShard_ok [OF assms(1)]] assms(2)
    by simp
  then show ?thesis
    unfolding assms(2) by (auto simp: rm_RotateShard_def kRotatingMapShrinkFactor_def Let_def quarter)
qed

theorem rm_RotateShard_policy_witness:
  "rm_current (rm_RotateShard 2 \<lparr>rm_current = fmupd 1 ''a'' fmempty, rm_previous = fmempty, rm_highWaterMark = 9\<rparr>)
     = (fmempty :: (nat, string) fmap)"
  using rm_RotateShard_policy [where hash = "\<lambda>k. k" and n = 64 and i = 1 and minCapacity = 2
      and shard = "\<lparr>rm_current = fmupd (1::nat) ''a'' fmempty, rm_previous = fmempty, rm_highWaterMark = 9\<rparr>", OF _ refl]
  by (simp add: rm_shard_ok_def rm_total_def fmsize_upd)

definition rm_life :: "('k, 'v) rm_State \<Rightarrow> bool" where
  "rm_life st \<longleftrightarrow> \<not> (rm_running st \<and> rm_stopped st) \<and> (rm_armed st \<longleftrightarrow> rm_running st)"

lemma rm_put_shard_life [simp]:
  "rm_running (rm_put_shard hash st k sh) = rm_running st"
  "rm_stopped (rm_put_shard hash st k sh) = rm_stopped st"
  "rm_armed (rm_put_shard hash st k sh) = rm_armed st"
  by (simp_all add: rm_put_shard_def)

lemma rm_step_life: "rm_life st \<Longrightarrow> rm_life (snd (rm_step hash x st))"
  by (cases x)
    (auto simp: rm_life_def rm_set_def rm_getOrCreate_def rm_pop_def rm_start_def rm_stop_def
      rm_on_timer_def rm_Rotate_def rm_Arm_def Let_def split: option.split sum.split)

lemma rm_stopped_step:
  "rm_stopped st \<Longrightarrow> rm_stopped (snd (rm_step hash x st))"
  by (cases x)
    (auto simp: rm_set_def rm_getOrCreate_def rm_pop_def rm_start_def rm_stop_def
      rm_on_timer_def rm_Rotate_def rm_Arm_def Let_def split: option.split sum.split)

lemma rm_run_life:
  "rm_life st \<Longrightarrow> rm_life (snd (run_ops (rm_step hash) xs st))"
  "rm_stopped st \<Longrightarrow> rm_stopped (snd (run_ops (rm_step hash) xs st))"
  by (induction xs arbitrary: st) (simp_all add: split_beta rm_step_life rm_stopped_step)

text \<open>Lifecycle. In every run the rotation timer is pending exactly while the map is running;
  once \<open>stop()\<close> was called, no later operation restarts the map: \<open>start()\<close> reports
  \<open>StoreStoppedError\<close>, a late timer completion rotates nothing, and destruction is safe.\<close>

theorem rm_stop_is_final:
  assumes "RotatingMap interval minCapacity = Inr st"
    and "st' = snd (run_ops (rm_step hash) (before @ StopOp # after) st)"
  shows "rm_start st' = Inl StoreStoppedError \<and> \<not> rm_armed st'
    \<and> rm_shards (rm_on_timer c st') = rm_shards st' \<and> rm_destroy st' = Inr ()"
proof -
  have "rm_life st" using assms(1) by (auto simp: RotatingMap_def rm_life_def split: if_splits)
  then have life: "rm_life st'" unfolding assms(2) by (rule rm_run_life)
  have app: "snd (run_ops f (xs @ ys) s) = snd (run_ops f ys (snd (run_ops f xs s)))" for f xs ys and s :: "('a, 'b) rm_State"
    by (induction xs arbitrary: s) (simp_all add: split_beta)
  have "rm_stopped st'"
    unfolding assms(2) app by (simp add: split_beta rm_run_life rm_stop_def)
  then show ?thesis
    using life by (auto simp: rm_life_def rm_start_def rm_on_timer_def rm_destroy_def)
qed

theorem rm_stop_is_final_witness:
  "\<exists>st st' :: (nat, nat) rm_State. RotatingMap 1 0 = Inr st
     \<and> st' = snd (run_ops (rm_step (\<lambda>k. k)) ([StartOp] @ StopOp # [SetOp 1 2]) st)
     \<and> rm_start st' = Inl StoreStoppedError"
proof -
  obtain st :: "(nat, nat) rm_State" where st: "RotatingMap 1 0 = Inr st"
    by (simp add: RotatingMap_def)
  from rm_stop_is_final [OF st refl] st show ?thesis by blast
qed

text \<open>The keyed operations do not look at the lifecycle: a stopped map still accepts entries,
  although the storage contract asks implementations to reject new operations.\<close>

lemma rm_set_after_stop:
  assumes "rm_inv hash st" and "rm_abs hash st k = None"
  shows "\<exists>st'. rm_set hash k v (rm_stop st) = Inr st' \<and> rm_abs hash st' k = Some v"
proof -
  have inv: "rm_inv hash (rm_stop st)" and none: "rm_abs hash (rm_stop st) k = None"
    using assms by (simp_all add: rm_stop_def)
  show ?thesis
    using rm_insert(2) [OF inv none refl, of v] none by (simp add: rm_set_correct [OF inv])
qed

end
