(* ===== verification/Yaml.thy ===== *)
theory Yaml
  imports Prelude "HOL-Library.AList"
begin

section \<open>Configuration documents (runtime/config/yaml.hpp, yaml_value.hpp)\<close>

text \<open>
  The tree of a YAML document, the yaml-cpp functions the parsers call, the adapter
  \<open>YamlValue\<close> over them, and \<open>DeepMerge\<close>, which lays an override document over a
  base document. yaml-cpp itself is not part of the sources: its conversions, its subscript
  operator, \<open>Clone\<close>, its assignment of nodes (the node the left side holds afterwards) and its loader are the fields of
  \<open>yaml_cpp\<close>, an argument of every definition that uses them.

  A document is a tree here: every place has a node of its own. A YAML document with anchors and aliases is not; there two
  places share a node, \<open>Clone\<close> keeps the sharing, and an assignment through one place changes the other. Such documents
  are outside the model, and the statements below are about documents without aliases.
\<close>

subsection \<open>Documents\<close>

datatype yaml =
    YUndefined
  | YNull
  | YScalar string
  | YSeq "yaml list"
  | YMap "(yaml \<times> yaml) list"

datatype config_error =
    YamlException
  | ConfigInvalidArgument string
  | ConfigRuntimeError string
  | ConfigLogicError string

text \<open>\<open>double\<close> and \<open>float\<close> values are only read and stored; they are kept as their bits.\<close>

type_synonym double = "64 word"
type_synonym float32 = "32 word"

record yaml_cpp =
  yc_subscript :: "yaml \<Rightarrow> string \<Rightarrow> (config_error, yaml) result"
  yc_string :: "yaml \<Rightarrow> (config_error, string) result"
  yc_int :: "yaml \<Rightarrow> (config_error, int) result"
  yc_bool :: "yaml \<Rightarrow> (config_error, bool) result"
  yc_double :: "yaml \<Rightarrow> (config_error, double) result"
  yc_float :: "yaml \<Rightarrow> (config_error, float32) result"
  yc_int_list :: "yaml \<Rightarrow> (config_error, int list) result"
  yc_assign :: "yaml \<Rightarrow> yaml \<Rightarrow> (config_error, yaml) result"
  yc_load :: "string \<Rightarrow> (config_error, yaml) result"
  yc_clone :: "yaml \<Rightarrow> yaml"
  yc_store :: "yaml \<Rightarrow> string \<Rightarrow> yaml \<Rightarrow> (config_error, yaml) result"

text \<open>What yaml-cpp documents of these functions and the parsers rely on: a subscript of a mapping gives
  the value of the key or an undefined node, and a scalar converts to its text.\<close>

definition yaml_cpp_laws :: "yaml_cpp \<Rightarrow> bool" where
  "yaml_cpp_laws Y \<longleftrightarrow>
     (\<forall>es k. yc_subscript Y (YMap es) k =
        Inr (case map_of es (YScalar k) of Some v \<Rightarrow> v | None \<Rightarrow> YUndefined))
     \<and> (\<forall>s. yc_string Y (YScalar s) = Inr s)"

text \<open>And of the two functions that only \<open>DeepMerge\<close> uses, on documents without aliases: a clone is equal to the original,
  and \<open>result[key] = value\<close> gives the key this value, at its place if it is there and at the end otherwise.\<close>

definition yaml_tree_laws :: "yaml_cpp \<Rightarrow> bool" where
  "yaml_tree_laws Y \<longleftrightarrow>
     (\<forall>v. yc_clone Y v = v) \<and> (\<forall>es k x. yc_store Y (YMap es) k x = Inr (YMap (AList.update (YScalar k) x es)))"

subsection \<open>YamlValue\<close>

definition IsMissing :: "yaml \<Rightarrow> bool" where
  "IsMissing v \<longleftrightarrow> v = YUndefined"

fun IsString :: "yaml \<Rightarrow> bool" where
  "IsString (YScalar s) = True"
| "IsString v = False"

fun IsObject :: "yaml \<Rightarrow> bool" where
  "IsObject (YMap es) = True"
| "IsObject v = False"

text \<open>\<open>value[key].As<T>(fallback)\<close>, for a conversion to \<open>T\<close>.\<close>

definition As_or :: "(yaml \<Rightarrow> (config_error, 'a) result) \<Rightarrow> 'a \<Rightarrow> yaml \<Rightarrow> (config_error, 'a) result" where
  "As_or As fallback v = (if IsMissing v then Inr fallback else As v)"

definition field_or ::
  "yaml_cpp \<Rightarrow> (yaml \<Rightarrow> (config_error, 'a) result) \<Rightarrow> 'a \<Rightarrow> yaml \<Rightarrow> string \<Rightarrow> (config_error, 'a) result"
where
  "field_or Y As fallback v k = bindR (yc_subscript Y v k) (As_or As fallback)"

definition int_or :: "yaml_cpp \<Rightarrow> int \<Rightarrow> yaml \<Rightarrow> string \<Rightarrow> (config_error, int) result" where
  "int_or Y = field_or Y (yc_int Y)"

definition string_or :: "yaml_cpp \<Rightarrow> string \<Rightarrow> yaml \<Rightarrow> string \<Rightarrow> (config_error, string) result" where
  "string_or Y = field_or Y (yc_string Y)"

definition bool_or :: "yaml_cpp \<Rightarrow> bool \<Rightarrow> yaml \<Rightarrow> string \<Rightarrow> (config_error, bool) result" where
  "bool_or Y = field_or Y (yc_bool Y)"

definition double_or :: "yaml_cpp \<Rightarrow> double \<Rightarrow> yaml \<Rightarrow> string \<Rightarrow> (config_error, double) result" where
  "double_or Y = field_or Y (yc_double Y)"

definition float_or :: "yaml_cpp \<Rightarrow> float32 \<Rightarrow> yaml \<Rightarrow> string \<Rightarrow> (config_error, float32) result" where
  "float_or Y = field_or Y (yc_float Y)"

definition int_list_or :: "yaml_cpp \<Rightarrow> int list \<Rightarrow> yaml \<Rightarrow> string \<Rightarrow> (config_error, int list) result" where
  "int_list_or Y = field_or Y (yc_int_list Y)"

lemmas field_defs = int_or_def string_or_def bool_or_def double_or_def float_or_def int_list_or_def

subsection \<open>Properties and function fields (config_parse_common.hpp)\<close>

type_synonym PropertiesMap = "(string, yaml) fmap"

definition FindProperty :: "PropertiesMap \<Rightarrow> string \<Rightarrow> yaml option" where
  "FindProperty properties name = fmlookup properties name"

definition emplace :: "'k \<Rightarrow> 'v \<Rightarrow> ('k, 'v) fmap \<Rightarrow> ('k, 'v) fmap" where
  "emplace k v m = (if fmlookup m k = None then fmupd k v m else m)"

definition ParseRemainingProperties :: "yaml_cpp \<Rightarrow> yaml \<Rightarrow> string list \<Rightarrow> (config_error, PropertiesMap) result" where
  "ParseRemainingProperties Y v knownKeys =
     (case v of
        YMap es \<Rightarrow>
          foldR (\<lambda>properties (k, x). bindR (yc_string Y k) (\<lambda>key.
                   Inr (if key \<in> set knownKeys then properties else emplace key x properties)))
                fmempty es
      | _ \<Rightarrow> Inr fmempty)"

record FunctionFields =
  functionName :: string
  functionPackage :: string
  publicFunction :: bool
  functionDescription :: string
  functionInitializerGroup :: string
  functionModule :: string

definition ParseFunctionFields :: "yaml_cpp \<Rightarrow> yaml \<Rightarrow> (config_error, FunctionFields) result" where
  "ParseFunctionFields Y v =
     bindR (string_or Y '''' v ''functionName'') (\<lambda>name.
     bindR (string_or Y '''' v ''functionPackage'') (\<lambda>package.
     bindR (bool_or Y False v ''publicFunction'') (\<lambda>public.
     bindR (string_or Y '''' v ''functionDescription'') (\<lambda>description.
     bindR (string_or Y '''' v ''functionInitializerGroup'') (\<lambda>group.
     bindR (string_or Y '''' v ''functionModule'') (\<lambda>module.
       Inr \<lparr>functionName = name, functionPackage = package, publicFunction = public,
            functionDescription = description, functionInitializerGroup = group, functionModule = module\<rparr>))))))"

subsection \<open>Merging documents\<close>

fun DeepMerge :: "yaml_cpp \<Rightarrow> yaml \<Rightarrow> yaml \<Rightarrow> (config_error, yaml) result"
  and DeepMerge_entries :: "yaml_cpp \<Rightarrow> yaml \<Rightarrow> (yaml \<times> yaml) list \<Rightarrow> (config_error, yaml) result"
where
  "DeepMerge Y base (YMap overrides) =
     (if IsObject base then DeepMerge_entries Y (yc_clone Y base) overrides
      else Inr (yc_clone Y (YMap overrides)))"
| "DeepMerge Y base overrides = Inr (yc_clone Y overrides)"
| "DeepMerge_entries Y result [] = Inr result"
| "DeepMerge_entries Y result ((k, v) # rest) =
     (if \<not> IsString k then Inl (ConfigInvalidArgument ''configuration mapping keys must be scalar'')
      else
        bindR (yc_string Y k) (\<lambda>key.
        bindR (yc_subscript Y result key) (\<lambda>current.
        bindR (if IsMissing current then Inr (yc_clone Y v) else DeepMerge Y current v) (\<lambda>x.
        bindR (yc_store Y result key x) (\<lambda>result. DeepMerge_entries Y result rest)))))"

definition ParseYaml :: "yaml_cpp \<Rightarrow> string \<Rightarrow> string \<Rightarrow> (config_error, yaml) result" where
  "ParseYaml Y contents source =
     (case yc_load Y contents of
        Inl (ConfigInvalidArgument e) \<Rightarrow> Inl (ConfigInvalidArgument e)
      | Inl _ \<Rightarrow> Inl (ConfigRuntimeError (''cannot parse configuration '' @ source))
      | Inr value \<Rightarrow>
          if IsMissing value \<or> value = YNull then Inr (YMap [])
          else if \<not> IsObject value
          then Inl (ConfigInvalidArgument (''configuration root must be a mapping: '' @ source))
          else Inr value)"

subsection \<open>Reading a document that spells a value\<close>

text \<open>The text yaml-cpp reads back as a value, for each type the parsers convert to. A scalar of a
  document is its text, so strings need none.\<close>

record yaml_printer =
  yp_int :: "int \<Rightarrow> yaml"
  yp_bool :: "bool \<Rightarrow> yaml"
  yp_double :: "double \<Rightarrow> yaml"
  yp_float :: "float32 \<Rightarrow> yaml"
  yp_int_list :: "int list \<Rightarrow> yaml"

text \<open>The numbers of a configuration. A member of type \<open>int\<close> has 32 bits; a floating-point number is spelled by a decimal
  text that reads back as the same bits when it is zero or a normal number (not a subnormal, an infinity or a NaN, for
  which conversions differ between standard libraries).\<close>

datatype number = NInt int | NDouble double | NFloat float32

definition normal_bits :: "nat \<Rightarrow> nat \<Rightarrow> nat \<Rightarrow> bool" where
  "normal_bits mantissa exponent bits \<longleftrightarrow>
     (let e = bits div 2 ^ mantissa mod 2 ^ exponent
      in 0 < e \<and> e < 2 ^ exponent - 1 \<or> bits mod 2 ^ (mantissa + exponent) = 0)"

fun representable :: "number \<Rightarrow> bool" where
  "representable (NInt i) \<longleftrightarrow> - (2 ^ 31) \<le> i \<and> i < 2 ^ 31"
| "representable (NDouble d) \<longleftrightarrow> normal_bits 52 11 (unat d)"
| "representable (NFloat f) \<longleftrightarrow> normal_bits 23 8 (unat f)"

definition yaml_reads :: "yaml_cpp \<Rightarrow> yaml_printer \<Rightarrow> bool" where
  "yaml_reads Y P \<longleftrightarrow>
     (\<forall>i. representable (NInt i) \<longrightarrow> yc_int Y (yp_int P i) = Inr i \<and> yp_int P i \<noteq> YUndefined)
     \<and> (\<forall>b. yc_bool Y (yp_bool P b) = Inr b \<and> yp_bool P b \<noteq> YUndefined)
     \<and> (\<forall>d. representable (NDouble d) \<longrightarrow> yc_double Y (yp_double P d) = Inr d \<and> yp_double P d \<noteq> YUndefined)
     \<and> (\<forall>f. representable (NFloat f) \<longrightarrow> yc_float Y (yp_float P f) = Inr f \<and> yp_float P f \<noteq> YUndefined)
     \<and> (\<forall>is. list_all representable (map NInt is) \<longrightarrow>
          yc_int_list Y (yp_int_list P is) = Inr is \<and> yp_int_list P is \<noteq> YUndefined)"

declare representable.simps [simp del]

lemma yaml_cpp_lawsD:
  assumes "yaml_cpp_laws Y"
  shows "yc_subscript Y (YMap es) k = Inr (case map_of es (YScalar k) of Some v \<Rightarrow> v | None \<Rightarrow> YUndefined)"
    "yc_string Y (YScalar s) = Inr s"
  using assms by (simp_all add: yaml_cpp_laws_def)

lemma field_lookup:
  assumes "yaml_cpp_laws Y"
  shows "field_or Y As d (YMap es) k = (case map_of es (YScalar k) of None \<Rightarrow> Inr d | Some v \<Rightarrow> As_or As d v)"
  using assms by (simp add: field_or_def yaml_cpp_lawsD As_or_def IsMissing_def split: option.split)

lemma printed_values:
  assumes "yaml_reads Y P"
  shows "representable (NInt i) \<Longrightarrow> As_or (yc_int Y) d (yp_int P i) = Inr i"
    "As_or (yc_bool Y) bd (yp_bool P b) = Inr b"
    "representable (NDouble x) \<Longrightarrow> As_or (yc_double Y) xd (yp_double P x) = Inr x"
    "representable (NFloat f) \<Longrightarrow> As_or (yc_float Y) fd (yp_float P f) = Inr f"
    "list_all representable (map NInt is) \<Longrightarrow> As_or (yc_int_list Y) isd (yp_int_list P is) = Inr is"
  using assms by (simp_all add: As_or_def IsMissing_def yaml_reads_def)

lemma printed_string: "yaml_cpp_laws Y \<Longrightarrow> As_or (yc_string Y) d (YScalar s) = Inr s"
  by (simp add: As_or_def IsMissing_def yaml_cpp_lawsD)

text \<open>The remaining properties of a document are its entries under no known key.\<close>

abbreviation property_entries :: "(string \<times> yaml) list \<Rightarrow> (yaml \<times> yaml) list" where
  "property_entries props \<equiv> map (\<lambda>(k, v). (YScalar k, v)) props"

definition fresh_properties :: "(yaml \<times> yaml) list \<Rightarrow> (string \<times> yaml) list \<Rightarrow> bool" where
  "fresh_properties doc props \<longleftrightarrow>
     distinct (map fst props) \<and> (\<forall>k \<in> set (map fst props). map_of doc (YScalar k) = None)"

lemma foldR_known:
  assumes "yaml_cpp_laws Y" "\<forall>k \<in> fst ` set doc. k \<in> YScalar ` set known"
  shows "foldR (\<lambda>properties (k, x). bindR (yc_string Y k) (\<lambda>key.
       Inr (if key \<in> set known then properties else emplace key x properties))) m doc = Inr m"
  using assms(2) by (induction doc) (auto simp: yaml_cpp_lawsD [OF assms(1)])

lemma foldR_append: "foldR f s (xs @ ys) = bindR (foldR f s xs) (\<lambda>s'. foldR f s' ys)"
proof (induction xs arbitrary: s)
  case (Cons x xs)
  then show ?case by (cases "f s x") simp_all
qed simp

lemma foldR_properties:
  assumes "yaml_cpp_laws Y" "distinct (map fst props)" "set (map fst props) \<inter> set known = {}"
    "\<forall>k \<in> set (map fst props). fmlookup m k = None"
  shows "foldR (\<lambda>properties (k, x). bindR (yc_string Y k) (\<lambda>key.
       Inr (if key \<in> set known then properties else emplace key x properties))) m (property_entries props)
     = Inr (m ++\<^sub>f fmap_of_list props)"
  using assms(2-4)
proof (induction props arbitrary: m)
  case (Cons p props)
  obtain k v where p: "p = (k, v)" by (cases p)
  have e: "emplace k v m = fmupd k v m" using Cons.prems(3) p by (simp add: emplace_def)
  have "fmupd k v m ++\<^sub>f fmap_of_list props = m ++\<^sub>f fmupd k v (fmap_of_list props)"
    using Cons.prems(1) p
    by (intro fmap_ext) (auto simp: fmlookup_of_list fmdom'_notI map_add_def map_of_eq_None_iff fmdom_fmap_of_list
        fset_of_list.rep_eq split: option.split)
  moreover have "\<forall>k' \<in> set (map fst props). fmlookup (fmupd k v m) k' = None"
    using Cons.prems(1,3) p by auto
  ultimately show ?case using Cons.IH [of "fmupd k v m"] Cons.prems p
    by (simp add: yaml_cpp_lawsD [OF assms(1)] e)
qed simp

lemma ParseRemainingProperties_document:
  assumes "yaml_cpp_laws Y" "fresh_properties doc props"
    "list_all (\<lambda>e. fst e \<in> YScalar ` set known) doc" "list_all (\<lambda>k. map_of doc (YScalar k) \<noteq> None) known"
  shows "ParseRemainingProperties Y (YMap (doc @ property_entries props)) known = Inr (fmap_of_list props)"
proof -
  have "set (map fst props) \<inter> set known = {}"
    using assms(2,4) by (fastforce simp: fresh_properties_def list_all_iff)
  moreover have "\<forall>k \<in> fst ` set doc. k \<in> YScalar ` set known" using assms(3) by (simp add: list_all_iff)
  ultimately show ?thesis using assms(2)
    by (simp add: ParseRemainingProperties_def foldR_append foldR_known [OF assms(1)] foldR_properties [OF assms(1)]
        fresh_properties_def)
qed

definition document_FunctionFields :: "yaml_printer \<Rightarrow> FunctionFields \<Rightarrow> (yaml \<times> yaml) list" where
  "document_FunctionFields P f =
     [(YScalar ''functionName'', YScalar (functionName f)), (YScalar ''functionPackage'', YScalar (functionPackage f)),
      (YScalar ''publicFunction'', yp_bool P (publicFunction f)),
      (YScalar ''functionDescription'', YScalar (functionDescription f)),
      (YScalar ''functionInitializerGroup'', YScalar (functionInitializerGroup f)),
      (YScalar ''functionModule'', YScalar (functionModule f))]"

subsection \<open>A conforming instance\<close>

text \<open>Decimal and keyword scalars, lists of them, and bits in decimal for the floating-point types: one set of
  functions that meets the laws, for the concrete examples.\<close>

definition scalar_as :: "(string \<Rightarrow> 'a option) \<Rightarrow> yaml \<Rightarrow> (config_error, 'a) result" where
  "scalar_as read v =
     (case v of YScalar s \<Rightarrow> (case read s of Some x \<Rightarrow> Inr x | None \<Rightarrow> Inl YamlException) | _ \<Rightarrow> Inl YamlException)"

definition keyword_bool :: "string \<Rightarrow> bool option" where
  "keyword_bool s = (if s = ''true'' then Some True else if s = ''false'' then Some False else None)"

fun ints_as :: "yaml list \<Rightarrow> (config_error, int list) result" where
  "ints_as [] = Inr []"
| "ints_as (v # vs) = bindR (scalar_as int_of_decimal v) (\<lambda>i. bindR (ints_as vs) (\<lambda>is. Inr (i # is)))"

definition plain_yaml :: yaml_cpp where
  "plain_yaml =
     \<lparr>yc_subscript = (\<lambda>v k. case v of
          YMap es \<Rightarrow> Inr (case map_of es (YScalar k) of Some x \<Rightarrow> x | None \<Rightarrow> YUndefined)
        | YScalar _ \<Rightarrow> Inl YamlException | _ \<Rightarrow> Inr YUndefined),
      yc_string = scalar_as Some, yc_int = scalar_as int_of_decimal, yc_bool = scalar_as keyword_bool,
      yc_double = scalar_as (\<lambda>s. map_option of_nat (of_decimal 0 s)),
      yc_float = scalar_as (\<lambda>s. map_option of_nat (of_decimal 0 s)),
      yc_int_list = (\<lambda>v. case v of YSeq vs \<Rightarrow> ints_as vs | _ \<Rightarrow> Inl YamlException),
      yc_assign = (\<lambda>old new. if IsMissing old then Inl YamlException else Inr new),
      yc_load = (\<lambda>s. Inr (YScalar s)), yc_clone = (\<lambda>v. v),
      yc_store = (\<lambda>v k x. case v of YMap es \<Rightarrow> Inr (YMap (AList.update (YScalar k) x es)) | _ \<Rightarrow> Inl YamlException)\<rparr>"

definition plain_printer :: yaml_printer where
  "plain_printer =
     \<lparr>yp_int = (\<lambda>i. YScalar (int_to_decimal i)),
      yp_bool = (\<lambda>b. YScalar (if b then ''true'' else ''false'')),
      yp_double = (\<lambda>d. YScalar (to_decimal (unat d))), yp_float = (\<lambda>f. YScalar (to_decimal (unat f))),
      yp_int_list = (\<lambda>is. YSeq (map (\<lambda>i. YScalar (int_to_decimal i)) is))\<rparr>"

lemma plain_yaml_laws [simp]: "yaml_cpp_laws plain_yaml"
  by (simp add: yaml_cpp_laws_def plain_yaml_def scalar_as_def)

lemma plain_yaml_tree_laws [simp]: "yaml_tree_laws plain_yaml"
  by (simp add: yaml_tree_laws_def plain_yaml_def)

lemma ints_as_printed: "ints_as (map (\<lambda>i. YScalar (int_to_decimal i)) is) = Inr is"
  by (induction "is") (simp_all add: scalar_as_def)

lemma plain_yaml_reads [simp]: "yaml_reads plain_yaml plain_printer"
  by (simp add: yaml_reads_def plain_yaml_def plain_printer_def scalar_as_def keyword_bool_def ints_as_printed)

subsection \<open>What a merge means\<close>

text \<open>Merging as a function on trees, and that the source computes it on documents without aliases.\<close>

fun merge_trees :: "yaml \<Rightarrow> yaml \<Rightarrow> (config_error, yaml) result"
  and merge_entries :: "(yaml \<times> yaml) list \<Rightarrow> (yaml \<times> yaml) list \<Rightarrow> (config_error, (yaml \<times> yaml) list) result"
where
  "merge_trees base (YMap overrides) =
     (case base of
        YMap es \<Rightarrow> bindR (merge_entries es overrides) (\<lambda>r. Inr (YMap r))
      | _ \<Rightarrow> Inr (YMap overrides))"
| "merge_trees base overrides = Inr overrides"
| "merge_entries result [] = Inr result"
| "merge_entries result ((k, v) # rest) =
     (case k of
        YScalar key \<Rightarrow>
          bindR (case map_of result (YScalar key) of
                   Some current \<Rightarrow> if IsMissing current then Inr v else merge_trees current v
                 | None \<Rightarrow> Inr v)
            (\<lambda>x. merge_entries (AList.update (YScalar key) x result) rest)
      | _ \<Rightarrow> Inl (ConfigInvalidArgument ''configuration mapping keys must be scalar''))"

lemma DeepMerge_trees:
  assumes "yaml_cpp_laws Y" "yaml_tree_laws Y"
  shows "DeepMerge Y base overrides = merge_trees base overrides"
    "DeepMerge_entries Y (YMap result) rest = bindR (merge_entries result rest) (\<lambda>r. Inr (YMap r))"
proof (induction base overrides and result rest rule: merge_trees_merge_entries.induct)
  case (1 base overrides)
  then show ?case using assms(2) by (cases base) (simp_all add: yaml_tree_laws_def)
next
  case (4 result k v rest)
  show ?case
  proof (cases k)
    case (YScalar key)
    have store: "yc_store Y (YMap result) key x = Inr (YMap (AList.update (YScalar key) x result))" and clone: "yc_clone Y v = v" for x
      using assms(2) by (simp_all add: yaml_tree_laws_def)
    show ?thesis
    proof (cases "map_of result (YScalar key)")
      case None
      then show ?thesis using YScalar 4(2) [OF YScalar] by (simp add: yaml_cpp_lawsD [OF assms(1)] IsMissing_def store clone)
    next
      case (Some c)
      show ?thesis
      proof (cases "IsMissing c")
        case True
        then show ?thesis using YScalar Some 4(2) [OF YScalar] by (simp add: yaml_cpp_lawsD [OF assms(1)] store clone)
      next
        case False
        then show ?thesis
          using YScalar Some 4(1) [OF YScalar Some False] 4(2) [OF YScalar]
          by (cases "merge_trees c v") (simp_all add: yaml_cpp_lawsD [OF assms(1)] store)
      qed
    qed
  qed simp_all
qed (use assms(2) in \<open>simp_all add: yaml_tree_laws_def\<close>)

text \<open>Documents as the loader hands them over: keys are scalars and unique, every value is defined.\<close>

fun wf_yaml :: "yaml \<Rightarrow> bool" and wf_entries :: "(yaml \<times> yaml) list \<Rightarrow> bool" where
  "wf_yaml YUndefined = False"
| "wf_yaml (YMap es) = wf_entries es"
| "wf_yaml v = True"
| "wf_entries [] = True"
| "wf_entries ((k, v) # es) = (IsString k \<and> wf_yaml v \<and> k \<notin> fst ` set es \<and> wf_entries es)"

fun ypath :: "yaml \<Rightarrow> string list \<Rightarrow> yaml option" where
  "ypath v [] = Some v"
| "ypath (YMap es) (k # ks) = (case map_of es (YScalar k) of Some v \<Rightarrow> ypath v ks | None \<Rightarrow> None)"
| "ypath v (k # ks) = None"

lemma wf_entries_lookup: "wf_entries es \<Longrightarrow> map_of es k = Some v \<Longrightarrow> wf_yaml v"
  by (induction es) (auto split: if_splits)

lemma wf_yaml_defined: "wf_yaml v \<Longrightarrow> \<not> IsMissing v"
  by (auto simp: IsMissing_def)

lemma merge_trees_total:
  "wf_yaml overrides \<Longrightarrow> \<exists>r. merge_trees base overrides = Inr r"
  "wf_entries rest \<Longrightarrow> \<exists>r. merge_entries result rest = Inr r"
proof (induction base overrides and result rest rule: merge_trees_merge_entries.induct)
  case (1 base overrides)
  then show ?case by (auto split: yaml.split)
next
  case (4 result k v rest)
  then obtain key where k: "k = YScalar key" by (cases k) auto
  have v: "wf_yaml v" "wf_entries rest" using "4.prems" by simp_all
  show ?case
  proof (cases "map_of result (YScalar key)")
    case None
    then show ?thesis using k v 4(2) [OF k] by simp
  next
    case (Some c)
    then show ?thesis using k v 4 by (cases "IsMissing c") fastforce+
  qed
qed auto

lemma merge_entries_lookup:
  "merge_entries result rest = Inr r \<Longrightarrow> wf_entries rest \<Longrightarrow>
   map_of r k = (case map_of rest k of
      None \<Rightarrow> map_of result k
    | Some v \<Rightarrow> (case map_of result k of
         Some c \<Rightarrow> if IsMissing c then Some v else (case merge_trees c v of Inr x \<Rightarrow> Some x | Inl _ \<Rightarrow> None)
       | None \<Rightarrow> Some v))"
proof (induction rest arbitrary: result)
  case (Cons e rest)
  obtain key v where e: "e = (YScalar key, v)" using Cons.prems(2) by (cases e; cases "fst e") auto
  have w: "wf_entries rest" "map_of rest (YScalar key) = None"
    using Cons.prems(2) e by (simp_all add: map_of_eq_None_iff)
  obtain x where x: "(case map_of result (YScalar key) of
        Some c \<Rightarrow> if IsMissing c then Inr v else merge_trees c v | None \<Rightarrow> Inr v) = Inr x"
    and r: "merge_entries (AList.update (YScalar key) x result) rest = Inr r"
    using Cons.prems(1) e by (auto simp: bindR_eq_Inr)
  show ?case
    using Cons.IH [OF r w(1)] x w(2) e by (auto simp: update_conv' split: option.splits if_splits sum.splits)
qed simp

text \<open>A path leaves the overrides inside one of their mappings, so they say nothing about it.\<close>

fun untouched :: "yaml \<Rightarrow> string list \<Rightarrow> bool" where
  "untouched (YMap es) (k # ks) = (case map_of es (YScalar k) of Some v \<Rightarrow> untouched v ks | None \<Rightarrow> True)"
| "untouched v ks = False"

lemma untouched_absent: "untouched v ks \<Longrightarrow> ypath v ks = None"
  by (induction v ks rule: untouched.induct) (auto split: option.splits)

lemma merge_trees_step:
  assumes "merge_trees (YMap es) (YMap os) = Inr r" "wf_yaml (YMap es)" "wf_yaml (YMap os)"
  obtains rs where "r = YMap rs"
    and "\<And>k. map_of os k = None \<Longrightarrow> map_of rs k = map_of es k"
    and "\<And>k v. map_of os k = Some v \<Longrightarrow> map_of es k = None \<Longrightarrow> map_of rs k = Some v"
    and "\<And>k v c. map_of os k = Some v \<Longrightarrow> map_of es k = Some c \<Longrightarrow>
           \<exists>x. merge_trees c v = Inr x \<and> map_of rs k = Some x"
proof -
  obtain rs where r: "r = YMap rs" and e: "merge_entries es os = Inr rs"
    using assms(1) by (auto simp: bindR_eq_Inr)
  have w: "wf_entries os" "wf_entries es" using assms(2,3) by simp_all
  note l = merge_entries_lookup [OF e w(1)]
  have "\<exists>x. merge_trees c v = Inr x \<and> map_of rs k = Some x" if o: "map_of os k = Some v" and c: "map_of es k = Some c" for k v c
  proof -
    obtain x where "merge_trees c v = Inr x" using merge_trees_total(1) [OF wf_entries_lookup [OF w(1) o]] by blast
    then show ?thesis
      using l [of k] o c wf_yaml_defined [OF wf_entries_lookup [OF w(2) c]] by simp
  qed
  then show ?thesis using that [OF r] l by simp
qed

lemma merge_trees_overrides:
  "merge_trees base overrides = Inr r \<Longrightarrow> wf_yaml base \<Longrightarrow> wf_yaml overrides \<Longrightarrow>
   ypath overrides p = Some v \<Longrightarrow> \<not> IsObject v \<Longrightarrow> ypath r p = Some v"
proof (induction p arbitrary: base overrides r)
  case Nil
  then show ?case by (cases overrides) auto
next
  case (Cons k ks)
  obtain os v' where o: "overrides = YMap os" "map_of os (YScalar k) = Some v'" "ypath v' ks = Some v"
    using Cons.prems(4) by (cases overrides) (auto split: option.splits)
  show ?case
  proof (cases "\<exists>es. base = YMap es")
    case True
    then obtain es where b: "base = YMap es" ..
    show ?thesis
    proof (rule merge_trees_step [OF Cons.prems(1-3) [unfolded b o(1)]])
      fix rs
      assume r: "r = YMap rs"
        and n: "\<And>k v. map_of os k = Some v \<Longrightarrow> map_of es k = None \<Longrightarrow> map_of rs k = Some v"
        and m: "\<And>k v c. map_of os k = Some v \<Longrightarrow> map_of es k = Some c \<Longrightarrow>
          \<exists>x. merge_trees c v = Inr x \<and> map_of rs k = Some x"
      have w: "wf_yaml v'" using Cons.prems(3) o wf_entries_lookup by simp
      show ?thesis
      proof (cases "map_of es (YScalar k)")
        case None
        then show ?thesis using r n [OF o(2)] o(3) by simp
      next
        case (Some c)
        then obtain x where x: "merge_trees c v' = Inr x" "map_of rs (YScalar k) = Some x" using m [OF o(2)] by blast
        have "wf_yaml c" using Cons.prems(2) b Some wf_entries_lookup by simp
        then have "ypath x ks = Some v" by (rule Cons.IH [OF x(1) _ w o(3) Cons.prems(5)])
        then show ?thesis using r x(2) by simp
      qed
    qed
  next
    case False
    then have "r = overrides" using Cons.prems(1) o(1) by (cases base) simp_all
    then show ?thesis using Cons.prems(4) by simp
  qed
qed

lemma merge_trees_keeps:
  "merge_trees base overrides = Inr r \<Longrightarrow> wf_yaml base \<Longrightarrow> wf_yaml overrides \<Longrightarrow>
   untouched overrides p \<Longrightarrow> ypath r p = ypath base p"
proof (induction p arbitrary: base overrides r)
  case (Cons k ks)
  obtain os where o: "overrides = YMap os" using Cons.prems(4) by (cases overrides) auto
  show ?case
  proof (cases "\<exists>es. base = YMap es")
    case True
    then obtain es where b: "base = YMap es" ..
    show ?thesis
    proof (rule merge_trees_step [OF Cons.prems(1-3) [unfolded b o]])
      fix rs
      assume r: "r = YMap rs" and e: "\<And>k. map_of os k = None \<Longrightarrow> map_of rs k = map_of es k"
        and n: "\<And>k v. map_of os k = Some v \<Longrightarrow> map_of es k = None \<Longrightarrow> map_of rs k = Some v"
        and m: "\<And>k v c. map_of os k = Some v \<Longrightarrow> map_of es k = Some c \<Longrightarrow>
          \<exists>x. merge_trees c v = Inr x \<and> map_of rs k = Some x"
      show ?thesis
      proof (cases "map_of os (YScalar k)")
        case None
        then show ?thesis using r b e [OF None] by simp
      next
        case (Some v)
        have u: "untouched v ks" "wf_yaml v" using Cons.prems(3,4) o Some wf_entries_lookup by simp_all
        show ?thesis
        proof (cases "map_of es (YScalar k)")
          case None
          then show ?thesis using r b n [OF Some] untouched_absent [OF u(1)] by simp
        next
          case (Some c)
          obtain x where x: "merge_trees c v = Inr x" "map_of rs (YScalar k) = Some x"
            using m [OF \<open>map_of os (YScalar k) = Some v\<close> Some] by blast
          have "wf_yaml c" using Cons.prems(2) b Some wf_entries_lookup by simp
          then have "ypath x ks = ypath c ks" by (rule Cons.IH [OF x(1) _ u(2,1)])
          then show ?thesis using r b x(2) Some by simp
        qed
      qed
    qed
  next
    case False
    then have "r = overrides" "ypath base (k # ks) = None" using Cons.prems(1) o by (cases base; simp)+
    then show ?thesis using untouched_absent [OF Cons.prems(4)] by simp
  qed
qed (simp add: untouched.simps)



end
