(* ===== verification/ServiceApi.thy ===== *)
theory ServiceApi
  imports Yaml
begin

section \<open>The service API enumerations (api/serviceapi.hpp, api/serviceapi_parse.hpp)\<close>

text \<open>
  Every enumeration of the service description with the table of its spellings and its parser.
  An enumerator is prefixed with the name of its enumeration. \<open>ParseEnum\<close> is the search all
  parsers share; the lemmas show that each table spells every enumerator exactly once, so parsing
  inverts spelling.
\<close>

datatype ProgrammingLanguage =
    ProgrammingLanguage_kUndefined | ProgrammingLanguage_kGoLang | ProgrammingLanguage_kCppUserver
    | ProgrammingLanguage_kPython | ProgrammingLanguage_kRust | ProgrammingLanguage_kCppBoost
    | ProgrammingLanguage_kTypeScript

datatype JoinStorageType =
    JoinStorageType_kUndefined | JoinStorageType_kHashMap | JoinStorageType_kRocksDB
    | JoinStorageType_kAerospike

datatype TransformationType =
    TransformationType_kUndefined | TransformationType_kInput | TransformationType_kMap
    | TransformationType_kFilter | TransformationType_kJoin | TransformationType_kMultiJoin
    | TransformationType_kProcess | TransformationType_kFlatMap | TransformationType_kFlatMapIterable
    | TransformationType_kKeyBy | TransformationType_kMerge | TransformationType_kSplit
    | TransformationType_kCase | TransformationType_kSink | TransformationType_kCycleLink
    | TransformationType_kError | TransformationType_kDelay | TransformationType_kWhen
    | TransformationType_kSubStream

datatype JoinType =
    JoinType_kUndefined | JoinType_kInner | JoinType_kLeft | JoinType_kRight | JoinType_kOuter

datatype HTTPMethodType =
    HTTPMethodType_kUndefined | HTTPMethodType_kGET | HTTPMethodType_kPOST | HTTPMethodType_kPUT
    | HTTPMethodType_kPATCH | HTTPMethodType_kDELETE | HTTPMethodType_kHEAD | HTTPMethodType_kOPTIONS
    | HTTPMethodType_kTRACE | HTTPMethodType_kCONNECT

datatype GrpcMethodType =
    GrpcMethodType_kUndefined | GrpcMethodType_kNoStreaming | GrpcMethodType_kClientStreaming
    | GrpcMethodType_kServerStreaming | GrpcMethodType_kBidirectionalStreaming

datatype CallSemantics =
    CallSemantics_kUndefined | CallSemantics_kInherited | CallSemantics_kFunctionCall
    | CallSemantics_kTaskPool | CallSemantics_kPriorityTaskPool | CallSemantics_kParallelCall

datatype DataConnectorType =
    DataConnectorType_kUndefined | DataConnectorType_kHTTP | DataConnectorType_kGRPC
    | DataConnectorType_kKafka | DataConnectorType_kCustom | DataConnectorType_kCron
    | DataConnectorType_kTemporal

datatype ProcessPattern =
    ProcessPattern_kUndefined | ProcessPattern_kExecute | ProcessPattern_kCollect

datatype LogLevel =
    LogLevel_kUndefined | LogLevel_kCRITICAL | LogLevel_kFATAL | LogLevel_kERROR | LogLevel_kWARNING
    | LogLevel_kINFO | LogLevel_kDEBUG

datatype Environment =
    Environment_kUndefined | Environment_kLocal | Environment_kDebug | Environment_kStaging
    | Environment_kProduction

datatype KubernetesWorkloadType =
    KubernetesWorkloadType_kDeployment | KubernetesWorkloadType_kStatefulSet

datatype DataConnectorImplementation =
    DataConnectorImplementation_kUndefined | DataConnectorImplementation_kNetHTTP
    | DataConnectorImplementation_kFunction | DataConnectorImplementation_kIBMsarama
    | DataConnectorImplementation_kGoogleGRPC | DataConnectorImplementation_kUserverHTTP
    | DataConnectorImplementation_kUserverGRPC | DataConnectorImplementation_kUserverKafka
    | DataConnectorImplementation_kBoostBeastHTTP | DataConnectorImplementation_kAsioGRPC
    | DataConnectorImplementation_kLibrdkafka | DataConnectorImplementation_kAioHTTP
    | DataConnectorImplementation_kAioKafka | DataConnectorImplementation_kRustAxum
    | DataConnectorImplementation_kRustTonic | DataConnectorImplementation_kRustRdkafka
    | DataConnectorImplementation_kNodeHTTP | DataConnectorImplementation_kGrpcJS
    | DataConnectorImplementation_kConfluentKafkaJavaScript | DataConnectorImplementation_kGoGocron
    | DataConnectorImplementation_kPythonAPScheduler | DataConnectorImplementation_kRustCroner
    | DataConnectorImplementation_kNodeCroner | DataConnectorImplementation_kCppLibcron
    | DataConnectorImplementation_kTemporalGo | DataConnectorImplementation_kTemporalPython
    | DataConnectorImplementation_kTemporalTypeScript

datatype KafkaSecurityProtocol =
    KafkaSecurityProtocol_kPLAINTEXT | KafkaSecurityProtocol_kSASLPLAINTEXT
    | KafkaSecurityProtocol_kSASLSSL

datatype KafkaSaslMechanism =
    KafkaSaslMechanism_kPLAIN | KafkaSaslMechanism_kSCRAMSHA256 | KafkaSaslMechanism_kSCRAMSHA512

datatype ScheduleOverlapPolicy =
    ScheduleOverlapPolicy_kAllow | ScheduleOverlapPolicy_kSkip

datatype ScheduleMissedRunPolicy =
    ScheduleMissedRunPolicy_kSkip | ScheduleMissedRunPolicy_kFireOnce

datatype TemporalExecutionType =
    TemporalExecutionType_kActivity | TemporalExecutionType_kWorkflow

datatype TypeDefinitionFormat =
    TypeDefinitionFormat_kUndefined | TypeDefinitionFormat_kNative | TypeDefinitionFormat_kProtobuf
    | TypeDefinitionFormat_kFlatBuffers | TypeDefinitionFormat_kCapNProto | TypeDefinitionFormat_kOpenAPI

datatype DataType =
    DataType_kUndefined | DataType_kInt | DataType_kUint | DataType_kByte | DataType_kChar
    | DataType_kBoolean | DataType_kUnicodeChar | DataType_kString | DataType_kUnicodeString
    | DataType_kFloat | DataType_kDouble | DataType_kInt8 | DataType_kInt16 | DataType_kInt32
    | DataType_kInt64 | DataType_kUint8 | DataType_kUint16 | DataType_kUint32 | DataType_kUint64
    | DataType_kAny | DataType_kError | DataType_kArray | DataType_kMap | DataType_kStruct
    | DataType_kCustom

subsection \<open>Spellings and parsers\<close>

fun ParseEnum_search :: "string \<Rightarrow> (string \<times> 'e) list \<Rightarrow> (config_error, 'e) result" where
  "ParseEnum_search text [] = Inl (ConfigInvalidArgument (''unknown enum value: '' @ text))"
| "ParseEnum_search text ((name, parsed) # values) =
     (if name = text then Inr parsed else ParseEnum_search text values)"

definition ParseEnum :: "yaml_cpp \<Rightarrow> (string \<times> 'e) list \<Rightarrow> yaml \<Rightarrow> (config_error, 'e) result" where
  "ParseEnum Y values v = bindR (yc_string Y v) (\<lambda>text. ParseEnum_search text values)"

definition kProgrammingLanguageMap :: "(string \<times> ProgrammingLanguage) list" where
  "kProgrammingLanguageMap =
    [(''Undefined'', ProgrammingLanguage_kUndefined), (''GoLang'', ProgrammingLanguage_kGoLang),
     (''CppUserver'', ProgrammingLanguage_kCppUserver), (''Python'', ProgrammingLanguage_kPython),
     (''Rust'', ProgrammingLanguage_kRust), (''CppBoost'', ProgrammingLanguage_kCppBoost),
     (''TypeScript'', ProgrammingLanguage_kTypeScript)]"

definition Parse_ProgrammingLanguage :: "yaml_cpp \<Rightarrow> yaml \<Rightarrow> (config_error, ProgrammingLanguage) result" where
  "Parse_ProgrammingLanguage Y = ParseEnum Y kProgrammingLanguageMap"

definition kJoinStorageTypeMap :: "(string \<times> JoinStorageType) list" where
  "kJoinStorageTypeMap =
    [(''Undefined'', JoinStorageType_kUndefined), (''HashMap'', JoinStorageType_kHashMap),
     (''RocksDB'', JoinStorageType_kRocksDB), (''Aerospike'', JoinStorageType_kAerospike)]"

definition Parse_JoinStorageType :: "yaml_cpp \<Rightarrow> yaml \<Rightarrow> (config_error, JoinStorageType) result" where
  "Parse_JoinStorageType Y = ParseEnum Y kJoinStorageTypeMap"

definition kTransformationTypeMap :: "(string \<times> TransformationType) list" where
  "kTransformationTypeMap =
    [(''Undefined'', TransformationType_kUndefined), (''Input'', TransformationType_kInput),
     (''Map'', TransformationType_kMap), (''Filter'', TransformationType_kFilter),
     (''Join'', TransformationType_kJoin), (''MultiJoin'', TransformationType_kMultiJoin),
     (''Process'', TransformationType_kProcess), (''FlatMap'', TransformationType_kFlatMap),
     (''FlatMapIterable'', TransformationType_kFlatMapIterable),
     (''KeyBy'', TransformationType_kKeyBy), (''Merge'', TransformationType_kMerge),
     (''Split'', TransformationType_kSplit), (''Case'', TransformationType_kCase),
     (''Sink'', TransformationType_kSink), (''CycleLink'', TransformationType_kCycleLink),
     (''Error'', TransformationType_kError), (''Delay'', TransformationType_kDelay),
     (''When'', TransformationType_kWhen), (''SubStream'', TransformationType_kSubStream)]"

definition Parse_TransformationType :: "yaml_cpp \<Rightarrow> yaml \<Rightarrow> (config_error, TransformationType) result" where
  "Parse_TransformationType Y = ParseEnum Y kTransformationTypeMap"

definition kJoinTypeMap :: "(string \<times> JoinType) list" where
  "kJoinTypeMap =
    [(''Undefined'', JoinType_kUndefined), (''Inner'', JoinType_kInner), (''Left'', JoinType_kLeft),
     (''Right'', JoinType_kRight), (''Outer'', JoinType_kOuter)]"

definition Parse_JoinType :: "yaml_cpp \<Rightarrow> yaml \<Rightarrow> (config_error, JoinType) result" where
  "Parse_JoinType Y = ParseEnum Y kJoinTypeMap"

definition kHTTPMethodTypeMap :: "(string \<times> HTTPMethodType) list" where
  "kHTTPMethodTypeMap =
    [('''', HTTPMethodType_kUndefined), (''GET'', HTTPMethodType_kGET),
     (''POST'', HTTPMethodType_kPOST), (''PUT'', HTTPMethodType_kPUT),
     (''PATCH'', HTTPMethodType_kPATCH), (''DELETE'', HTTPMethodType_kDELETE),
     (''HEAD'', HTTPMethodType_kHEAD), (''OPTIONS'', HTTPMethodType_kOPTIONS),
     (''TRACE'', HTTPMethodType_kTRACE), (''CONNECT'', HTTPMethodType_kCONNECT)]"

definition Parse_HTTPMethodType :: "yaml_cpp \<Rightarrow> yaml \<Rightarrow> (config_error, HTTPMethodType) result" where
  "Parse_HTTPMethodType Y = ParseEnum Y kHTTPMethodTypeMap"

definition kGrpcMethodTypeMap :: "(string \<times> GrpcMethodType) list" where
  "kGrpcMethodTypeMap =
    [(''Undefined'', GrpcMethodType_kUndefined), (''NoStreaming'', GrpcMethodType_kNoStreaming),
     (''ClientStreaming'', GrpcMethodType_kClientStreaming),
     (''ServerStreaming'', GrpcMethodType_kServerStreaming),
     (''BidirectionalStreaming'', GrpcMethodType_kBidirectionalStreaming)]"

definition Parse_GrpcMethodType :: "yaml_cpp \<Rightarrow> yaml \<Rightarrow> (config_error, GrpcMethodType) result" where
  "Parse_GrpcMethodType Y = ParseEnum Y kGrpcMethodTypeMap"

definition kCallSemanticsMap :: "(string \<times> CallSemantics) list" where
  "kCallSemanticsMap =
    [(''Undefined'', CallSemantics_kUndefined), (''Inherited'', CallSemantics_kInherited),
     (''FunctionCall'', CallSemantics_kFunctionCall), (''TaskPool'', CallSemantics_kTaskPool),
     (''PriorityTaskPool'', CallSemantics_kPriorityTaskPool),
     (''ParallelCall'', CallSemantics_kParallelCall)]"

definition Parse_CallSemantics :: "yaml_cpp \<Rightarrow> yaml \<Rightarrow> (config_error, CallSemantics) result" where
  "Parse_CallSemantics Y = ParseEnum Y kCallSemanticsMap"

definition kDataConnectorTypeMap :: "(string \<times> DataConnectorType) list" where
  "kDataConnectorTypeMap =
    [(''Undefined'', DataConnectorType_kUndefined), (''HTTP'', DataConnectorType_kHTTP),
     (''gRPC'', DataConnectorType_kGRPC), (''Kafka'', DataConnectorType_kKafka),
     (''Custom'', DataConnectorType_kCustom), (''Cron'', DataConnectorType_kCron),
     (''Temporal'', DataConnectorType_kTemporal)]"

definition Parse_DataConnectorType :: "yaml_cpp \<Rightarrow> yaml \<Rightarrow> (config_error, DataConnectorType) result" where
  "Parse_DataConnectorType Y = ParseEnum Y kDataConnectorTypeMap"

definition kProcessPatternMap :: "(string \<times> ProcessPattern) list" where
  "kProcessPatternMap =
    [(''Undefined'', ProcessPattern_kUndefined), (''Execute'', ProcessPattern_kExecute),
     (''Collect'', ProcessPattern_kCollect)]"

definition Parse_ProcessPattern :: "yaml_cpp \<Rightarrow> yaml \<Rightarrow> (config_error, ProcessPattern) result" where
  "Parse_ProcessPattern Y = ParseEnum Y kProcessPatternMap"

definition kLogLevelMap :: "(string \<times> LogLevel) list" where
  "kLogLevelMap =
    [('''', LogLevel_kUndefined), (''CRITICAL'', LogLevel_kCRITICAL), (''FATAL'', LogLevel_kFATAL),
     (''ERROR'', LogLevel_kERROR), (''WARNING'', LogLevel_kWARNING), (''INFO'', LogLevel_kINFO),
     (''DEBUG'', LogLevel_kDEBUG)]"

definition Parse_LogLevel :: "yaml_cpp \<Rightarrow> yaml \<Rightarrow> (config_error, LogLevel) result" where
  "Parse_LogLevel Y = ParseEnum Y kLogLevelMap"

definition kEnvironmentMap :: "(string \<times> Environment) list" where
  "kEnvironmentMap =
    [('''', Environment_kUndefined), (''local'', Environment_kLocal),
     (''debug'', Environment_kDebug), (''staging'', Environment_kStaging),
     (''production'', Environment_kProduction)]"

definition Parse_Environment :: "yaml_cpp \<Rightarrow> yaml \<Rightarrow> (config_error, Environment) result" where
  "Parse_Environment Y = ParseEnum Y kEnvironmentMap"

definition kKubernetesWorkloadTypeMap :: "(string \<times> KubernetesWorkloadType) list" where
  "kKubernetesWorkloadTypeMap =
    [(''Deployment'', KubernetesWorkloadType_kDeployment),
     (''StatefulSet'', KubernetesWorkloadType_kStatefulSet)]"

definition Parse_KubernetesWorkloadType :: "yaml_cpp \<Rightarrow> yaml \<Rightarrow> (config_error, KubernetesWorkloadType) result" where
  "Parse_KubernetesWorkloadType Y = ParseEnum Y kKubernetesWorkloadTypeMap"

definition kDataConnectorImplementationMap :: "(string \<times> DataConnectorImplementation) list" where
  "kDataConnectorImplementationMap =
    [('''', DataConnectorImplementation_kUndefined),
     (''net/http'', DataConnectorImplementation_kNetHTTP),
     (''function'', DataConnectorImplementation_kFunction),
     (''IBM/Sarama'', DataConnectorImplementation_kIBMsarama),
     (''google/grpc'', DataConnectorImplementation_kGoogleGRPC),
     (''userver/http'', DataConnectorImplementation_kUserverHTTP),
     (''userver/grpc'', DataConnectorImplementation_kUserverGRPC),
     (''userver/kafka'', DataConnectorImplementation_kUserverKafka),
     (''boost/beast-http'', DataConnectorImplementation_kBoostBeastHTTP),
     (''asio/grpc'', DataConnectorImplementation_kAsioGRPC),
     (''librdkafka'', DataConnectorImplementation_kLibrdkafka),
     (''aiohttp'', DataConnectorImplementation_kAioHTTP),
     (''aiokafka'', DataConnectorImplementation_kAioKafka),
     (''rust/axum'', DataConnectorImplementation_kRustAxum),
     (''rust/tonic'', DataConnectorImplementation_kRustTonic),
     (''rust/rdkafka'', DataConnectorImplementation_kRustRdkafka),
     (''node/http'', DataConnectorImplementation_kNodeHTTP),
     (''grpc/grpc-js'', DataConnectorImplementation_kGrpcJS),
     (''confluent/kafka-javascript'', DataConnectorImplementation_kConfluentKafkaJavaScript),
     (''go/gocron'', DataConnectorImplementation_kGoGocron),
     (''python/apscheduler'', DataConnectorImplementation_kPythonAPScheduler),
     (''rust/croner'', DataConnectorImplementation_kRustCroner),
     (''node/croner'', DataConnectorImplementation_kNodeCroner),
     (''cpp/libcron'', DataConnectorImplementation_kCppLibcron),
     (''temporal/go'', DataConnectorImplementation_kTemporalGo),
     (''temporal/python'', DataConnectorImplementation_kTemporalPython),
     (''temporal/typescript'', DataConnectorImplementation_kTemporalTypeScript)]"

definition Parse_DataConnectorImplementation :: "yaml_cpp \<Rightarrow> yaml \<Rightarrow> (config_error, DataConnectorImplementation) result" where
  "Parse_DataConnectorImplementation Y = ParseEnum Y kDataConnectorImplementationMap"

definition kKafkaSecurityProtocolMap :: "(string \<times> KafkaSecurityProtocol) list" where
  "kKafkaSecurityProtocolMap =
    [(''PLAINTEXT'', KafkaSecurityProtocol_kPLAINTEXT),
     (''SASL_PLAINTEXT'', KafkaSecurityProtocol_kSASLPLAINTEXT),
     (''SASL_SSL'', KafkaSecurityProtocol_kSASLSSL)]"

definition Parse_KafkaSecurityProtocol :: "yaml_cpp \<Rightarrow> yaml \<Rightarrow> (config_error, KafkaSecurityProtocol) result" where
  "Parse_KafkaSecurityProtocol Y = ParseEnum Y kKafkaSecurityProtocolMap"

definition kKafkaSaslMechanismMap :: "(string \<times> KafkaSaslMechanism) list" where
  "kKafkaSaslMechanismMap =
    [(''PLAIN'', KafkaSaslMechanism_kPLAIN), (''SCRAM-SHA-256'', KafkaSaslMechanism_kSCRAMSHA256),
     (''SCRAM-SHA-512'', KafkaSaslMechanism_kSCRAMSHA512)]"

definition Parse_KafkaSaslMechanism :: "yaml_cpp \<Rightarrow> yaml \<Rightarrow> (config_error, KafkaSaslMechanism) result" where
  "Parse_KafkaSaslMechanism Y = ParseEnum Y kKafkaSaslMechanismMap"

definition kScheduleOverlapPolicyMap :: "(string \<times> ScheduleOverlapPolicy) list" where
  "kScheduleOverlapPolicyMap =
    [(''Allow'', ScheduleOverlapPolicy_kAllow), (''Skip'', ScheduleOverlapPolicy_kSkip)]"

definition Parse_ScheduleOverlapPolicy :: "yaml_cpp \<Rightarrow> yaml \<Rightarrow> (config_error, ScheduleOverlapPolicy) result" where
  "Parse_ScheduleOverlapPolicy Y = ParseEnum Y kScheduleOverlapPolicyMap"

definition kScheduleMissedRunPolicyMap :: "(string \<times> ScheduleMissedRunPolicy) list" where
  "kScheduleMissedRunPolicyMap =
    [(''Skip'', ScheduleMissedRunPolicy_kSkip), (''FireOnce'', ScheduleMissedRunPolicy_kFireOnce)]"

definition Parse_ScheduleMissedRunPolicy :: "yaml_cpp \<Rightarrow> yaml \<Rightarrow> (config_error, ScheduleMissedRunPolicy) result" where
  "Parse_ScheduleMissedRunPolicy Y = ParseEnum Y kScheduleMissedRunPolicyMap"

definition kTemporalExecutionTypeMap :: "(string \<times> TemporalExecutionType) list" where
  "kTemporalExecutionTypeMap =
    [(''Activity'', TemporalExecutionType_kActivity), (''Workflow'', TemporalExecutionType_kWorkflow)]"

definition Parse_TemporalExecutionType :: "yaml_cpp \<Rightarrow> yaml \<Rightarrow> (config_error, TemporalExecutionType) result" where
  "Parse_TemporalExecutionType Y = ParseEnum Y kTemporalExecutionTypeMap"

definition kTypeDefinitionFormatMap :: "(string \<times> TypeDefinitionFormat) list" where
  "kTypeDefinitionFormatMap =
    [(''Undefined'', TypeDefinitionFormat_kUndefined), (''Native'', TypeDefinitionFormat_kNative),
     (''Protobuf'', TypeDefinitionFormat_kProtobuf),
     (''FlatBuffers'', TypeDefinitionFormat_kFlatBuffers),
     (''CapNProto'', TypeDefinitionFormat_kCapNProto), (''OpenAPI'', TypeDefinitionFormat_kOpenAPI)]"

definition Parse_TypeDefinitionFormat :: "yaml_cpp \<Rightarrow> yaml \<Rightarrow> (config_error, TypeDefinitionFormat) result" where
  "Parse_TypeDefinitionFormat Y = ParseEnum Y kTypeDefinitionFormatMap"

definition kDataTypeMap :: "(string \<times> DataType) list" where
  "kDataTypeMap =
    [('''', DataType_kUndefined), (''int'', DataType_kInt), (''uint'', DataType_kUint),
     (''byte'', DataType_kByte), (''char'', DataType_kChar), (''boolean'', DataType_kBoolean),
     (''unicode char'', DataType_kUnicodeChar), (''string'', DataType_kString),
     (''unicode string'', DataType_kUnicodeString), (''float'', DataType_kFloat),
     (''double'', DataType_kDouble), (''int8'', DataType_kInt8), (''int16'', DataType_kInt16),
     (''int32'', DataType_kInt32), (''int64'', DataType_kInt64), (''uint8'', DataType_kUint8),
     (''uint16'', DataType_kUint16), (''uint32'', DataType_kUint32), (''uint64'', DataType_kUint64),
     (''any'', DataType_kAny), (''error'', DataType_kError), (''array'', DataType_kArray),
     (''map'', DataType_kMap), (''struct'', DataType_kStruct), (''custom'', DataType_kCustom)]"

definition Parse_DataType :: "yaml_cpp \<Rightarrow> yaml \<Rightarrow> (config_error, DataType) result" where
  "Parse_DataType Y = ParseEnum Y kDataTypeMap"

subsection \<open>What a table of spellings promises\<close>

fun spelling :: "(string \<times> 'e) list \<Rightarrow> 'e \<Rightarrow> string" where
  "spelling [] e = []"
| "spelling ((s, e') # t) e = (if e' = e then s else spelling t e)"

lemma ParseEnum_search_iff:
  "distinct (map fst tab) \<Longrightarrow> ParseEnum_search s tab = Inr e \<longleftrightarrow> (s, e) \<in> set tab"
  by (induction s tab rule: ParseEnum_search.induct) force+

lemma spelling_in: "e \<in> snd ` set tab \<Longrightarrow> (spelling tab e, e) \<in> set tab"
  by (induction tab e rule: spelling.induct) auto

locale enum_spellings =
  fixes tab :: "(string \<times> 'e) list"
  assumes names_distinct: "distinct (map fst tab)"
    and enumerators_distinct: "distinct (map snd tab)"
    and every_enumerator: "e \<in> snd ` set tab"
begin

lemma parse_iff: "yaml_cpp_laws Y \<Longrightarrow> ParseEnum Y tab (YScalar s) = Inr e \<longleftrightarrow> s = spelling tab e"
proof -
  assume Y: "yaml_cpp_laws Y"
  have "(s, e) \<in> set tab \<longleftrightarrow> s = spelling tab e"
    using spelling_in [OF every_enumerator, of e] eq_key_imp_eq_value [of "map prod.swap tab" e s "spelling tab e"]
      enumerators_distinct by (force simp: comp_def)
  then show ?thesis by (simp add: ParseEnum_def yaml_cpp_lawsD [OF Y] ParseEnum_search_iff [OF names_distinct])
qed

lemma value_spelled: "yaml_cpp_laws Y \<Longrightarrow> As_or (ParseEnum Y tab) d (YScalar (spelling tab e)) = Inr e"
  by (simp add: As_or_def IsMissing_def parse_iff)

lemma unique_spelling: "yaml_cpp_laws Y \<Longrightarrow> \<exists>!s. ParseEnum Y tab (YScalar s) = Inr e"
  by (simp add: parse_iff)

end

interpretation sp_ProgrammingLanguage: enum_spellings kProgrammingLanguageMap
  by unfold_locales (simp_all add: kProgrammingLanguageMap_def, case_tac e, simp_all)

interpretation sp_JoinStorageType: enum_spellings kJoinStorageTypeMap
  by unfold_locales (simp_all add: kJoinStorageTypeMap_def, case_tac e, simp_all)

interpretation sp_TransformationType: enum_spellings kTransformationTypeMap
  by unfold_locales (simp_all add: kTransformationTypeMap_def, case_tac e, simp_all)

interpretation sp_JoinType: enum_spellings kJoinTypeMap
  by unfold_locales (simp_all add: kJoinTypeMap_def, case_tac e, simp_all)

interpretation sp_HTTPMethodType: enum_spellings kHTTPMethodTypeMap
  by unfold_locales (simp_all add: kHTTPMethodTypeMap_def, case_tac e, simp_all)

interpretation sp_GrpcMethodType: enum_spellings kGrpcMethodTypeMap
  by unfold_locales (simp_all add: kGrpcMethodTypeMap_def, case_tac e, simp_all)

interpretation sp_CallSemantics: enum_spellings kCallSemanticsMap
  by unfold_locales (simp_all add: kCallSemanticsMap_def, case_tac e, simp_all)

interpretation sp_DataConnectorType: enum_spellings kDataConnectorTypeMap
  by unfold_locales (simp_all add: kDataConnectorTypeMap_def, case_tac e, simp_all)

interpretation sp_ProcessPattern: enum_spellings kProcessPatternMap
  by unfold_locales (simp_all add: kProcessPatternMap_def, case_tac e, simp_all)

interpretation sp_LogLevel: enum_spellings kLogLevelMap
  by unfold_locales (simp_all add: kLogLevelMap_def, case_tac e, simp_all)

interpretation sp_Environment: enum_spellings kEnvironmentMap
  by unfold_locales (simp_all add: kEnvironmentMap_def, case_tac e, simp_all)

interpretation sp_KubernetesWorkloadType: enum_spellings kKubernetesWorkloadTypeMap
  by unfold_locales (simp_all add: kKubernetesWorkloadTypeMap_def, case_tac e, simp_all)

interpretation sp_DataConnectorImplementation: enum_spellings kDataConnectorImplementationMap
  by unfold_locales (simp_all add: kDataConnectorImplementationMap_def, case_tac e, simp_all)

interpretation sp_KafkaSecurityProtocol: enum_spellings kKafkaSecurityProtocolMap
  by unfold_locales (simp_all add: kKafkaSecurityProtocolMap_def, case_tac e, simp_all)

interpretation sp_KafkaSaslMechanism: enum_spellings kKafkaSaslMechanismMap
  by unfold_locales (simp_all add: kKafkaSaslMechanismMap_def, case_tac e, simp_all)

interpretation sp_ScheduleOverlapPolicy: enum_spellings kScheduleOverlapPolicyMap
  by unfold_locales (simp_all add: kScheduleOverlapPolicyMap_def, case_tac e, simp_all)

interpretation sp_ScheduleMissedRunPolicy: enum_spellings kScheduleMissedRunPolicyMap
  by unfold_locales (simp_all add: kScheduleMissedRunPolicyMap_def, case_tac e, simp_all)

interpretation sp_TemporalExecutionType: enum_spellings kTemporalExecutionTypeMap
  by unfold_locales (simp_all add: kTemporalExecutionTypeMap_def, case_tac e, simp_all)

interpretation sp_TypeDefinitionFormat: enum_spellings kTypeDefinitionFormatMap
  by unfold_locales (simp_all add: kTypeDefinitionFormatMap_def, case_tac e, simp_all)

interpretation sp_DataType: enum_spellings kDataTypeMap
  by unfold_locales (simp_all add: kDataTypeMap_def, case_tac e, simp_all)

lemmas spelled_values =
  sp_ProgrammingLanguage.value_spelled [folded Parse_ProgrammingLanguage_def]
  sp_JoinStorageType.value_spelled [folded Parse_JoinStorageType_def]
  sp_TransformationType.value_spelled [folded Parse_TransformationType_def]
  sp_JoinType.value_spelled [folded Parse_JoinType_def]
  sp_HTTPMethodType.value_spelled [folded Parse_HTTPMethodType_def]
  sp_GrpcMethodType.value_spelled [folded Parse_GrpcMethodType_def]
  sp_CallSemantics.value_spelled [folded Parse_CallSemantics_def]
  sp_DataConnectorType.value_spelled [folded Parse_DataConnectorType_def]
  sp_ProcessPattern.value_spelled [folded Parse_ProcessPattern_def]
  sp_LogLevel.value_spelled [folded Parse_LogLevel_def]
  sp_Environment.value_spelled [folded Parse_Environment_def]
  sp_KubernetesWorkloadType.value_spelled [folded Parse_KubernetesWorkloadType_def]
  sp_DataConnectorImplementation.value_spelled [folded Parse_DataConnectorImplementation_def]
  sp_KafkaSecurityProtocol.value_spelled [folded Parse_KafkaSecurityProtocol_def]
  sp_KafkaSaslMechanism.value_spelled [folded Parse_KafkaSaslMechanism_def]
  sp_ScheduleOverlapPolicy.value_spelled [folded Parse_ScheduleOverlapPolicy_def]
  sp_ScheduleMissedRunPolicy.value_spelled [folded Parse_ScheduleMissedRunPolicy_def]
  sp_TemporalExecutionType.value_spelled [folded Parse_TemporalExecutionType_def]
  sp_TypeDefinitionFormat.value_spelled [folded Parse_TypeDefinitionFormat_def]
  sp_DataType.value_spelled [folded Parse_DataType_def]

lemmas read_back = field_defs field_lookup ParseFunctionFields_def document_FunctionFields_def printed_values printed_string
  spelled_values

subsection \<open>Properties\<close>

text \<open>Every enumerator of the service description has exactly one spelling in a configuration document: the
  tables of the twenty enumerations are complete, and no two names or enumerators collide.\<close>

theorem enum_unique_spellings:
  assumes "yaml_cpp_laws Y"
  shows "(\<forall>e. \<exists>!s. Parse_ProgrammingLanguage Y (YScalar s) = Inr e)
    \<and> (\<forall>e. \<exists>!s. Parse_JoinStorageType Y (YScalar s) = Inr e)
    \<and> (\<forall>e. \<exists>!s. Parse_TransformationType Y (YScalar s) = Inr e)
    \<and> (\<forall>e. \<exists>!s. Parse_JoinType Y (YScalar s) = Inr e)
    \<and> (\<forall>e. \<exists>!s. Parse_HTTPMethodType Y (YScalar s) = Inr e)
    \<and> (\<forall>e. \<exists>!s. Parse_GrpcMethodType Y (YScalar s) = Inr e)
    \<and> (\<forall>e. \<exists>!s. Parse_CallSemantics Y (YScalar s) = Inr e)
    \<and> (\<forall>e. \<exists>!s. Parse_DataConnectorType Y (YScalar s) = Inr e)
    \<and> (\<forall>e. \<exists>!s. Parse_ProcessPattern Y (YScalar s) = Inr e)
    \<and> (\<forall>e. \<exists>!s. Parse_LogLevel Y (YScalar s) = Inr e)
    \<and> (\<forall>e. \<exists>!s. Parse_Environment Y (YScalar s) = Inr e)
    \<and> (\<forall>e. \<exists>!s. Parse_KubernetesWorkloadType Y (YScalar s) = Inr e)
    \<and> (\<forall>e. \<exists>!s. Parse_DataConnectorImplementation Y (YScalar s) = Inr e)
    \<and> (\<forall>e. \<exists>!s. Parse_KafkaSecurityProtocol Y (YScalar s) = Inr e)
    \<and> (\<forall>e. \<exists>!s. Parse_KafkaSaslMechanism Y (YScalar s) = Inr e)
    \<and> (\<forall>e. \<exists>!s. Parse_ScheduleOverlapPolicy Y (YScalar s) = Inr e)
    \<and> (\<forall>e. \<exists>!s. Parse_ScheduleMissedRunPolicy Y (YScalar s) = Inr e)
    \<and> (\<forall>e. \<exists>!s. Parse_TemporalExecutionType Y (YScalar s) = Inr e)
    \<and> (\<forall>e. \<exists>!s. Parse_TypeDefinitionFormat Y (YScalar s) = Inr e)
    \<and> (\<forall>e. \<exists>!s. Parse_DataType Y (YScalar s) = Inr e)"
  unfolding Parse_ProgrammingLanguage_def Parse_JoinStorageType_def Parse_TransformationType_def Parse_JoinType_def
    Parse_HTTPMethodType_def Parse_GrpcMethodType_def Parse_CallSemantics_def Parse_DataConnectorType_def
    Parse_ProcessPattern_def Parse_LogLevel_def Parse_Environment_def Parse_KubernetesWorkloadType_def
    Parse_DataConnectorImplementation_def Parse_KafkaSecurityProtocol_def Parse_KafkaSaslMechanism_def Parse_ScheduleOverlapPolicy_def
    Parse_ScheduleMissedRunPolicy_def Parse_TemporalExecutionType_def Parse_TypeDefinitionFormat_def Parse_DataType_def
  by (intro conjI allI; rule sp_ProgrammingLanguage.unique_spelling [OF assms] sp_JoinStorageType.unique_spelling [OF assms]
    sp_TransformationType.unique_spelling [OF assms] sp_JoinType.unique_spelling [OF assms]
    sp_HTTPMethodType.unique_spelling [OF assms] sp_GrpcMethodType.unique_spelling [OF assms]
    sp_CallSemantics.unique_spelling [OF assms] sp_DataConnectorType.unique_spelling [OF assms]
    sp_ProcessPattern.unique_spelling [OF assms] sp_LogLevel.unique_spelling [OF assms]
    sp_Environment.unique_spelling [OF assms] sp_KubernetesWorkloadType.unique_spelling [OF assms]
    sp_DataConnectorImplementation.unique_spelling [OF assms] sp_KafkaSecurityProtocol.unique_spelling [OF assms]
    sp_KafkaSaslMechanism.unique_spelling [OF assms] sp_ScheduleOverlapPolicy.unique_spelling [OF assms]
    sp_ScheduleMissedRunPolicy.unique_spelling [OF assms] sp_TemporalExecutionType.unique_spelling [OF assms]
    sp_TypeDefinitionFormat.unique_spelling [OF assms] sp_DataType.unique_spelling [OF assms])

theorem enum_unique_spellings_witness:
  "yaml_cpp_laws plain_yaml \<and> (\<exists>!s. Parse_DataConnectorType plain_yaml (YScalar s) = Inr DataConnectorType_kGRPC)"
  using enum_unique_spellings [OF plain_yaml_laws] by simp

end
