(* ===== verification/JoinStore.thy ===== *)
theory JoinStore
  imports RotatingMap ServiceApi
begin

section \<open>The join storage (runtime/store/joinstore.hpp, hashmap.hpp)\<close>

text \<open>
  \<open>HashMapJoinStorage\<close> keeps, per key, the values that wait for a join. Items are shared
  objects (\<open>std::shared_ptr<Item>\<close>), so the model has an explicit heap: \<open>hs_items\<close>, indexed by
  item number, and the two generations of the table map keys to item numbers. Each function below
  is one critical section of the source: the sections under the state mutex, the section of
  \<open>joinValue\<close> under the item mutex, the expiry callback, which runs outside both. The threads
  that execute them are program counters (\<open>hs_pc\<close>), and \<open>hs_reach\<close> interleaves any number of
  \<open>joinValue\<close> calls, expiry handlers, rotations and a \<open>stop()\<close> at that granularity.
  The callback of a join is a parameter: a function on the stored values that returns whether the
  join is complete. \<open>hs_expiries\<close> records the expiry handlers that were armed (each may run at
  any later time, or never) and \<open>hs_log\<close> the callback invocations.
\<close>

subsection \<open>State\<close>

record JoinStorageConfig =
  jsc_name :: string
  jsc_ttl :: int
  jsc_renewTtl :: bool

text \<open>\<open>std::chrono::milliseconds(ttl)\<close> in ticks of the steady clock (nanoseconds).\<close>

definition makeJoinStorageConfig :: "string \<Rightarrow> int \<Rightarrow> bool \<Rightarrow> JoinStorageConfig" where
  "makeJoinStorageConfig name ttl renewTTL =
     \<lparr>jsc_name = name, jsc_ttl = ttl * 1000000, jsc_renewTtl = renewTTL\<rparr>"

type_synonym 'v JoinValues = "'v list list"
type_synonym 'v JoinValueFunction = "'v JoinValues \<Rightarrow> bool \<times> 'v JoinValues"

record 'v hs_Item =
  it_values :: "'v JoinValues"
  it_callback :: "'v JoinValueFunction"
  it_deadline :: "int option"
  it_generation :: u64
  it_processed :: bool

datatype hs_call = NormalCall bool | ExpiryCall

record ('k, 'v) hs_State =
  hs_config :: JoinStorageConfig
  hs_metricsEnabled :: bool
  hs_current :: "('k, nat) fmap"
  hs_previous :: "('k, nat) fmap"
  hs_highWaterMark :: nat
  hs_evictions :: nat
  hs_count :: int
  hs_evictionsTotal :: nat
  hs_running :: bool
  hs_stopped :: bool
  hs_rotationArmed :: bool
  hs_items :: "'v hs_Item list"
  hs_expiries :: "('k \<times> nat \<times> u64) list"
  hs_log :: "(nat \<times> hs_call) list"

definition HashMapJoinStorage :: "bool \<Rightarrow> JoinStorageConfig \<Rightarrow> ('k, 'v) hs_State" where
  "HashMapJoinStorage metricsEnabled config =
     \<lparr>hs_config = config, hs_metricsEnabled = metricsEnabled, hs_current = fmempty,
      hs_previous = fmempty, hs_highWaterMark = 0, hs_evictions = 0, hs_count = 0,
      hs_evictionsTotal = 0, hs_running = False, hs_stopped = False, hs_rotationArmed = False,
      hs_items = [], hs_expiries = [], hs_log = []\<rparr>"

fun makeJoinStorage ::
  "JoinStorageType \<Rightarrow> bool \<Rightarrow> JoinStorageConfig \<Rightarrow> (store_error, ('k, 'v) hs_State) result"
where
  "makeJoinStorage JoinStorageType_kHashMap metricsEnabled config = Inr (HashMapJoinStorage metricsEnabled config)"
| "makeJoinStorage _ metricsEnabled config = Inl UnsupportedStoreError"

definition hs_destroy :: "('k, 'v) hs_State \<Rightarrow> (store_error, unit) result" where
  "hs_destroy st = (if hs_running st then Inl StoreTerminate else Inr ())"

definition hs_size :: "('k, 'v) hs_State \<Rightarrow> nat" where
  "hs_size st = fmsize (hs_current st) + fmsize (hs_previous st)"

definition hs_update_item ::
  "nat \<Rightarrow> ('v hs_Item \<Rightarrow> 'v hs_Item) \<Rightarrow> ('k, 'v) hs_State \<Rightarrow> ('k, 'v) hs_State"
where
  "hs_update_item i f st = st\<lparr>hs_items := (hs_items st)[i := f (hs_items st ! i)]\<rparr>"

subsection \<open>Sections under the state mutex\<close>

definition hs_ArmRotation :: "('k, 'v) hs_State \<Rightarrow> ('k, 'v) hs_State" where
  "hs_ArmRotation st = st\<lparr>hs_rotationArmed := True\<rparr>"

definition hs_start :: "('k, 'v) hs_State \<Rightarrow> (store_error, ('k, 'v) hs_State) result" where
  "hs_start st =
     (if hs_running st then Inl StoreAlreadyStartedError
      else if hs_stopped st then Inl StoreStoppedError
      else let st = st\<lparr>hs_running := True\<rparr> in
           Inr (if jsc_ttl (hs_config st) > 0 then hs_ArmRotation st else st))"

definition hs_EffectiveDeadline :: "int option \<Rightarrow> int \<Rightarrow> ('k, 'v) hs_State \<Rightarrow> int option" where
  "hs_EffectiveDeadline contextDeadline now st =
     (case contextDeadline of
        Some d \<Rightarrow> Some d
      | None \<Rightarrow> if jsc_ttl (hs_config st) > 0 then Some (now + jsc_ttl (hs_config st)) else None)"

definition hs_FindOrCreate ::
  "'k \<Rightarrow> nat \<Rightarrow> 'v JoinValueFunction \<Rightarrow> ('k, 'v) hs_State
    \<Rightarrow> (store_error, (nat \<times> bool) \<times> ('k, 'v) hs_State) result"
where
  "hs_FindOrCreate key index callback st =
     (if \<not> hs_running st
      then (if hs_stopped st then Inl StoreStoppedError else Inl StoreNotStartedError)
      else case fmlookup (hs_current st) key of
        Some i \<Rightarrow> Inr ((i, False), st)
      | None \<Rightarrow>
         (case fmlookup (hs_previous st) key of
            Some i \<Rightarrow> Inr ((i, False), st)
          | None \<Rightarrow>
              let i = length (hs_items st);
                  item = \<lparr>it_values = replicate (index + 1) [], it_callback = callback,
                          it_deadline = None, it_generation = 0, it_processed = False\<rparr>;
                  st = st\<lparr>hs_items := hs_items st @ [item], hs_current := fmupd key i (hs_current st)\<rparr>;
                  st = (if hs_metricsEnabled st then st\<lparr>hs_count := hs_count st + 1\<rparr> else st)
              in Inr ((i, True), st)))"

definition hs_RemoveIfSame :: "'k \<Rightarrow> nat \<Rightarrow> bool \<Rightarrow> ('k, 'v) hs_State \<Rightarrow> ('k, 'v) hs_State" where
  "hs_RemoveIfSame key i eviction st =
     (let inCurrent = (fmlookup (hs_current st) key = Some i);
          inPrevious = (fmlookup (hs_previous st) key = Some i);
          removed = (inCurrent \<or> inPrevious);
          st = (if inCurrent then st\<lparr>hs_current := fmdrop key (hs_current st)\<rparr> else st);
          st = (if inPrevious then st\<lparr>hs_previous := fmdrop key (hs_previous st)\<rparr> else st);
          st = (if removed \<and> hs_metricsEnabled st then st\<lparr>hs_count := hs_count st - 1\<rparr> else st)
      in if removed \<and> eviction
         then let st = st\<lparr>hs_evictions := hs_evictions st + 1\<rparr> in
              (if hs_metricsEnabled st then st\<lparr>hs_evictionsTotal := hs_evictionsTotal st + 1\<rparr> else st)
         else st)"

definition hs_MoveToCurrent :: "'k \<Rightarrow> nat \<Rightarrow> ('k, 'v) hs_State \<Rightarrow> ('k, 'v) hs_State" where
  "hs_MoveToCurrent key i st =
     (if fmlookup (hs_previous st) key = Some i
      then st\<lparr>hs_previous := fmdrop key (hs_previous st), hs_current := fmupd key i (hs_current st)\<rparr>
      else st)"

text \<open>\<open>try_emplace\<close> of \<open>previous\<close> into \<open>current\<close> keeps the entries of \<open>current\<close>.\<close>

definition hs_Rotate :: "('k, 'v) hs_State \<Rightarrow> ('k, 'v) hs_State" where
  "hs_Rotate st =
     (let total = fmsize (hs_current st) + fmsize (hs_previous st);
          shouldRotate = (hs_highWaterMark st = 0 \<or> total < (hs_highWaterMark st + 3) div 4);
          st = st\<lparr>hs_highWaterMark := max (hs_highWaterMark st) total\<rparr>
      in if \<not> shouldRotate then st
         else st\<lparr>hs_highWaterMark := total,
                 hs_previous := hs_previous st ++\<^sub>f hs_current st, hs_current := fmempty\<rparr>)"

definition hs_on_rotation :: "bool \<Rightarrow> ('k, 'v) hs_State \<Rightarrow> ('k, 'v) hs_State" where
  "hs_on_rotation cancelled st =
     (if cancelled then st
      else let st = hs_Rotate (st\<lparr>hs_rotationArmed := False\<rparr>) in
           if hs_running st then hs_ArmRotation st else st)"

text \<open>The items that \<open>stop()\<close> collects, in no particular order: the mapped item numbers.\<close>

definition hs_mapped :: "('k, 'v) hs_State \<Rightarrow> nat fset" where
  "hs_mapped st = fmran (hs_current st) |\<union>| fmran (hs_previous st)"

definition hs_stop_begin :: "('k, 'v) hs_State \<Rightarrow> nat list \<times> ('k, 'v) hs_State" where
  "hs_stop_begin st =
     (if hs_stopped st then ([], st)
      else let items = sorted_list_of_fset (hs_mapped st);
               count = fmsize (hs_current st) + fmsize (hs_previous st);
               st = st\<lparr>hs_running := False, hs_stopped := True, hs_rotationArmed := False,
                       hs_current := fmempty, hs_previous := fmempty\<rparr>
           in (items, if hs_metricsEnabled st \<and> count \<noteq> 0
                      then st\<lparr>hs_count := hs_count st - int count\<rparr> else st))"

subsection \<open>Sections under the item mutex\<close>

definition hs_stop_item :: "nat \<Rightarrow> ('k, 'v) hs_State \<Rightarrow> ('k, 'v) hs_State" where
  "hs_stop_item i st =
     hs_update_item i (\<lambda>it. it\<lparr>it_processed := True, it_generation := it_generation it + 1\<rparr>) st"

definition hs_stop :: "('k, 'v) hs_State \<Rightarrow> ('k, 'v) hs_State" where
  "hs_stop st = (case hs_stop_begin st of (items, st) \<Rightarrow> fold hs_stop_item items st)"

text \<open>The handlers armed by \<open>ArmExpiry\<close> (the timer wait and the stop callbacks of the context)
  all run \<open>Expire\<close> with the generation at arming time.\<close>

definition hs_ArmExpiry :: "'k \<Rightarrow> nat \<Rightarrow> ('k, 'v) hs_State \<Rightarrow> ('k, 'v) hs_State" where
  "hs_ArmExpiry key i st =
     (let st = hs_update_item i (\<lambda>it. it\<lparr>it_generation := it_generation it + 1\<rparr>) st
      in st\<lparr>hs_expiries := hs_expiries st @ [(key, i, it_generation (hs_items st ! i))]\<rparr>)"

definition hs_store_value :: "nat \<Rightarrow> 'v \<Rightarrow> 'v JoinValues \<Rightarrow> 'v JoinValues" where
  "hs_store_value index v values =
     (let values = (if length values \<le> index
                    then values @ replicate (index + 1 - length values) [] else values)
      in values[index := values ! index @ [v]])"

datatype hs_outcome = HsRetry | HsExpired | HsCompleted | HsStored

definition hs_join_locked ::
  "int \<Rightarrow> 'k \<Rightarrow> nat \<Rightarrow> 'v \<Rightarrow> 'v JoinValueFunction \<Rightarrow> int option \<Rightarrow> nat \<Rightarrow> bool
    \<Rightarrow> ('k, 'v) hs_State \<Rightarrow> hs_outcome \<times> ('k, 'v) hs_State"
where
  "hs_join_locked now key index v callback effectiveDeadline i created st =
     (let item = hs_items st ! i in
      if it_processed item then (HsRetry, st)
      else if (case it_deadline item of Some d \<Rightarrow> d \<le> now | None \<Rightarrow> False)
      then (HsExpired, hs_update_item i (\<lambda>it. it\<lparr>it_processed := True\<rparr>) st)
      else
        let st = (if created \<and> effectiveDeadline \<noteq> None
                  then hs_ArmExpiry key i (hs_update_item i (\<lambda>it. it\<lparr>it_deadline := effectiveDeadline\<rparr>) st)
                  else if \<not> created \<and> jsc_renewTtl (hs_config st) \<and> effectiveDeadline \<noteq> None
                  then hs_MoveToCurrent key i
                         (hs_ArmExpiry key i (hs_update_item i (\<lambda>it. it\<lparr>it_deadline := effectiveDeadline\<rparr>) st))
                  else st);
            (processed, values) = callback (hs_store_value index v (it_values (hs_items st ! i)));
            st = hs_update_item i (\<lambda>it. it\<lparr>it_values := values, it_processed := processed,
                   it_generation := (if processed then it_generation it + 1 else it_generation it)\<rparr>) st;
            st = st\<lparr>hs_log := hs_log st @ [(i, NormalCall processed)]\<rparr>
        in (if processed then HsCompleted else HsStored, st))"

definition hs_Expire_locked :: "nat \<Rightarrow> u64 \<Rightarrow> ('k, 'v) hs_State \<Rightarrow> bool \<times> ('k, 'v) hs_State" where
  "hs_Expire_locked i generation st =
     (let item = hs_items st ! i in
      if it_processed item \<or> it_generation item \<noteq> generation then (False, st)
      else (True, hs_update_item i (\<lambda>it. it\<lparr>it_processed := True\<rparr>) st))"

text \<open>The expiry callback, outside both mutexes; its result is discarded.\<close>

definition hs_call_expiry :: "nat \<Rightarrow> ('k, 'v) hs_State \<Rightarrow> ('k, 'v) hs_State" where
  "hs_call_expiry i st =
     (let st = hs_update_item i (\<lambda>it. it\<lparr>it_values := snd (it_callback it (it_values it))\<rparr>) st
      in st\<lparr>hs_log := hs_log st @ [(i, ExpiryCall)]\<rparr>)"

subsection \<open>Whole operations\<close>

text \<open>\<open>Expire\<close> and \<open>joinValue\<close> as one thread executes them alone. The loop of
  \<open>joinValue\<close> is bounded by fuel, \<open>None\<close> is running out of it; \<open>now\<close> is the clock.\<close>

definition hs_Expire :: "'k \<Rightarrow> nat \<Rightarrow> u64 \<Rightarrow> ('k, 'v) hs_State \<Rightarrow> ('k, 'v) hs_State" where
  "hs_Expire key i generation st =
     (case hs_Expire_locked i generation st of
        (False, st) \<Rightarrow> st
      | (True, st) \<Rightarrow> hs_RemoveIfSame key i True (hs_call_expiry i st))"

fun hs_join_loop ::
  "nat \<Rightarrow> int \<Rightarrow> 'k \<Rightarrow> nat \<Rightarrow> 'v \<Rightarrow> 'v JoinValueFunction \<Rightarrow> int option \<Rightarrow> ('k, 'v) hs_State
    \<Rightarrow> (store_error, ('k, 'v) hs_State) result option"
where
  "hs_join_loop 0 now key index v callback effectiveDeadline st = None"
| "hs_join_loop (Suc fuel) now key index v callback effectiveDeadline st =
     (case hs_FindOrCreate key index callback st of
        Inl e \<Rightarrow> Some (Inl e)
      | Inr ((i, created), st) \<Rightarrow>
         (case hs_join_locked now key index v callback effectiveDeadline i created st of
            (HsRetry, st) \<Rightarrow> hs_join_loop fuel now key index v callback effectiveDeadline st
          | (HsExpired, st) \<Rightarrow>
              hs_join_loop fuel now key index v callback effectiveDeadline
                (hs_RemoveIfSame key i True (hs_call_expiry i st))
          | (HsCompleted, st) \<Rightarrow> Some (Inr (hs_RemoveIfSame key i False st))
          | (HsStored, st) \<Rightarrow> Some (Inr st)))"

definition hs_joinValue ::
  "nat \<Rightarrow> int \<Rightarrow> int option \<Rightarrow> 'k \<Rightarrow> nat \<Rightarrow> 'v \<Rightarrow> 'v JoinValueFunction option \<Rightarrow> ('k, 'v) hs_State
    \<Rightarrow> (store_error, ('k, 'v) hs_State) result option"
where
  "hs_joinValue fuel now contextDeadline key index v callback st =
     (case callback of
        None \<Rightarrow> Some (Inl (StoreInvalidArgument ''join callback is required''))
      | Some f \<Rightarrow> hs_join_loop fuel now key index v f (hs_EffectiveDeadline contextDeadline now st) st)"

subsection \<open>Threads and their interleaving\<close>

datatype ('k, 'v) hs_task =
  HsTask 'k nat 'v "'v JoinValueFunction" "int option"

datatype ('k, 'v) hs_pc =
    PcIdle
  | PcFailed store_error
  | PcFind "('k, 'v) hs_task"
  | PcLock "('k, 'v) hs_task" nat bool
  | PcExpire 'k nat u64
  | PcCallExpiry 'k nat "('k, 'v) hs_task option"
  | PcRemove 'k nat bool "('k, 'v) hs_task option"
  | PcStop "nat list"

text \<open>After an expiry callback the loop of \<open>joinValue\<close> continues with its task; the handler
  \<open>Expire\<close> is done.\<close>

definition hs_continue :: "('k, 'v) hs_task option \<Rightarrow> ('k, 'v) hs_pc" where
  "hs_continue k = (case k of Some t \<Rightarrow> PcFind t | None \<Rightarrow> PcIdle)"

fun hs_thread_step ::
  "int \<Rightarrow> ('k, 'v) hs_pc \<Rightarrow> ('k, 'v) hs_State \<Rightarrow> ('k, 'v) hs_pc \<times> ('k, 'v) hs_State"
where
  "hs_thread_step now PcIdle st = (PcIdle, st)"
| "hs_thread_step now (PcFailed e) st = (PcFailed e, st)"
| "hs_thread_step now (PcFind (HsTask key index v callback effectiveDeadline)) st =
     (case hs_FindOrCreate key index callback st of
        Inl e \<Rightarrow> (PcFailed e, st)
      | Inr ((i, created), st') \<Rightarrow>
          (PcLock (HsTask key index v callback effectiveDeadline) i created, st'))"
| "hs_thread_step now (PcLock (HsTask key index v callback effectiveDeadline) i created) st =
     (case hs_join_locked now key index v callback effectiveDeadline i created st of
        (HsRetry, st') \<Rightarrow> (PcFind (HsTask key index v callback effectiveDeadline), st')
      | (HsExpired, st') \<Rightarrow> (PcCallExpiry key i (Some (HsTask key index v callback effectiveDeadline)), st')
      | (HsCompleted, st') \<Rightarrow> (PcRemove key i False None, st')
      | (HsStored, st') \<Rightarrow> (PcIdle, st'))"
| "hs_thread_step now (PcExpire key i generation) st =
     (case hs_Expire_locked i generation st of
        (False, st') \<Rightarrow> (PcIdle, st')
      | (True, st') \<Rightarrow> (PcCallExpiry key i None, st'))"
| "hs_thread_step now (PcCallExpiry key i k) st = (PcRemove key i True k, hs_call_expiry i st)"
| "hs_thread_step now (PcRemove key i eviction k) st = (hs_continue k, hs_RemoveIfSame key i eviction st)"
| "hs_thread_step now (PcStop []) st = (PcIdle, st)"
| "hs_thread_step now (PcStop (i # is)) st = (PcStop is, hs_stop_item i st)"

record ('k, 'v) hs_World =
  hw_state :: "('k, 'v) hs_State"
  hw_threads :: "nat \<Rightarrow> ('k, 'v) hs_pc"

inductive hs_reach :: "bool \<Rightarrow> JoinStorageConfig \<Rightarrow> ('k, 'v) hs_World \<Rightarrow> bool" for me config where
  init: "hs_reach me config \<lparr>hw_state = HashMapJoinStorage me config, hw_threads = (\<lambda>_. PcIdle)\<rparr>"
| start: "hs_reach me config w \<Longrightarrow> hs_start (hw_state w) = Inr st \<Longrightarrow> hs_reach me config (w\<lparr>hw_state := st\<rparr>)"
| join: "hs_reach me config w \<Longrightarrow> hw_threads w t = PcIdle \<Longrightarrow>
    hs_reach me config (w\<lparr>hw_threads := (hw_threads w)(t := PcFind task)\<rparr>)"
| expire: "hs_reach me config w \<Longrightarrow> hw_threads w t = PcIdle \<Longrightarrow>
    (key, i, generation) \<in> set (hs_expiries (hw_state w)) \<Longrightarrow>
    hs_reach me config (w\<lparr>hw_threads := (hw_threads w)(t := PcExpire key i generation)\<rparr>)"
| rotation: "hs_reach me config w \<Longrightarrow>
    hs_reach me config (w\<lparr>hw_state := hs_on_rotation cancelled (hw_state w)\<rparr>)"
| stop: "hs_reach me config w \<Longrightarrow> hw_threads w t = PcIdle \<Longrightarrow>
    hs_stop_begin (hw_state w) = (items, st) \<Longrightarrow>
    hs_reach me config \<lparr>hw_state = st, hw_threads = (hw_threads w)(t := PcStop items)\<rparr>"
| step: "hs_reach me config w \<Longrightarrow> hs_thread_step now (hw_threads w t) (hw_state w) = (pc, st) \<Longrightarrow>
    hs_reach me config \<lparr>hw_state = st, hw_threads = (hw_threads w)(t := pc)\<rparr>"

subsection \<open>Invariants\<close>

text \<open>The tables: generations disjoint, items allocated, gauge and counters in step.\<close>

definition hs_tables_ok :: "('k, 'v) hs_State \<Rightarrow> bool" where
  "hs_tables_ok st \<longleftrightarrow>
     fmdom (hs_current st) |\<inter>| fmdom (hs_previous st) = {||}
     \<and> (\<forall>i. i |\<in>| hs_mapped st \<longrightarrow> i < length (hs_items st))
     \<and> (hs_metricsEnabled st \<longrightarrow> hs_count st = int (hs_size st) \<and> hs_evictionsTotal st = hs_evictions st)
     \<and> (\<not> hs_metricsEnabled st \<longrightarrow> hs_count st = 0 \<and> hs_evictionsTotal st = 0)
     \<and> \<not> (hs_running st \<and> hs_stopped st)"

text \<open>The calls made for an item: any number of incomplete normal calls, then at most one final call.\<close>

definition hs_calls :: "('k, 'v) hs_State \<Rightarrow> nat \<Rightarrow> hs_call list" where
  "hs_calls st i = map snd (filter (\<lambda>c. fst c = i) (hs_log st))"

definition hs_open :: "hs_call list \<Rightarrow> bool" where
  "hs_open cs \<longleftrightarrow> (\<forall>c \<in> set cs. c = NormalCall False)"

definition hs_closed :: "hs_call list \<Rightarrow> bool" where
  "hs_closed cs \<longleftrightarrow> cs \<noteq> [] \<and> hs_open (butlast cs) \<and> last cs \<in> {NormalCall True, ExpiryCall}"

fun hs_expiring :: "nat \<Rightarrow> ('k, 'v) hs_pc \<Rightarrow> bool" where
  "hs_expiring i (PcCallExpiry key j k) = (i = j)"
| "hs_expiring i _ = False"

fun hs_pc_items :: "('k, 'v) hs_pc \<Rightarrow> nat list" where
  "hs_pc_items (PcLock task i created) = [i]"
| "hs_pc_items (PcExpire key i generation) = [i]"
| "hs_pc_items (PcCallExpiry key i k) = [i]"
| "hs_pc_items (PcRemove key i eviction k) = [i]"
| "hs_pc_items (PcStop is) = is"
| "hs_pc_items _ = []"

definition hs_calls_ok :: "('k, 'v) hs_World \<Rightarrow> nat \<Rightarrow> bool" where
  "hs_calls_ok w i \<longleftrightarrow>
     (if \<exists>t. hs_expiring i (hw_threads w t)
      then it_processed (hs_items (hw_state w) ! i) \<and> hs_open (hs_calls (hw_state w) i)
        \<and> (\<forall>t t'. hs_expiring i (hw_threads w t) \<and> hs_expiring i (hw_threads w t') \<longrightarrow> t = t')
      else hs_open (hs_calls (hw_state w) i)
        \<or> (it_processed (hs_items (hw_state w) ! i) \<and> hs_closed (hs_calls (hw_state w) i)))"

definition hs_world_ok :: "('k, 'v) hs_World \<Rightarrow> bool" where
  "hs_world_ok w \<longleftrightarrow>
     hs_tables_ok (hw_state w)
     \<and> (\<forall>t. \<forall>i \<in> set (hs_pc_items (hw_threads w t)). i < length (hs_items (hw_state w)))
     \<and> (\<forall>(key, i, g) \<in> set (hs_expiries (hw_state w)). i < length (hs_items (hw_state w)))
     \<and> (\<forall>c \<in> set (hs_log (hw_state w)). fst c < length (hs_items (hw_state w)))
     \<and> (\<forall>i < length (hs_items (hw_state w)). hs_calls_ok w i)"

subsection \<open>The tables\<close>

lemma hs_mapped_iff:
  "i |\<in>| hs_mapped st \<longleftrightarrow> (\<exists>k. fmlookup (hs_current st) k = Some i \<or> fmlookup (hs_previous st) k = Some i)"
  by (auto simp: hs_mapped_def fmlookup_ran_iff)

lemma hs_tables_alt:
  "hs_tables_ok st \<longleftrightarrow>
     (\<forall>k i j. fmlookup (hs_current st) k = Some i \<longrightarrow> fmlookup (hs_previous st) k \<noteq> Some j)
     \<and> (\<forall>k i. fmlookup (hs_current st) k = Some i \<longrightarrow> i < length (hs_items st))
     \<and> (\<forall>k i. fmlookup (hs_previous st) k = Some i \<longrightarrow> i < length (hs_items st))
     \<and> (hs_metricsEnabled st \<longrightarrow> hs_count st = int (hs_size st) \<and> hs_evictionsTotal st = hs_evictions st)
     \<and> (\<not> hs_metricsEnabled st \<longrightarrow> hs_count st = 0 \<and> hs_evictionsTotal st = 0)
     \<and> \<not> (hs_running st \<and> hs_stopped st)"
proof -
  have "fmdom (hs_current st) |\<inter>| fmdom (hs_previous st) = {||} \<longleftrightarrow>
      (\<forall>k i j. fmlookup (hs_current st) k = Some i \<longrightarrow> fmlookup (hs_previous st) k \<noteq> Some j)"
    by (auto simp: fset_eq_iff fmlookup_dom_iff) (metis option.distinct(1))
  moreover have "(\<forall>i. i |\<in>| hs_mapped st \<longrightarrow> i < length (hs_items st)) \<longleftrightarrow>
      (\<forall>k i. fmlookup (hs_current st) k = Some i \<longrightarrow> i < length (hs_items st))
      \<and> (\<forall>k i. fmlookup (hs_previous st) k = Some i \<longrightarrow> i < length (hs_items st))"
    unfolding hs_mapped_iff by blast
  ultimately show ?thesis unfolding hs_tables_ok_def by blast
qed

lemmas hs_tables_simps = hs_tables_alt hs_size_def

lemma hs_tables_update_item [simp]: "hs_tables_ok (hs_update_item i f st) = hs_tables_ok st"
  by (simp add: hs_tables_simps hs_update_item_def)

lemma hs_tables_log [simp]: "hs_tables_ok (st\<lparr>hs_log := l\<rparr>) = hs_tables_ok st"
  by (simp add: hs_tables_simps)

lemma hs_tables_expiries [simp]: "hs_tables_ok (st\<lparr>hs_expiries := l\<rparr>) = hs_tables_ok st"
  by (simp add: hs_tables_simps)

lemma hs_tables_start [step_inv]: "hs_tables_ok st \<Longrightarrow> hs_start st = Inr st' \<Longrightarrow> hs_tables_ok st'"
  by (auto simp: hs_tables_simps hs_start_def hs_ArmRotation_def Let_def split: if_splits)

lemma hs_tables_FindOrCreate [step_inv]:
  assumes "hs_tables_ok st" and "hs_FindOrCreate key index cb st = Inr ((i, created), st')"
  shows "hs_tables_ok st'"
proof -
  have "fmlookup (hs_current st) k = Some j \<Longrightarrow> j < length (hs_items st)"
    "fmlookup (hs_previous st) k = Some j \<Longrightarrow> j < length (hs_items st)" for k j
    using assms(1) by (auto simp: hs_tables_simps)
  then show ?thesis
    using assms
    by (auto simp: hs_tables_simps hs_FindOrCreate_def Let_def fmsize_upd less_Suc_eq
        split: if_splits option.splits)
qed

lemma hs_tables_RemoveIfSame [step_inv]:
  assumes "hs_tables_ok st"
  shows "hs_tables_ok (hs_RemoveIfSame key i eviction st)"
  using assms fmsize_pos [of "hs_current st" key i] fmsize_pos [of "hs_previous st" key i]
  by (auto simp: hs_tables_simps hs_RemoveIfSame_def Let_def fmsize_drop split: if_splits)

lemma hs_tables_MoveToCurrent [step_inv]:
  assumes "hs_tables_ok st"
  shows "hs_tables_ok (hs_MoveToCurrent key i st)"
  using assms fmsize_pos [of "hs_previous st" key i]
  by (auto simp: hs_tables_simps hs_MoveToCurrent_def fmsize_drop fmsize_upd split: if_splits)

lemma hs_tables_Rotate [step_inv]:
  assumes "hs_tables_ok st"
  shows "hs_tables_ok (hs_Rotate st)"
proof -
  have "fmsize (hs_previous st ++\<^sub>f hs_current st) = fmsize (hs_previous st) + fmsize (hs_current st)"
    using assms by (intro fmsize_add) (force simp: hs_tables_simps)
  then show ?thesis
    using assms by (auto simp: hs_tables_simps hs_Rotate_def Let_def split: if_splits)
qed

lemma hs_tables_rotation [step_inv]:
  "hs_tables_ok st \<Longrightarrow> hs_tables_ok (hs_on_rotation cancelled st)"
proof -
  assume "hs_tables_ok st"
  then have "hs_tables_ok (hs_Rotate (st\<lparr>hs_rotationArmed := False\<rparr>))"
    by (intro hs_tables_Rotate) (simp add: hs_tables_simps)
  with \<open>hs_tables_ok st\<close> show ?thesis
    by (simp add: hs_on_rotation_def hs_ArmRotation_def Let_def hs_tables_simps)
qed

lemma hs_tables_stop_begin [step_inv]:
  "hs_tables_ok st \<Longrightarrow> hs_stop_begin st = (items, st') \<Longrightarrow> hs_tables_ok st'"
  by (auto simp: hs_tables_simps hs_stop_begin_def Let_def split: if_splits)

lemma hs_tables_locked [step_inv]:
  "hs_tables_ok st \<Longrightarrow> hs_tables_ok (hs_stop_item i st)"
  "hs_tables_ok st \<Longrightarrow> hs_tables_ok (hs_ArmExpiry key i st)"
  "hs_tables_ok st \<Longrightarrow> hs_tables_ok (hs_call_expiry i st)"
  "hs_tables_ok st \<Longrightarrow> hs_tables_ok (snd (hs_Expire_locked i g st))"
  "hs_tables_ok st \<Longrightarrow> hs_tables_ok (snd (hs_join_locked now key index v cb ed i created st))"
  by (simp_all add: hs_stop_item_def hs_ArmExpiry_def hs_call_expiry_def hs_Expire_locked_def
      hs_join_locked_def Let_def split_beta hs_tables_MoveToCurrent)

subsection \<open>What the sections leave alone\<close>

text \<open>A section is quiet when it makes no call and only ever sets \<open>processed\<close>.\<close>

definition hs_quiet :: "('k, 'v) hs_State \<Rightarrow> ('k, 'v) hs_State \<Rightarrow> bool" where
  "hs_quiet st st' \<longleftrightarrow>
     hs_log st' = hs_log st \<and> length (hs_items st) \<le> length (hs_items st')
     \<and> set (hs_expiries st') \<subseteq> set (hs_expiries st) \<union> {(k, i, g). i < length (hs_items st')}
     \<and> (\<forall>i < length (hs_items st). it_processed (hs_items st ! i) \<longrightarrow> it_processed (hs_items st' ! i))"

lemma hs_quiet_refl [simp]: "hs_quiet st st"
  by (auto simp: hs_quiet_def)

lemma hs_quiet_sections [simp]:
  "hs_start st = Inr st' \<Longrightarrow> hs_quiet st st'"
  "hs_FindOrCreate key index cb st = Inr ((i, created), st') \<Longrightarrow> hs_quiet st st'"
  "hs_quiet st (hs_RemoveIfSame key i eviction st)"
  "hs_quiet st (hs_on_rotation cancelled st)"
  "hs_stop_begin st = (items, st') \<Longrightarrow> hs_quiet st st'"
  by (auto simp: hs_quiet_def hs_start_def hs_FindOrCreate_def hs_RemoveIfSame_def hs_on_rotation_def
      hs_Rotate_def hs_ArmRotation_def hs_stop_begin_def Let_def nth_append
      split: if_splits option.splits)

lemma hs_quiet_stop_item [simp]: "hs_quiet st (hs_stop_item i st)"
  by (auto simp: hs_quiet_def hs_stop_item_def hs_update_item_def nth_list_update_if)

lemma hs_FindOrCreate_item:
  "hs_tables_ok st \<Longrightarrow> hs_FindOrCreate key index cb st = Inr ((i, created), st') \<Longrightarrow> i < length (hs_items st')"
  by (auto simp: hs_tables_alt hs_FindOrCreate_def Let_def split: if_splits option.splits)

text \<open>The section of \<open>joinValue\<close>: a quiet exit on a processed item, a mark on an expired one, or
  a call on an item that was not processed.\<close>

lemma hs_join_locked_cases:
  assumes "i < length (hs_items st)"
    and "hs_join_locked now key index v cb ed i created st = (r, st')"
  shows "r = HsRetry \<and> st' = st
    \<or> r = HsExpired \<and> \<not> it_processed (hs_items st ! i) \<and> it_processed (hs_items st' ! i) \<and> hs_quiet st st'
        \<and> length (hs_items st') = length (hs_items st)
    \<or> (\<exists>p. r = (if p then HsCompleted else HsStored) \<and> \<not> it_processed (hs_items st ! i)
        \<and> it_processed (hs_items st' ! i) = p \<and> hs_log st' = hs_log st @ [(i, NormalCall p)]
        \<and> length (hs_items st') = length (hs_items st)
        \<and> (\<forall>j. j \<noteq> i \<longrightarrow> hs_items st' ! j = hs_items st ! j)
        \<and> set (hs_expiries st') \<subseteq> set (hs_expiries st) \<union> {(k, i, g). i < length (hs_items st')})"
proof (cases "it_processed (hs_items st ! i)
    \<or> (case it_deadline (hs_items st ! i) of Some d \<Rightarrow> d \<le> now | None \<Rightarrow> False)")
  case True
  then show ?thesis
    using assms by (auto simp: hs_join_locked_def Let_def hs_quiet_def hs_update_item_def
        nth_list_update_if split: if_splits)
next
  case False
  define st1 where "st1 =
    (if created \<and> ed \<noteq> None
     then hs_ArmExpiry key i (hs_update_item i (\<lambda>it. it\<lparr>it_deadline := ed\<rparr>) st)
     else if \<not> created \<and> jsc_renewTtl (hs_config st) \<and> ed \<noteq> None
     then hs_MoveToCurrent key i (hs_ArmExpiry key i (hs_update_item i (\<lambda>it. it\<lparr>it_deadline := ed\<rparr>) st))
     else st)"
  have st1: "hs_log st1 = hs_log st" "length (hs_items st1) = length (hs_items st)"
    "\<forall>j. j \<noteq> i \<longrightarrow> hs_items st1 ! j = hs_items st ! j"
    "set (hs_expiries st1) \<subseteq> set (hs_expiries st) \<union> {(k, i, g). i < length (hs_items st)}"
    using assms(1) by (auto simp: st1_def hs_ArmExpiry_def hs_MoveToCurrent_def hs_update_item_def
        nth_list_update_if Let_def)
  obtain p vals where cb: "cb (hs_store_value index v (it_values (hs_items st1 ! i))) = (p, vals)"
    by fastforce
  have "r = (if p then HsCompleted else HsStored)"
    and "st' = (hs_update_item i (\<lambda>it. it\<lparr>it_values := vals, it_processed := p,
          it_generation := (if p then it_generation it + 1 else it_generation it)\<rparr>) st1)
          \<lparr>hs_log := hs_log st1 @ [(i, NormalCall p)]\<rparr>"
    using assms(2) False cb unfolding hs_join_locked_def Let_def st1_def [symmetric]
    by (auto simp: hs_update_item_def)
  then show ?thesis
    using False st1 assms(1) by (intro disjI2 exI [of _ p]) (auto simp: hs_update_item_def nth_list_update_if)
qed

subsection \<open>Every reachable world is well-formed\<close>

lemma hs_expiring_item: "hs_expiring i pc \<Longrightarrow> i \<in> set (hs_pc_items pc)"
  by (cases pc) simp_all

lemma hs_calls_ok_mono:
  assumes "hs_calls_ok w i" and "hs_calls (hw_state w') i = hs_calls (hw_state w) i"
    and "it_processed (hs_items (hw_state w) ! i) \<Longrightarrow> it_processed (hs_items (hw_state w') ! i)"
    and "\<And>t. hs_expiring i (hw_threads w' t) = hs_expiring i (hw_threads w t)"
  shows "hs_calls_ok w' i"
  using assms by (auto simp: hs_calls_ok_def split: if_splits)

lemma hs_world_okD:
  assumes "hs_world_ok w"
  shows "hs_tables_ok (hw_state w)"
    and "i \<in> set (hs_pc_items (hw_threads w t)) \<Longrightarrow> i < length (hs_items (hw_state w))"
    and "(key, i, g) \<in> set (hs_expiries (hw_state w)) \<Longrightarrow> i < length (hs_items (hw_state w))"
    and "c \<in> set (hs_log (hw_state w)) \<Longrightarrow> fst c < length (hs_items (hw_state w))"
    and "i < length (hs_items (hw_state w)) \<Longrightarrow> hs_calls_ok w i"
  using assms unfolding hs_world_ok_def by blast+

lemma hs_world_okI:
  assumes "hs_world_ok w" and "hs_tables_ok st'"
    and "length (hs_items (hw_state w)) \<le> length (hs_items st')"
    and "set (hs_expiries st') \<subseteq> set (hs_expiries (hw_state w)) \<union> {(k, i, g). i < length (hs_items st')}"
    and "set (hs_log st') \<subseteq> set (hs_log (hw_state w)) \<union> {c. fst c < length (hs_items st')}"
    and "\<forall>i \<in> set (hs_pc_items pc). i < length (hs_items st')"
    and "\<And>i. i < length (hs_items st') \<Longrightarrow> hs_calls_ok \<lparr>hw_state = st', hw_threads = (hw_threads w)(t := pc)\<rparr> i"
  shows "hs_world_ok \<lparr>hw_state = st', hw_threads = (hw_threads w)(t := pc)\<rparr>"
proof -
  note ok = hs_world_okD [OF assms(1)]
  have "i < length (hs_items st')" if "i \<in> set (hs_pc_items (((hw_threads w)(t := pc)) t'))" for t' i
    using that ok(2) [of i t'] assms(3,6) by (cases "t' = t") auto
  moreover have "i < length (hs_items st')" if "(key, i, g) \<in> set (hs_expiries st')" for key i g
    using that ok(3) [of key i g] assms(3,4) by auto
  moreover have "fst c < length (hs_items st')" if "c \<in> set (hs_log st')" for c
    using that ok(4) [of c] assms(3,5) by auto
  ultimately show ?thesis using assms(2,7) by (auto simp: hs_world_ok_def)
qed

lemma hs_world_quiet:
  assumes "hs_world_ok w" and "hs_quiet (hw_state w) st'" and "hs_tables_ok st'"
    and "\<forall>i \<in> set (hs_pc_items pc). i < length (hs_items st')"
    and "\<And>i. hs_expiring i pc = hs_expiring i (hw_threads w t)"
  shows "hs_world_ok \<lparr>hw_state = st', hw_threads = (hw_threads w)(t := pc)\<rparr>"
proof -
  let ?w = "\<lparr>hw_state = st', hw_threads = (hw_threads w)(t := pc)\<rparr>"
  let ?n = "length (hs_items (hw_state w))"
  note ok = hs_world_okD [OF assms(1)]
  have le: "?n \<le> length (hs_items st')" using assms(2) by (simp add: hs_quiet_def)
  have "hs_calls_ok ?w i" if "i < length (hs_items st')" for i
  proof (cases "i < ?n")
    case True
    then show ?thesis
      using assms(2,5) ok(5) [OF True]
      by - (rule hs_calls_ok_mono [of w], simp_all add: hs_quiet_def hs_calls_def)
  next
    case False
    then have "hs_calls st' i = []"
      using assms(2) ok(4) by (auto simp: hs_quiet_def hs_calls_def filter_empty_conv)
    moreover have "\<not> hs_expiring i (hw_threads w t')" for t'
      using False ok(2) hs_expiring_item by blast
    ultimately show ?thesis using assms(5) by (auto simp: hs_calls_ok_def hs_open_def)
  qed
  with assms le show ?thesis
    by (intro hs_world_okI) (simp_all add: hs_quiet_def)
qed

lemma hs_open_unprocessed:
  assumes "hs_world_ok w" and "i < length (hs_items (hw_state w))"
    and "\<not> it_processed (hs_items (hw_state w) ! i)"
  shows "hs_open (hs_calls (hw_state w) i)" and "\<not> hs_expiring i (hw_threads w t)"
  using assms(3) hs_world_okD(5) [OF assms(1,2)] by (auto simp: hs_calls_ok_def split: if_splits)

lemma hs_world_mark:
  assumes "hs_world_ok w" and "i < length (hs_items (hw_state w))"
    and "\<not> it_processed (hs_items (hw_state w) ! i)" and "it_processed (hs_items st' ! i)"
    and "hs_quiet (hw_state w) st'" and "hs_tables_ok st'"
    and "length (hs_items st') = length (hs_items (hw_state w))"
    and "\<And>j. \<not> hs_expiring j (hw_threads w t)"
  shows "hs_world_ok \<lparr>hw_state = st', hw_threads = (hw_threads w)(t := PcCallExpiry key i k)\<rparr>"
proof -
  let ?w = "\<lparr>hw_state = st', hw_threads = (hw_threads w)(t := PcCallExpiry key i k)\<rparr>"
  have "hs_calls_ok ?w j" if "j < length (hs_items st')" for j
  proof (cases "j = i")
    case True
    then show ?thesis
      using assms(4,5,8) hs_open_unprocessed [OF assms(1-3)] by (auto simp: hs_calls_ok_def hs_quiet_def hs_calls_def)
  next
    case False
    with that assms(5,7,8) hs_world_okD(5) [OF assms(1), of j] show ?thesis
      by - (rule hs_calls_ok_mono [of w], simp_all add: hs_quiet_def hs_calls_def)
  qed
  with assms show ?thesis by (intro hs_world_okI) (simp_all add: hs_quiet_def)
qed

lemma hs_world_call:
  assumes "hs_world_ok w" and "i < length (hs_items (hw_state w))"
    and "hs_log st' = hs_log (hw_state w) @ [(i, c)]" and "hs_tables_ok st'"
    and "length (hs_items st') = length (hs_items (hw_state w))"
    and "\<And>j. j \<noteq> i \<Longrightarrow> hs_items st' ! j = hs_items (hw_state w) ! j"
    and "set (hs_expiries st') \<subseteq> set (hs_expiries (hw_state w)) \<union> {(k, i, g). i < length (hs_items st')}"
    and "\<forall>j \<in> set (hs_pc_items pc). j < length (hs_items st')"
    and "\<And>j. j \<noteq> i \<Longrightarrow> hs_expiring j pc = hs_expiring j (hw_threads w t)"
    and "hs_calls_ok \<lparr>hw_state = st', hw_threads = (hw_threads w)(t := pc)\<rparr> i"
  shows "hs_world_ok \<lparr>hw_state = st', hw_threads = (hw_threads w)(t := pc)\<rparr>"
proof -
  let ?w = "\<lparr>hw_state = st', hw_threads = (hw_threads w)(t := pc)\<rparr>"
  have "hs_calls_ok ?w j" if "j < length (hs_items st')" for j
  proof (cases "j = i")
    case True
    then show ?thesis using assms by simp
  next
    case False
    with that assms(3,5,6,9) hs_world_okD(5) [OF assms(1), of j] show ?thesis
      by - (rule hs_calls_ok_mono [of w], simp_all add: hs_calls_def)
  qed
  with assms show ?thesis by (intro hs_world_okI) auto
qed

lemma hs_open_snoc:
  "hs_open cs \<Longrightarrow> hs_open (cs @ [NormalCall False])"
  "hs_open cs \<Longrightarrow> hs_closed (cs @ [NormalCall True])"
  "hs_open cs \<Longrightarrow> hs_closed (cs @ [ExpiryCall])"
  by (auto simp: hs_open_def hs_closed_def)

lemma hs_step_find:
  assumes "hs_world_ok w" and "hw_threads w t = PcFind task"
    and "hs_thread_step now (PcFind task) (hw_state w) = (pc, st)"
  shows "hs_world_ok \<lparr>hw_state = st, hw_threads = (hw_threads w)(t := pc)\<rparr>"
proof -
  obtain key index v cb ed where task: "task = HsTask key index v cb ed" by (cases task)
  note tab = hs_world_okD(1) [OF assms(1)]
  show ?thesis
  proof (cases "hs_FindOrCreate key index cb (hw_state w)")
    case (Inl e)
    then show ?thesis using assms task tab by (intro hs_world_quiet) auto
  next
    case (Inr r)
    then obtain i created st' where r: "hs_FindOrCreate key index cb (hw_state w) = Inr ((i, created), st')"
      by (metis prod.exhaust)
    with assms(3) task have "pc = PcLock task i created" "st = st'" by auto
    with r assms(2) hs_tables_FindOrCreate [OF tab r] hs_FindOrCreate_item [OF tab r] show ?thesis
      by (intro hs_world_quiet assms(1)) auto
  qed
qed

lemma hs_step_lock:
  assumes "hs_world_ok w" and "hw_threads w t = PcLock task i created"
    and "hs_thread_step now (PcLock task i created) (hw_state w) = (pc, st)"
  shows "hs_world_ok \<lparr>hw_state = st, hw_threads = (hw_threads w)(t := pc)\<rparr>"
proof -
  obtain key index v cb ed where task: "task = HsTask key index v cb ed" by (cases task)
  obtain r st' where r: "hs_join_locked now key index v cb ed i created (hw_state w) = (r, st')"
    by fastforce
  have i: "i < length (hs_items (hw_state w))"
    using hs_world_okD(2) [OF assms(1), of i t] assms(2) by simp
  have tab: "hs_tables_ok st'"
    using hs_tables_locked(5) [OF hs_world_okD(1) [OF assms(1)], of now key index v cb ed i created]
    by (simp add: r)
  have st: "st = st'" using assms(3) task r by (cases r) auto
  from hs_join_locked_cases [OF i r] show ?thesis
  proof (elim disjE exE conjE)
    assume "r = HsRetry" and "st' = hw_state w"
    with assms(3) task r tab st assms(2) show ?thesis
      by (intro hs_world_quiet assms(1)) auto
  next
    assume "r = HsExpired" and "\<not> it_processed (hs_items (hw_state w) ! i)"
      and "it_processed (hs_items st' ! i)" and "hs_quiet (hw_state w) st'"
      and "length (hs_items st') = length (hs_items (hw_state w))"
    moreover from this have "pc = PcCallExpiry key i (Some task)" using assms(3) task r by simp
    ultimately show ?thesis
      using st tab i assms(2) by (simp add: hs_world_mark [OF assms(1)])
  next
    fix p
    assume rp: "r = (if p then HsCompleted else HsStored)" and np: "\<not> it_processed (hs_items (hw_state w) ! i)"
      and p: "it_processed (hs_items st' ! i) = p"
      and log: "hs_log st' = hs_log (hw_state w) @ [(i, NormalCall p)]"
      and len: "length (hs_items st') = length (hs_items (hw_state w))"
      and other: "\<forall>j. j \<noteq> i \<longrightarrow> hs_items st' ! j = hs_items (hw_state w) ! j"
      and ex: "set (hs_expiries st') \<subseteq> set (hs_expiries (hw_state w)) \<union> {(k, i, g). i < length (hs_items st')}"
    have pc: "pc = (if p then PcRemove key i False None else PcIdle)"
      using assms(3) task r rp by (cases p) auto
    have calls: "hs_calls st' i = hs_calls (hw_state w) i @ [NormalCall p]"
      by (simp add: hs_calls_def log)
    have "\<not> hs_expiring i (((hw_threads w)(t := pc)) t')" for t'
      using hs_open_unprocessed(2) [OF assms(1) i np] by (simp add: pc)
    then have "hs_calls_ok \<lparr>hw_state = st', hw_threads = (hw_threads w)(t := pc)\<rparr> i"
      using hs_open_unprocessed(1) [OF assms(1) i np]
      by (cases p) (simp_all add: hs_calls_ok_def calls p hs_open_snoc)
    then show ?thesis
      unfolding st using assms(2) other pc i len
      by (intro hs_world_call [OF assms(1) i log tab len _ ex]) auto
  qed
qed

lemma hs_step_expire:
  assumes "hs_world_ok w" and "hw_threads w t = PcExpire key i g"
    and "hs_thread_step now (PcExpire key i g) (hw_state w) = (pc, st)"
  shows "hs_world_ok \<lparr>hw_state = st, hw_threads = (hw_threads w)(t := pc)\<rparr>"
proof -
  note tab = hs_world_okD(1) [OF assms(1)]
  have i: "i < length (hs_items (hw_state w))"
    using hs_world_okD(2) [OF assms(1), of i t] assms(2) by simp
  show ?thesis
  proof (cases "it_processed (hs_items (hw_state w) ! i) \<or> it_generation (hs_items (hw_state w) ! i) \<noteq> g")
    case True
    then show ?thesis
      using assms tab by (intro hs_world_quiet) (auto simp: hs_Expire_locked_def Let_def)
  next
    case False
    then have st: "st = hs_update_item i (\<lambda>it. it\<lparr>it_processed := True\<rparr>) (hw_state w)"
      and pc: "pc = PcCallExpiry key i None"
      using assms(3) by (simp_all add: hs_Expire_locked_def Let_def)
    show ?thesis
      unfolding pc using False i tab assms(2)
      by (intro hs_world_mark [OF assms(1) i])
        (auto simp: st hs_quiet_def hs_update_item_def nth_list_update_if hs_tables_simps)
  qed
qed

lemma hs_step_call_expiry:
  assumes "hs_world_ok w" and t: "hw_threads w t = PcCallExpiry key i k"
  shows "hs_world_ok \<lparr>hw_state = hs_call_expiry i (hw_state w), hw_threads = (hw_threads w)(t := PcRemove key i True k)\<rparr>"
proof -
  let ?st = "hs_call_expiry i (hw_state w)"
  let ?w = "\<lparr>hw_state = ?st, hw_threads = (hw_threads w)(t := PcRemove key i True k)\<rparr>"
  have i: "i < length (hs_items (hw_state w))"
    using hs_world_okD(2) [OF assms(1), of i t] t by simp
  have ex: "hs_expiring i (hw_threads w t)" using t by simp
  with hs_world_okD(5) [OF assms(1) i] have pr: "it_processed (hs_items (hw_state w) ! i)"
    and op: "hs_open (hs_calls (hw_state w) i)"
    and uniq: "hs_expiring i (hw_threads w t') \<Longrightarrow> t' = t" for t'
    unfolding hs_calls_ok_def by (metis (no_types, lifting))+
  have log: "hs_log ?st = hs_log (hw_state w) @ [(i, ExpiryCall)]"
    and len: "length (hs_items ?st) = length (hs_items (hw_state w))"
    and pr': "it_processed (hs_items ?st ! i)"
    using pr i by (simp_all add: hs_call_expiry_def hs_update_item_def Let_def)
  have "\<not> hs_expiring i (((hw_threads w)(t := PcRemove key i True k)) t')" for t'
    using uniq by auto
  then have "hs_calls_ok ?w i"
    using op pr' log hs_open_snoc(3) [OF op] by (simp add: hs_calls_ok_def hs_calls_def)
  then show ?thesis
    using t i len hs_tables_locked(3) [OF hs_world_okD(1) [OF assms(1)], of i]
    by (intro hs_world_call [OF assms(1) i log])
      (auto simp: hs_call_expiry_def hs_update_item_def Let_def nth_list_update_if)
qed

lemma hs_stop_item_length: "length (hs_items (hs_stop_item i st)) = length (hs_items st)"
  by (simp add: hs_stop_item_def hs_update_item_def)

lemma hs_step_world:
  assumes "hs_world_ok w" and "hs_thread_step now (hw_threads w t) (hw_state w) = (pc, st)"
  shows "hs_world_ok \<lparr>hw_state = st, hw_threads = (hw_threads w)(t := pc)\<rparr>"
proof (cases "hw_threads w t")
  case (PcFind task)
  then show ?thesis using assms hs_step_find by metis
next
  case (PcLock task i created)
  then show ?thesis using assms hs_step_lock by metis
next
  case (PcExpire key i g)
  then show ?thesis using assms hs_step_expire by metis
next
  case (PcCallExpiry key i k)
  then show ?thesis using assms hs_step_call_expiry [OF assms(1) PcCallExpiry] by simp
next
  case (PcRemove key i eviction k)
  then show ?thesis
    using assms hs_tables_RemoveIfSame [OF hs_world_okD(1) [OF assms(1)]]
    by (intro hs_world_quiet) (auto simp: hs_continue_def split: option.splits)
next
  case (PcStop items)
  then show ?thesis
    using assms hs_world_okD(1) [OF assms(1)] hs_world_okD(2) [OF assms(1), of _ t]
    by (cases items; intro hs_world_quiet)
      (auto simp: hs_tables_locked(1) hs_stop_item_length)
qed (use assms hs_world_okD(1,2) [OF assms(1)] in \<open>auto intro!: hs_world_quiet\<close>)


lemma hs_quiet_length: "hs_quiet st st' \<Longrightarrow> i < length (hs_items st) \<Longrightarrow> i < length (hs_items st')"
  by (simp add: hs_quiet_def)

lemma hw_update:
  "w\<lparr>hw_state := st\<rparr> = \<lparr>hw_state = st, hw_threads = hw_threads w\<rparr>"
  "w\<lparr>hw_threads := f\<rparr> = \<lparr>hw_state = hw_state w, hw_threads = f\<rparr>" for w :: "('k, 'v) hs_World"
  by (cases w; simp)+

lemma hs_reach_ok:
  assumes "hs_reach me config w"
  shows "hs_world_ok w"
  using assms
proof (induction rule: hs_reach.induct)
  case init
  then show ?case
    by (simp add: hs_world_ok_def HashMapJoinStorage_def hs_tables_simps)
next
  case (start w st)
  then have "hs_world_ok \<lparr>hw_state = st, hw_threads = (hw_threads w)(0 := hw_threads w 0)\<rparr>"
    using hs_world_okD(2) [OF start.IH, of _ 0] hs_quiet_length [OF hs_quiet_sections(1)]
    by (intro hs_world_quiet) (auto intro: hs_tables_start hs_world_okD)
  then show ?case by (simp add: hw_update)
next
  case (join w t task)
  then have "hs_world_ok \<lparr>hw_state = hw_state w, hw_threads = (hw_threads w)(t := PcFind task)\<rparr>"
    by (intro hs_world_quiet) (auto intro: hs_world_okD)
  then show ?case by (simp add: hw_update)
next
  case (expire w t key i generation)
  then have "hs_world_ok \<lparr>hw_state = hw_state w, hw_threads = (hw_threads w)(t := PcExpire key i generation)\<rparr>"
    by (intro hs_world_quiet) (auto intro: hs_world_okD)
  then show ?case by (simp add: hw_update)
next
  case (rotation w cancelled)
  then have "hs_world_ok \<lparr>hw_state = hs_on_rotation cancelled (hw_state w),
      hw_threads = (hw_threads w)(0 := hw_threads w 0)\<rparr>"
    using hs_world_okD(2) [OF rotation.IH, of _ 0] hs_quiet_length [OF hs_quiet_sections(4)]
    by (intro hs_world_quiet) (auto intro: hs_tables_rotation hs_world_okD(1))
  then show ?case by (simp add: hw_update)
next
  case (stop w t items st)
  have "\<forall>i \<in> set items. i < length (hs_items st)"
    using hs_world_okD(1) [OF stop.IH] stop.hyps(3)
    by (auto simp: hs_tables_ok_def hs_stop_begin_def Let_def split: if_splits)
  with stop show ?case
    by (intro hs_world_quiet) (auto intro: hs_tables_stop_begin hs_world_okD)
next
  case (step w now t pc st)
  then show ?case by (intro hs_step_world)
qed

subsection \<open>The storage seen as one table\<close>

definition hs_lookup :: "('k, 'v) hs_State \<Rightarrow> 'k \<Rightarrow> nat option" where
  "hs_lookup st k =
     (case fmlookup (hs_current st) k of Some i \<Rightarrow> Some i | None \<Rightarrow> fmlookup (hs_previous st) k)"

definition hs_view :: "('k, 'v) hs_State \<Rightarrow> 'k \<Rightarrow> 'v JoinValues option" where
  "hs_view st k = map_option (\<lambda>i. it_values (hs_items st ! i)) (hs_lookup st k)"

text \<open>Between the calls of a single thread every stored item is unprocessed and has one key.\<close>

definition hs_settled :: "('k, 'v) hs_State \<Rightarrow> bool" where
  "hs_settled st \<longleftrightarrow>
     hs_tables_ok st \<and> (\<forall>k k' i. hs_lookup st k = Some i \<longrightarrow> hs_lookup st k' = Some i \<longrightarrow> k = k')
     \<and> (\<forall>k i. hs_lookup st k = Some i \<longrightarrow> \<not> it_processed (hs_items st ! i))"

definition hs_expired :: "int \<Rightarrow> ('k, 'v) hs_State \<Rightarrow> nat \<Rightarrow> bool" where
  "hs_expired now st i \<longleftrightarrow> (case it_deadline (hs_items st ! i) of Some d \<Rightarrow> d \<le> now | None \<Rightarrow> False)"

definition hs_live :: "int \<Rightarrow> ('k, 'v) hs_State \<Rightarrow> 'k \<Rightarrow> 'v JoinValues option" where
  "hs_live now st k =
     (case hs_lookup st k of
        Some i \<Rightarrow> if hs_expired now st i then None else Some (it_values (hs_items st ! i))
      | None \<Rightarrow> None)"

lemma hs_lookup_bound: "hs_tables_ok st \<Longrightarrow> hs_lookup st k = Some i \<Longrightarrow> i < length (hs_items st)"
  by (auto simp: hs_lookup_def hs_tables_alt split: option.splits)

lemma hs_lookup_sections [simp]:
  "hs_lookup (hs_update_item i f st) = hs_lookup st"
  "hs_lookup (st\<lparr>hs_log := l\<rparr>) = hs_lookup st"
  "hs_lookup (st\<lparr>hs_expiries := l'\<rparr>) = hs_lookup st"
  "hs_lookup (hs_ArmExpiry k i st) = hs_lookup st"
  "hs_lookup (hs_call_expiry i st) = hs_lookup st"
  by (simp_all add: fun_eq_iff hs_lookup_def hs_update_item_def hs_ArmExpiry_def hs_call_expiry_def Let_def
      split: option.split)

lemma hs_lookup_MoveToCurrent [simp]:
  "hs_tables_ok st \<Longrightarrow> hs_lookup (hs_MoveToCurrent key i st) = hs_lookup st"
  by (fastforce simp: fun_eq_iff hs_lookup_def hs_MoveToCurrent_def hs_tables_alt split: option.splits)

lemma hs_lookup_RemoveIfSame:
  "hs_tables_ok st \<Longrightarrow> hs_lookup st key = Some i \<Longrightarrow>
   hs_lookup (hs_RemoveIfSame key i eviction st) = (hs_lookup st)(key := None)"
  by (fastforce simp: fun_eq_iff hs_lookup_def hs_RemoveIfSame_def Let_def hs_tables_alt split: option.splits)

lemma hs_items_RemoveIfSame [simp]:
  "hs_items (hs_RemoveIfSame key i eviction st) = hs_items st"
  "hs_running (hs_RemoveIfSame key i eviction st) = hs_running st"
  by (simp_all add: hs_RemoveIfSame_def Let_def)

lemma hs_FindOrCreate_spec:
  assumes "hs_running st" and "hs_tables_ok st"
  shows "hs_lookup st key = Some i \<Longrightarrow> hs_FindOrCreate key index cb st = Inr ((i, False), st)"
    and "hs_lookup st key = None \<Longrightarrow>
      \<exists>st'. hs_FindOrCreate key index cb st = Inr ((length (hs_items st), True), st')
        \<and> hs_lookup st' = (hs_lookup st)(key \<mapsto> length (hs_items st)) \<and> hs_running st'
        \<and> hs_items st' = hs_items st @ [\<lparr>it_values = replicate (index + 1) [], it_callback = cb,
              it_deadline = None, it_generation = 0, it_processed = False\<rparr>]"
  using assms
  by (auto simp: hs_FindOrCreate_def hs_lookup_def Let_def fun_eq_iff split: option.splits)


lemma hs_settled_created:
  assumes "hs_settled st" and "hs_running st" and "hs_lookup st key = None"
    and "hs_FindOrCreate key index cb st = Inr ((i, created), st')"
  shows "hs_settled st'" and "hs_lookup st' = (hs_lookup st)(key \<mapsto> i)" and "created" and "hs_running st'"
    and "it_values (hs_items st' ! i) = replicate (index + 1) []" and "it_deadline (hs_items st' ! i) = None"
    and "j < length (hs_items st) \<Longrightarrow> hs_items st' ! j = hs_items st ! j"
proof -
  have tab: "hs_tables_ok st" using assms(1) by (simp add: hs_settled_def)
  from hs_FindOrCreate_spec(2) [OF assms(2) tab assms(3), of index cb] assms(4)
  have i: "i = length (hs_items st)" and c: "created" and lk: "hs_lookup st' = (hs_lookup st)(key \<mapsto> i)"
    and run: "hs_running st'"
    and items: "hs_items st' = hs_items st @ [\<lparr>it_values = replicate (index + 1) [], it_callback = cb,
              it_deadline = None, it_generation = 0, it_processed = False\<rparr>]" by auto
  show "hs_lookup st' = (hs_lookup st)(key \<mapsto> i)" "created" "hs_running st'" using lk c run by simp_all
  show "it_values (hs_items st' ! i) = replicate (index + 1) []" "it_deadline (hs_items st' ! i) = None"
    by (simp_all add: items i)
  show "j < length (hs_items st) \<Longrightarrow> hs_items st' ! j = hs_items st ! j" by (simp add: items nth_append)
  have "hs_tables_ok st'" by (rule hs_tables_FindOrCreate [OF tab assms(4)])
  then show "hs_settled st'"
    using assms(1) hs_lookup_bound [OF tab] unfolding hs_settled_def lk
    by (auto simp: items i nth_append)
qed

lemma hs_settled_expired:
  assumes "hs_settled st" and "hs_lookup st key = Some i"
    and "st' = hs_RemoveIfSame key i True (hs_call_expiry i (hs_update_item i (\<lambda>it. it\<lparr>it_processed := True\<rparr>) st))"
  shows "hs_settled st'" and "hs_lookup st' = (hs_lookup st)(key := None)" and "hs_running st' = hs_running st"
    and "length (hs_items st') = length (hs_items st)"
    and "j \<noteq> i \<Longrightarrow> hs_items st' ! j = hs_items st ! j"
proof -
  let ?s = "hs_call_expiry i (hs_update_item i (\<lambda>it. it\<lparr>it_processed := True\<rparr>) st)"
  have tab: "hs_tables_ok ?s" using assms(1) by (simp add: hs_settled_def hs_tables_locked(3))
  then show lk: "hs_lookup st' = (hs_lookup st)(key := None)"
    using hs_lookup_RemoveIfSame [OF tab, of key i True] assms(2) by (simp add: assms(3))
  show "hs_running st' = hs_running st" "length (hs_items st') = length (hs_items st)"
    by (simp_all add: assms(3) hs_call_expiry_def hs_update_item_def Let_def)
  show other: "j \<noteq> i \<Longrightarrow> hs_items st' ! j = hs_items st ! j" for j
    by (simp add: assms(3) hs_call_expiry_def hs_update_item_def Let_def)
  have "\<not> it_processed (hs_items st' ! j)" if "hs_lookup st k = Some j" and "k \<noteq> key" for k j
    using assms(1,2) that other [of j] by (cases "j = i") (auto simp: hs_settled_def)
  moreover have "hs_tables_ok st'" unfolding assms(3) by (rule hs_tables_RemoveIfSame [OF tab])
  ultimately show "hs_settled st'"
    using assms(1) unfolding hs_settled_def lk by (auto split: if_splits)
qed

text \<open>The normal path under the item mutex, and the removal that follows a completed join.\<close>

lemma hs_settled_joined:
  assumes "hs_settled st" and "hs_lookup st key = Some i" and "\<not> hs_expired now st i"
    and cb: "cb (hs_store_value index v (it_values (hs_items st ! i))) = (p, vals)"
  obtains st1 where
    "hs_join_locked now key index v cb ed i created st = (if p then HsCompleted else HsStored, st1)"
    and "p \<longrightarrow> hs_settled (hs_RemoveIfSame key i False st1)
      \<and> hs_lookup (hs_RemoveIfSame key i False st1) = (hs_lookup st)(key := None)"
    and "\<not> p \<longrightarrow> hs_settled st1 \<and> hs_lookup st1 = hs_lookup st"
    and "it_values (hs_items st1 ! i) = vals" and "\<forall>j. j \<noteq> i \<longrightarrow> hs_items st1 ! j = hs_items st ! j"
proof -
  define st0 where "st0 =
    (if created \<and> ed \<noteq> None
     then hs_ArmExpiry key i (hs_update_item i (\<lambda>it. it\<lparr>it_deadline := ed\<rparr>) st)
     else if \<not> created \<and> jsc_renewTtl (hs_config st) \<and> ed \<noteq> None
     then hs_MoveToCurrent key i (hs_ArmExpiry key i (hs_update_item i (\<lambda>it. it\<lparr>it_deadline := ed\<rparr>) st))
     else st)"
  define st1 where "st1 = (hs_update_item i (\<lambda>it. it\<lparr>it_values := vals, it_processed := p,
      it_generation := (if p then it_generation it + 1 else it_generation it)\<rparr>) st0)
      \<lparr>hs_log := hs_log st0 @ [(i, NormalCall p)]\<rparr>"
  have tab: "hs_tables_ok st" using assms(1) by (simp add: hs_settled_def)
  have i: "i < length (hs_items st)" using hs_lookup_bound [OF tab assms(2)] .
  have np: "\<not> it_processed (hs_items st ! i)" using assms(1,2) by (auto simp: hs_settled_def)
  have st0: "hs_tables_ok st0" "hs_lookup st0 = hs_lookup st" "length (hs_items st0) = length (hs_items st)"
    "it_values (hs_items st0 ! i) = it_values (hs_items st ! i)"
    "\<forall>j. j \<noteq> i \<longrightarrow> hs_items st0 ! j = hs_items st ! j"
    using tab i by (simp_all add: st0_def hs_tables_locked hs_tables_MoveToCurrent)
      (simp_all add: hs_ArmExpiry_def hs_MoveToCurrent_def hs_update_item_def Let_def)
  have st1: "hs_tables_ok st1" "hs_lookup st1 = hs_lookup st" "it_processed (hs_items st1 ! i) = p"
    "it_values (hs_items st1 ! i) = vals" "\<forall>j. j \<noteq> i \<longrightarrow> hs_items st1 ! j = hs_items st ! j"
    using st0 i by (simp_all add: st1_def) (simp_all add: hs_update_item_def)
  have join: "hs_join_locked now key index v cb ed i created st = (if p then HsCompleted else HsStored, st1)"
    using np assms(3) st0(4) cb unfolding hs_join_locked_def Let_def st0_def [symmetric] hs_expired_def
    by (simp add: st1_def hs_update_item_def)
  have uniq: "hs_lookup st k = Some i \<Longrightarrow> k = key" for k
    using assms(1,2) by (auto simp: hs_settled_def)
  have keep: "\<not> it_processed (hs_items st1 ! j)" if "hs_lookup st k = Some j" and "k \<noteq> key" for k j
    using assms(1) that st1(5) uniq by (cases "j = i") (auto simp: hs_settled_def)
  have "hs_settled (hs_RemoveIfSame key i False st1)"
    and "hs_lookup (hs_RemoveIfSame key i False st1) = (hs_lookup st)(key := None)"
  proof -
    show lk: "hs_lookup (hs_RemoveIfSame key i False st1) = (hs_lookup st)(key := None)"
      using hs_lookup_RemoveIfSame [OF st1(1)] st1(2) assms(2) by simp
    show "hs_settled (hs_RemoveIfSame key i False st1)"
      using assms(1) hs_tables_RemoveIfSame [OF st1(1)] keep
      unfolding hs_settled_def lk by (auto split: if_splits)
  qed
  moreover have "hs_settled st1 \<and> hs_lookup st1 = hs_lookup st" if "\<not> p"
  proof -
    have "\<not> it_processed (hs_items st1 ! j)" if "hs_lookup st k = Some j" for k j
      using assms(1) that \<open>\<not> p\<close> st1(3,5) by (cases "j = i") (auto simp: hs_settled_def)
    then show ?thesis using assms(1) st1(1,2) by (auto simp: hs_settled_def)
  qed
  ultimately show thesis using join st1(4,5) that by blast
qed

lemma hs_join_found:
  assumes "hs_settled st" and "hs_running st" and lk: "hs_lookup st key = Some i" and "\<not> hs_expired now st i"
    and cb: "cb (hs_store_value index v (it_values (hs_items st ! i))) = (p, vals)"
    and find: "hs_FindOrCreate key index cb st0 = Inr ((i, created), st)"
  shows "\<exists>st'. hs_join_loop (Suc n) now key index v cb ed st0 = Some (Inr st') \<and> hs_settled st'
    \<and> hs_view st' = (hs_view st)(key := if p then None else Some vals)"
proof -
  obtain st1 where j: "hs_join_locked now key index v cb ed i created st = (if p then HsCompleted else HsStored, st1)"
    and c: "p \<longrightarrow> hs_settled (hs_RemoveIfSame key i False st1)
        \<and> hs_lookup (hs_RemoveIfSame key i False st1) = (hs_lookup st)(key := None)"
      "\<not> p \<longrightarrow> hs_settled st1 \<and> hs_lookup st1 = hs_lookup st"
    and v: "it_values (hs_items st1 ! i) = vals" and other: "\<forall>j. j \<noteq> i \<longrightarrow> hs_items st1 ! j = hs_items st ! j"
    by (rule hs_settled_joined [where cb = cb and index = index and v = v and ed = ed and created = created,
          OF assms(1) lk assms(4) cb])
  have keep: "hs_lookup st k = Some j \<Longrightarrow> k \<noteq> key \<Longrightarrow> hs_items st1 ! j = hs_items st ! j" for k j
    using assms(1) lk other unfolding hs_settled_def by metis
  let ?st' = "if p then hs_RemoveIfSame key i False st1 else st1"
  have "hs_view ?st' k = ((hs_view st)(key := if p then None else Some vals)) k" for k
    using c v lk keep [of k] by (cases p; cases "hs_lookup st k") (auto simp: hs_view_def)
  moreover have "hs_join_loop (Suc n) now key index v cb ed st0 = Some (Inr ?st')"
    using j find by (cases p) simp_all
  ultimately show ?thesis using c by (intro exI [of _ ?st']) auto
qed

lemma hs_join_fresh:
  assumes "hs_settled st" and "hs_running st" and "hs_lookup st key = None"
    and cb: "cb (hs_store_value index v (replicate (index + 1) [])) = (p, vals)"
  shows "\<exists>st'. hs_join_loop (Suc n) now key index v cb ed st = Some (Inr st') \<and> hs_settled st'
    \<and> hs_view st' = (hs_view st)(key := if p then None else Some vals)"
proof -
  have tab: "hs_tables_ok st" using assms(1) by (simp add: hs_settled_def)
  obtain st1 where f: "hs_FindOrCreate key index cb st = Inr ((length (hs_items st), True), st1)"
    using hs_FindOrCreate_spec(2) [OF assms(2) tab assms(3)] by metis
  note new = hs_settled_created [OF assms(1-3) f]
  have view: "(hs_view st1)(key := x) = (hs_view st)(key := x)" for x
    using hs_lookup_bound [OF tab] by (auto simp: fun_eq_iff hs_view_def new(2,7) map_option_case split: option.split)
  have "\<not> hs_expired now st1 (length (hs_items st))" by (simp add: hs_expired_def new(6))
  from hs_join_found [OF new(1,4) _ this _ f, of v p vals n ed] new(2) cb view show ?thesis
    by (simp add: new(5) del: hs_join_loop.simps)
qed

subsection \<open>Properties\<close>

definition hs_demo_config :: JoinStorageConfig where
  "hs_demo_config = makeJoinStorageConfig ''join'' 5 False"

text \<open>The lists of values with one value appended to the list at an index, which may lie behind their end.\<close>

definition hs_appended :: "nat \<Rightarrow> 'v \<Rightarrow> 'v JoinValues \<Rightarrow> 'v JoinValues" where
  "hs_appended index v values =
     map (\<lambda>j. (if j < length values then values ! j else []) @ (if j = index then [v] else []))
       [0..<max (length values) (index + 1)]"

lemma hs_store_value_appended: "hs_store_value index v values = hs_appended index v values"
  by (rule nth_equalityI) (auto simp: hs_store_value_def hs_appended_def Let_def nth_append nth_list_update)

lemma hs_appended_fresh: "hs_appended index v (replicate (index + 1) []) = hs_appended index v []"
proof -
  have "replicate (Suc index) ([] :: 'a list) ! j = []" if "j < Suc index" for j by (rule nth_replicate [OF that])
  then show ?thesis unfolding hs_appended_def by (intro map_cong) (simp_all del: replicate_Suc)
qed

text \<open>C11. What \<open>joinValue\<close> does. On a running storage, called by one thread with the table settled,
  the loop ends after at most two rounds. The value is appended to the live values of its key (none
  if the stored item has passed its deadline) and the callback decides on the result: when it
  completes the join the key is dropped, otherwise the key holds the callback's values. No other
  key changes.\<close>

theorem joinValue_functional:
  assumes "hs_settled st" and "hs_running st"
    and "cb (hs_appended index v (case hs_live now st key of Some vs \<Rightarrow> vs | None \<Rightarrow> [])) = (p, vals)"
  shows "\<exists>st'. hs_joinValue 2 now contextDeadline key index v (Some cb) st = Some (Inr st') \<and> hs_settled st'
    \<and> hs_view st' = (hs_view st)(key := if p then None else Some vals)"
proof -
  have cb: "cb (hs_store_value index v (case hs_live now st key of Some vs \<Rightarrow> vs | None \<Rightarrow> replicate (index + 1) []))
      = (p, vals)"
    using assms(3) hs_appended_fresh [of index v] by (cases "hs_live now st key") (simp_all add: hs_store_value_appended)
  define ed where "ed = hs_EffectiveDeadline contextDeadline now st"
  have tab: "hs_tables_ok st" using assms(1) by (simp add: hs_settled_def)
  have "\<exists>st'. hs_join_loop (Suc (Suc 0)) now key index v cb ed st = Some (Inr st') \<and> hs_settled st'
    \<and> hs_view st' = (hs_view st)(key := if p then None else Some vals)"
  proof (cases "hs_lookup st key")
    case None
    then show ?thesis
      using assms(1,2) cb by (intro hs_join_fresh) (simp_all add: hs_live_def)
  next
    case (Some i)
    note f = hs_FindOrCreate_spec(1) [OF assms(2) tab Some, of index cb]
    show ?thesis
    proof (cases "hs_expired now st i")
      case False
      with Some assms(1,2) cb f show ?thesis by (intro hs_join_found) (simp_all add: hs_live_def)
    next
      case True
      let ?st = "hs_RemoveIfSame key i True (hs_call_expiry i (hs_update_item i (\<lambda>it. it\<lparr>it_processed := True\<rparr>) st))"
      have np: "\<not> it_processed (hs_items st ! i)" using assms(1) Some by (auto simp: hs_settled_def)
      then have "hs_join_locked now key index v cb ed i False st
          = (HsExpired, hs_update_item i (\<lambda>it. it\<lparr>it_processed := True\<rparr>) st)"
        using True by (simp add: hs_join_locked_def hs_expired_def Let_def)
      then have loop: "hs_join_loop (Suc (Suc 0)) now key index v cb ed st = hs_join_loop (Suc 0) now key index v cb ed ?st"
        using f by simp
      note ex = hs_settled_expired [OF assms(1) Some refl]
      have "k \<noteq> key \<Longrightarrow> hs_lookup st k = Some j \<Longrightarrow> j \<noteq> i" for k j
        using assms(1) Some by (auto simp: hs_settled_def)
      then have view: "(hs_view ?st)(key := x) = (hs_view st)(key := x)" for x
        using ex(5) by (auto simp: fun_eq_iff hs_view_def ex(2) map_option_case split: option.split)
      have "\<exists>st'. hs_join_loop (Suc 0) now key index v cb ed ?st = Some (Inr st') \<and> hs_settled st'
          \<and> hs_view st' = (hs_view ?st)(key := if p then None else Some vals)"
        using ex(1-3) assms(2) cb Some True by (intro hs_join_fresh) (simp_all add: hs_live_def)
      then show ?thesis unfolding loop view .
    qed
  qed
  then show ?thesis by (simp add: hs_joinValue_def ed_def numeral_2_eq_2 del: hs_join_loop.simps)
qed

theorem joinValue_functional_witness:
  "\<exists>st :: (nat, nat) hs_State. hs_start (HashMapJoinStorage False hs_demo_config) = Inr st
     \<and> (\<exists>st'. hs_joinValue 2 0 None 3 1 (7::nat) (Some (\<lambda>vs. (False, vs))) st = Some (Inr st')
           \<and> hs_view st' 3 = Some [[], [7]])"
proof -
  define st :: "(nat, nat) hs_State" where
    "st = (HashMapJoinStorage False hs_demo_config)\<lparr>hs_running := True, hs_rotationArmed := True\<rparr>"
  have s: "hs_start (HashMapJoinStorage False hs_demo_config) = Inr st"
    by (simp add: st_def hs_start_def HashMapJoinStorage_def hs_demo_config_def makeJoinStorageConfig_def
        hs_ArmRotation_def)
  have settled: "hs_settled st" and run: "hs_running st" and live: "hs_live 0 st 3 = None"
    by (simp_all add: st_def hs_settled_def hs_tables_simps hs_lookup_def hs_live_def HashMapJoinStorage_def)
  from joinValue_functional [OF settled run, of "\<lambda>vs. (False, vs)" 1 7 0 3 False "[[], [7]]" None] live s
  show ?thesis by (auto simp: hs_appended_def)
qed

text \<open>C3. Every join is completed at most once. In every interleaving of \<open>joinValue\<close> calls, expiry
  handlers, rotations and \<open>stop()\<close>, the callbacks invoked for one stored item are normal calls
  that left the join incomplete, followed by at most one final call: the normal call that completed
  it or the expiry call. In particular an item never expires twice, and never expires after it was
  completed.\<close>

theorem join_completed_at_most_once:
  assumes "hs_reach me config w" and "i < length (hs_items (hw_state w))"
  shows "hs_open (hs_calls (hw_state w) i) \<or> hs_closed (hs_calls (hw_state w) i)"
  using hs_world_okD(5) [OF hs_reach_ok [OF assms(1)] assms(2)] by (auto simp: hs_calls_ok_def split: if_splits)

text \<open>C12. The size gauge is exact. In every interleaving a key is in at most one of the two
  generations, and with metrics enabled the gauge \<open>count\<close> equals the number of stored items and
  the exported eviction counter equals the internal one.\<close>

theorem join_gauge_exact:
  assumes "hs_reach me config w" and "hs_metricsEnabled (hw_state w)"
  shows "hs_count (hw_state w) = int (hs_size (hw_state w))
    \<and> hs_evictionsTotal (hw_state w) = hs_evictions (hw_state w)
    \<and> fmdom (hs_current (hw_state w)) |\<inter>| fmdom (hs_previous (hw_state w)) = {||}"
  using hs_world_okD(1) [OF hs_reach_ok [OF assms(1)]] assms(2) by (simp add: hs_tables_ok_def)

text \<open>A run of two threads: thread 0 stores a value with a deadline, its expiry handler marks the
  item, then thread 1 stops the storage and returns while the callback has not yet run.\<close>

lemma hs_demo_reach:
  "\<exists>w. hs_reach True hs_demo_config w \<and> length (hs_items (hw_state w)) = 1
     \<and> hs_calls (hw_state w) 0 = [NormalCall False] \<and> hs_metricsEnabled (hw_state w)
     \<and> hs_stopped (hw_state w) \<and> hw_threads w 1 = PcIdle
     \<and> hw_threads w 0 = (PcCallExpiry ''k'' 0 None :: (string, nat) hs_pc)"
proof -
  let ?task = "HsTask ''k'' 0 (7::nat) (\<lambda>vs. (False, vs)) (Some 9)"
  define w0 :: "(string, nat) hs_World" where
    "w0 = \<lparr>hw_state = HashMapJoinStorage True hs_demo_config, hw_threads = (\<lambda>_. PcIdle)\<rparr>"
  define go where "go t w = (case hs_thread_step 0 (hw_threads w t) (hw_state w) of
      (pc, st) \<Rightarrow> \<lparr>hw_state = st, hw_threads = (hw_threads w)(t := pc)\<rparr>)"
    for t :: nat and w :: "(string, nat) hs_World"
  have go: "hs_reach True hs_demo_config w \<Longrightarrow> hs_reach True hs_demo_config (go t w)" for t w
    by (auto simp: go_def split: prod.split intro: hs_reach.step)
  define st1 where "st1 = hs_ArmRotation ((hw_state w0)\<lparr>hs_running := True\<rparr>)"
  define w1 where "w1 = w0\<lparr>hw_state := st1\<rparr>"
  define w2 where "w2 = go 0 (go 0 (w1\<lparr>hw_threads := (hw_threads w1)(0 := PcFind ?task)\<rparr>))"
  define w3 where "w3 = go 0 (w2\<lparr>hw_threads := (hw_threads w2)(0 := PcExpire ''k'' 0 1)\<rparr>)"
  define w4 where "w4 = go 1 (go 1 \<lparr>hw_state = snd (hs_stop_begin (hw_state w3)),
      hw_threads = (hw_threads w3)(1 := PcStop (fst (hs_stop_begin (hw_state w3))))\<rparr>)"
  have ran: "fmran (fmupd k (0::nat) fmempty) = {|0|}" for k :: string
    by (auto simp: fset_eq_iff fmlookup_ran_iff split: if_splits)
  note defs = ran fmsize_upd sorted_list_of_fset.rep_eq w0_def st1_def w1_def w2_def w3_def w4_def go_def HashMapJoinStorage_def hs_demo_config_def
    makeJoinStorageConfig_def hs_ArmRotation_def hs_FindOrCreate_def hs_join_locked_def
    hs_ArmExpiry_def hs_update_item_def hs_store_value_def hs_Expire_locked_def hs_stop_begin_def
    hs_stop_item_def hs_mapped_def Let_def hs_calls_def
  have r0: "hs_reach True hs_demo_config w0"
    unfolding w0_def by (rule hs_reach.init)
  have r1: "hs_reach True hs_demo_config w1"
    unfolding w1_def
    by (rule hs_reach.start [OF r0])
      (simp add: w0_def st1_def hs_start_def HashMapJoinStorage_def hs_demo_config_def
        makeJoinStorageConfig_def)
  have r2: "hs_reach True hs_demo_config w2"
    unfolding w2_def by (intro go hs_reach.join r1) (simp add: w1_def w0_def)
  have r3: "hs_reach True hs_demo_config w3"
    unfolding w3_def by (intro go hs_reach.expire r2) (simp_all add: defs)
  have r4: "hs_reach True hs_demo_config w4"
    unfolding w4_def by (intro go hs_reach.stop [OF r3]) (simp_all add: defs)
  show ?thesis
    by (intro exI [of _ w4] conjI r4) (simp_all add: defs)
qed

theorem join_completed_at_most_once_witness:
  "\<exists>w. hs_reach True hs_demo_config (w :: (string, nat) hs_World)
     \<and> hs_calls (hw_state w) 0 = [NormalCall False]
     \<and> (hs_open (hs_calls (hw_state w) 0) \<or> hs_closed (hs_calls (hw_state w) 0))"
proof -
  obtain w :: "(string, nat) hs_World" where w: "hs_reach True hs_demo_config w"
    "length (hs_items (hw_state w)) = 1" "hs_calls (hw_state w) 0 = [NormalCall False]"
    using hs_demo_reach by blast
  from join_completed_at_most_once [OF w(1), of 0] w show ?thesis by auto
qed

theorem join_gauge_exact_witness:
  "\<exists>w. hs_reach True hs_demo_config (w :: (string, nat) hs_World)
     \<and> hs_count (hw_state w) = int (hs_size (hw_state w))"
proof -
  obtain w :: "(string, nat) hs_World" where w: "hs_reach True hs_demo_config w" "hs_metricsEnabled (hw_state w)"
    using hs_demo_reach by blast
  from join_gauge_exact [OF w] w show ?thesis by blast
qed

lemma hs_stop_items:
  "length (hs_items (fold hs_stop_item is st)) = length (hs_items st)"
  "hs_current (fold hs_stop_item is st) = hs_current st" "hs_previous (fold hs_stop_item is st) = hs_previous st"
  "hs_running (fold hs_stop_item is st) = hs_running st" "hs_stopped (fold hs_stop_item is st) = hs_stopped st"
  "hs_count (fold hs_stop_item is st) = hs_count st" "hs_log (fold hs_stop_item is st) = hs_log st"
  by (induction "is" arbitrary: st) (simp_all add: hs_stop_item_def hs_update_item_def)

lemma hs_stop_items_processed:
  "i \<in> set is \<or> it_processed (hs_items st ! i) \<Longrightarrow> i < length (hs_items st) \<Longrightarrow>
   it_processed (hs_items (fold hs_stop_item is st) ! i)"
  by (induction "is" arbitrary: st)
    (auto simp: hs_stop_item_def hs_update_item_def nth_list_update_if)

text \<open>C29. \<open>stop()\<close> drains the storage: no item is left in the tables, the gauge is back to zero, every
  item that was stored is processed, so that its pending expiry handlers do nothing, no callback
  was invoked, and a later \<open>joinValue\<close> is refused.\<close>

theorem join_stop_drains:
  assumes "hs_tables_ok st" and "\<not> hs_stopped st"
  shows "hs_size (hs_stop st) = 0 \<and> hs_count (hs_stop st) = 0 \<and> hs_log (hs_stop st) = hs_log st
    \<and> (\<forall>i. i |\<in>| hs_mapped st \<longrightarrow> hs_Expire key i g (hs_stop st) = hs_stop st)
    \<and> hs_joinValue (Suc n) now ctx key index v (Some cb) (hs_stop st) = Some (Inl StoreStoppedError)
    \<and> hs_destroy (hs_stop st) = Inr ()"
proof -
  have "it_processed (hs_items (hs_stop st) ! i)" if "i |\<in>| hs_mapped st" for i
    using assms that by (auto simp: hs_stop_def hs_stop_begin_def hs_tables_ok_def Let_def
        intro!: hs_stop_items_processed)
  then have "hs_Expire key i g (hs_stop st) = hs_stop st" if "i |\<in>| hs_mapped st" for i
    using that by (simp add: hs_Expire_def hs_Expire_locked_def Let_def)
  moreover have "hs_count (hs_stop st) = 0"
    using assms by (auto simp: hs_stop_def hs_stop_begin_def Let_def hs_stop_items hs_tables_simps)
  moreover have "\<not> hs_running (hs_stop st)" "hs_stopped (hs_stop st)" "hs_log (hs_stop st) = hs_log st"
      "hs_size (hs_stop st) = 0"
    using assms by (auto simp: hs_stop_def hs_stop_begin_def Let_def hs_stop_items hs_size_def)
  ultimately show ?thesis by (simp add: hs_joinValue_def hs_FindOrCreate_def hs_destroy_def)
qed

theorem join_stop_drains_witness:
  "\<exists>st :: (nat, nat) hs_State. hs_size st = 1 \<and> hs_tables_ok st \<and> \<not> hs_stopped st
     \<and> hs_size (hs_stop st) = 0
     \<and> hs_joinValue 1 0 None 3 1 (7::nat) (Some (\<lambda>vs. (False, vs))) (hs_stop st) = Some (Inl StoreStoppedError)"
proof -
  define st :: "(nat, nat) hs_State" where
    "st = (HashMapJoinStorage True hs_demo_config)\<lparr>hs_running := True, hs_current := fmupd 3 0 fmempty,
       hs_count := 1, hs_items := [\<lparr>it_values = [[1]], it_callback = (\<lambda>vs. (False, vs)), it_deadline = None,
          it_generation = 0, it_processed = False\<rparr>]\<rparr>"
  have st: "hs_tables_ok st" "\<not> hs_stopped st" "hs_size st = 1"
    by (simp_all add: st_def hs_tables_simps HashMapJoinStorage_def fmsize_upd)
  from join_stop_drains [OF st(1,2), of 3 0 0 0 None 1 7 "\<lambda>vs. (False, vs)"] st show ?thesis by auto
qed

end
