(* ===== verification/PoolContract.thy ===== *)
theory PoolContract
  imports Prelude "HOL-Library.Multiset"
begin

section \<open>What a pool promises (runtime/pool/pool.hpp)\<close>

text \<open>
  The errors of the pools and the contract that both kinds of pool meet: a task that was accepted
  is somewhere in flight until it has finished, and the event that releases \<open>stop()\<close> is
  sent only when nothing is in flight. \<open>QueuedPool\<close> and \<open>DelayPool\<close> interpret the
  locale on their reachable states.
\<close>

datatype pool_error =
    PoolAlreadyStartedError
  | PoolStoppedError
  | PoolNotStartedError
  | PoolCancelledError
  | PoolSelfStopError
  | PoolInvalidArgument string
  | PoolOverflowError string
  | PoolPostFailed
  | PoolTerminate

lemma distinct_sub_mset:
  assumes "mset xs \<subseteq># mset ys" and "distinct ys"
  shows "distinct xs"
proof -
  have "count (mset xs) a = (if a \<in> set xs then 1 else 0)" for a
  proof -
    have "count (mset xs) a \<le> count (mset ys) a" using assms(1) by (simp add: mset_subset_eq_count)
    also have "\<dots> \<le> 1" using assms(2) distinct_count_atmost_1 [of ys] by simp
    finally have le: "count (mset xs) a \<le> 1" .
    show ?thesis
    proof (cases "a \<in> set xs")
      case True
      then have "0 < count (mset xs) a" by (simp add: count_greater_zero_iff)
      with le have "count (mset xs) a = 1" by linarith
      with True show ?thesis by (simp only: if_True)
    qed (simp add: count_eq_zero_iff)
  qed
  then show ?thesis using distinct_count_atmost_1 by blast
qed

locale draining_pool =
  fixes reach :: "'s \<Rightarrow> bool" and accepted finished :: "'s \<Rightarrow> nat list"
    and in_flight :: "'s \<Rightarrow> nat multiset" and released :: "'s \<Rightarrow> bool"
  assumes conserved: "reach s \<Longrightarrow> mset (accepted s) = in_flight s + mset (finished s)"
    and admitted_once: "reach s \<Longrightarrow> distinct (accepted s)"
    and released_empty: "reach s \<Longrightarrow> released s \<Longrightarrow> in_flight s = {#}"
begin

lemma finished_once: "reach s \<Longrightarrow> distinct (finished s)"
  using conserved [of s] admitted_once [of s]
  by (intro distinct_sub_mset [of "finished s" "accepted s"]) simp_all

lemma finished_accepted: "reach s \<Longrightarrow> set (finished s) \<subseteq> set (accepted s)"
  using conserved [of s] by (metis mset_subset_eq_add_right set_mset_mono set_mset_mset)

lemma released_all_finished: "reach s \<Longrightarrow> released s \<Longrightarrow> mset (finished s) = mset (accepted s)"
  using conserved [of s] released_empty [of s] by simp

lemma in_flight_not_finished: "reach s \<Longrightarrow> i \<in># in_flight s \<Longrightarrow> i \<notin> set (finished s)"
proof
  assume r: "reach s" and i: "i \<in># in_flight s" and f: "i \<in> set (finished s)"
  have "0 < count (in_flight s) i" "0 < count (mset (finished s)) i" using i f by simp_all
  moreover have "count (mset (accepted s)) i = count (in_flight s) i + count (mset (finished s)) i"
    by (simp only: conserved [OF r] count_union)
  moreover have "count (mset (accepted s)) i \<le> 1"
    using admitted_once [OF r] distinct_count_atmost_1 [of "accepted s"] by simp
  ultimately show False by linarith
qed

end

end
