(* ===== verification/QueuedPool.thy ===== *)
theory QueuedPool
  imports PoolContract
begin

unbundle bit_operations_syntax

section \<open>The task pools (runtime/pool/pool.hpp, queuedpool.hpp)\<close>

text \<open>
  \<open>QueuedPool<Priority>\<close> is both task pools of the library. Queue management runs on an Asio
  strand, callbacks run on the service executor and hold one of \<open>target\<close> slots until they are
  done. Admission is decided on a 64-bit activity word: two flags and the number of accepted tasks
  that have not finished.

  The strand is the list of its pending handlers (\<open>qp_strand\<close>, a constructor of \<open>qp_msg\<close> per
  lambda that the source posts to it or arms on one of its timers); \<open>qp_handle\<close> is one function
  per handler. A step of the pool takes any pending handler, so the theorems do not rest on the
  order in which the executor delivers them. Tasks are numbers, their mutable fields are in
  \<open>qp_tasks\<close>; \<open>task->position\<close> and \<open>task->deadlinePosition\<close> are membership in the queue and
  in the deadline table. The clock, the configured number of executors, the hardware concurrency
  and cancellation are arguments. \<open>qp_accepted\<close> and \<open>qp_finished\<close> record admissions and
  completed callbacks for the statements below.
\<close>

subsection \<open>Constants\<close>

definition kClosed :: u64 where "kClosed = push_bit 63 1"
definition kStarted :: u64 where "kStarted = push_bit 62 1"
definition kCount :: u64 where "kCount = kStarted - 1"

definition kIntMin :: int where "kIntMin = - (2 ^ 31)"

subsection \<open>State\<close>

record qp_Task =
  tk_deadline :: "int option"
  tk_cancelled :: bool
  tk_promoted :: bool
  tk_priority :: int

datatype qp_msg =
    MsgStart bool
  | MsgStop
  | MsgInsert nat
  | MsgCancel nat
  | MsgDone
  | MsgCheckDrain
  | MsgStopManager
  | MsgManager
  | MsgDeadline u64

record qp_State =
  qp_metricsEnabled :: bool
  qp_fallbackExecutors :: int
  qp_activity :: u64
  qp_target :: int
  qp_starting :: "(int \<times> bool) option"
  qp_started :: bool
  qp_stopping :: bool
  qp_managerActive :: bool
  qp_completed :: bool
  qp_busy :: nat
  qp_nextSequence :: nat
  qp_deadlineGeneration :: u64
  qp_queue :: "((int \<times> nat) \<times> nat) list"
  qp_deadlines :: "(int \<times> nat) list"
  qp_armedAt :: "int option"
  qp_drained :: bool
  qp_tasks :: "qp_Task list"
  qp_strand :: "qp_msg list"
  qp_running :: "nat list"
  qp_gaugeQueueLength :: int
  qp_gaugeExecutorsTarget :: int
  qp_gaugeExecutorsAllocated :: int
  qp_gaugeExecutorsBusy :: int
  qp_tasksTotal :: nat
  qp_taskRejected :: nat
  qp_taskCancelled :: nat
  qp_stopTimeouts :: nat
  qp_accepted :: "nat list"
  qp_finished :: "nat list"

definition resolveExecutors :: "int \<Rightarrow> int \<Rightarrow> (pool_error, int) result" where
  "resolveExecutors hardwareConcurrency cnt =
     (if cnt < 0 then Inl (PoolInvalidArgument ''negative executor count'')
      else Inr (if cnt \<noteq> 0 then cnt else max 1 hardwareConcurrency))"

text \<open>\<open>configured\<close> is what \<open>GetPoolByName\<close> finds in the current configuration, if anything.\<close>

definition configuredExecutors :: "int \<Rightarrow> int option \<Rightarrow> qp_State \<Rightarrow> (pool_error, int) result" where
  "configuredExecutors hc configured st =
     resolveExecutors hc (case configured of Some c \<Rightarrow> c | None \<Rightarrow> qp_fallbackExecutors st)"

definition QueuedPool :: "bool \<Rightarrow> int \<Rightarrow> int option \<Rightarrow> (pool_error, qp_State) result" where
  "QueuedPool metricsEnabled hc configured =
     (case configured of
        None \<Rightarrow> Inl (PoolInvalidArgument ''task pool configuration not found'')
      | Some cnt \<Rightarrow> bindR (resolveExecutors hc cnt) (\<lambda>target.
          Inr \<lparr>qp_metricsEnabled = metricsEnabled, qp_fallbackExecutors = cnt, qp_activity = 0,
               qp_target = target, qp_starting = None, qp_started = False, qp_stopping = False, qp_managerActive = True,
               qp_completed = False, qp_busy = 0, qp_nextSequence = 0, qp_deadlineGeneration = 0,
               qp_queue = [], qp_deadlines = [], qp_armedAt = None, qp_drained = False, qp_tasks = [],
               qp_strand = [], qp_running = [], qp_gaugeQueueLength = 0, qp_gaugeExecutorsTarget = 0,
               qp_gaugeExecutorsAllocated = 0, qp_gaugeExecutorsBusy = 0, qp_tasksTotal = 0,
               qp_taskRejected = 0, qp_taskCancelled = 0, qp_stopTimeouts = 0, qp_accepted = [],
               qp_finished = []\<rparr>))"

definition qp_destroy :: "qp_State \<Rightarrow> (pool_error, unit) result" where
  "qp_destroy st =
     (if qp_activity st AND kCount \<noteq> 0
         \<or> (qp_activity st AND kStarted \<noteq> 0 \<and> qp_activity st AND kClosed = 0)
      then Inl PoolTerminate else Inr ())"

definition qp_post :: "qp_msg \<Rightarrow> qp_State \<Rightarrow> qp_State" where
  "qp_post m st = st\<lparr>qp_strand := qp_strand st @ [m]\<rparr>"

subsection \<open>Calls from any thread\<close>

text \<open>\<open>start()\<close> has two parts that other calls and handlers may come between: the section under the mutex, and the store of
  the target with the post of the start handler. A call between the two is recorded in \<open>qp_starting\<close> with the count it
  read; the flag it has set admits only one such call. The store is a step before or after a handler: within the dispatch
  loop of a handler it could only change the number of tasks that this handler starts to one between the old and the new
  target.\<close>

definition qp_start :: "int \<Rightarrow> int option \<Rightarrow> bool \<Rightarrow> qp_State \<Rightarrow> (pool_error, unit) result \<times> qp_State" where
  "qp_start hc configured contextCancelled st =
     (case configuredExecutors hc configured st of
        Inl e \<Rightarrow> (Inl e, st)
      | Inr cnt \<Rightarrow>
          let activity = qp_activity st;
              st = (if activity AND (kClosed OR kStarted) = 0
                    then st\<lparr>qp_activity := activity OR kStarted\<rparr> else st)
          in if activity AND kClosed \<noteq> 0 then (Inl PoolStoppedError, st)
             else if activity AND kStarted \<noteq> 0 then (Inl PoolAlreadyStartedError, st)
             else (Inr (), st\<lparr>qp_starting := Some (cnt, contextCancelled)\<rparr>))"

definition qp_start_store :: "qp_State \<Rightarrow> qp_State" where
  "qp_start_store st =
     (case qp_starting st of
        None \<Rightarrow> st
      | Some (cnt, contextCancelled) \<Rightarrow>
          qp_post (MsgStart contextCancelled) (st\<lparr>qp_target := cnt, qp_starting := None\<rparr>))"

text \<open>\<open>stop()\<close> up to its wait for the drain event.\<close>

definition qp_stop :: "bool \<Rightarrow> qp_State \<Rightarrow> (pool_error, unit) result \<times> qp_State" where
  "qp_stop calledFromOwnTask st =
     (if calledFromOwnTask then (Inl PoolSelfStopError, st)
      else let initiateStop = (qp_activity st AND kClosed = 0);
               st = st\<lparr>qp_activity := qp_activity st OR kClosed\<rparr>
           in (Inr (), if initiateStop then qp_post MsgStop st else st))"

text \<open>The wait with the context's deadline: when the pool has not drained by then, the timeout is
  counted and the call keeps waiting.\<close>

definition qp_stop_deadline :: "qp_State \<Rightarrow> qp_State" where
  "qp_stop_deadline st =
     (if qp_drained st then st else st\<lparr>qp_stopTimeouts := qp_stopTimeouts st + 1\<rparr>)"

definition qp_addTask ::
  "bool \<Rightarrow> int option \<Rightarrow> int \<Rightarrow> bool \<Rightarrow> qp_State \<Rightarrow> (pool_error, nat) result \<times> qp_State"
where
  "qp_addTask contextCancelled deadline priority postFails st =
     (if contextCancelled
      then (Inl PoolCancelledError, st\<lparr>qp_taskRejected := qp_taskRejected st + 1\<rparr>)
      else
        let i = length (qp_tasks st);
            st = st\<lparr>qp_tasks := qp_tasks st @
                   [\<lparr>tk_deadline = deadline, tk_cancelled = False, tk_promoted = False, tk_priority = priority\<rparr>]\<rparr>;
            activity = qp_activity st;
            st = (if activity AND kClosed = 0 \<and> activity AND kCount \<noteq> kCount
                  then st\<lparr>qp_activity := activity + 1\<rparr> else st)
        in if activity AND kClosed \<noteq> 0
           then (Inl PoolStoppedError, st\<lparr>qp_taskRejected := qp_taskRejected st + 1\<rparr>)
           else if activity AND kCount = kCount
           then (Inl (PoolOverflowError ''too many queued tasks''), st)
           else if postFails
           then (Inl PoolPostFailed,
                 qp_post MsgCheckDrain (st\<lparr>qp_activity := qp_activity st - 1\<rparr>))
           else (Inr i, qp_post (MsgInsert i) (st\<lparr>qp_accepted := qp_accepted st @ [i]\<rparr>)))"

text \<open>The stop callback registered on the context's tokens.\<close>

definition qp_cancel :: "nat \<Rightarrow> qp_State \<Rightarrow> qp_State" where
  "qp_cancel i st =
     (if i < length (qp_tasks st) \<and> \<not> tk_cancelled (qp_tasks st ! i)
      then qp_post (MsgCancel i)
             (st\<lparr>qp_tasks := (qp_tasks st)[i := (qp_tasks st ! i)\<lparr>tk_cancelled := True\<rparr>]\<rparr>)
      else st)"

subsection \<open>Queue management on the strand\<close>

fun qp_insert_key :: "(int \<times> nat) \<times> nat \<Rightarrow> ((int \<times> nat) \<times> nat) list \<Rightarrow> ((int \<times> nat) \<times> nat) list" where
  "qp_insert_key (k, i) [] = [(k, i)]"
| "qp_insert_key (k, i) ((k', i') # q) =
     (if fst k < fst k' \<or> fst k = fst k' \<and> snd k < snd k' then (k, i) # (k', i') # q
      else (k', i') # qp_insert_key (k, i) q)"

fun qp_insert_deadline :: "int \<times> nat \<Rightarrow> (int \<times> nat) list \<Rightarrow> (int \<times> nat) list" where
  "qp_insert_deadline (d, i) [] = [(d, i)]"
| "qp_insert_deadline (d, i) ((d', i') # ds) =
     (if d < d' then (d, i) # (d', i') # ds else (d', i') # qp_insert_deadline (d, i) ds)"

definition qp_queued :: "nat \<Rightarrow> qp_State \<Rightarrow> bool" where
  "qp_queued i st \<longleftrightarrow> i \<in> snd ` set (qp_queue st)"

definition qp_publish :: "qp_State \<Rightarrow> qp_State" where
  "qp_publish st =
     (if \<not> qp_metricsEnabled st then st
      else st\<lparr>qp_gaugeQueueLength := int (length (qp_queue st)),
              qp_gaugeExecutorsTarget := qp_target st,
              qp_gaugeExecutorsAllocated :=
                (if qp_completed st then 0
                 else if qp_started st then max (qp_target st) (int (qp_busy st)) else 0),
              qp_gaugeExecutorsBusy := int (qp_busy st)\<rparr>)"

definition qp_checkDrain :: "qp_State \<Rightarrow> qp_State" where
  "qp_checkDrain st =
     (if \<not> qp_stopping st \<or> qp_completed st then st
      else if qp_activity st AND kCount = 0
      then (qp_publish (st\<lparr>qp_completed := True\<rparr>))\<lparr>qp_drained := True\<rparr>
      else st)"

definition qp_stopManager :: "qp_State \<Rightarrow> qp_State" where
  "qp_stopManager st = st\<lparr>qp_managerActive := False\<rparr>"

definition qp_removeDeadline :: "nat \<Rightarrow> qp_State \<Rightarrow> qp_State" where
  "qp_removeDeadline i st = st\<lparr>qp_deadlines := filter (\<lambda>d. snd d \<noteq> i) (qp_deadlines st)\<rparr>"

definition qp_promote :: "bool \<Rightarrow> nat \<Rightarrow> qp_State \<Rightarrow> qp_State" where
  "qp_promote prio i st =
     (if \<not> qp_queued i st \<or> tk_promoted (qp_tasks st ! i) then st
      else
        let st = st\<lparr>qp_tasks := (qp_tasks st)[i := (qp_tasks st ! i)\<lparr>tk_promoted := True\<rparr>]\<rparr>;
            st = qp_removeDeadline i st;
            node = hd (filter (\<lambda>n. snd n = i) (qp_queue st));
            others = filter (\<lambda>n. snd n \<noteq> i) (qp_queue st)
        in if prio
           then st\<lparr>qp_queue := qp_insert_key ((kIntMin, snd (fst node)), i) others,
                   qp_taskCancelled := qp_taskCancelled st + 1\<rparr>
           else if snd (hd (qp_queue st)) = i then st
           else st\<lparr>qp_queue := node # others, qp_taskCancelled := qp_taskCancelled st + 1\<rparr>)"

definition qp_armDeadline :: "qp_State \<Rightarrow> qp_State" where
  "qp_armDeadline st =
     (let next = (case qp_deadlines st of [] \<Rightarrow> None | d # _ \<Rightarrow> Some (fst d))
      in if next = qp_armedAt st then st
         else let generation = qp_deadlineGeneration st + 1;
                  st = st\<lparr>qp_armedAt := next, qp_deadlineGeneration := generation\<rparr>
              in if next = None then st else qp_post (MsgDeadline generation) st)"

text \<open>One round of the loop of \<open>dispatch\<close>: take the first task, occupy a slot, start its callback.\<close>

definition qp_start_task :: "nat \<Rightarrow> qp_State \<Rightarrow> qp_State" where
  "qp_start_task i st =
     qp_publish ((qp_removeDeadline i (st\<lparr>qp_queue := tl (qp_queue st)\<rparr>))
       \<lparr>qp_busy := qp_busy st + 1, qp_running := qp_running st @ [i]\<rparr>)"

function qp_dispatch_loop :: "qp_State \<Rightarrow> qp_State" where
  "qp_dispatch_loop st =
     (if qp_started st \<and> int (qp_busy st) < qp_target st \<and> qp_queue st \<noteq> []
      then qp_dispatch_loop (qp_start_task (snd (hd (qp_queue st))) st)
      else st)"
  by pat_completeness auto
termination
  by (relation "measure (\<lambda>st. length (qp_queue st))")
    (auto simp: qp_start_task_def qp_publish_def qp_removeDeadline_def)

declare qp_dispatch_loop.simps [simp del]

definition qp_dispatch :: "qp_State \<Rightarrow> qp_State" where
  "qp_dispatch st = qp_checkDrain (qp_armDeadline (qp_publish (qp_dispatch_loop st)))"

subsection \<open>The handlers\<close>

definition qp_installLifecycle :: "bool \<Rightarrow> qp_State \<Rightarrow> qp_State" where
  "qp_installLifecycle contextCancelled st = (if contextCancelled then qp_stopManager st else st)"

definition qp_scheduleManager :: "qp_State \<Rightarrow> qp_State" where
  "qp_scheduleManager st = qp_post MsgManager st"

definition qp_on_start :: "bool \<Rightarrow> qp_State \<Rightarrow> qp_State" where
  "qp_on_start contextCancelled st =
     (if qp_stopping st then st
      else let st = qp_installLifecycle contextCancelled (st\<lparr>qp_started := True\<rparr>);
               st = (if qp_managerActive st then qp_scheduleManager st else st)
           in qp_dispatch st)"

definition qp_on_stop :: "qp_State \<Rightarrow> qp_State" where
  "qp_on_stop st = qp_dispatch (qp_stopManager (st\<lparr>qp_stopping := True, qp_started := True\<rparr>))"

definition qp_on_insert :: "bool \<Rightarrow> int \<Rightarrow> nat \<Rightarrow> qp_State \<Rightarrow> qp_State" where
  "qp_on_insert prio now i st =
     (let task = qp_tasks st ! i;
          st = (if prio
                then st\<lparr>qp_queue := qp_insert_key ((tk_priority task, qp_nextSequence st), i) (qp_queue st),
                        qp_nextSequence := qp_nextSequence st + 1\<rparr>
                else st\<lparr>qp_queue := qp_queue st @ [((0, 0), i)]\<rparr>);
          st = (if tk_cancelled task \<or> (case tk_deadline task of Some d \<Rightarrow> d \<le> now | None \<Rightarrow> False)
                then qp_promote prio i st
                else case tk_deadline task of
                  Some d \<Rightarrow> st\<lparr>qp_deadlines := qp_insert_deadline (d, i) (qp_deadlines st)\<rparr>
                | None \<Rightarrow> st)
      in qp_dispatch st)"

definition qp_on_cancel :: "bool \<Rightarrow> nat \<Rightarrow> qp_State \<Rightarrow> qp_State" where
  "qp_on_cancel prio i st = (if qp_queued i st then qp_dispatch (qp_promote prio i st) else st)"

definition qp_on_done :: "qp_State \<Rightarrow> qp_State" where
  "qp_on_done st = qp_dispatch (st\<lparr>qp_busy := qp_busy st - 1, qp_activity := qp_activity st - 1\<rparr>)"

definition qp_on_manager :: "int \<Rightarrow> int option \<Rightarrow> qp_State \<Rightarrow> qp_State" where
  "qp_on_manager hc configured st =
     (if \<not> qp_managerActive st \<or> qp_stopping st then st
      else let st = (case configuredExecutors hc configured st of
                       Inl _ \<Rightarrow> st | Inr cnt \<Rightarrow> st\<lparr>qp_target := cnt\<rparr>)
           in qp_scheduleManager (qp_dispatch st))"

function qp_expire_deadlines :: "bool \<Rightarrow> int \<Rightarrow> qp_State \<Rightarrow> qp_State" where
  "qp_expire_deadlines prio now st =
     (case qp_deadlines st of
        [] \<Rightarrow> st
      | (d, i) # ds \<Rightarrow>
          if d \<le> now then qp_expire_deadlines prio now (qp_promote prio i (st\<lparr>qp_deadlines := ds\<rparr>))
          else st)"
  by pat_completeness auto
termination
proof (relation "measure (\<lambda>(prio, now, st). length (qp_deadlines st))", simp)
  fix prio and now :: int and st :: qp_State and e d i ds
  assume "qp_deadlines st = e # ds" and "(d, i) = e"
  moreover have "length (qp_deadlines (qp_promote prio i (st\<lparr>qp_deadlines := ds\<rparr>))) \<le> length ds"
    by (simp add: qp_promote_def qp_removeDeadline_def Let_def)
  ultimately show "((prio, now, qp_promote prio i (st\<lparr>qp_deadlines := ds\<rparr>)), prio, now, st)
      \<in> measure (\<lambda>(prio, now, st). length (qp_deadlines st))"
    by simp
qed

declare qp_expire_deadlines.simps [simp del]

definition qp_on_deadline :: "bool \<Rightarrow> int \<Rightarrow> u64 \<Rightarrow> qp_State \<Rightarrow> qp_State" where
  "qp_on_deadline prio now generation st =
     (if generation \<noteq> qp_deadlineGeneration st then st
      else qp_dispatch (qp_expire_deadlines prio now (st\<lparr>qp_armedAt := None\<rparr>)))"

fun qp_handle :: "bool \<Rightarrow> int \<Rightarrow> int \<Rightarrow> int option \<Rightarrow> qp_msg \<Rightarrow> qp_State \<Rightarrow> qp_State" where
  "qp_handle prio now hc configured (MsgStart cancelled) st = qp_on_start cancelled st"
| "qp_handle prio now hc configured MsgStop st = qp_on_stop st"
| "qp_handle prio now hc configured (MsgInsert i) st = qp_on_insert prio now i st"
| "qp_handle prio now hc configured (MsgCancel i) st = qp_on_cancel prio i st"
| "qp_handle prio now hc configured MsgDone st = qp_on_done st"
| "qp_handle prio now hc configured MsgCheckDrain st = qp_checkDrain st"
| "qp_handle prio now hc configured MsgStopManager st = qp_stopManager st"
| "qp_handle prio now hc configured MsgManager st = qp_on_manager hc configured st"
| "qp_handle prio now hc configured (MsgDeadline generation) st = qp_on_deadline prio now generation st"

text \<open>The end of a callback on the executor (it may have thrown: the error is logged).\<close>

definition qp_finish_task :: "nat \<Rightarrow> qp_State \<Rightarrow> qp_State" where
  "qp_finish_task i st =
     (let st = st\<lparr>qp_running := remove1 i (qp_running st), qp_finished := qp_finished st @ [i]\<rparr>;
          st = (if qp_metricsEnabled st then st\<lparr>qp_tasksTotal := qp_tasksTotal st + 1\<rparr> else st)
      in qp_post MsgDone st)"

subsection \<open>The activity word\<close>

definition qp_pending :: "u64 \<Rightarrow> nat" where
  "qp_pending a = unat (a AND kCount)"

definition qp_closed :: "u64 \<Rightarrow> bool" where
  "qp_closed a \<longleftrightarrow> bit a 63"

definition qp_opened :: "u64 \<Rightarrow> bool" where
  "qp_opened a \<longleftrightarrow> bit a 62"

lemma kCount_mask: "kCount = mask 62"
  by (simp add: kCount_def kStarted_def mask_eq_exp_minus_1)

lemma qp_pending_mod: "qp_pending a = unat a mod 2 ^ 62"
proof -
  have "qp_pending a = unat (take_bit 62 a)"
    by (simp only: qp_pending_def kCount_mask take_bit_eq_mask)
  also have "\<dots> = take_bit 62 (unat a)" by (rule unsigned_take_bit_eq)
  finally show ?thesis by (simp only: take_bit_eq_mod)
qed

lemma flag_zero: "a AND push_bit n 1 = 0 \<longleftrightarrow> \<not> bit a n" if "n < 64" for a :: u64
proof -
  have "bit (a AND push_bit n 1) m \<longleftrightarrow> bit a n \<and> m = n" for m
    using that by (auto simp: bit_simps)
  then show ?thesis by (metis bit_0_eq bot_apply bot_bool_def bit_word_eqI)
qed

lemma flag_bits: "bit kClosed n \<longleftrightarrow> n = 63" "bit kStarted n \<longleftrightarrow> n = 62"
  unfolding kClosed_def kStarted_def by (auto simp only: bit_push_bit_iff bit_1_iff possible_bit_word) simp_all

lemma flag_tests [simp]:
  "a AND kClosed = 0 \<longleftrightarrow> \<not> qp_closed a"
  "a AND kStarted = 0 \<longleftrightarrow> \<not> qp_opened a"
  "a AND (kClosed OR kStarted) = 0 \<longleftrightarrow> \<not> qp_closed a \<and> \<not> qp_opened a"
  "a AND kCount = 0 \<longleftrightarrow> qp_pending a = 0"
proof -
  show f: "a AND kClosed = 0 \<longleftrightarrow> \<not> qp_closed a" "a AND kStarted = 0 \<longleftrightarrow> \<not> qp_opened a"
    by (simp_all only: kClosed_def kStarted_def qp_closed_def qp_opened_def flag_zero)
  have "a AND (kClosed OR kStarted) = 0 \<longleftrightarrow> a AND kClosed = 0 \<and> a AND kStarted = 0"
    by (simp add: bit_eq_iff bit_simps) blast
  with f show "a AND (kClosed OR kStarted) = 0 \<longleftrightarrow> \<not> qp_closed a \<and> \<not> qp_opened a" by simp
  show "a AND kCount = 0 \<longleftrightarrow> qp_pending a = 0"
    by (simp only: qp_pending_def unsigned_eq_0_iff)
qed

lemma pending_full: "a AND kCount = kCount \<longleftrightarrow> qp_pending a = 2 ^ 62 - 1"
proof -
  have "unat kCount = 2 ^ 62 - 1" by (simp add: kCount_def kStarted_def)
  then show ?thesis by (simp only: qp_pending_def word_unat_eq_iff)
qed

lemma flag_odd:
  "qp_closed a \<longleftrightarrow> odd (unat a div 2 ^ 62 div 2)" "qp_opened a \<longleftrightarrow> odd (unat a div 2 ^ 62)"
proof -
  have "bit a k \<longleftrightarrow> odd (unat a div 2 ^ k)" if "k < 64" for k
    using that by (simp flip: bit_iff_odd add: bit_unsigned_iff)
  from this [of 63] this [of 62] show "qp_closed a \<longleftrightarrow> odd (unat a div 2 ^ 62 div 2)"
    "qp_opened a \<longleftrightarrow> odd (unat a div 2 ^ 62)"
    by (simp_all add: qp_closed_def qp_opened_def div_mult2_eq [symmetric])
qed

lemma activity_shift:
  assumes "unat b mod 2 ^ 62 = n" and "unat b div 2 ^ 62 = unat a div 2 ^ 62"
  shows "qp_pending b = n" and "qp_closed b = qp_closed a" and "qp_opened b = qp_opened a"
  by (simp_all only: qp_pending_mod flag_odd assms)

lemma activity_inc:
  assumes "qp_pending a \<noteq> 2 ^ 62 - 1"
  shows "qp_pending (a + 1) = qp_pending a + 1" and "qp_closed (a + 1) = qp_closed a"
    and "qp_opened (a + 1) = qp_opened a"
proof -
  have ne: "unat a mod 2 ^ 62 \<noteq> 2 ^ 62 - 1" using assms unfolding qp_pending_mod .
  moreover have "(2 ^ 64 - 1 :: nat) mod 2 ^ 62 = 2 ^ 62 - 1" by simp
  ultimately have "unat a \<noteq> 2 ^ 64 - 1" by metis
  moreover have "unat a < 2 ^ 64" using unsigned_less [of a, where 'a = nat] by simp
  ultimately have s: "unat (a + 1) = unat a + 1"
    by (simp add: unat_word_ariths)
  have m: "Suc (unat a) mod 2 ^ 62 = Suc (unat a mod 2 ^ 62)"
    using ne by (simp add: mod_Suc)
  have "Suc (unat a) div 2 ^ 62 = unat a div 2 ^ 62"
    by (simp only: div_Suc m) simp
  with m have "unat (a + 1) mod 2 ^ 62 = unat a mod 2 ^ 62 + 1" "unat (a + 1) div 2 ^ 62 = unat a div 2 ^ 62"
    by (simp_all only: s add_Suc_right add_0_right One_nat_def)
  from activity_shift [OF this] show "qp_pending (a + 1) = qp_pending a + 1" "qp_closed (a + 1) = qp_closed a"
    "qp_opened (a + 1) = qp_opened a" by (simp_all only: qp_pending_mod)
qed

lemma activity_dec:
  assumes "0 < qp_pending a"
  shows "qp_pending (a - 1) = qp_pending a - 1" and "qp_closed (a - 1) = qp_closed a"
    and "qp_opened (a - 1) = qp_opened a"
proof -
  let ?b = "a - 1"
  have ne: "qp_pending ?b \<noteq> 2 ^ 62 - 1"
  proof
    assume "qp_pending ?b = 2 ^ 62 - 1"
    then have "unat ?b mod 2 ^ 62 = 2 ^ 62 - 1" by (simp only: qp_pending_mod)
    then have "Suc (unat ?b) mod 2 ^ 62 = 0" by (simp only: mod_Suc) simp
    moreover have "unat a = Suc (unat ?b)"
    proof -
      have "a \<noteq> 0" using assms by (auto simp: qp_pending_mod)
      then show ?thesis using unat_minus_one [of a] by (simp add: unat_gt_0)
    qed
    ultimately show False using assms by (simp only: qp_pending_mod)
  qed
  from activity_inc [OF ne] show "qp_pending (a - 1) = qp_pending a - 1" "qp_closed (a - 1) = qp_closed a"
    "qp_opened (a - 1) = qp_opened a" by simp_all
qed

lemma activity_or [simp]:
  "qp_pending (a OR kClosed) = qp_pending a" "qp_closed (a OR kClosed)" "qp_opened (a OR kClosed) = qp_opened a"
  "qp_pending (a OR kStarted) = qp_pending a" "qp_closed (a OR kStarted) = qp_closed a" "qp_opened (a OR kStarted)"
proof -
  have "(a OR kClosed) AND kCount = a AND kCount" "(a OR kStarted) AND kCount = a AND kCount"
    by (rule bit_word_eqI; auto simp: bit_simps flag_bits kCount_mask)+
  then show "qp_pending (a OR kClosed) = qp_pending a" "qp_pending (a OR kStarted) = qp_pending a"
    by (simp_all only: qp_pending_def)
qed (auto simp: qp_closed_def qp_opened_def flag_bits bit_simps)

subsection \<open>What the strand operations leave alone\<close>

text \<open>Everything that admission, draining and the slots depend on, apart from queue and slots.\<close>

definition qp_frame :: "qp_State \<Rightarrow> u64 \<times> int \<times> bool \<times> bool \<times> nat list \<times> nat list \<times> int \<times> (int \<times> bool) option" where
  "qp_frame st = (qp_activity st, qp_target st, qp_started st, qp_stopping st, qp_accepted st,
     qp_finished st, qp_fallbackExecutors st, qp_starting st)"

lemma qp_frame_eq:
  "qp_frame st' = qp_frame st \<longleftrightarrow>
     qp_activity st' = qp_activity st \<and> qp_target st' = qp_target st \<and> qp_started st' = qp_started st
     \<and> qp_stopping st' = qp_stopping st \<and> qp_accepted st' = qp_accepted st
     \<and> qp_finished st' = qp_finished st \<and> qp_fallbackExecutors st' = qp_fallbackExecutors st
     \<and> qp_starting st' = qp_starting st"
  by (simp add: qp_frame_def)

definition qp_inserts :: "qp_msg list \<Rightarrow> nat list" where
  "qp_inserts ms = concat (map (\<lambda>m. case m of MsgInsert i \<Rightarrow> [i] | _ \<Rightarrow> []) ms)"

definition qp_dones :: "qp_msg list \<Rightarrow> nat" where
  "qp_dones ms = length (filter (\<lambda>m. m = MsgDone) ms)"

lemma qp_strand_counts [simp]:
  "qp_inserts [] = []" "qp_dones [] = 0"
  "qp_inserts (xs @ ys) = qp_inserts xs @ qp_inserts ys" "qp_dones (xs @ ys) = qp_dones xs + qp_dones ys"
  "qp_inserts (m # ms) = (case m of MsgInsert i \<Rightarrow> [i] | _ \<Rightarrow> []) @ qp_inserts ms"
  "qp_dones (m # ms) = (if m = MsgDone then 1 else 0) + qp_dones ms"
  by (simp_all add: qp_inserts_def qp_dones_def)

text \<open>A silent operation touches neither the frame nor the flow of tasks.\<close>

definition qp_silent :: "qp_State \<Rightarrow> qp_State \<Rightarrow> bool" where
  "qp_silent st st' \<longleftrightarrow>
     qp_frame st' = qp_frame st \<and> qp_busy st' = qp_busy st \<and> qp_running st' = qp_running st
     \<and> qp_queue st' = qp_queue st \<and> qp_inserts (qp_strand st') = qp_inserts (qp_strand st)
     \<and> qp_dones (qp_strand st') = qp_dones (qp_strand st) \<and> length (qp_tasks st') = length (qp_tasks st)
     \<and> set (qp_strand st) \<subseteq> set (qp_strand st')
     \<and> (\<forall>m \<in> set (qp_strand st') - set (qp_strand st). \<exists>g. m = MsgDeadline g)
     \<and> qp_nextSequence st' = qp_nextSequence st"

lemma qp_silent_trans [trans]: "qp_silent a b \<Longrightarrow> qp_silent b c \<Longrightarrow> qp_silent a c"
  unfolding qp_silent_def by (simp, blast)

lemma qp_silent_refl [simp]: "qp_silent st st"
  by (simp add: qp_silent_def)

lemma qp_silent_ops [simp]:
  "qp_silent st (qp_publish st)" "qp_silent st (qp_removeDeadline i st)" "qp_silent st (qp_armDeadline st)"
  "qp_silent st (qp_checkDrain st)" "qp_silent st (qp_stopManager st)" "qp_silent st (qp_stop_deadline st)"
  by (auto simp: qp_silent_def qp_frame_def qp_publish_def qp_removeDeadline_def qp_armDeadline_def
      qp_checkDrain_def qp_stopManager_def qp_stop_deadline_def qp_post_def Let_def split: list.split)

lemma qp_drain_flags [simp]:
  "qp_completed (qp_publish st) = qp_completed st" "qp_drained (qp_publish st) = qp_drained st"
  "qp_completed (qp_removeDeadline i st) = qp_completed st" "qp_drained (qp_removeDeadline i st) = qp_drained st"
  "qp_completed (qp_armDeadline st) = qp_completed st" "qp_drained (qp_armDeadline st) = qp_drained st"
  "qp_completed (qp_stopManager st) = qp_completed st" "qp_drained (qp_stopManager st) = qp_drained st"
  "qp_completed (qp_promote p i st) = qp_completed st" "qp_drained (qp_promote p i st) = qp_drained st"
  by (simp_all add: qp_publish_def qp_removeDeadline_def qp_armDeadline_def qp_stopManager_def
      qp_promote_def qp_post_def Let_def)

text \<open>The loop of \<open>dispatch\<close> starts the first tasks of the queue, in order, up to the limit.\<close>

lemma qp_dispatch_loop_spec:
  obtains n where
    "n \<le> length (qp_queue st)" and "qp_queue (qp_dispatch_loop st) = drop n (qp_queue st)"
    and "qp_running (qp_dispatch_loop st) = qp_running st @ map snd (take n (qp_queue st))"
    and "qp_busy (qp_dispatch_loop st) = qp_busy st + n"
    and "int (qp_busy (qp_dispatch_loop st)) \<le> max (int (qp_busy st)) (qp_target st)"
    and "qp_started st \<longrightarrow> int (qp_busy (qp_dispatch_loop st)) < qp_target st \<longrightarrow> drop n (qp_queue st) = []"
    and "qp_frame (qp_dispatch_loop st) = qp_frame st" and "qp_strand (qp_dispatch_loop st) = qp_strand st"
    and "qp_completed (qp_dispatch_loop st) = qp_completed st" and "qp_drained (qp_dispatch_loop st) = qp_drained st"
    and "qp_tasks (qp_dispatch_loop st) = qp_tasks st" and "qp_nextSequence (qp_dispatch_loop st) = qp_nextSequence st"
proof (induction "length (qp_queue st)" arbitrary: st thesis rule: less_induct)
  case less
  show ?case
  proof (cases "qp_started st \<and> int (qp_busy st) < qp_target st \<and> qp_queue st \<noteq> []")
    case False
    then have "qp_dispatch_loop st = st" by (subst qp_dispatch_loop.simps) auto
    with False show ?thesis by (intro less.prems [of 0]) auto
  next
    case True
    then obtain k i q where q: "qp_queue st = (k, i) # q" by (cases "qp_queue st") auto
    let ?s = "qp_start_task i st"
    have eq: "qp_dispatch_loop st = qp_dispatch_loop ?s"
      using True q by (subst qp_dispatch_loop.simps) simp
    have s: "qp_queue ?s = q" "qp_busy ?s = Suc (qp_busy st)" "qp_running ?s = qp_running st @ [i]"
      "qp_target ?s = qp_target st" "qp_started ?s = qp_started st" "qp_frame ?s = qp_frame st"
      "qp_strand ?s = qp_strand st" "qp_completed ?s = qp_completed st" "qp_drained ?s = qp_drained st"
      "qp_tasks ?s = qp_tasks st" "qp_nextSequence ?s = qp_nextSequence st"
      by (simp_all add: q qp_start_task_def qp_publish_def qp_removeDeadline_def qp_frame_def)
    show ?thesis
    proof (rule less.hyps [of ?s])
      show "length (qp_queue ?s) < length (qp_queue st)" by (simp add: s q)
    next
      fix n assume "n \<le> length (qp_queue ?s)" and "qp_queue (qp_dispatch_loop ?s) = drop n (qp_queue ?s)"
        and "qp_running (qp_dispatch_loop ?s) = qp_running ?s @ map snd (take n (qp_queue ?s))"
        and "qp_busy (qp_dispatch_loop ?s) = qp_busy ?s + n"
        and "int (qp_busy (qp_dispatch_loop ?s)) \<le> max (int (qp_busy ?s)) (qp_target ?s)"
        and "qp_started ?s \<longrightarrow> int (qp_busy (qp_dispatch_loop ?s)) < qp_target ?s \<longrightarrow> drop n (qp_queue ?s) = []"
        and "qp_frame (qp_dispatch_loop ?s) = qp_frame ?s" and "qp_strand (qp_dispatch_loop ?s) = qp_strand ?s"
        and "qp_completed (qp_dispatch_loop ?s) = qp_completed ?s" and "qp_drained (qp_dispatch_loop ?s) = qp_drained ?s"
        and "qp_tasks (qp_dispatch_loop ?s) = qp_tasks ?s" and "qp_nextSequence (qp_dispatch_loop ?s) = qp_nextSequence ?s"
      with True show ?thesis
        by (intro less.prems [of "Suc n"]) (simp_all add: eq s q)
    qed
  qed
qed

subsection \<open>Invariant\<close>

text \<open>Where the accepted tasks are, and what the counters say about it.\<close>

definition qp_flow :: "qp_State \<Rightarrow> bool" where
  "qp_flow st \<longleftrightarrow>
     mset (qp_accepted st) = mset (qp_inserts (qp_strand st)) + mset (map snd (qp_queue st))
       + mset (qp_running st) + mset (qp_finished st)
     \<and> distinct (qp_accepted st) \<and> (\<forall>i \<in> set (qp_accepted st). i < length (qp_tasks st))
     \<and> qp_busy st = length (qp_running st) + qp_dones (qp_strand st)
     \<and> qp_pending (qp_activity st) = length (qp_inserts (qp_strand st)) + length (qp_queue st) + qp_busy st"

text \<open>The lifecycle flags and the handlers that must still be pending.\<close>

definition qp_life :: "qp_State \<Rightarrow> bool" where
  "qp_life st \<longleftrightarrow>
     (qp_stopping st \<longrightarrow> qp_closed (qp_activity st) \<and> qp_started st)
     \<and> (qp_started st \<longrightarrow> qp_opened (qp_activity st) \<or> qp_closed (qp_activity st))
     \<and> ((\<exists>c. MsgStart c \<in> set (qp_strand st)) \<longrightarrow> qp_opened (qp_activity st))
     \<and> (MsgStop \<in> set (qp_strand st) \<longrightarrow> qp_closed (qp_activity st))
     \<and> (qp_closed (qp_activity st) \<and> \<not> qp_stopping st \<longrightarrow> MsgStop \<in> set (qp_strand st))
     \<and> 1 \<le> qp_target st \<and> 0 \<le> qp_fallbackExecutors st
     \<and> (\<forall>n c. qp_starting st = Some (n, c) \<longrightarrow> 1 \<le> n \<and> qp_opened (qp_activity st)
          \<and> (\<forall>c'. MsgStart c' \<notin> set (qp_strand st)) \<and> (qp_started st \<longrightarrow> qp_stopping st))
     \<and> qp_drained st = qp_completed st
     \<and> (qp_completed st \<longrightarrow> qp_stopping st \<and> qp_pending (qp_activity st) = 0)"

definition qp_settled :: "qp_State \<Rightarrow> bool" where
  "qp_settled st \<longleftrightarrow>
     (qp_stopping st \<and> qp_pending (qp_activity st) = 0 \<and> \<not> qp_completed st \<longrightarrow> MsgCheckDrain \<in> set (qp_strand st))
     \<and> (qp_started st \<and> qp_queue st \<noteq> [] \<longrightarrow> 0 < qp_busy st \<and> (qp_target st \<le> int (qp_busy st) \<or> qp_stopping st))"

definition qp_inv :: "qp_State \<Rightarrow> bool" where
  "qp_inv st \<longleftrightarrow> qp_flow st \<and> qp_life st \<and> qp_settled st"

lemma qp_silent_flow: "qp_silent st st' \<Longrightarrow> qp_flow st \<Longrightarrow> qp_flow st'"
  by (simp add: qp_silent_def qp_flow_def qp_frame_eq)

lemma qp_silent_life:
  assumes "qp_silent st st'" and "qp_life st" and "qp_drained st' = qp_completed st'"
    and "qp_completed st' \<longrightarrow> qp_stopping st \<and> qp_pending (qp_activity st) = 0"
  shows "qp_life st'"
proof -
  have "MsgStop \<in> set (qp_strand st') \<longleftrightarrow> MsgStop \<in> set (qp_strand st)"
    "MsgStart c \<in> set (qp_strand st') \<longleftrightarrow> MsgStart c \<in> set (qp_strand st)" for c
    using assms(1) by (auto simp: qp_silent_def)
  then show ?thesis
    using assms by (simp add: qp_life_def qp_silent_def qp_frame_eq)
qed

lemma qp_dispatch_flow:
  assumes "qp_flow st"
  shows "qp_flow (qp_dispatch st)"
proof -
  obtain n where n: "n \<le> length (qp_queue st)" and q: "qp_queue (qp_dispatch_loop st) = drop n (qp_queue st)"
    and r: "qp_running (qp_dispatch_loop st) = qp_running st @ map snd (take n (qp_queue st))"
    and b: "qp_busy (qp_dispatch_loop st) = qp_busy st + n"
    and f: "qp_frame (qp_dispatch_loop st) = qp_frame st" "qp_strand (qp_dispatch_loop st) = qp_strand st"
      "qp_tasks (qp_dispatch_loop st) = qp_tasks st"
    by (rule qp_dispatch_loop_spec)
  have "mset (map snd (qp_queue st)) = mset (map snd (take n (qp_queue st))) + mset (map snd (drop n (qp_queue st)))"
    by (metis append_take_drop_id map_append mset_append)
  with assms n q r b f have "qp_flow (qp_dispatch_loop st)"
    by (simp add: qp_flow_def qp_frame_eq ac_simps)
  then show ?thesis
    unfolding qp_dispatch_def by (meson qp_silent_flow qp_silent_ops)
qed

lemma qp_checkDrain_life:
  assumes "qp_life st"
  shows "qp_life (qp_checkDrain st)"
  using assms by (intro qp_silent_life [OF qp_silent_ops(4)]) (auto simp: qp_checkDrain_def qp_life_def)

lemma qp_dispatch_parts:
  assumes "qp_life st"
  shows "qp_life (qp_dispatch st)" and "qp_settled (qp_dispatch st)"
proof -
  obtain n where q: "qp_queue (qp_dispatch_loop st) = drop n (qp_queue st)"
    and idle: "qp_started st \<longrightarrow> int (qp_busy (qp_dispatch_loop st)) < qp_target st \<longrightarrow> drop n (qp_queue st) = []"
    and f: "qp_frame (qp_dispatch_loop st) = qp_frame st" "qp_strand (qp_dispatch_loop st) = qp_strand st"
      "qp_completed (qp_dispatch_loop st) = qp_completed st" "qp_drained (qp_dispatch_loop st) = qp_drained st"
    by (rule qp_dispatch_loop_spec)
  let ?a = "qp_armDeadline (qp_publish (qp_dispatch_loop st))"
  have "qp_life (qp_dispatch_loop st)" using assms f by (simp add: qp_life_def qp_frame_eq)
  moreover have sil: "qp_silent (qp_dispatch_loop st) ?a"
    using qp_silent_trans qp_silent_ops(1,3) by blast
  ultimately have life: "qp_life ?a" by (intro qp_silent_life [OF sil]) (auto simp: qp_life_def)
  then show "qp_life (qp_dispatch st)" unfolding qp_dispatch_def by (rule qp_checkDrain_life)
  have sil': "qp_silent (qp_dispatch_loop st) (qp_dispatch st)"
    unfolding qp_dispatch_def using sil qp_silent_ops(4) qp_silent_trans by blast
  have "qp_completed (qp_dispatch st) \<or> \<not> (qp_stopping (qp_dispatch st) \<and> qp_pending (qp_activity (qp_dispatch st)) = 0)"
    using qp_silent_ops(4) [of ?a] unfolding qp_dispatch_def
    by (auto simp: qp_checkDrain_def qp_silent_def qp_frame_eq)
  moreover have "0 < qp_busy (qp_dispatch st) \<and> qp_target (qp_dispatch st) \<le> int (qp_busy (qp_dispatch st))"
    if "qp_started (qp_dispatch st)" "qp_queue (qp_dispatch st) \<noteq> []"
  proof -
    have "qp_target st \<le> int (qp_busy (qp_dispatch_loop st))"
      using that sil' idle q f by (force simp: qp_silent_def qp_frame_eq)
    moreover have "1 \<le> qp_target st" using assms by (simp add: qp_life_def)
    ultimately show ?thesis using sil' f by (simp add: qp_silent_def qp_frame_eq)
  qed
  ultimately show "qp_settled (qp_dispatch st)" by (auto simp: qp_settled_def)
qed

lemma qp_dispatch_inv [step_inv]: "qp_flow st \<Longrightarrow> qp_life st \<Longrightarrow> qp_inv (qp_dispatch st)"
  by (simp add: qp_inv_def qp_dispatch_flow qp_dispatch_parts)

text \<open>Promotion permutes the queue.\<close>

lemma mset_insert_key: "mset (qp_insert_key n q) = add_mset n (mset q)"
  by (induction n q rule: qp_insert_key.induct) auto

lemma qp_flow_distinct: "qp_flow st \<Longrightarrow> distinct (map snd (qp_queue st))"
proof -
  assume "qp_flow st"
  then have "mset (map snd (qp_queue st)) \<subseteq># mset (qp_accepted st)" and "distinct (qp_accepted st)"
    by (simp_all add: qp_flow_def)
  then show ?thesis by (rule distinct_sub_mset)
qed

lemma filter_split_node:
  assumes "distinct (map snd q)" and "i \<in> snd ` set q"
  shows "mset q = add_mset (hd (filter (\<lambda>n. snd n = i) q)) (mset (filter (\<lambda>n. snd n \<noteq> i) q))"
    and "snd (hd (filter (\<lambda>n. snd n = i) q)) = i"
  using assms
proof (induction q)
  case (Cons n q)
  { case 1
    show ?case
    proof (cases "snd n = i")
      case True
      with 1 have "filter (\<lambda>n. snd n \<noteq> i) q = q" by (intro filter_True) (auto simp: image_iff)
      with True show ?thesis by simp
    next
      case False
      with 1 Cons.IH(1) show ?thesis by auto
    qed
  next
    case 2
    then show ?case using Cons.IH(2) by auto }
qed simp_all

lemma qp_promote_effect:
  assumes "distinct (map snd (qp_queue st))"
  shows "mset (map snd (qp_queue (qp_promote prio i st))) = mset (map snd (qp_queue st))"
    and "length (qp_queue (qp_promote prio i st)) = length (qp_queue st)"
    and "qp_frame (qp_promote prio i st) = qp_frame st" and "qp_strand (qp_promote prio i st) = qp_strand st"
    and "qp_busy (qp_promote prio i st) = qp_busy st" and "qp_running (qp_promote prio i st) = qp_running st"
    and "length (qp_tasks (qp_promote prio i st)) = length (qp_tasks st)"
proof -
  show "qp_frame (qp_promote prio i st) = qp_frame st" "qp_strand (qp_promote prio i st) = qp_strand st"
    "qp_busy (qp_promote prio i st) = qp_busy st" "qp_running (qp_promote prio i st) = qp_running st"
    "length (qp_tasks (qp_promote prio i st)) = length (qp_tasks st)"
    by (simp_all add: qp_promote_def qp_removeDeadline_def qp_frame_def Let_def)
  let ?q = "qp_queue st"
  have "mset (map snd (qp_queue (qp_promote prio i st))) = mset (map snd ?q)"
  proof (cases "qp_queued i st")
    case True
    note split = filter_split_node [OF assms True [unfolded qp_queued_def]]
    have "mset (map snd ?q) = image_mset snd (mset ?q)" by simp
    also have "\<dots> = add_mset i (mset (map snd (filter (\<lambda>n. snd n \<noteq> i) ?q)))"
      by (subst split(1)) (simp add: split(2))
    finally show ?thesis
      using True split(2) by (simp add: qp_promote_def qp_removeDeadline_def Let_def mset_insert_key)
  qed (simp add: qp_promote_def)
  then show "mset (map snd (qp_queue (qp_promote prio i st))) = mset (map snd ?q)"
    and "length (qp_queue (qp_promote prio i st)) = length ?q"
    by (simp, metis length_map mset_eq_length)
qed

subsection \<open>Reachable states\<close>

inductive qp_reach :: "bool \<Rightarrow> qp_State \<Rightarrow> bool" for prio where
  init: "QueuedPool me hc configured = Inr st \<Longrightarrow> qp_reach prio st"
| start: "qp_reach prio st \<Longrightarrow> qp_reach prio (snd (qp_start hc configured cancelled st))"
| start_store: "qp_reach prio st \<Longrightarrow> qp_reach prio (qp_start_store st)"
| stop: "qp_reach prio st \<Longrightarrow> qp_reach prio (snd (qp_stop own st))"
| stop_deadline: "qp_reach prio st \<Longrightarrow> qp_reach prio (qp_stop_deadline st)"
| addTask: "qp_reach prio st \<Longrightarrow> qp_reach prio (snd (qp_addTask cancelled deadline priority postFails st))"
| cancel: "qp_reach prio st \<Longrightarrow> qp_reach prio (qp_cancel i st)"
| lifecycle_cancel: "qp_reach prio st \<Longrightarrow> qp_reach prio (qp_post MsgStopManager st)"
| finish: "qp_reach prio st \<Longrightarrow> i \<in> set (qp_running st) \<Longrightarrow> qp_reach prio (qp_finish_task i st)"
| deliver: "qp_reach prio st \<Longrightarrow> qp_strand st = xs @ m # ys \<Longrightarrow>
    qp_reach prio (qp_handle prio now hc configured m (st\<lparr>qp_strand := xs @ ys\<rparr>))"

lemma resolveExecutors_pos: "resolveExecutors hc c = Inr n \<Longrightarrow> 1 \<le> n"
  by (auto simp: resolveExecutors_def split: if_splits)

lemma configuredExecutors_pos: "configuredExecutors hc c st = Inr n \<Longrightarrow> 1 \<le> n"
  unfolding configuredExecutors_def by (rule resolveExecutors_pos)

lemma qp_inv_init: "QueuedPool me hc configured = Inr st \<Longrightarrow> qp_inv st"
  by (auto simp: QueuedPool_def qp_inv_def qp_flow_def qp_life_def qp_settled_def bindR_eq_Inr
      qp_pending_def qp_closed_def qp_opened_def resolveExecutors_pos resolveExecutors_def
      split: option.splits if_splits)

lemma qp_inv_start [step_inv]:
  assumes "qp_inv st"
  shows "qp_inv (snd (qp_start hc configured cancelled st))"
proof (cases "configuredExecutors hc configured st")
  case (Inr n)
  with configuredExecutors_pos [OF Inr] assms show ?thesis
    by (auto simp: qp_start_def Let_def qp_inv_def qp_flow_def qp_life_def qp_settled_def qp_post_def)
qed (use assms in \<open>simp add: qp_start_def\<close>)

lemma qp_inv_start_store [step_inv]: "qp_inv st \<Longrightarrow> qp_inv (qp_start_store st)"
  by (auto simp: qp_start_store_def qp_inv_def qp_flow_def qp_life_def qp_settled_def qp_post_def split: option.split)

lemma qp_inv_stop [step_inv]: "qp_inv st \<Longrightarrow> qp_inv (snd (qp_stop own st))"
  by (auto simp: qp_stop_def Let_def qp_inv_def qp_flow_def qp_life_def qp_settled_def qp_post_def)

lemma qp_inv_stop_deadline [step_inv]: "qp_inv st \<Longrightarrow> qp_inv (qp_stop_deadline st)"
  by (auto simp: qp_stop_deadline_def qp_inv_def qp_flow_def qp_life_def qp_settled_def)

lemma qp_post_parts:
  assumes "m = MsgStopManager \<or> m = MsgManager \<or> m = MsgCheckDrain \<or> m = MsgCancel i"
  shows "qp_flow (qp_post m st) = qp_flow st" and "qp_life (qp_post m st) = qp_life st"
    and "qp_settled st \<Longrightarrow> qp_settled (qp_post m st)"
proof -
  have m: "qp_inserts [m] = []" "qp_dones [m] = 0" "\<And>c. m \<noteq> MsgStart c" "m \<noteq> MsgStop"
    using assms by auto
  show "qp_flow (qp_post m st) = qp_flow st" using m(1,2) by (simp add: qp_post_def qp_flow_def del: qp_strand_counts(5,6))
  show "qp_life (qp_post m st) = qp_life st" using m(3) [symmetric] m(4) [symmetric] by (simp add: qp_post_def qp_life_def)
  show "qp_settled st \<Longrightarrow> qp_settled (qp_post m st)" by (simp add: qp_post_def qp_settled_def)
qed

lemma qp_inv_post:
  assumes "qp_inv st" and "m = MsgStopManager \<or> m = MsgManager \<or> m = MsgCheckDrain \<or> m = MsgCancel i"
  shows "qp_inv (qp_post m st)"
  using assms(1) qp_post_parts [OF assms(2), of st] by (simp add: qp_inv_def)

lemma qp_inv_cancel [step_inv]:
  assumes "qp_inv st"
  shows "qp_inv (qp_cancel i st)"
proof -
  have "qp_flow (st\<lparr>qp_tasks := (qp_tasks st)[i := t]\<rparr>) = qp_flow st"
    "qp_life (st\<lparr>qp_tasks := (qp_tasks st)[i := t]\<rparr>) = qp_life st"
    "qp_settled (st\<lparr>qp_tasks := (qp_tasks st)[i := t]\<rparr>) = qp_settled st" for t
    by (simp_all add: qp_flow_def qp_life_def qp_settled_def)
  then have "qp_inv (st\<lparr>qp_tasks := (qp_tasks st)[i := t]\<rparr>)" for t
    using assms by (simp add: qp_inv_def)
  then show ?thesis using assms by (simp add: qp_cancel_def qp_inv_post)
qed

lemma qp_inv_addTask [step_inv]:
  assumes "qp_inv st"
  shows "qp_inv (snd (qp_addTask cancelled deadline priority postFails st))"
proof -
  let ?t = "\<lparr>tk_deadline = deadline, tk_cancelled = False, tk_promoted = False, tk_priority = priority\<rparr>"
  let ?st = "st\<lparr>qp_tasks := qp_tasks st @ [?t]\<rparr>"
  have flow: "qp_flow ?st" using assms by (auto simp: qp_inv_def qp_flow_def less_Suc_eq)
  have life: "qp_life ?st" "qp_settled ?st" using assms by (simp_all add: qp_inv_def qp_life_def qp_settled_def)
  have rej: "qp_flow (s\<lparr>qp_taskRejected := n\<rparr>) = qp_flow s" "qp_life (s\<lparr>qp_taskRejected := n\<rparr>) = qp_life s"
    "qp_settled (s\<lparr>qp_taskRejected := n\<rparr>) = qp_settled s" for s n
    by (simp_all add: qp_flow_def qp_life_def qp_settled_def)
  have inv: "qp_inv (?st\<lparr>qp_taskRejected := n\<rparr>)" "qp_inv (st\<lparr>qp_taskRejected := n\<rparr>)" "qp_inv ?st" for n
    using assms flow life by (simp_all only: qp_inv_def rej)
  have same: "?st\<lparr>qp_activity := qp_activity st + 1 - 1\<rparr> = ?st" by simp
  show ?thesis
  proof (cases "cancelled \<or> qp_closed (qp_activity st) \<or> qp_pending (qp_activity st) = 2 ^ 62 - 1 \<or> postFails")
    case True
    then show ?thesis
      using inv qp_inv_post [OF inv(3), of MsgCheckDrain] by (auto simp: qp_addTask_def Let_def pending_full)
  next
    case False
    then have "qp_pending (qp_activity st) \<noteq> 2 ^ 62 - 1" by simp
    note inc = activity_inc [OF this]
    have "length (qp_tasks st) \<notin> set (qp_accepted st)" using assms by (auto simp: qp_inv_def qp_flow_def)
    moreover have "\<not> qp_stopping st" using assms False by (auto simp: qp_inv_def qp_life_def)
    moreover define st' where "st' = qp_post (MsgInsert (length (qp_tasks st))) (?st\<lparr>qp_activity := qp_activity st + 1,
        qp_accepted := qp_accepted st @ [length (qp_tasks st)]\<rparr>)"
    ultimately have "qp_flow st'" using assms inc
      by (auto simp: qp_inv_def qp_flow_def qp_post_def less_Suc_eq)
    moreover have "qp_life st'" "qp_settled st'"
      using assms inc \<open>\<not> qp_stopping st\<close> False
      by (simp_all add: qp_inv_def qp_life_def qp_settled_def qp_post_def st'_def)
    moreover have "snd (qp_addTask cancelled deadline priority postFails st) = st'"
      using False by (simp add: qp_addTask_def Let_def pending_full st'_def)
    ultimately show ?thesis by (simp add: qp_inv_def)
  qed
qed

lemma qp_inv_finish [step_inv]:
  assumes "qp_inv st" and "i \<in> set (qp_running st)"
  shows "qp_inv (qp_finish_task i st)"
proof -
  have "mset (qp_running st) = add_mset i (mset (remove1 i (qp_running st)))"
    using assms(2) by simp
  moreover have "length (qp_running st) = Suc (length (remove1 i (qp_running st)))"
    using assms(2) by (simp add: length_remove1) (metis Suc_pred length_pos_if_in_set)
  ultimately have "qp_flow (qp_finish_task i st)"
    using assms(1)
    by (simp add: qp_finish_task_def Let_def qp_post_def qp_inv_def qp_flow_def del: mset_remove1)
  moreover have "qp_life (qp_finish_task i st)" "qp_settled (qp_finish_task i st)"
    using assms(1) by (auto simp: qp_finish_task_def Let_def qp_post_def qp_inv_def qp_life_def qp_settled_def)
  ultimately show ?thesis by (simp add: qp_inv_def)
qed

lemma qp_remove_msg:
  assumes "qp_inv st" and "qp_strand st = xs @ m # ys"
  shows "qp_inserts [m] = [] \<Longrightarrow> m \<noteq> MsgDone \<Longrightarrow> qp_flow (st\<lparr>qp_strand := xs @ ys\<rparr>)"
    and "m \<noteq> MsgStop \<Longrightarrow> qp_life (st\<lparr>qp_strand := xs @ ys\<rparr>)"
    and "m \<noteq> MsgCheckDrain \<Longrightarrow> qp_settled (st\<lparr>qp_strand := xs @ ys\<rparr>)"
proof -
  have st: "qp_flow st" "qp_life st" "qp_settled st" using assms(1) by (simp_all add: qp_inv_def)
  show "qp_inserts [m] = [] \<Longrightarrow> m \<noteq> MsgDone \<Longrightarrow> qp_flow (st\<lparr>qp_strand := xs @ ys\<rparr>)"
    using st(1) by (simp add: qp_flow_def assms(2))
  show "m \<noteq> MsgStop \<Longrightarrow> qp_life (st\<lparr>qp_strand := xs @ ys\<rparr>)"
    using st(2) by (auto simp: qp_life_def assms(2))
  show "m \<noteq> MsgCheckDrain \<Longrightarrow> qp_settled (st\<lparr>qp_strand := xs @ ys\<rparr>)"
    using st(3) by (auto simp: qp_settled_def assms(2))
qed

lemma qp_promote_flow: "qp_flow st \<Longrightarrow> qp_flow (qp_promote prio i st)"
  using qp_promote_effect [OF qp_flow_distinct, of st prio i]
  by (simp add: qp_flow_def qp_frame_eq)

lemma qp_promote_life: "qp_life st \<Longrightarrow> qp_life (qp_promote prio i st)"
  by (simp add: qp_life_def qp_promote_def qp_removeDeadline_def Let_def)

lemma qp_deadlines_parts [simp]:
  "qp_flow (st\<lparr>qp_deadlines := ds\<rparr>) = qp_flow st" "qp_life (st\<lparr>qp_deadlines := ds\<rparr>) = qp_life st"
  "qp_flow (st\<lparr>qp_armedAt := a\<rparr>) = qp_flow st" "qp_life (st\<lparr>qp_armedAt := a\<rparr>) = qp_life st"
  by (simp_all add: qp_flow_def qp_life_def)

lemma qp_expire_parts:
  "qp_flow st \<Longrightarrow> qp_flow (qp_expire_deadlines prio now st)"
  "qp_life st \<Longrightarrow> qp_life (qp_expire_deadlines prio now st)"
proof (induction prio now st rule: qp_expire_deadlines.induct)
  case (1 prio now st)
  { case 1
    with "1.IH"(1) show ?case
      by (subst qp_expire_deadlines.simps) (auto simp: qp_promote_flow split: list.split)
  next
    case 2
    with "1.IH"(2) show ?case
      by (subst qp_expire_deadlines.simps) (auto simp: qp_promote_life split: list.split) }
qed

lemma qp_inv_on_start:
  assumes "qp_inv st" and "qp_strand st = xs @ MsgStart c # ys"
  shows "qp_inv (qp_on_start c (st\<lparr>qp_strand := xs @ ys\<rparr>))"
proof -
  let ?s = "st\<lparr>qp_strand := xs @ ys\<rparr>"
  note rm = qp_remove_msg [OF assms]
  show ?thesis
  proof (cases "qp_stopping st")
    case True
    then show ?thesis using rm by (simp add: qp_on_start_def qp_inv_def)
  next
    case False
    let ?s1 = "qp_installLifecycle c (?s\<lparr>qp_started := True\<rparr>)"
    have "qp_starting st = None" using assms by (cases "qp_starting st") (auto simp: qp_inv_def qp_life_def)
    moreover have "qp_opened (qp_activity st)" using assms by (auto simp: qp_inv_def qp_life_def)
    ultimately have "qp_flow ?s1" "qp_life ?s1"
      using rm(1,2) False by (simp_all add: qp_flow_def qp_life_def qp_installLifecycle_def qp_stopManager_def)
    then show ?thesis
      using False qp_post_parts [of MsgManager]
      by (auto simp: qp_on_start_def qp_scheduleManager_def Let_def intro!: qp_dispatch_inv)
  qed
qed

lemma qp_inv_on_stop:
  assumes "qp_inv st" and "qp_strand st = xs @ MsgStop # ys"
  shows "qp_inv (qp_on_stop (st\<lparr>qp_strand := xs @ ys\<rparr>))"
proof -
  let ?s = "qp_stopManager (st\<lparr>qp_strand := xs @ ys, qp_stopping := True, qp_started := True\<rparr>)"
  have "qp_flow ?s" using qp_remove_msg(1) [OF assms] by (simp add: qp_flow_def qp_stopManager_def)
  moreover have "qp_life ?s"
    using assms by (auto simp: qp_inv_def qp_life_def qp_stopManager_def)
  ultimately show ?thesis unfolding qp_on_stop_def by (intro qp_dispatch_inv) simp_all
qed

lemma qp_insert_parts:
  assumes "qp_inv st" and "qp_strand st = xs @ MsgInsert i # ys"
  shows "qp_flow (st\<lparr>qp_strand := xs @ ys, qp_queue := qp_insert_key (k, i) (qp_queue st), qp_nextSequence := n\<rparr>)"
    and "qp_flow (st\<lparr>qp_strand := xs @ ys, qp_queue := qp_queue st @ [(k, i)]\<rparr>)"
    and "qp_life (st\<lparr>qp_strand := xs @ ys, qp_queue := q, qp_nextSequence := n\<rparr>)"
    and "qp_life (st\<lparr>qp_strand := xs @ ys, qp_queue := q\<rparr>)"
proof -
  have len: "length (qp_insert_key n q) = Suc (length q)" for n q
    using mset_insert_key [of n q] by (metis size_add_mset size_mset)
  have flow: "qp_flow st" using assms(1) by (simp add: qp_inv_def)
  show "qp_flow (st\<lparr>qp_strand := xs @ ys, qp_queue := qp_insert_key (k, i) (qp_queue st), qp_nextSequence := n\<rparr>)"
    "qp_flow (st\<lparr>qp_strand := xs @ ys, qp_queue := qp_queue st @ [(k, i)]\<rparr>)"
    using flow by (simp_all add: qp_flow_def assms(2) mset_insert_key len)
  show "qp_life (st\<lparr>qp_strand := xs @ ys, qp_queue := q, qp_nextSequence := n\<rparr>)"
    "qp_life (st\<lparr>qp_strand := xs @ ys, qp_queue := q\<rparr>)"
    using qp_remove_msg(2) [OF assms] by (simp_all add: qp_life_def)
qed

lemma qp_inv_on_insert:
  assumes "qp_inv st" and "qp_strand st = xs @ MsgInsert i # ys"
  shows "qp_inv (qp_on_insert prio now i (st\<lparr>qp_strand := xs @ ys\<rparr>))"
  using qp_insert_parts [OF assms]
  unfolding qp_on_insert_def Let_def
  by (intro qp_dispatch_inv) (auto simp: qp_promote_flow qp_promote_life split: option.split)

lemma qp_inv_on_done:
  assumes "qp_inv st" and "qp_strand st = xs @ MsgDone # ys"
  shows "qp_inv (qp_on_done (st\<lparr>qp_strand := xs @ ys\<rparr>))"
proof -
  let ?s = "st\<lparr>qp_strand := xs @ ys, qp_busy := qp_busy st - 1, qp_activity := qp_activity st - 1\<rparr>"
  have flow: "qp_flow st" and life: "qp_life st" using assms(1) by (simp_all add: qp_inv_def)
  then have busy: "0 < qp_busy st" and pos: "0 < qp_pending (qp_activity st)"
    by (simp_all add: qp_flow_def assms(2))
  note dec = activity_dec [OF pos]
  have "qp_flow ?s" using flow busy dec by (simp add: qp_flow_def assms(2))
  moreover have "qp_life ?s" using life pos dec by (auto simp: qp_life_def assms(2))
  ultimately show ?thesis unfolding qp_on_done_def by (intro qp_dispatch_inv) simp_all
qed

lemma qp_inv_checkDrain:
  assumes "qp_flow st" and "qp_life st" and "qp_started st \<and> qp_queue st \<noteq> [] \<longrightarrow> 0 < qp_busy st \<and> (qp_target st \<le> int (qp_busy st) \<or> qp_stopping st)"
  shows "qp_inv (qp_checkDrain st)"
proof -
  have "qp_settled (qp_checkDrain st)"
    using qp_silent_ops(4) [of st] assms(3)
    by (auto simp: qp_settled_def qp_checkDrain_def qp_publish_def)
  then show ?thesis
    using qp_silent_flow [OF qp_silent_ops(4) assms(1)] qp_checkDrain_life [OF assms(2)] by (simp add: qp_inv_def)
qed

lemma qp_inv_handle:
  assumes "qp_inv st" and "qp_strand st = xs @ m # ys"
  shows "qp_inv (qp_handle prio now hc configured m (st\<lparr>qp_strand := xs @ ys\<rparr>))"
proof (cases m)
  case (MsgStart c)
  then show ?thesis using assms qp_inv_on_start by simp
next
  case MsgStop
  then show ?thesis using assms qp_inv_on_stop by simp
next
  case (MsgInsert i)
  then show ?thesis using assms qp_inv_on_insert by simp
next
  case (MsgCancel i)
  let ?s = "st\<lparr>qp_strand := xs @ ys\<rparr>"
  note rm = qp_remove_msg [OF assms]
  have "qp_inv ?s" using rm MsgCancel by (simp add: qp_inv_def)
  moreover have "qp_inv (qp_dispatch (qp_promote prio i ?s))"
    using rm MsgCancel by (intro qp_dispatch_inv qp_promote_flow qp_promote_life) simp_all
  ultimately show ?thesis using MsgCancel by (simp add: qp_on_cancel_def)
next
  case MsgDone
  then show ?thesis using assms qp_inv_on_done by simp
next
  case MsgCheckDrain
  have "qp_settled st" using assms(1) by (simp add: qp_inv_def)
  then show ?thesis
    using qp_remove_msg(1,2) [OF assms] MsgCheckDrain
    by (simp, intro qp_inv_checkDrain) (auto simp: qp_settled_def)
next
  case MsgStopManager
  let ?s = "st\<lparr>qp_strand := xs @ ys\<rparr>"
  have "qp_flow (qp_stopManager ?s) = qp_flow ?s" "qp_life (qp_stopManager ?s) = qp_life ?s"
    "qp_settled (qp_stopManager ?s) = qp_settled ?s"
    by (simp_all add: qp_stopManager_def qp_flow_def qp_life_def qp_settled_def)
  then show ?thesis using qp_remove_msg [OF assms] MsgStopManager by (simp add: qp_inv_def)
next
  case MsgManager
  let ?s = "st\<lparr>qp_strand := xs @ ys\<rparr>"
  note rm = qp_remove_msg [OF assms]
  have "qp_flow (?s\<lparr>qp_target := n\<rparr>)" "1 \<le> n \<Longrightarrow> qp_life (?s\<lparr>qp_target := n\<rparr>)" for n
    using rm(1,2) MsgManager by (simp_all add: qp_flow_def qp_life_def)
  then have "qp_inv (qp_dispatch (case configuredExecutors hc configured ?s of
      Inl _ \<Rightarrow> ?s | Inr n \<Rightarrow> ?s\<lparr>qp_target := n\<rparr>))"
    using rm MsgManager configuredExecutors_pos [of hc configured ?s]
    by (intro qp_dispatch_inv) (simp_all split: sum.split)
  moreover have "qp_inv ?s" using rm MsgManager by (simp add: qp_inv_def)
  ultimately show ?thesis
    using MsgManager by (simp add: qp_on_manager_def qp_scheduleManager_def qp_inv_post Let_def)
next
  case (MsgDeadline g)
  let ?s = "st\<lparr>qp_strand := xs @ ys\<rparr>"
  note rm = qp_remove_msg [OF assms]
  have "qp_inv (qp_dispatch (qp_expire_deadlines prio now (?s\<lparr>qp_armedAt := None\<rparr>)))"
    using rm(1,2) MsgDeadline by (intro qp_dispatch_inv qp_expire_parts) simp_all
  moreover have "qp_inv ?s" using rm MsgDeadline by (simp add: qp_inv_def)
  ultimately show ?thesis using MsgDeadline by (simp add: qp_on_deadline_def)
qed

lemma qp_reach_inv: "qp_reach prio st \<Longrightarrow> qp_inv st"
  by (induction rule: qp_reach.induct)
    (simp_all add: qp_inv_init qp_inv_start qp_inv_start_store qp_inv_stop qp_inv_stop_deadline qp_inv_addTask qp_inv_cancel
      qp_inv_post qp_inv_finish qp_inv_handle)

subsection \<open>Order of the priority queue\<close>

definition qp_before :: "(int \<times> nat) \<times> nat \<Rightarrow> (int \<times> nat) \<times> nat \<Rightarrow> bool" where
  "qp_before a b \<longleftrightarrow> fst (fst a) < fst (fst b) \<or> fst (fst a) = fst (fst b) \<and> snd (fst a) < snd (fst b)"

definition qp_ordered :: "qp_State \<Rightarrow> bool" where
  "qp_ordered st \<longleftrightarrow>
     sorted_wrt qp_before (qp_queue st) \<and> distinct (map (snd \<circ> fst) (qp_queue st))
     \<and> (\<forall>n \<in> set (qp_queue st). snd (fst n) < qp_nextSequence st)"

lemma set_insert_key [simp]: "set (qp_insert_key n q) = insert n (set q)"
  by (induction n q rule: qp_insert_key.induct) auto

lemma qp_before_trans: "qp_before a b \<Longrightarrow> qp_before b c \<Longrightarrow> qp_before a c"
  by (auto simp: qp_before_def)

lemma sorted_insert_key:
  "sorted_wrt qp_before q \<Longrightarrow> (\<And>x. x \<in> set q \<Longrightarrow> snd (fst x) \<noteq> snd (fst n)) \<Longrightarrow>
   sorted_wrt qp_before (qp_insert_key n q)"
proof (induction n q rule: qp_insert_key.induct)
  case (2 k i k' i' q)
  show ?case
  proof (cases "fst k < fst k' \<or> fst k = fst k' \<and> snd k < snd k'")
    case True
    then have "qp_before (k, i) (k', i')" by (simp add: qp_before_def)
    with True "2.prems"(1) show ?thesis by (auto intro: qp_before_trans)
  next
    case False
    moreover have "snd k \<noteq> snd k'" using "2.prems"(2) [of "(k', i')"] by auto
    ultimately have "qp_before (k', i') (k, i)" by (auto simp: qp_before_def)
    with False 2 show ?thesis by auto
  qed
qed simp

lemma distinct_insert_key:
  "distinct (map (snd \<circ> fst) (qp_insert_key n q)) \<longleftrightarrow>
     snd (fst n) \<notin> (snd \<circ> fst) ` set q \<and> distinct (map (snd \<circ> fst) q)"
  by (induction n q rule: qp_insert_key.induct) auto

lemma qp_ordered_dispatch:
  assumes "qp_ordered st"
  shows "qp_ordered (qp_dispatch st)"
proof -
  obtain n where "qp_queue (qp_dispatch_loop st) = drop n (qp_queue st)"
    and "qp_nextSequence (qp_dispatch_loop st) = qp_nextSequence st"
    by (rule qp_dispatch_loop_spec)
  moreover have "qp_silent (qp_dispatch_loop st) (qp_dispatch st)"
    unfolding qp_dispatch_def using qp_silent_ops(1,3,4) qp_silent_trans by blast
  ultimately show ?thesis
    using assms by (auto simp: qp_ordered_def qp_silent_def sorted_wrt_drop drop_map [symmetric]
        distinct_drop dest: in_set_dropD)
qed

lemma qp_ordered_promote:
  assumes "qp_ordered st" and "distinct (map snd (qp_queue st))"
  shows "qp_ordered (qp_promote True i st)"
proof (cases "qp_queued i st \<and> \<not> tk_promoted (qp_tasks st ! i)")
  case True
  let ?q = "qp_queue st"
  let ?node = "hd (filter (\<lambda>n. snd n = i) ?q)" and ?others = "filter (\<lambda>n. snd n \<noteq> i) ?q"
  have in_q: "i \<in> snd ` set ?q" using True by (simp add: qp_queued_def)
  note split = filter_split_node [OF assms(2) in_q]
  have "?node \<in># mset ?q" by (subst split(1)) simp
  then have node: "?node \<in> set ?q" by simp
  have "mset (map (snd \<circ> fst) ?q) = add_mset (snd (fst ?node)) (mset (map (snd \<circ> fst) ?others))"
  proof -
    have "mset (map (snd \<circ> fst) ?q) = image_mset (snd \<circ> fst) (mset ?q)" by simp
    also have "\<dots> = add_mset (snd (fst ?node)) (image_mset (snd \<circ> fst) (mset ?others))"
      by (subst split(1)) simp
    finally show ?thesis by simp
  qed
  then have sub: "mset (snd (fst ?node) # map (snd \<circ> fst) ?others) \<subseteq># mset (map (snd \<circ> fst) ?q)"
    by (simp only: mset.simps subset_mset.order_refl)
  have "distinct (map (snd \<circ> fst) ?q)" using assms(1) by (simp only: qp_ordered_def)
  from distinct_sub_mset [OF sub this] have fresh: "snd (fst ?node) \<notin> (snd \<circ> fst) ` set ?others" and d: "distinct (map (snd \<circ> fst) ?others)"
    by (simp_all only: distinct.simps set_map simp_thms)
  have "sorted_wrt qp_before ?others" using assms(1) by (simp add: qp_ordered_def sorted_wrt_filter)
  moreover have "snd (fst x) \<noteq> snd (fst ?node)" if "x \<in> set ?others" for x
    using fresh imageI [OF that, of "snd \<circ> fst"] by (metis comp_apply)
  ultimately have "sorted_wrt qp_before (qp_insert_key ((kIntMin, snd (fst ?node)), i) ?others)"
    by (intro sorted_insert_key) simp_all
  moreover have "\<forall>n \<in> insert ((kIntMin, snd (fst ?node)), i) (set ?others). snd (fst n) < qp_nextSequence st"
    using assms(1) node by (simp add: qp_ordered_def)
  moreover have "distinct (map (snd \<circ> fst) (qp_insert_key ((kIntMin, snd (fst ?node)), i) ?others))"
    unfolding distinct_insert_key using fresh d by simp
  moreover have "qp_queue (qp_promote True i st) = qp_insert_key ((kIntMin, snd (fst ?node)), i) ?others"
    and "qp_nextSequence (qp_promote True i st) = qp_nextSequence st"
    using True by (simp_all add: qp_promote_def qp_removeDeadline_def Let_def)
  ultimately show ?thesis unfolding qp_ordered_def by (simp only: set_insert_key simp_thms)
qed (use assms in \<open>auto simp: qp_promote_def\<close>)

lemma qp_ordered_same:
  "qp_queue st' = qp_queue st \<Longrightarrow> qp_nextSequence st' = qp_nextSequence st \<Longrightarrow> qp_ordered st' = qp_ordered st"
  by (simp add: qp_ordered_def)

lemma qp_ordered_expire:
  "qp_flow st \<Longrightarrow> qp_ordered st \<Longrightarrow> qp_ordered (qp_expire_deadlines True now st)"
proof (induction True now st rule: qp_expire_deadlines.induct)
  case (1 now st)
  have "qp_ordered (qp_promote True i (st\<lparr>qp_deadlines := ds\<rparr>))" for i ds
    using "1.prems" qp_flow_distinct [OF "1.prems"(1)]
    by (intro qp_ordered_promote) (simp_all add: qp_ordered_def)
  with 1 show ?case
    by (subst qp_expire_deadlines.simps) (auto simp: qp_promote_flow split: list.split)
qed

lemma qp_ordered_on_insert:
  assumes "qp_inv st" and "qp_strand st = xs @ MsgInsert i # ys" and "qp_ordered st"
  shows "qp_ordered (qp_on_insert True now i (st\<lparr>qp_strand := xs @ ys\<rparr>))"
proof -
  let ?k = "(tk_priority (qp_tasks st ! i), qp_nextSequence st)"
  let ?s = "st\<lparr>qp_strand := xs @ ys, qp_queue := qp_insert_key (?k, i) (qp_queue st),
              qp_nextSequence := Suc (qp_nextSequence st)\<rparr>"
  have ord: "qp_ordered ?s"
    using assms(3) by (auto simp: qp_ordered_def distinct_insert_key less_Suc_eq intro!: sorted_insert_key)
  moreover have "qp_ordered (qp_promote True i ?s)"
    using ord qp_flow_distinct [OF qp_insert_parts(1) [OF assms(1,2)]] by (intro qp_ordered_promote) simp_all
  moreover have "qp_ordered (?s\<lparr>qp_deadlines := ds\<rparr>)" for ds using ord by (simp add: qp_ordered_def)
  ultimately show ?thesis
    unfolding qp_on_insert_def Let_def
    by (intro qp_ordered_dispatch) (simp split: option.split)
qed

lemma qp_ordered_handle:
  assumes "qp_inv st" and "qp_strand st = xs @ m # ys" and "qp_ordered st"
  shows "qp_ordered (qp_handle True now hc configured m (st\<lparr>qp_strand := xs @ ys\<rparr>))"
proof -
  let ?s = "st\<lparr>qp_strand := xs @ ys\<rparr>"
  have o0: "qp_ordered ?s" using assms(3) by (simp add: qp_ordered_def)
  have d: "distinct (map snd (qp_queue ?s))"
    using qp_flow_distinct [of st] assms(1) by (simp add: qp_inv_def)
  have same: "qp_ordered s" if "qp_queue s = qp_queue st" and "qp_nextSequence s = qp_nextSequence st" for s
    using that assms(3) by (simp add: qp_ordered_def)
  note ops = qp_on_start_def qp_on_stop_def qp_on_cancel_def qp_on_done_def qp_on_manager_def
    qp_on_deadline_def qp_installLifecycle_def qp_scheduleManager_def qp_post_def qp_stopManager_def
    qp_checkDrain_def qp_publish_def
  show ?thesis
  proof (cases m)
    case (MsgInsert i)
    then show ?thesis using assms qp_ordered_on_insert by simp
  next
    case (MsgCancel i)
    then show ?thesis
      using qp_ordered_dispatch [OF qp_ordered_promote [OF o0 d]] o0 by (simp add: qp_on_cancel_def)
  next
    case (MsgDeadline g)
    have "qp_flow ?s" using qp_remove_msg(1) [OF assms(1,2)] MsgDeadline by simp
    then have "qp_ordered (qp_expire_deadlines True now (?s\<lparr>qp_armedAt := None\<rparr>))"
      using o0 by (intro qp_ordered_expire) (simp_all add: qp_ordered_def)
    then show ?thesis using MsgDeadline o0 by (simp add: qp_on_deadline_def qp_ordered_dispatch)
  next
    case MsgManager
    have "qp_ordered (qp_post MsgManager s) = qp_ordered s" for s by (simp add: qp_ordered_def qp_post_def)
    moreover have "qp_ordered (?s\<lparr>qp_target := n\<rparr>)" for n using o0 by (simp add: qp_ordered_def)
    ultimately show ?thesis
      using MsgManager o0
      by (auto simp: qp_on_manager_def qp_scheduleManager_def Let_def intro!: qp_ordered_dispatch split: sum.split)
  qed (auto simp: ops Let_def intro!: qp_ordered_dispatch same)
qed

lemma qp_reach_ordered: "qp_reach True st \<Longrightarrow> qp_ordered st"
proof (induction rule: qp_reach.induct)
  case (init me hc configured st)
  then show ?case by (auto simp: QueuedPool_def qp_ordered_def bindR_eq_Inr split: option.splits)
next
  case (deliver st xs m ys now hc configured)
  then show ?case using qp_ordered_handle [OF qp_reach_inv] by blast
qed (auto simp: qp_ordered_def qp_start_def qp_start_store_def qp_stop_def qp_stop_deadline_def qp_addTask_def qp_cancel_def
    qp_post_def qp_finish_task_def Let_def split: sum.split option.split)

subsection \<open>The contract of a draining pool\<close>

definition qp_in_flight :: "qp_State \<Rightarrow> nat multiset" where
  "qp_in_flight st = mset (qp_inserts (qp_strand st)) + mset (map snd (qp_queue st)) + mset (qp_running st)"

lemma qp_drained_empty:
  assumes "qp_inv st" and "qp_drained st"
  shows "qp_inserts (qp_strand st) = []" "qp_queue st = []" "qp_busy st = 0" "qp_running st = []"
    "qp_pending (qp_activity st) = 0" "qp_closed (qp_activity st)"
proof -
  have inv: "qp_flow st" "qp_life st" using assms(1) by (simp_all add: qp_inv_def)
  show c: "qp_pending (qp_activity st) = 0" "qp_closed (qp_activity st)"
    using inv(2) assms(2) by (simp_all add: qp_life_def)
  moreover have "qp_pending (qp_activity st) = length (qp_inserts (qp_strand st)) + length (qp_queue st) + qp_busy st"
    using inv(1) by (simp only: qp_flow_def)
  ultimately show e: "qp_inserts (qp_strand st) = []" "qp_queue st = []" "qp_busy st = 0" by simp_all
  have "qp_busy st = length (qp_running st) + qp_dones (qp_strand st)"
    using inv(1) by (simp only: qp_flow_def)
  with e(3) show "qp_running st = []" by simp
qed

interpretation qp: draining_pool "qp_reach prio" qp_accepted qp_finished qp_in_flight qp_drained for prio
proof (unfold_locales, goal_cases)
  case (1 st)
  then show ?case using qp_reach_inv [OF 1] by (simp add: qp_inv_def qp_flow_def qp_in_flight_def)
next
  case (2 st)
  then show ?case using qp_reach_inv [OF 2] by (simp add: qp_inv_def qp_flow_def)
next
  case (3 st)
  then show ?case using qp_drained_empty [OF qp_reach_inv [OF 3(1)] 3(2)] by (simp add: qp_in_flight_def)
qed

subsection \<open>Properties\<close>

text \<open>A run used by the witnesses: a pool with one executor accepts two tasks, is started, runs the
  first one and is stopped.\<close>

definition qp_demo_deliver :: "qp_State \<Rightarrow> qp_State" where
  "qp_demo_deliver st =
     (case qp_strand st of [] \<Rightarrow> st | m # ms \<Rightarrow> qp_handle True 0 4 (Some 1) m (st\<lparr>qp_strand := ms\<rparr>))"

lemma qp_reach_deliver_first:
  "qp_reach True st \<Longrightarrow> qp_reach True (qp_demo_deliver st)"
  using qp_reach.deliver [of True st "[]"] by (auto simp: qp_demo_deliver_def split: list.split)

definition qp_demo_init :: qp_State where
  "qp_demo_init =
     \<lparr>qp_metricsEnabled = True, qp_fallbackExecutors = 1, qp_activity = 0,
      qp_target = 1, qp_starting = None, qp_started = False, qp_stopping = False, qp_managerActive = True,
      qp_completed = False, qp_busy = 0, qp_nextSequence = 0, qp_deadlineGeneration = 0,
      qp_queue = [], qp_deadlines = [], qp_armedAt = None, qp_drained = False, qp_tasks = [],
      qp_strand = [], qp_running = [], qp_gaugeQueueLength = 0, qp_gaugeExecutorsTarget = 0,
      qp_gaugeExecutorsAllocated = 0, qp_gaugeExecutorsBusy = 0, qp_tasksTotal = 0,
      qp_taskRejected = 0, qp_taskCancelled = 0, qp_stopTimeouts = 0, qp_accepted = [],
      qp_finished = []\<rparr>"

definition qp_demo_run :: qp_State where
  "qp_demo_run = qp_demo_deliver (qp_demo_deliver (qp_demo_deliver
     (qp_start_store (snd (qp_start 4 (Some 1) True
       (snd (qp_addTask False None 3 False (snd (qp_addTask False None 5 False qp_demo_init)))))))))"

definition qp_demo_end :: qp_State where
  "qp_demo_end = qp_demo_deliver (qp_finish_task 0 (qp_demo_deliver (qp_finish_task 1
     (qp_demo_deliver (snd (qp_stop False qp_demo_run))))))"

lemma qp_demo_run_value:
  "(qp_running qp_demo_run, qp_queue qp_demo_run, qp_started qp_demo_run,
    qp_queue (qp_promote True 0 qp_demo_run)) = ([1], [((5, 0), 0)], True, [((kIntMin, 0), 0)])"
  by code_simp

lemma qp_demo_end_value:
  "(let stopped = qp_demo_deliver (snd (qp_stop False qp_demo_run));
        first = qp_demo_deliver (qp_finish_task 1 stopped);
        e = qp_demo_deliver (qp_finish_task 0 first)
    in (qp_running stopped, qp_running first, qp_closed (qp_activity e), qp_running e, qp_strand e,
        qp_drained e, qp_finished e))
   = ([1], [0], True, [], [], True, [1, 0])"
  by code_simp

lemma qp_demo_reach: "qp_reach True qp_demo_run"
proof -
  have "qp_reach True qp_demo_init"
    by (rule qp_reach.init [of True 4 "Some 1"]) (simp add: qp_demo_init_def QueuedPool_def resolveExecutors_def)
  then show "qp_reach True qp_demo_run"
    unfolding qp_demo_run_def by (intro qp_reach_deliver_first qp_reach.start_store qp_reach.start qp_reach.addTask)
qed

lemma qp_demo_end:
  "qp_reach True qp_demo_end" "qp_closed (qp_activity qp_demo_end)" "qp_running qp_demo_end = []"
  "qp_strand qp_demo_end = []" "qp_drained qp_demo_end" "qp_finished qp_demo_end = [1, 0]"
proof -
  let ?stopped = "qp_demo_deliver (snd (qp_stop False qp_demo_run))"
  let ?first = "qp_demo_deliver (qp_finish_task 1 ?stopped)"
  have v: "qp_running ?stopped = [1]" "qp_running ?first = [0]"
    using qp_demo_end_value by (simp_all add: Let_def)
  have "qp_reach True ?stopped"
    by (intro qp_reach_deliver_first qp_reach.stop qp_demo_reach)
  then have "qp_reach True ?first" by (rule qp_reach_deliver_first [OF qp_reach.finish]) (simp add: v)
  then show "qp_reach True qp_demo_end"
    unfolding qp_demo_end_def by (rule qp_reach_deliver_first [OF qp_reach.finish]) (simp add: v del: One_nat_def)
  show "qp_closed (qp_activity qp_demo_end)" "qp_running qp_demo_end = []"
    "qp_strand qp_demo_end = []" "qp_drained qp_demo_end" "qp_finished qp_demo_end = [1, 0]"
    using qp_demo_end_value unfolding qp_demo_end_def Let_def by (simp_all del: One_nat_def)
qed

text \<open>C5. No task is lost or run twice. At every moment each accepted task is in exactly one place: its
  insertion is pending on the strand, it waits in the queue, its callback is running, or it has
  finished; this holds for both kinds of pool, under any order of handlers, deadlines,
  cancellations and configuration changes.\<close>

theorem pool_tasks_conserved:
  assumes "qp_reach prio st"
  shows "mset (qp_accepted st) = mset (qp_inserts (qp_strand st)) + mset (map snd (qp_queue st))
      + mset (qp_running st) + mset (qp_finished st)
    \<and> distinct (qp_accepted st)
    \<and> unat (qp_activity st AND kCount) = length (qp_accepted st) - length (qp_finished st) + qp_dones (qp_strand st)"
proof -
  have flow: "qp_flow st" using qp_reach_inv [OF assms] by (simp add: qp_inv_def)
  then have eq: "mset (qp_accepted st) = mset (qp_inserts (qp_strand st)) + mset (map snd (qp_queue st))
      + mset (qp_running st) + mset (qp_finished st)"
    by (simp add: qp_flow_def)
  have "length (qp_accepted st) = size (mset (qp_accepted st))" by simp
  also have "\<dots> = length (qp_inserts (qp_strand st)) + length (qp_queue st)
      + length (qp_running st) + length (qp_finished st)"
    unfolding eq by simp
  finally show ?thesis using flow eq by (simp add: qp_flow_def qp_pending_def)
qed

theorem pool_tasks_conserved_witness:
  "mset (qp_accepted qp_demo_run) = mset (qp_inserts (qp_strand qp_demo_run)) + mset (map snd (qp_queue qp_demo_run))
      + mset (qp_running qp_demo_run) + mset (qp_finished qp_demo_run)"
  using pool_tasks_conserved [OF qp_demo_reach] by blast

text \<open>C2. The drain event means drained. When \<open>stop()\<close> is released, every task that was ever accepted
  has finished exactly once, no slot is occupied, nothing is queued, destruction is safe and new
  tasks are refused.\<close>

theorem pool_drain_complete:
  assumes "qp_reach prio st" and "qp_drained st"
  shows "mset (qp_finished st) = mset (qp_accepted st) \<and> distinct (qp_finished st)
    \<and> qp_running st = [] \<and> qp_queue st = [] \<and> qp_busy st = 0 \<and> qp_destroy st = Inr ()
    \<and> fst (qp_addTask False deadline priority postFails st) = Inl PoolStoppedError"
  using qp.released_all_finished [OF assms] qp.finished_once [OF assms(1)]
    qp_drained_empty [OF qp_reach_inv [OF assms(1)] assms(2)]
  by (simp add: qp_destroy_def qp_addTask_def Let_def)

theorem pool_drain_complete_witness:
  "mset (qp_finished qp_demo_end) = mset (qp_accepted qp_demo_end) \<and> qp_finished qp_demo_end = [1, 0]"
  using pool_drain_complete [OF qp_demo_end(1,5)] qp_demo_end(6) by blast

text \<open>C6. \<open>stop()\<close> is not left waiting. Once the pool is closed, no callback is running and the strand
  has no stop, insertion, completion or drain check pending, the drain event has been sent.\<close>

theorem pool_stop_progress:
  assumes "qp_reach prio st" and "qp_closed (qp_activity st)" and "qp_running st = []"
    and "\<forall>m \<in> set (qp_strand st). m \<notin> {MsgStop, MsgDone, MsgCheckDrain} \<and> (\<forall>i. m \<noteq> MsgInsert i)"
  shows "qp_drained st"
proof -
  have inv: "qp_flow st" "qp_life st" "qp_settled st" using qp_reach_inv [OF assms(1)] by (simp_all add: qp_inv_def)
  have "qp_stopping st" "qp_started st"
    using inv(2) assms(2,4) by (auto simp: qp_life_def)
  moreover have ins: "qp_inserts (qp_strand st) = []" and "qp_dones (qp_strand st) = 0"
    using assms(4) by (auto simp: qp_inserts_def qp_dones_def filter_empty_conv split: qp_msg.splits)
  then have "qp_busy st = 0" using inv(1) assms(3) by (simp add: qp_flow_def)
  ultimately have "qp_queue st = []" using inv(3) by (simp add: qp_settled_def)
  then have "qp_pending (qp_activity st) = 0" using inv(1) \<open>qp_busy st = 0\<close> ins by (simp add: qp_flow_def)
  with inv(2,3) \<open>qp_stopping st\<close> assms(4) show ?thesis by (auto simp: qp_settled_def qp_life_def)
qed

theorem pool_stop_progress_witness:
  "qp_closed (qp_activity qp_demo_end) \<and> qp_running qp_demo_end = [] \<and> qp_strand qp_demo_end = [] \<and> qp_drained qp_demo_end"
  using pool_stop_progress [OF qp_demo_end(1,2,3)] qp_demo_end(2-4) by simp



text \<open>The exception is real: when \<open>stop()\<close> is handled between the two parts of \<open>start()\<close>, and \<open>start()\<close> then stores a
  larger target, a slot stays free although a task is queued, until a callback finishes.\<close>

definition qp_demo_race :: qp_State where
  "qp_demo_race = qp_demo_deliver (qp_start_store (qp_demo_deliver (qp_demo_deliver (qp_demo_deliver
     (snd (qp_stop False (snd (qp_start 4 (Some 2) True
       (snd (qp_addTask False None 3 False (snd (qp_addTask False None 5 False qp_demo_init))))))))))))"

lemma late_target_leaves_slot:
  "qp_reach True qp_demo_race" "qp_started qp_demo_race \<and> qp_queue qp_demo_race \<noteq> [] \<and> qp_strand qp_demo_race = []
     \<and> qp_busy qp_demo_race = 1 \<and> qp_target qp_demo_race = 2"
proof -
  have "qp_reach True qp_demo_init"
    by (rule qp_reach.init [of True 4 "Some 1"]) (simp add: qp_demo_init_def QueuedPool_def resolveExecutors_def)
  then show "qp_reach True qp_demo_race"
    unfolding qp_demo_race_def
    by (intro qp_reach_deliver_first qp_reach.start_store qp_reach.stop qp_reach.start qp_reach.addTask)
  show "qp_started qp_demo_race \<and> qp_queue qp_demo_race \<noteq> [] \<and> qp_strand qp_demo_race = []
     \<and> qp_busy qp_demo_race = 1 \<and> qp_target qp_demo_race = 2" by code_simp
qed

text \<open>C9. Order of the priority pool. The queue of a priority pool is always strictly sorted by
  priority, and by arrival among equal priorities; promotion of a cancelled or expired task, which
  moves it to the smallest priority, keeps it sorted and loses no task. With the previous property,
  tasks start in this order.\<close>

theorem priority_pool_order:
  assumes "qp_reach True st"
  shows "sorted_wrt qp_before (qp_queue st)
    \<and> sorted_wrt qp_before (qp_queue (qp_promote True i st))
    \<and> mset (map snd (qp_queue (qp_promote True i st))) = mset (map snd (qp_queue st))
    \<and> (qp_queued i st \<and> \<not> tk_promoted (qp_tasks st ! i)
         \<longrightarrow> (\<exists>s. ((kIntMin, s), i) \<in> set (qp_queue (qp_promote True i st))))"
proof -
  have "qp_flow st" using qp_reach_inv [OF assms] by (simp add: qp_inv_def)
  then have d: "distinct (map snd (qp_queue st))" by (rule qp_flow_distinct)
  have ord: "qp_ordered st" by (rule qp_reach_ordered [OF assms])
  show ?thesis
    using ord qp_ordered_promote [OF ord d, of i] qp_promote_effect(1) [OF d, of True i]
    by (auto simp: qp_ordered_def qp_promote_def qp_removeDeadline_def Let_def)
qed

theorem priority_pool_order_witness:
  "sorted_wrt qp_before (qp_queue (qp_promote True 0 qp_demo_run))
     \<and> qp_queue (qp_promote True 0 qp_demo_run) = [((kIntMin, 0), 0)]"
  using priority_pool_order [OF qp_demo_reach, of 0] qp_demo_run_value by blast

end
