(* ===== verification/DelayPool.thy ===== *)
theory DelayPool
  imports PoolContract
begin

section \<open>The delay pool (runtime/pool/delaypool.hpp)\<close>

text \<open>
  \<open>DelayPoolImpl\<close> runs a callback after a delay, or as soon as its context is cancelled or its
  deadline is reached. Waiting tasks are in a multimap ordered by time (\<open>dp_timers\<close>), owned by a
  strand whose pending handlers are \<open>dp_strand\<close>; one timer is armed for the earliest entry.
  \<open>dp_spawned\<close> are the executions handed to the executor (with their \<open>expedited\<close> flag),
  \<open>dp_executing\<close> the callbacks that run. \<open>dp_clock\<close> is the steady clock, in ticks; it only
  moves forward. As in the task pools, a step takes any pending handler.
\<close>

subsection \<open>State\<close>

definition kMaxActiveTasks :: nat where
  "kMaxActiveTasks = 2 ^ 62 - 1"

text \<open>\<open>steady_clock::time_point::max()\<close>: a signed 64-bit count of ticks.\<close>

definition kTimePointMax :: int where
  "kTimePointMax = 2 ^ 63 - 1"

record dp_Task =
  dt_runAt :: int
  dt_expeditedByDeadline :: bool
  dt_claimed :: bool
  dt_cancelRequested :: bool
  dt_cancellable :: bool

datatype dp_msg = DpInsert nat | DpCancel nat | DpTimer u64

record dp_State =
  dp_metricsEnabled :: bool
  dp_clock :: int
  dp_timers :: "(int \<times> nat) list"
  dp_armedAt :: "int option"
  dp_generation :: u64
  dp_activeTasks :: nat
  dp_started :: bool
  dp_closed :: bool
  dp_drainSignalled :: bool
  dp_drained :: bool
  dp_gaugeWaitQueueLength :: int
  dp_tasksTotal :: nat
  dp_stopTimeouts :: nat
  dp_taskCancelled :: nat
  dp_taskRejected :: nat
  dp_tasks :: "dp_Task list"
  dp_strand :: "dp_msg list"
  dp_spawned :: "(nat \<times> bool) list"
  dp_executing :: "(nat \<times> bool) list"
  dp_accepted :: "nat list"
  dp_finished :: "nat list"

definition DelayPoolImpl :: "bool \<Rightarrow> int \<Rightarrow> dp_State" where
  "DelayPoolImpl metricsEnabled now =
     \<lparr>dp_metricsEnabled = metricsEnabled, dp_clock = now, dp_timers = [], dp_armedAt = None,
      dp_generation = 0, dp_activeTasks = 0, dp_started = False, dp_closed = False,
      dp_drainSignalled = False, dp_drained = False, dp_gaugeWaitQueueLength = 0, dp_tasksTotal = 0,
      dp_stopTimeouts = 0, dp_taskCancelled = 0, dp_taskRejected = 0, dp_tasks = [], dp_strand = [],
      dp_spawned = [], dp_executing = [], dp_accepted = [], dp_finished = []\<rparr>"

definition dp_destroy :: "dp_State \<Rightarrow> (pool_error, unit) result" where
  "dp_destroy st =
     (if dp_activeTasks st \<noteq> 0 \<or> (dp_started st \<and> \<not> dp_closed st) then Inl PoolTerminate else Inr ())"

definition dp_post :: "dp_msg \<Rightarrow> dp_State \<Rightarrow> dp_State" where
  "dp_post m st = st\<lparr>dp_strand := dp_strand st @ [m]\<rparr>"

definition dp_set_task :: "nat \<Rightarrow> (dp_Task \<Rightarrow> dp_Task) \<Rightarrow> dp_State \<Rightarrow> dp_State" where
  "dp_set_task i f st = st\<lparr>dp_tasks := (dp_tasks st)[i := f (dp_tasks st ! i)]\<rparr>"

subsection \<open>Lifecycle\<close>

definition dp_start :: "dp_State \<Rightarrow> (pool_error, unit) result \<times> dp_State" where
  "dp_start st =
     (let closed = dp_closed st; started = dp_started st;
          st = (if \<not> closed \<and> \<not> started then st\<lparr>dp_started := True\<rparr> else st)
      in if closed then (Inl PoolStoppedError, st)
         else if started then (Inl PoolAlreadyStartedError, st)
         else (Inr (), st))"

definition signalDrained :: "dp_State \<Rightarrow> dp_State" where
  "signalDrained st =
     (if dp_drainSignalled st then st else st\<lparr>dp_drainSignalled := True, dp_drained := True\<rparr>)"

definition dp_stop :: "bool \<Rightarrow> dp_State \<Rightarrow> (pool_error, unit) result \<times> dp_State" where
  "dp_stop calledFromOwnTask st =
     (if calledFromOwnTask then (Inl PoolSelfStopError, st)
      else let st = st\<lparr>dp_closed := True\<rparr> in
           (Inr (), if dp_activeTasks st = 0 then signalDrained st else st))"

definition dp_stop_deadline :: "dp_State \<Rightarrow> dp_State" where
  "dp_stop_deadline st =
     (if dp_drained st then st else st\<lparr>dp_stopTimeouts := dp_stopTimeouts st + 1\<rparr>)"

definition retire :: "dp_State \<Rightarrow> dp_State" where
  "retire st =
     (let st = (if dp_metricsEnabled st
                then st\<lparr>dp_gaugeWaitQueueLength := dp_gaugeWaitQueueLength st - 1\<rparr> else st);
          st = st\<lparr>dp_activeTasks := dp_activeTasks st - 1\<rparr>
      in if dp_closed st \<and> dp_activeTasks st = 0 then signalDrained st else st)"

subsection \<open>Admission\<close>

definition saturatedAdd :: "int \<Rightarrow> int \<Rightarrow> int" where
  "saturatedAdd now duration =
     (if duration \<le> 0 then now
      else if duration \<ge> kTimePointMax - now then kTimePointMax else now + duration)"

definition rejectCancelled :: "dp_State \<Rightarrow> (pool_error, nat) result \<times> dp_State" where
  "rejectCancelled st = (Inl PoolCancelledError, st\<lparr>dp_taskRejected := dp_taskRejected st + 1\<rparr>)"

definition dp_delay ::
  "bool \<Rightarrow> int option \<Rightarrow> int \<Rightarrow> bool \<Rightarrow> dp_State \<Rightarrow> (pool_error, nat) result \<times> dp_State"
where
  "dp_delay contextCancelled deadline duration postFails st =
     (let now = dp_clock st in
      if contextCancelled then rejectCancelled st
      else
        let runAt = saturatedAdd now duration;
            expedited = (case deadline of Some d \<Rightarrow> d < runAt | None \<Rightarrow> False);
            runAt = (case deadline of Some d \<Rightarrow> if d < runAt then d else runAt | None \<Rightarrow> runAt)
        in if runAt \<le> now \<and> (case deadline of Some d \<Rightarrow> d \<le> now | None \<Rightarrow> False)
           then rejectCancelled st
           else
             let i = length (dp_tasks st);
                 st = st\<lparr>dp_tasks := dp_tasks st @ [\<lparr>dt_runAt = runAt, dt_expeditedByDeadline = expedited,
                        dt_claimed = False, dt_cancelRequested = False, dt_cancellable = (runAt > now)\<rparr>]\<rparr>;
                 closed = dp_closed st;
                 full = (dp_activeTasks st = kMaxActiveTasks);
                 st = (if \<not> closed \<and> \<not> full then st\<lparr>dp_activeTasks := dp_activeTasks st + 1\<rparr> else st)
             in if closed then (Inl PoolStoppedError, st\<lparr>dp_taskRejected := dp_taskRejected st + 1\<rparr>)
                else if full then (Inl (PoolOverflowError ''too many delay tasks''), st)
                else
                  let st = (if dp_metricsEnabled st
                            then st\<lparr>dp_gaugeWaitQueueLength := dp_gaugeWaitQueueLength st + 1\<rparr> else st)
                  in if postFails then (Inl PoolPostFailed, retire st)
                     else (Inr i, dp_post (DpInsert i) (st\<lparr>dp_accepted := dp_accepted st @ [i]\<rparr>)))"

text \<open>The stop callback of the context's tokens, registered only when the task has to wait.\<close>

definition dp_onCancel :: "nat \<Rightarrow> dp_State \<Rightarrow> dp_State" where
  "dp_onCancel i st =
     (if i < length (dp_tasks st) \<and> dt_cancellable (dp_tasks st ! i) \<and> \<not> dt_cancelRequested (dp_tasks st ! i)
      then dp_post (DpCancel i) (dp_set_task i (\<lambda>t. t\<lparr>dt_cancelRequested := True\<rparr>) st)
      else st)"

subsection \<open>The timer strand\<close>

fun dp_insert_timer :: "int \<times> nat \<Rightarrow> (int \<times> nat) list \<Rightarrow> (int \<times> nat) list" where
  "dp_insert_timer (t, i) [] = [(t, i)]"
| "dp_insert_timer (t, i) ((t', i') # q) =
     (if t < t' then (t, i) # (t', i') # q else (t', i') # dp_insert_timer (t, i) q)"

definition dp_dispatch :: "nat \<Rightarrow> bool \<Rightarrow> dp_State \<Rightarrow> dp_State" where
  "dp_dispatch i expedited st = st\<lparr>dp_spawned := dp_spawned st @ [(i, expedited)]\<rparr>"

definition dp_armNext :: "dp_State \<Rightarrow> dp_State" where
  "dp_armNext st =
     (let next = (case dp_timers st of [] \<Rightarrow> None | (t, _) # _ \<Rightarrow> Some t)
      in if next = dp_armedAt st then st
         else let st = st\<lparr>dp_generation := dp_generation st + 1, dp_armedAt := next\<rparr>
              in if next = None then st else dp_post (DpTimer (dp_generation st)) st)"

definition dp_expedited :: "nat \<Rightarrow> dp_State \<Rightarrow> bool" where
  "dp_expedited i st \<longleftrightarrow> dt_expeditedByDeadline (dp_tasks st ! i) \<or> dt_cancelRequested (dp_tasks st ! i)"

definition dp_on_insert :: "nat \<Rightarrow> dp_State \<Rightarrow> dp_State" where
  "dp_on_insert i st =
     (if dt_cancelRequested (dp_tasks st ! i) \<or> dt_runAt (dp_tasks st ! i) \<le> dp_clock st
      then dp_dispatch i (dp_expedited i st) st
      else dp_armNext (st\<lparr>dp_timers := dp_insert_timer (dt_runAt (dp_tasks st ! i), i) (dp_timers st)\<rparr>))"

definition dp_on_cancel :: "nat \<Rightarrow> dp_State \<Rightarrow> dp_State" where
  "dp_on_cancel i st =
     (if i \<in> snd ` set (dp_timers st)
      then dp_armNext (dp_dispatch i True (st\<lparr>dp_timers := filter (\<lambda>e. snd e \<noteq> i) (dp_timers st)\<rparr>))
      else st)"

fun dp_timer_batch :: "nat \<Rightarrow> dp_State \<Rightarrow> dp_State" where
  "dp_timer_batch 0 st = st"
| "dp_timer_batch (Suc n) st =
     (case dp_timers st of
        [] \<Rightarrow> st
      | (t, i) # q \<Rightarrow>
          if t \<le> dp_clock st
          then dp_timer_batch n (dp_dispatch i (dp_expedited i st) (st\<lparr>dp_timers := q\<rparr>))
          else st)"

definition dp_on_timer :: "u64 \<Rightarrow> dp_State \<Rightarrow> dp_State" where
  "dp_on_timer generation st =
     (if generation \<noteq> dp_generation st then st
      else dp_armNext (dp_timer_batch 64 (st\<lparr>dp_armedAt := None\<rparr>)))"

fun dp_handle :: "dp_msg \<Rightarrow> dp_State \<Rightarrow> dp_State" where
  "dp_handle (DpInsert i) st = dp_on_insert i st"
| "dp_handle (DpCancel i) st = dp_on_cancel i st"
| "dp_handle (DpTimer g) st = dp_on_timer g st"

subsection \<open>Execution\<close>

definition dp_execute_begin :: "nat \<Rightarrow> bool \<Rightarrow> dp_State \<Rightarrow> dp_State" where
  "dp_execute_begin i expedited st =
     (let st = st\<lparr>dp_spawned := remove1 (i, expedited) (dp_spawned st)\<rparr> in
      if dt_claimed (dp_tasks st ! i) then st
      else (dp_set_task i (\<lambda>t. t\<lparr>dt_claimed := True\<rparr>) st)
             \<lparr>dp_executing := dp_executing st @ [(i, expedited)]\<rparr>)"

definition dp_execute_end :: "nat \<Rightarrow> bool \<Rightarrow> dp_State \<Rightarrow> dp_State" where
  "dp_execute_end i expedited st =
     (let st = st\<lparr>dp_executing := remove1 (i, expedited) (dp_executing st),
                  dp_finished := dp_finished st @ [i]\<rparr>;
          st = (if dp_metricsEnabled st
                then st\<lparr>dp_tasksTotal := dp_tasksTotal st + 1,
                        dp_taskCancelled := (if expedited then dp_taskCancelled st + 1 else dp_taskCancelled st)\<rparr>
                else st)
      in retire st)"

definition dp_activeTasksApprox :: "dp_State \<Rightarrow> int" where
  "dp_activeTasksApprox st = int (dp_activeTasks st)"

subsection \<open>Reachable states\<close>

inductive dp_reach :: "dp_State \<Rightarrow> bool" where
  init: "0 \<le> now \<Longrightarrow> dp_reach (DelayPoolImpl me now)"
| tick: "dp_reach st \<Longrightarrow> dp_clock st \<le> now \<Longrightarrow> dp_reach (st\<lparr>dp_clock := now\<rparr>)"
| start: "dp_reach st \<Longrightarrow> dp_reach (snd (dp_start st))"
| stop: "dp_reach st \<Longrightarrow> dp_reach (snd (dp_stop own st))"
| stop_deadline: "dp_reach st \<Longrightarrow> dp_reach (dp_stop_deadline st)"
| delay: "dp_reach st \<Longrightarrow> dp_reach (snd (dp_delay cancelled deadline duration postFails st))"
| cancel: "dp_reach st \<Longrightarrow> dp_reach (dp_onCancel i st)"
| deliver: "dp_reach st \<Longrightarrow> dp_strand st = xs @ m # ys \<Longrightarrow> dp_reach (dp_handle m (st\<lparr>dp_strand := xs @ ys\<rparr>))"
| execute_begin: "dp_reach st \<Longrightarrow> (i, e) \<in> set (dp_spawned st) \<Longrightarrow> dp_reach (dp_execute_begin i e st)"
| execute_end: "dp_reach st \<Longrightarrow> (i, e) \<in> set (dp_executing st) \<Longrightarrow> dp_reach (dp_execute_end i e st)"

subsection \<open>Invariant\<close>

definition dp_inserts :: "dp_msg list \<Rightarrow> nat list" where
  "dp_inserts ms = concat (map (\<lambda>m. case m of DpInsert i \<Rightarrow> [i] | _ \<Rightarrow> []) ms)"

lemma dp_inserts_simps [simp]:
  "dp_inserts [] = []" "dp_inserts (xs @ ys) = dp_inserts xs @ dp_inserts ys"
  "dp_inserts (m # ms) = (case m of DpInsert i \<Rightarrow> [i] | _ \<Rightarrow> []) @ dp_inserts ms"
  by (simp_all add: dp_inserts_def)

text \<open>Tasks whose execution has not begun, and all tasks in flight.\<close>

definition dp_waiting :: "dp_State \<Rightarrow> nat list" where
  "dp_waiting st = dp_inserts (dp_strand st) @ map snd (dp_timers st) @ map fst (dp_spawned st)"

definition dp_in_flight :: "dp_State \<Rightarrow> nat multiset" where
  "dp_in_flight st = mset (dp_waiting st) + mset (map fst (dp_executing st))"

definition dp_flow :: "dp_State \<Rightarrow> bool" where
  "dp_flow st \<longleftrightarrow>
     mset (dp_accepted st) = dp_in_flight st + mset (dp_finished st) \<and> distinct (dp_accepted st)
     \<and> (\<forall>i \<in> set (dp_accepted st). i < length (dp_tasks st))
     \<and> dp_activeTasks st = size (dp_in_flight st)
     \<and> (\<forall>i \<in> set (dp_waiting st). \<not> dt_claimed (dp_tasks st ! i))"

definition dp_life :: "dp_State \<Rightarrow> bool" where
  "dp_life st \<longleftrightarrow>
     dp_drained st = dp_drainSignalled st
     \<and> (dp_drainSignalled st \<longleftrightarrow> dp_closed st \<and> dp_activeTasks st = 0)"

text \<open>The timer queue is sorted, its keys are the tasks' times, a cancellation message is there only
  for a task whose context asked for it, and a dispatched task is due or cancelled (and due, and not
  cut short by its deadline, when it is not marked as expedited).\<close>

definition dp_may_run :: "dp_State \<Rightarrow> nat \<Rightarrow> bool \<Rightarrow> bool" where
  "dp_may_run st i e \<longleftrightarrow>
     (dt_runAt (dp_tasks st ! i) \<le> dp_clock st \<or> dt_cancelRequested (dp_tasks st ! i))
     \<and> (e \<or> dt_runAt (dp_tasks st ! i) \<le> dp_clock st \<and> \<not> dt_expeditedByDeadline (dp_tasks st ! i))"

definition dp_cancels :: "dp_State \<Rightarrow> bool" where
  "dp_cancels st \<longleftrightarrow>
     (\<forall>i. DpCancel i \<in> set (dp_strand st) \<longrightarrow> i < length (dp_tasks st) \<and> dt_cancelRequested (dp_tasks st ! i))"

definition dp_timed :: "dp_State \<Rightarrow> bool" where
  "dp_timed st \<longleftrightarrow>
     sorted (map fst (dp_timers st))
     \<and> (\<forall>(t, i) \<in> set (dp_timers st). t = dt_runAt (dp_tasks st ! i))
     \<and> (\<forall>(i, e) \<in> set (dp_spawned st) \<union> set (dp_executing st). dp_may_run st i e)"

definition dp_armed :: "dp_State \<Rightarrow> bool" where
  "dp_armed st \<longleftrightarrow>
     dp_armedAt st = (case dp_timers st of [] \<Rightarrow> None | (t, _) # _ \<Rightarrow> Some t)
     \<and> (dp_armedAt st \<noteq> None \<longrightarrow> DpTimer (dp_generation st) \<in> set (dp_strand st))"

definition dp_inv :: "dp_State \<Rightarrow> bool" where
  "dp_inv st \<longleftrightarrow> dp_flow st \<and> dp_life st \<and> dp_timed st \<and> dp_cancels st \<and> dp_armed st"

subsection \<open>Preservation\<close>

named_theorems dp_defs \<open>the operations of the delay pool that only update fields\<close>

lemmas dp_ops [dp_defs] = dp_post_def dp_set_task_def dp_dispatch_def signalDrained_def retire_def Let_def

lemma dp_armNext_fields [simp]:
  "dp_timers (dp_armNext st) = dp_timers st" "dp_spawned (dp_armNext st) = dp_spawned st"
  "dp_executing (dp_armNext st) = dp_executing st" "dp_accepted (dp_armNext st) = dp_accepted st"
  "dp_finished (dp_armNext st) = dp_finished st" "dp_tasks (dp_armNext st) = dp_tasks st"
  "dp_activeTasks (dp_armNext st) = dp_activeTasks st" "dp_clock (dp_armNext st) = dp_clock st"
  "dp_closed (dp_armNext st) = dp_closed st" "dp_drained (dp_armNext st) = dp_drained st"
  "dp_drainSignalled (dp_armNext st) = dp_drainSignalled st"
  "dp_inserts (dp_strand (dp_armNext st)) = dp_inserts (dp_strand st)"
  by (simp_all add: dp_armNext_def dp_defs)

text \<open>A batch dispatches the first due entries, at most as many as its size.\<close>

definition dp_due :: "nat \<Rightarrow> dp_State \<Rightarrow> (int \<times> nat) list" where
  "dp_due n st = takeWhile (\<lambda>(t, _). t \<le> dp_clock st) (take n (dp_timers st))"

lemma dp_timer_batch_spec:
  "dp_timer_batch n st =
     st\<lparr>dp_timers := drop (length (dp_due n st)) (dp_timers st),
        dp_spawned := dp_spawned st @ map (\<lambda>(t, i). (i, dp_expedited i st)) (dp_due n st)\<rparr>"
proof (induction n st rule: dp_timer_batch.induct)
  case (2 n st)
  show ?case
  proof (cases "dp_timers st")
    case (Cons e q)
    obtain t i where e: "e = (t, i)" by (cases e)
    show ?thesis
    proof (cases "t \<le> dp_clock st")
      case True
      have ex: "dp_expedited j (st\<lparr>dp_timers := q, dp_spawned := s\<rparr>) = dp_expedited j st" for j s
        by (simp add: dp_expedited_def)
      show ?thesis
        using 2 [OF Cons e [symmetric] True] Cons True e
        by (simp add: dp_due_def dp_dispatch_def ex)
    next
      case False
      then show ?thesis using Cons e by (simp add: dp_due_def)
    qed
  qed (simp add: dp_due_def)
qed (simp add: dp_due_def)

lemma dp_timer_batch_fields [simp]:
  "dp_executing (dp_timer_batch n st) = dp_executing st" "dp_accepted (dp_timer_batch n st) = dp_accepted st"
  "dp_finished (dp_timer_batch n st) = dp_finished st" "dp_tasks (dp_timer_batch n st) = dp_tasks st"
  "dp_activeTasks (dp_timer_batch n st) = dp_activeTasks st" "dp_clock (dp_timer_batch n st) = dp_clock st"
  "dp_closed (dp_timer_batch n st) = dp_closed st" "dp_drained (dp_timer_batch n st) = dp_drained st"
  "dp_drainSignalled (dp_timer_batch n st) = dp_drainSignalled st"
  "dp_strand (dp_timer_batch n st) = dp_strand st" "dp_armedAt (dp_timer_batch n st) = dp_armedAt st"
  "dp_generation (dp_timer_batch n st) = dp_generation st"
  by (subst dp_timer_batch_spec, simp)+

lemma dp_due_prefix: "dp_due n st @ drop (length (dp_due n st)) (dp_timers st) = dp_timers st"
proof -
  have "dp_due n st = take (length (dp_due n st)) (dp_timers st)"
    unfolding dp_due_def
    by (metis append_eq_conv_conj append_take_drop_id takeWhile_dropWhile_id append_assoc)
  then show ?thesis by (metis append_take_drop_id)
qed

lemma dp_insert_timer_mset [simp]: "mset (dp_insert_timer e q) = add_mset e (mset q)"
  by (induction e q rule: dp_insert_timer.induct) auto

lemma dp_insert_timer_set [simp]: "set (dp_insert_timer e q) = insert e (set q)"
  by (metis dp_insert_timer_mset set_mset_add_mset_insert set_mset_mset)

lemma dp_insert_timer_sorted:
  "sorted (map fst q) \<Longrightarrow> sorted (map fst (dp_insert_timer e q))"
  by (induction e q rule: dp_insert_timer.induct) force+

subsubsection \<open>Conservation\<close>

lemma dp_flow_move:
  assumes "dp_flow st" "mset (dp_waiting st') = mset (dp_waiting st)"
    "dp_executing st' = dp_executing st" "dp_accepted st' = dp_accepted st" "dp_finished st' = dp_finished st"
    "dp_tasks st' = dp_tasks st" "dp_activeTasks st' = dp_activeTasks st"
  shows "dp_flow st'"
proof -
  have "set (dp_waiting st') = set (dp_waiting st)" using assms(2) by (rule mset_eq_setD)
  then show ?thesis using assms unfolding dp_flow_def dp_in_flight_def by simp
qed

lemma filter_once_mset:
  "distinct (map snd q) \<Longrightarrow> i \<in> snd ` set q \<Longrightarrow>
   add_mset i (mset (map snd (filter (\<lambda>e. snd e \<noteq> i) q))) = mset (map snd q)"
proof (induction q)
  case (Cons e q)
  show ?case
  proof (cases "snd e = i")
    case True
    then have "filter (\<lambda>e. snd e \<noteq> i) q = q" using Cons.prems(1) by (intro filter_True) (simp, metis imageI)
    then show ?thesis using True by simp
  next
    case False
    then show ?thesis using Cons by auto
  qed
qed simp

lemma dp_flow_waiting_distinct:
  assumes "dp_flow st"
  shows "distinct (dp_waiting st)"
proof -
  have "mset (dp_waiting st) \<subseteq># mset (dp_accepted st)"
    using assms by (simp add: dp_flow_def dp_in_flight_def)
  then show ?thesis by (rule distinct_sub_mset) (use assms in \<open>simp add: dp_flow_def\<close>)
qed

lemma dp_flow_on_insert:
  "dp_flow st \<Longrightarrow> dp_strand st = xs @ DpInsert i # ys \<Longrightarrow>
   dp_flow (dp_on_insert i (st\<lparr>dp_strand := xs @ ys\<rparr>))"
  by (rule dp_flow_move [of st]) (simp_all add: dp_on_insert_def dp_waiting_def dp_dispatch_def)

lemma dp_flow_on_cancel:
  assumes "dp_flow st" "dp_strand st = xs @ DpCancel i # ys"
  shows "dp_flow (dp_on_cancel i (st\<lparr>dp_strand := xs @ ys\<rparr>))"
proof -
  have "distinct (map snd (dp_timers st))" using dp_flow_waiting_distinct [OF assms(1)] by (simp add: dp_waiting_def)
  then have "add_mset i (mset (map snd (filter (\<lambda>e. snd e \<noteq> i) (dp_timers st)))) = mset (map snd (dp_timers st))"
    if "i \<in> snd ` set (dp_timers st)" using that by (rule filter_once_mset)
  then have "mset (dp_waiting (dp_on_cancel i (st\<lparr>dp_strand := xs @ ys\<rparr>))) = mset (dp_waiting st)"
    using assms(2) by (cases "i \<in> snd ` set (dp_timers st)")
      (simp_all add: dp_on_cancel_def dp_waiting_def dp_dispatch_def)
  then show ?thesis
    by (rule dp_flow_move [OF assms(1)]) (simp_all add: dp_on_cancel_def dp_dispatch_def)
qed

lemma dp_timer_batch_waiting: "mset (dp_waiting (dp_timer_batch n st)) = mset (dp_waiting st)"
proof (induction n arbitrary: st)
  case (Suc n)
  show ?case
  proof (cases "dp_timers st")
    case (Cons e q)
    then show ?thesis
      by (cases e) (simp add: Suc, simp add: dp_waiting_def dp_dispatch_def)
  qed simp
qed simp

lemma dp_flow_on_timer:
  assumes "dp_flow st" "dp_strand st = xs @ DpTimer g # ys"
  shows "dp_flow (dp_on_timer g (st\<lparr>dp_strand := xs @ ys\<rparr>))"
proof -
  let ?b = "dp_timer_batch 64 (st\<lparr>dp_strand := xs @ ys, dp_armedAt := None\<rparr>)"
  have eq: "dp_waiting (dp_armNext s) = dp_waiting s" for s by (simp add: dp_waiting_def)
  have "mset (dp_waiting ?b) = mset (dp_waiting st)"
    unfolding dp_timer_batch_waiting using assms(2) by (simp add: dp_waiting_def)
  then have "dp_flow (dp_armNext ?b)"
    by - (rule dp_flow_move [OF assms(1)], simp_all add: eq)
  moreover have "dp_flow (st\<lparr>dp_strand := xs @ ys\<rparr>)"
    using assms(2) by (intro dp_flow_move [OF assms(1)]) (simp_all add: dp_waiting_def)
  ultimately show ?thesis
    unfolding dp_on_timer_def by (cases "g = dp_generation (st\<lparr>dp_strand := xs @ ys\<rparr>)") (simp_all only: refl if_False if_True not_True_eq_False not_False_eq_True)
qed

lemma dp_flow_deliver:
  "dp_flow st \<Longrightarrow> dp_strand st = xs @ m # ys \<Longrightarrow> dp_flow (dp_handle m (st\<lparr>dp_strand := xs @ ys\<rparr>))"
  by (cases m) (simp_all add: dp_flow_on_insert dp_flow_on_cancel dp_flow_on_timer)

lemma signalDrained_fields [simp]:
  "dp_timers (signalDrained st) = dp_timers st" "dp_spawned (signalDrained st) = dp_spawned st"
  "dp_executing (signalDrained st) = dp_executing st" "dp_accepted (signalDrained st) = dp_accepted st"
  "dp_finished (signalDrained st) = dp_finished st" "dp_tasks (signalDrained st) = dp_tasks st"
  "dp_activeTasks (signalDrained st) = dp_activeTasks st" "dp_clock (signalDrained st) = dp_clock st"
  "dp_closed (signalDrained st) = dp_closed st" "dp_strand (signalDrained st) = dp_strand st"
  "dp_armedAt (signalDrained st) = dp_armedAt st" "dp_generation (signalDrained st) = dp_generation st"
  by (simp_all add: signalDrained_def)

lemma retire_fields [simp]:
  "dp_timers (retire st) = dp_timers st" "dp_spawned (retire st) = dp_spawned st"
  "dp_executing (retire st) = dp_executing st" "dp_accepted (retire st) = dp_accepted st"
  "dp_finished (retire st) = dp_finished st" "dp_tasks (retire st) = dp_tasks st"
  "dp_activeTasks (retire st) = dp_activeTasks st - 1" "dp_clock (retire st) = dp_clock st"
  "dp_closed (retire st) = dp_closed st" "dp_strand (retire st) = dp_strand st"
  "dp_armedAt (retire st) = dp_armedAt st" "dp_generation (retire st) = dp_generation st"
  by (simp_all add: retire_def Let_def)

text \<open>What \<open>delay\<close> leaves behind: a task that is not in the pool, or one more task
  accepted and on its way to the strand.\<close>

definition dp_new_task :: "int option \<Rightarrow> int \<Rightarrow> dp_State \<Rightarrow> dp_Task" where
  "dp_new_task deadline duration st =
     (let now = dp_clock st; due = saturatedAdd now duration;
          runAt = (case deadline of Some d \<Rightarrow> min d due | None \<Rightarrow> due)
      in \<lparr>dt_runAt = runAt, dt_expeditedByDeadline = (runAt \<noteq> due), dt_claimed = False,
          dt_cancelRequested = False, dt_cancellable = (now < runAt)\<rparr>)"

definition dp_same_pool :: "dp_State \<Rightarrow> dp_State \<Rightarrow> bool" where
  "dp_same_pool st st' \<longleftrightarrow>
     dp_timers st' = dp_timers st \<and> dp_spawned st' = dp_spawned st \<and> dp_executing st' = dp_executing st
     \<and> dp_accepted st' = dp_accepted st \<and> dp_finished st' = dp_finished st
     \<and> (\<exists>ts. dp_tasks st' = dp_tasks st @ ts) \<and> dp_activeTasks st' = dp_activeTasks st
     \<and> dp_clock st' = dp_clock st \<and> dp_strand st' = dp_strand st
     \<and> dp_armedAt st' = dp_armedAt st \<and> dp_generation st' = dp_generation st
     \<and> dp_closed st' = dp_closed st \<and> dp_drained st' = dp_drained st \<and> dp_drainSignalled st' = dp_drainSignalled st"

lemma dp_delay_rejects:
  "fst (dp_delay c d t pf st) = Inl e \<Longrightarrow> dp_same_pool st (snd (dp_delay c d t pf st))"
  by (simp add: dp_delay_def dp_same_pool_def rejectCancelled_def retire_def Let_def split: if_splits)

lemma dp_delay_accepts:
  assumes "fst (dp_delay c d t pf st) = Inr i"
  shows "i = length (dp_tasks st)" "\<not> dp_closed st" "dp_activeTasks st \<noteq> kMaxActiveTasks"
    "\<exists>g. snd (dp_delay c d t pf st) =
       st\<lparr>dp_tasks := dp_tasks st @ [dp_new_task d t st], dp_activeTasks := dp_activeTasks st + 1,
          dp_gaugeWaitQueueLength := g, dp_accepted := dp_accepted st @ [i],
          dp_strand := dp_strand st @ [DpInsert i]\<rparr>"
proof -
  have ok: "\<not> c \<and> \<not> dp_closed st \<and> dp_activeTasks st \<noteq> kMaxActiveTasks \<and> \<not> pf \<and> i = length (dp_tasks st)"
    using assms by (simp add: dp_delay_def rejectCancelled_def Let_def split: if_splits)
  then show "i = length (dp_tasks st)" "\<not> dp_closed st" "dp_activeTasks st \<noteq> kMaxActiveTasks" by simp_all
  have tk: "(case d of None \<Rightarrow> saturatedAdd (dp_clock st) t
        | Some d \<Rightarrow> if d < saturatedAdd (dp_clock st) t then d else saturatedAdd (dp_clock st) t)
      = dt_runAt (dp_new_task d t st)"
    "(case d of None \<Rightarrow> False | Some d \<Rightarrow> d < saturatedAdd (dp_clock st) t) = dt_expeditedByDeadline (dp_new_task d t st)"
    by (auto simp: dp_new_task_def Let_def min_def split: option.split)
  have eta: "\<lparr>dt_runAt = dt_runAt n, dt_expeditedByDeadline = dt_expeditedByDeadline n, dt_claimed = False,
      dt_cancelRequested = False, dt_cancellable = dp_clock st < dt_runAt n\<rparr> = n" if "n = dp_new_task d t st" for n
    by (simp add: that dp_new_task_def Let_def)
  show "\<exists>g. snd (dp_delay c d t pf st) =
       st\<lparr>dp_tasks := dp_tasks st @ [dp_new_task d t st], dp_activeTasks := dp_activeTasks st + 1,
          dp_gaugeWaitQueueLength := g, dp_accepted := dp_accepted st @ [i],
          dp_strand := dp_strand st @ [DpInsert i]\<rparr>"
    using ok assms
    by (intro exI [of _ "dp_gaugeWaitQueueLength st + (if dp_metricsEnabled st then 1 else 0)"])
      (simp add: dp_delay_def Let_def tk eta [OF refl] rejectCancelled_def dp_post_def split: if_splits, blast)
qed


lemma dp_flow_accepted:
  assumes "dp_flow st" "i \<in># dp_in_flight st"
  shows "i < length (dp_tasks st)"
proof -
  have "dp_in_flight st \<subseteq># mset (dp_accepted st)" using assms(1) by (simp add: dp_flow_def)
  then have "i \<in> set (dp_accepted st)" using assms(2) by (metis mset_subset_eqD set_mset_mset)
  then show "i < length (dp_tasks st)" using assms(1) by (simp add: dp_flow_def)
qed

lemma dp_flow_same_pool: "dp_flow st \<Longrightarrow> dp_same_pool st st' \<Longrightarrow> dp_flow st'"
proof -
  assume f: "dp_flow st" and s: "dp_same_pool st st'"
  obtain ts where ts: "dp_tasks st' = dp_tasks st @ ts" using s by (auto simp: dp_same_pool_def)
  have w: "dp_waiting st' = dp_waiting st" and i: "dp_in_flight st' = dp_in_flight st"
    using s by (simp_all add: dp_same_pool_def dp_waiting_def dp_in_flight_def)
  show "dp_flow st'"
    using f s dp_flow_accepted [OF f] unfolding dp_flow_def w i ts
    by (simp add: dp_same_pool_def dp_in_flight_def nth_append trans_less_add1)
qed

lemma dp_flow_delay: "dp_flow st \<Longrightarrow> dp_flow (snd (dp_delay c d t pf st))"
proof (cases "fst (dp_delay c d t pf st)")
  case (Inr i)
  let ?st' = "snd (dp_delay c d t pf st)"
  assume f: "dp_flow st"
  obtain g where st': "?st' = st\<lparr>dp_tasks := dp_tasks st @ [dp_new_task d t st],
      dp_activeTasks := dp_activeTasks st + 1, dp_gaugeWaitQueueLength := g,
      dp_accepted := dp_accepted st @ [i], dp_strand := dp_strand st @ [DpInsert i]\<rparr>"
    and i: "i = length (dp_tasks st)" using dp_delay_accepts(1,4) [OF Inr] by blast
  have n: "i \<notin> set (dp_accepted st)" using f i by (auto simp: dp_flow_def)
  have c: "\<not> dt_claimed (dp_new_task d t st)" by (simp add: dp_new_task_def Let_def)
  have w: "set (dp_waiting ?st') = insert i (set (dp_waiting st))"
    and fl: "dp_in_flight ?st' = add_mset i (dp_in_flight st)"
    by (simp_all add: st' dp_in_flight_def dp_waiting_def)
  have "\<not> dt_claimed ((dp_tasks st @ [dp_new_task d t st]) ! j)" if "j \<in> insert i (set (dp_waiting st))" for j
    using that f c i dp_flow_accepted [OF f, of j] by (auto simp: dp_flow_def dp_in_flight_def nth_append)
  then show ?thesis using f n unfolding dp_flow_def w fl by (simp add: st' i less_Suc_eq)
qed (simp add: dp_flow_same_pool dp_delay_rejects)

lemma dp_flow_onCancel:
  assumes "dp_flow st" shows "dp_flow (dp_onCancel i st)"
proof -
  have "dp_waiting (dp_onCancel i st) = dp_waiting st" "dp_in_flight (dp_onCancel i st) = dp_in_flight st"
    by (simp_all add: dp_onCancel_def dp_defs dp_waiting_def dp_in_flight_def)
  then show ?thesis using assms
    unfolding dp_flow_def by (auto simp: dp_onCancel_def dp_defs nth_list_update_if)
qed

lemma dp_flow_execute_begin:
  assumes "dp_flow st" "(i, e) \<in> set (dp_spawned st)"
  shows "dp_flow (dp_execute_begin i e st)"
proof -
  obtain xs ys where sp: "dp_spawned st = xs @ (i, e) # ys" and r: "(i, e) \<notin> set xs"
    using split_list_first [OF assms(2)] by blast
  have d: "distinct (dp_waiting st)" by (rule dp_flow_waiting_distinct [OF assms(1)])
  have c: "\<not> dt_claimed (dp_tasks st ! i)" using assms(1) sp by (simp add: dp_flow_def dp_waiting_def)
  have "dp_in_flight (dp_execute_begin i e st) = dp_in_flight st"
    using c sp by (simp add: dp_execute_begin_def dp_defs r remove1_append dp_in_flight_def dp_waiting_def)
  moreover have "set (dp_waiting (dp_execute_begin i e st)) = set (dp_waiting st) - {i}"
    using c sp d by (auto simp add: dp_execute_begin_def dp_defs r remove1_append dp_waiting_def)
  ultimately show ?thesis using assms(1) c
    unfolding dp_flow_def by (auto simp: dp_execute_begin_def dp_defs nth_list_update_if)
qed

lemma dp_flow_execute_end:
  assumes "dp_flow st" "(i, e) \<in> set (dp_executing st)"
  shows "dp_flow (dp_execute_end i e st)"
proof -
  obtain xs ys where sp: "dp_executing st = xs @ (i, e) # ys" and r: "(i, e) \<notin> set xs"
    using split_list_first [OF assms(2)] by blast
  have w: "dp_waiting (dp_execute_end i e st) = dp_waiting st"
    by (simp add: dp_execute_end_def Let_def dp_waiting_def)
  have "add_mset i (dp_in_flight (dp_execute_end i e st)) = dp_in_flight st"
    unfolding dp_in_flight_def w using sp r by (simp add: dp_execute_end_def Let_def remove1_append)
  then have f: "dp_in_flight st = add_mset i (dp_in_flight (dp_execute_end i e st))" ..
  show ?thesis using assms(1)
    unfolding dp_flow_def w f by (simp add: dp_execute_end_def Let_def)
qed


subsubsection \<open>Lifecycle\<close>

lemma dp_life_same_pool: "dp_life st \<Longrightarrow> dp_same_pool st st' \<Longrightarrow> dp_life st'"
  by (simp add: dp_life_def dp_same_pool_def)

lemma dp_life_delay: "dp_life st \<Longrightarrow> dp_life (snd (dp_delay c d t pf st))"
proof (cases "fst (dp_delay c d t pf st)")
  case (Inr i)
  assume "dp_life st"
  then show ?thesis using dp_delay_accepts(2,4) [OF Inr] by (auto simp: dp_life_def)
qed (simp add: dp_life_same_pool dp_delay_rejects)

lemma dp_life_stop: "dp_life st \<Longrightarrow> dp_life (snd (dp_stop own st))"
  by (simp add: dp_life_def dp_stop_def signalDrained_def Let_def)

lemma dp_life_handle: "dp_life st \<Longrightarrow> dp_life (dp_handle m st)"
proof (cases m)
  case (DpTimer g)
  assume "dp_life st"
  then show ?thesis using DpTimer by (simp add: dp_life_def dp_on_timer_def)
qed (simp_all add: dp_life_def dp_on_insert_def dp_on_cancel_def dp_dispatch_def)

lemma dp_life_execute_end:
  assumes "dp_life st" "dp_activeTasks st \<noteq> 0"
  shows "dp_life (dp_execute_end i e st)"
  using assms by (simp add: dp_life_def dp_execute_end_def retire_def signalDrained_def Let_def)

subsubsection \<open>Timing\<close>

lemma dp_armNext_timed [simp]: "dp_timed (dp_armNext st) = dp_timed st"
  by (simp add: dp_timed_def dp_may_run_def)

lemma dp_timed_on_insert: "dp_timed st \<Longrightarrow> dp_timed (dp_on_insert i st)"
  by (auto simp: dp_timed_def dp_may_run_def dp_on_insert_def dp_dispatch_def dp_expedited_def dp_insert_timer_sorted)

lemma dp_timed_on_cancel:
  "dp_timed st \<Longrightarrow> dt_cancelRequested (dp_tasks st ! i) \<Longrightarrow> dp_timed (dp_on_cancel i st)"
  by (auto simp: dp_timed_def dp_may_run_def dp_on_cancel_def dp_dispatch_def sorted_filter)

lemma dp_timed_batch: "dp_timed st \<Longrightarrow> dp_timed (dp_timer_batch n st)"
proof (induction n arbitrary: st)
  case (Suc n)
  show ?case
  proof (cases "dp_timers st")
    case (Cons e q)
    have "dp_timed (dp_dispatch (snd e) (dp_expedited (snd e) st) (st\<lparr>dp_timers := q\<rparr>))" if "fst e \<le> dp_clock st"
      using Suc.prems Cons that by (auto simp: dp_timed_def dp_may_run_def dp_expedited_def dp_dispatch_def)
    then show ?thesis using Cons Suc by (cases e) simp
  qed (use Suc in simp)
qed simp

lemma dp_timed_handle:
  assumes t: "dp_timed st" and c: "\<And>i. m = DpCancel i \<Longrightarrow> dt_cancelRequested (dp_tasks st ! i)"
  shows "dp_timed (dp_handle m st)"
proof (cases m)
  case (DpTimer g)
  have "dp_timed (st\<lparr>dp_armedAt := None\<rparr>)" using t by (simp add: dp_timed_def dp_may_run_def)
  then show ?thesis using DpTimer t by (simp add: dp_on_timer_def dp_timed_batch)
qed (use t c in \<open>simp_all add: dp_timed_on_insert dp_timed_on_cancel\<close>)

lemma dp_timedD:
  "dp_timed st \<Longrightarrow> (t, i) \<in> set (dp_timers st) \<Longrightarrow> t = dt_runAt (dp_tasks st ! i)"
  "dp_timed st \<Longrightarrow> (i, e) \<in> set (dp_spawned st) \<union> set (dp_executing st) \<Longrightarrow> dp_may_run st i e"
  unfolding dp_timed_def by blast+

lemma dp_timedI:
  assumes "sorted (map fst (dp_timers st))"
    and "\<And>t i. (t, i) \<in> set (dp_timers st) \<Longrightarrow> t = dt_runAt (dp_tasks st ! i)"
    and "\<And>i e. (i, e) \<in> set (dp_spawned st) \<union> set (dp_executing st) \<Longrightarrow> dp_may_run st i e"
  shows "dp_timed st"
  unfolding dp_timed_def using assms by blast

lemma dp_in_flightI:
  "(t, i) \<in> set (dp_timers st) \<Longrightarrow> i \<in># dp_in_flight st"
  "(i, e) \<in> set (dp_spawned st) \<union> set (dp_executing st) \<Longrightarrow> i \<in># dp_in_flight st"
  by (force simp: dp_in_flight_def dp_waiting_def)+

text \<open>A task's time is fixed when it is created; a cancellation request stays.\<close>

definition dp_task_le :: "dp_Task \<Rightarrow> dp_Task \<Rightarrow> bool" where
  "dp_task_le t t' \<longleftrightarrow> dt_runAt t' = dt_runAt t \<and> dt_expeditedByDeadline t' = dt_expeditedByDeadline t
     \<and> (dt_cancelRequested t \<longrightarrow> dt_cancelRequested t')"

lemma dp_task_le_simps [simp]:
  "dp_task_le t t" "dp_task_le t (t\<lparr>dt_cancelRequested := True\<rparr>)" "dp_task_le t (t\<lparr>dt_claimed := c\<rparr>)"
  by (simp_all add: dp_task_le_def)

lemma dp_timed_tasks:
  assumes t: "dp_timed st" and r: "\<forall>i \<in># dp_in_flight st. dp_task_le (dp_tasks st ! i) (dp_tasks st' ! i)"
    and f: "dp_timers st' = dp_timers st"
    and s: "set (dp_spawned st') \<union> set (dp_executing st') \<subseteq> set (dp_spawned st) \<union> set (dp_executing st)"
    and c: "dp_clock st \<le> dp_clock st'"
  shows "dp_timed st'"
proof (rule dp_timedI, unfold f)
  show "sorted (map fst (dp_timers st))" using t by (simp add: dp_timed_def)
next
  fix t i assume "(t, i) \<in> set (dp_timers st)"
  then show "t = dt_runAt (dp_tasks st' ! i)"
    using dp_timedD(1) [OF t] dp_in_flightI(1) r by (metis dp_task_le_def)
next
  fix i e assume "(i, e) \<in> set (dp_spawned st') \<union> set (dp_executing st')"
  then have i: "(i, e) \<in> set (dp_spawned st) \<union> set (dp_executing st)" using s by (rule rev_subsetD)
  have "dp_task_le (dp_tasks st ! i) (dp_tasks st' ! i)" using dp_in_flightI(2) [OF i] r by simp
  then show "dp_may_run st' i e" using dp_timedD(2) [OF t i] c unfolding dp_may_run_def dp_task_le_def by auto
qed

lemma dp_timed_delay:
  assumes "dp_flow st" "dp_timed st" shows "dp_timed (snd (dp_delay c d t pf st))"
proof -
  obtain ts where "dp_tasks (snd (dp_delay c d t pf st)) = dp_tasks st @ ts
      \<and> dp_timers (snd (dp_delay c d t pf st)) = dp_timers st
      \<and> dp_spawned (snd (dp_delay c d t pf st)) = dp_spawned st
      \<and> dp_executing (snd (dp_delay c d t pf st)) = dp_executing st
      \<and> dp_clock (snd (dp_delay c d t pf st)) = dp_clock st"
  proof (cases "fst (dp_delay c d t pf st)")
    case (Inl e)
    then show ?thesis using dp_delay_rejects [OF Inl] that by (auto simp: dp_same_pool_def)
  next
    case (Inr i)
    then show ?thesis using dp_delay_accepts(4) [OF Inr] that by auto
  qed
  then show ?thesis using dp_flow_accepted [OF assms(1)]
    by - (rule dp_timed_tasks [OF assms(2)], simp_all add: nth_append)
qed

lemma dp_timed_onCancel: "dp_timed st \<Longrightarrow> dp_timed (dp_onCancel i st)"
  by (rule dp_timed_tasks [of st]) (simp_all add: dp_onCancel_def dp_defs nth_list_update_if)

lemma dp_timed_execute_begin: "dp_timed st \<Longrightarrow> (i, e) \<in> set (dp_spawned st) \<Longrightarrow> dp_timed (dp_execute_begin i e st)"
proof -
  assume t: "dp_timed st" and i: "(i, e) \<in> set (dp_spawned st)"
  have sub: "set (dp_spawned (dp_execute_begin i e st)) \<union> set (dp_executing (dp_execute_begin i e st))
      \<subseteq> set (dp_spawned st) \<union> set (dp_executing st)"
    using i set_remove1_subset [of "(i, e)" "dp_spawned st"] by (auto simp: dp_execute_begin_def dp_set_task_def Let_def)
  show ?thesis
    by (rule dp_timed_tasks [OF t _ _ sub]) (simp_all add: dp_execute_begin_def dp_set_task_def Let_def nth_list_update_if)
qed

lemma dp_timed_execute_end: "dp_timed st \<Longrightarrow> dp_timed (dp_execute_end i e st)"
proof -
  assume t: "dp_timed st"
  have "set (dp_spawned (dp_execute_end i e st)) \<union> set (dp_executing (dp_execute_end i e st))
      \<subseteq> set (dp_spawned st) \<union> set (dp_executing st)"
    using set_remove1_subset [of "(i, e)" "dp_executing st"] by (auto simp: dp_execute_end_def Let_def)
  then show ?thesis
    by - (rule dp_timed_tasks [OF t], simp_all add: dp_execute_end_def Let_def)
qed

subsubsection \<open>The armed timer\<close>

definition dp_pending_timer :: "dp_State \<Rightarrow> bool" where
  "dp_pending_timer st \<longleftrightarrow> (dp_armedAt st \<noteq> None \<longrightarrow> DpTimer (dp_generation st) \<in> set (dp_strand st))"

lemma dp_armNext_armed: "dp_pending_timer st \<Longrightarrow> dp_armed (dp_armNext st)"
  by (auto simp: dp_armed_def dp_armNext_def dp_pending_timer_def dp_post_def Let_def split: list.split)

lemma dp_armed_keep:
  "dp_armed st \<Longrightarrow> dp_timers st' = dp_timers st \<Longrightarrow> dp_armedAt st' = dp_armedAt st \<Longrightarrow>
   dp_generation st' = dp_generation st \<Longrightarrow> set (dp_strand st) \<subseteq> set (dp_strand st') \<Longrightarrow> dp_armed st'"
  by (auto simp: dp_armed_def)

lemma dp_armed_deliver:
  assumes a: "dp_armed st" and s: "dp_strand st = xs @ m # ys"
  shows "dp_armed (dp_handle m (st\<lparr>dp_strand := xs @ ys\<rparr>))"
proof (cases m)
  case (DpTimer g)
  have "dp_pending_timer (dp_timer_batch 64 (st\<lparr>dp_strand := xs @ ys, dp_armedAt := None\<rparr>))"
    by (simp add: dp_pending_timer_def)
  moreover have "dp_armed (st\<lparr>dp_strand := xs @ ys\<rparr>)" if "g \<noteq> dp_generation st"
    using that a s DpTimer by (auto simp: dp_armed_def)
  ultimately show ?thesis using DpTimer by (simp add: dp_on_timer_def dp_armNext_armed)
next
  case (DpInsert i)
  let ?st = "st\<lparr>dp_strand := xs @ ys\<rparr>"
  have p: "dp_pending_timer (?st\<lparr>dp_timers := q\<rparr>)" for q
    using a s DpInsert by (auto simp: dp_armed_def dp_pending_timer_def)
  have d: "dp_armed (?st\<lparr>dp_spawned := q\<rparr>)" for q using a s DpInsert by (auto simp: dp_armed_def)
  show ?thesis using DpInsert dp_armNext_armed [OF p] d by (simp add: dp_on_insert_def dp_dispatch_def)
next
  case (DpCancel i)
  let ?st = "st\<lparr>dp_strand := xs @ ys\<rparr>"
  have p: "dp_pending_timer (?st\<lparr>dp_timers := q, dp_spawned := q'\<rparr>)" for q q'
    using a s DpCancel by (auto simp: dp_armed_def dp_pending_timer_def)
  have d: "dp_armed ?st" using a s DpCancel by (auto simp: dp_armed_def)
  show ?thesis using DpCancel dp_armNext_armed [OF p] d by (simp add: dp_on_cancel_def dp_dispatch_def)
qed

subsubsection \<open>Cancellation messages\<close>

lemma dp_cancels_keep:
  assumes "dp_cancels st" "length (dp_tasks st) \<le> length (dp_tasks st')"
    "\<And>i. DpCancel i \<in> set (dp_strand st') \<Longrightarrow> DpCancel i \<in> set (dp_strand st)"
    "\<And>i. i < length (dp_tasks st) \<Longrightarrow> dp_task_le (dp_tasks st ! i) (dp_tasks st' ! i)"
  shows "dp_cancels st'"
  using assms unfolding dp_cancels_def dp_task_le_def by (meson order.strict_trans2)

lemma dp_armNext_cancels [simp]:
  "DpCancel i \<in> set (dp_strand (dp_armNext st)) \<longleftrightarrow> DpCancel i \<in> set (dp_strand st)"
  by (simp add: dp_armNext_def dp_post_def Let_def)

lemma dp_cancels_handle: "dp_cancels st \<Longrightarrow> dp_cancels (dp_handle m st)"
  by (cases m) (simp_all add: dp_cancels_def dp_on_insert_def dp_on_cancel_def dp_on_timer_def dp_dispatch_def)

lemma dp_cancels_delay:
  assumes c: "dp_cancels st" shows "dp_cancels (snd (dp_delay c d t pf st))"
proof (cases "fst (dp_delay c d t pf st)")
  case (Inl e)
  obtain ts where "dp_tasks (snd (dp_delay c d t pf st)) = dp_tasks st @ ts"
      "dp_strand (snd (dp_delay c d t pf st)) = dp_strand st"
    using dp_delay_rejects [OF Inl] by (auto simp: dp_same_pool_def)
  then show ?thesis by - (rule dp_cancels_keep [OF c], simp_all add: nth_append)
next
  case (Inr i)
  obtain n where "dp_tasks (snd (dp_delay c d t pf st)) = dp_tasks st @ [n]"
      "dp_strand (snd (dp_delay c d t pf st)) = dp_strand st @ [DpInsert i]"
    using dp_delay_accepts(4) [OF Inr] by auto
  then show ?thesis by - (rule dp_cancels_keep [OF c], simp_all add: nth_append)
qed

lemma dp_cancels_onCancel: "dp_cancels st \<Longrightarrow> dp_cancels (dp_onCancel i st)"
  by (auto simp: dp_cancels_def dp_onCancel_def dp_defs nth_list_update_if)

lemma dp_cancels_execute:
  assumes c: "dp_cancels st"
  shows "dp_cancels (dp_execute_begin i e st)" "dp_cancels (dp_execute_end i e st)"
  using c by (simp_all add: dp_cancels_def dp_execute_begin_def dp_execute_end_def dp_set_task_def Let_def nth_list_update_if)

subsubsection \<open>All reachable states\<close>

lemma dp_inv_same_fields:
  assumes "dp_inv st" "dp_timers st' = dp_timers st" "dp_spawned st' = dp_spawned st" "dp_executing st' = dp_executing st"
    "dp_accepted st' = dp_accepted st" "dp_finished st' = dp_finished st" "dp_tasks st' = dp_tasks st"
    "dp_activeTasks st' = dp_activeTasks st" "dp_clock st \<le> dp_clock st'" "dp_strand st' = dp_strand st"
    "dp_armedAt st' = dp_armedAt st" "dp_generation st' = dp_generation st" "dp_life st'"
  shows "dp_inv st'"
proof -
  have "dp_flow st'" by (rule dp_flow_move [of st]) (use assms in \<open>simp_all add: dp_inv_def dp_waiting_def\<close>)
  moreover have "dp_timed st'" by (rule dp_timed_tasks [of st]) (use assms in \<open>simp_all add: dp_inv_def\<close>)
  moreover have "dp_cancels st'" "dp_armed st'" using assms by (simp_all add: dp_inv_def dp_cancels_def dp_armed_def)
  ultimately show ?thesis using assms(13) by (simp add: dp_inv_def)
qed

lemma dp_armed_delay: "dp_armed st \<Longrightarrow> dp_armed (snd (dp_delay c d t pf st))"
proof (cases "fst (dp_delay c d t pf st)")
  case (Inl e)
  assume "dp_armed st"
  then show ?thesis using dp_delay_rejects [OF Inl] by (auto simp: dp_armed_def dp_same_pool_def)
next
  case (Inr i)
  assume "dp_armed st"
  then show ?thesis using dp_delay_accepts(4) [OF Inr] by (auto simp: dp_armed_def)
qed

lemma dp_armed_steps:
  assumes a: "dp_armed st"
  shows "dp_armed (dp_onCancel i st)" "dp_armed (dp_execute_begin i e st)" "dp_armed (dp_execute_end i e st)"
  using a by (auto simp add: dp_armed_def dp_onCancel_def dp_execute_begin_def dp_execute_end_def dp_set_task_def
      dp_post_def Let_def)

lemma dp_life_steps:
  "dp_life st \<Longrightarrow> dp_life (dp_onCancel i st)" "dp_life st \<Longrightarrow> dp_life (dp_execute_begin i e st)"
  by (simp_all add: dp_life_def dp_onCancel_def dp_execute_begin_def dp_set_task_def dp_post_def Let_def)

lemma dp_flow_active: "dp_flow st \<Longrightarrow> (i, e) \<in> set (dp_executing st) \<Longrightarrow> dp_activeTasks st \<noteq> 0"
  by (auto simp: dp_flow_def dp_in_flight_def)

lemma dp_reach_inv: "dp_reach st \<Longrightarrow> dp_inv st"
proof (induction rule: dp_reach.induct)
  case (init now me)
  show ?case by (simp add: dp_inv_def DelayPoolImpl_def dp_flow_def dp_in_flight_def dp_waiting_def dp_life_def dp_timed_def
        dp_cancels_def dp_armed_def)
next
  case (tick st now)
  have "dp_life (st\<lparr>dp_clock := now\<rparr>)" using tick.IH by (simp add: dp_inv_def dp_life_def)
  then show ?case using tick.hyps(2) by - (rule dp_inv_same_fields [OF tick.IH], simp_all)
next
  case (start st)
  have "dp_life (snd (dp_start st))" using start.IH by (simp add: dp_inv_def dp_life_def dp_start_def Let_def)
  then show ?case by - (rule dp_inv_same_fields [OF start.IH], simp_all add: dp_start_def Let_def)
next
  case (stop st own)
  have "dp_life (snd (dp_stop own st))" using stop.IH by (simp add: dp_inv_def dp_life_stop)
  then show ?case by - (rule dp_inv_same_fields [OF stop.IH], simp_all add: dp_stop_def Let_def)
next
  case (stop_deadline st)
  have "dp_life (dp_stop_deadline st)" using stop_deadline.IH by (simp add: dp_inv_def dp_life_def dp_stop_deadline_def)
  then show ?case by - (rule dp_inv_same_fields [OF stop_deadline.IH], simp_all add: dp_stop_deadline_def)
next
  case (delay st c d t pf)
  then show ?case
    by (simp add: dp_inv_def dp_flow_delay dp_life_delay dp_timed_delay dp_cancels_delay dp_armed_delay)
next
  case (cancel st i)
  then show ?case
    by (simp add: dp_inv_def dp_flow_onCancel dp_life_steps dp_timed_onCancel dp_cancels_onCancel dp_armed_steps)
next
  case (deliver st xs m ys)
  let ?st = "st\<lparr>dp_strand := xs @ ys\<rparr>"
  have f: "dp_flow st" and l: "dp_life ?st" and t: "dp_timed ?st" and c: "dp_cancels st" and a: "dp_armed st"
    using deliver.IH by (simp_all add: dp_inv_def dp_life_def dp_timed_def dp_may_run_def)
  have "dt_cancelRequested (dp_tasks ?st ! i)" if "m = DpCancel i" for i
    using that c deliver.hyps(2) by (simp add: dp_cancels_def)
  then have "dp_timed (dp_handle m ?st)" by (rule dp_timed_handle [OF t])
  moreover have "dp_cancels ?st" using c deliver.hyps(2) by (simp add: dp_cancels_def)
  ultimately show ?case using f a l deliver.hyps(2)
    by (simp add: dp_inv_def dp_flow_deliver dp_life_handle dp_cancels_handle dp_armed_deliver)
next
  case (execute_begin st i e)
  then show ?case
    by (simp add: dp_inv_def dp_flow_execute_begin dp_life_steps dp_timed_execute_begin dp_cancels_execute dp_armed_steps)
next
  case (execute_end st i e)
  then show ?case
    by (simp add: dp_inv_def dp_flow_execute_end dp_life_execute_end dp_flow_active dp_timed_execute_end
        dp_cancels_execute dp_armed_steps)
qed

interpretation dp: draining_pool dp_reach dp_accepted dp_finished dp_in_flight dp_drained
proof unfold_locales
  fix st assume "dp_reach st"
  then have i: "dp_flow st" "dp_life st" using dp_reach_inv by (simp_all add: dp_inv_def)
  show "mset (dp_accepted st) = dp_in_flight st + mset (dp_finished st)" "distinct (dp_accepted st)"
    using i(1) by (simp_all add: dp_flow_def)
  show "dp_in_flight st = {#}" if "dp_drained st"
    using that i by (metis dp_life_def dp_flow_def size_eq_0_iff_empty)
qed

subsection \<open>Draining\<close>

text \<open>The steps the pool takes on its own: time passes, the strand and the executor run.\<close>

inductive dp_internal :: "dp_State \<Rightarrow> dp_State \<Rightarrow> bool" where
  tick: "dp_clock st \<le> now \<Longrightarrow> dp_internal st (st\<lparr>dp_clock := now\<rparr>)"
| deliver: "dp_strand st = xs @ m # ys \<Longrightarrow> dp_internal st (dp_handle m (st\<lparr>dp_strand := xs @ ys\<rparr>))"
| execute_begin: "(i, e) \<in> set (dp_spawned st) \<Longrightarrow> dp_internal st (dp_execute_begin i e st)"
| execute_end: "(i, e) \<in> set (dp_executing st) \<Longrightarrow> dp_internal st (dp_execute_end i e st)"

lemma dp_internal_reach: "dp_internal st st' \<Longrightarrow> dp_reach st \<Longrightarrow> dp_reach st'"
  by (induction rule: dp_internal.induct) (simp_all add: dp_reach.intros)

lemma dp_internal_closed: "dp_internal st st' \<Longrightarrow> dp_closed st' = dp_closed st"
proof (induction rule: dp_internal.induct)
  case (deliver st xs m ys)
  then show ?case
    by (cases m) (simp_all add: dp_on_insert_def dp_on_cancel_def dp_on_timer_def dp_dispatch_def)
qed (simp_all add: dp_execute_begin_def dp_execute_end_def dp_set_task_def Let_def)

definition dp_work :: "dp_State \<Rightarrow> nat" where
  "dp_work st = 4 * length (dp_inserts (dp_strand st)) + 3 * length (dp_timers st)
     + 2 * length (dp_spawned st) + length (dp_executing st)"

lemma dp_work_execute_end: "(i, e) \<in> set (dp_executing st) \<Longrightarrow> dp_work (dp_execute_end i e st) < dp_work st"
  using length_pos_if_in_set [of "(i, e)" "dp_executing st"]
  by (simp add: dp_work_def dp_execute_end_def Let_def length_remove1)

lemma dp_work_execute_begin: "(i, e) \<in> set (dp_spawned st) \<Longrightarrow> dp_work (dp_execute_begin i e st) < dp_work st"
  using length_pos_if_in_set [of "(i, e)" "dp_spawned st"]
  by (cases "length (dp_spawned st)")
    (simp_all add: dp_work_def dp_execute_begin_def dp_set_task_def Let_def length_remove1)

lemma dp_insert_timer_length [simp]: "length (dp_insert_timer e q) = Suc (length q)"
  by (induction e q rule: dp_insert_timer.induct) simp_all

lemma dp_work_insert:
  "dp_strand st = xs @ DpInsert i # ys \<Longrightarrow> dp_work (dp_handle (DpInsert i) (st\<lparr>dp_strand := xs @ ys\<rparr>)) < dp_work st"
  by (simp add: dp_work_def dp_on_insert_def dp_dispatch_def)

text \<open>When the head of the queue is due, the armed timer dispatches it.\<close>

lemma dp_work_timer:
  assumes "dp_timers st = (t, i) # q" "t \<le> dp_clock st" "dp_strand st = xs @ DpTimer (dp_generation st) # ys"
  shows "dp_work (dp_handle (DpTimer (dp_generation st)) (st\<lparr>dp_strand := xs @ ys\<rparr>)) < dp_work st"
proof -
  let ?st = "st\<lparr>dp_strand := xs @ ys, dp_armedAt := None\<rparr>"
  let ?n = "length (dp_due 64 ?st)"
  have n: "0 < ?n" using assms(1,2) by (simp add: dp_due_def take_Cons')
  have le: "?n \<le> length (dp_timers st)"
    using dp_due_prefix [of 64 ?st] by (metis append_eq_conv_conj dp_State.select_convs(3) dp_State.surjective dp_State.update_convs(4) dp_State.update_convs(17) length_append le_add1)
  have l: "length (dp_timers (dp_timer_batch 64 ?st)) = length (dp_timers st) - ?n"
    "length (dp_spawned (dp_timer_batch 64 ?st)) = length (dp_spawned st) + ?n"
    by (subst dp_timer_batch_spec, simp)+
  have "3 * (length (dp_timers st) - ?n) + 2 * (length (dp_spawned st) + ?n)
      < 3 * length (dp_timers st) + 2 * length (dp_spawned st)"
    using n le_Suc_ex [OF le] by auto
  then show ?thesis using assms(3) unfolding dp_work_def by (simp add: dp_on_timer_def l)
qed

lemma dp_work_decreases:
  assumes r: "dp_reach st" and w: "dp_in_flight st \<noteq> {#}"
  shows "\<exists>st'. dp_internal\<^sup>*\<^sup>* st st' \<and> dp_work st' < dp_work st"
proof -
  consider i e where "(i, e) \<in> set (dp_executing st)" | i e where "(i, e) \<in> set (dp_spawned st)"
    | i where "i \<in> set (dp_inserts (dp_strand st))" | t i q where "dp_timers st = (t, i) # q"
    using w by (force simp: dp_in_flight_def dp_waiting_def neq_Nil_conv)
  then show ?thesis
  proof cases
    case (1 i e)
    then show ?thesis using dp_internal.execute_end dp_work_execute_end by blast
  next
    case (2 i e)
    then show ?thesis using dp_internal.execute_begin dp_work_execute_begin by blast
  next
    case (3 i)
    then have "DpInsert i \<in> set (dp_strand st)" by (auto simp: dp_inserts_def split: dp_msg.splits)
    then obtain xs ys where "dp_strand st = xs @ DpInsert i # ys" by (meson split_list)
    then show ?thesis using dp_internal.deliver dp_work_insert by blast
  next
    case (4 t i q)
    let ?st = "st\<lparr>dp_clock := max (dp_clock st) t\<rparr>"
    have "dp_armed st" using dp_reach_inv [OF r] by (simp add: dp_inv_def)
    then have "DpTimer (dp_generation st) \<in> set (dp_strand st)" using 4 by (simp add: dp_armed_def)
    then obtain xs ys where s: "dp_strand st = xs @ DpTimer (dp_generation st) # ys" by (meson split_list)
    let ?st' = "dp_handle (DpTimer (dp_generation ?st)) (?st\<lparr>dp_strand := xs @ ys\<rparr>)"
    have "dp_work ?st' < dp_work ?st" by (rule dp_work_timer [of _ t i q]) (simp_all add: 4 s)
    then have "dp_work ?st' < dp_work st" by (simp add: dp_work_def)
    moreover have "dp_internal st ?st" by (rule dp_internal.tick) simp
    moreover have "dp_internal ?st ?st'" by (rule dp_internal.deliver) (use s in simp)
    ultimately show ?thesis by (meson converse_rtranclp_into_rtranclp r_into_rtranclp)
  qed
qed

lemma dp_internal_star:
  "dp_internal\<^sup>*\<^sup>* st st' \<Longrightarrow> dp_reach st \<Longrightarrow> dp_reach st' \<and> dp_closed st' = dp_closed st"
  by (induction rule: rtranclp_induct) (simp_all add: dp_internal_reach dp_internal_closed)

lemma dp_drains: "dp_reach st \<Longrightarrow> \<exists>st'. dp_internal\<^sup>*\<^sup>* st st' \<and> dp_in_flight st' = {#}"
proof (induction "dp_work st" arbitrary: st rule: less_induct)
  case less
  show ?case
  proof (cases "dp_in_flight st = {#}")
    case False
    then obtain st' where st': "dp_internal\<^sup>*\<^sup>* st st'" "dp_work st' < dp_work st"
      using dp_work_decreases less.prems by blast
    then show ?thesis using less.hyps [OF st'(2)] dp_internal_star [OF st'(1) less.prems] by (meson rtranclp_trans)
  qed blast
qed

text \<open>A run used by the witnesses: one callback delayed by 5 ticks is posted, queued, dispatched by the
  timer at time 5, and runs while \<open>stop()\<close> waits.\<close>

definition dp_demo_posted :: dp_State where
  "dp_demo_posted = snd (dp_delay False None 5 False (snd (dp_start (DelayPoolImpl True 0))))"

definition dp_demo_queued :: dp_State where
  "dp_demo_queued = dp_handle (DpInsert 0) (dp_demo_posted\<lparr>dp_strand := []\<rparr>)"

definition dp_demo_dispatched :: dp_State where
  "dp_demo_dispatched = dp_handle (DpTimer 1) (dp_demo_queued\<lparr>dp_clock := 5, dp_strand := []\<rparr>)"

definition dp_demo_stopping :: dp_State where
  "dp_demo_stopping = snd (dp_stop False dp_demo_dispatched)"

definition dp_demo_drained :: dp_State where
  "dp_demo_drained = dp_execute_end 0 False (dp_execute_begin 0 False dp_demo_stopping)"

lemma dp_demo_posted_eq:
  "dp_demo_posted = (DelayPoolImpl True 0)
     \<lparr>dp_started := True, dp_tasks := [\<lparr>dt_runAt = 5, dt_expeditedByDeadline = False, dt_claimed = False,
        dt_cancelRequested = False, dt_cancellable = True\<rparr>], dp_activeTasks := 1, dp_gaugeWaitQueueLength := 1,
      dp_accepted := [0], dp_strand := [DpInsert 0]\<rparr>"
  by (simp add: dp_demo_posted_def dp_delay_def dp_start_def DelayPoolImpl_def saturatedAdd_def kTimePointMax_def
      kMaxActiveTasks_def dp_post_def)

lemma dp_demo_queued_eq:
  "dp_demo_queued = dp_demo_posted\<lparr>dp_strand := [DpTimer 1], dp_timers := [(5, 0)], dp_armedAt := Some 5,
     dp_generation := 1\<rparr>"
  by (simp add: dp_demo_queued_def dp_demo_posted_eq DelayPoolImpl_def dp_on_insert_def dp_armNext_def dp_post_def)

lemma dp_demo_dispatched_eq:
  "dp_demo_dispatched = dp_demo_posted\<lparr>dp_clock := 5, dp_strand := [], dp_generation := 1, dp_spawned := [(0, False)]\<rparr>"
  by (simp add: dp_demo_dispatched_def dp_demo_queued_eq dp_demo_posted_eq DelayPoolImpl_def dp_on_timer_def dp_armNext_def
      dp_timer_batch_spec dp_due_def dp_expedited_def)

lemma dp_demo_stopping_eq: "dp_demo_stopping = dp_demo_dispatched\<lparr>dp_closed := True\<rparr>"
  by (simp add: dp_demo_stopping_def dp_stop_def dp_demo_dispatched_eq dp_demo_posted_eq)

lemma dp_demo_drained_fields:
  "dp_drained dp_demo_drained" "dp_finished dp_demo_drained = [0]" "dp_accepted dp_demo_drained = [0]"
  by (simp_all add: dp_demo_drained_def dp_execute_begin_def dp_execute_end_def retire_def signalDrained_def
      dp_set_task_def dp_demo_stopping_eq dp_demo_dispatched_eq dp_demo_posted_eq DelayPoolImpl_def)

lemma dp_demo_reach: "dp_reach dp_demo_dispatched" "dp_reach dp_demo_stopping" "dp_reach dp_demo_drained"
proof -
  have p: "dp_reach dp_demo_posted"
    unfolding dp_demo_posted_def by (intro dp_reach.delay dp_reach.start dp_reach.init) simp
  have "dp_reach dp_demo_queued"
    using dp_reach.deliver [OF p, of "[]" "DpInsert 0" "[]"] by (simp add: dp_demo_queued_def dp_demo_posted_eq)
  then have "dp_reach (dp_demo_queued\<lparr>dp_clock := 5\<rparr>)"
    by (rule dp_reach.tick) (simp add: dp_demo_queued_eq dp_demo_posted_eq DelayPoolImpl_def)
  from dp_reach.deliver [OF this, of "[]" "DpTimer 1" "[]"]
  show d: "dp_reach dp_demo_dispatched" by (simp add: dp_demo_dispatched_def dp_demo_queued_eq)
  show s: "dp_reach dp_demo_stopping" unfolding dp_demo_stopping_def by (rule dp_reach.stop [OF d])
  have "dp_reach (dp_execute_begin 0 False dp_demo_stopping)"
    by (rule dp_reach.execute_begin [OF s]) (simp add: dp_demo_stopping_eq dp_demo_dispatched_eq)
  then show "dp_reach dp_demo_drained" unfolding dp_demo_drained_def
    by (rule dp_reach.execute_end)
      (simp add: dp_execute_begin_def dp_set_task_def dp_demo_stopping_eq dp_demo_dispatched_eq dp_demo_posted_eq DelayPoolImpl_def)
qed

subsection \<open>Properties\<close>

text \<open>C28. In every reachable state of the delay pool each accepted callback is in exactly one place: posted to the
  strand, in the timer queue, dispatched, running or finished. None is lost or duplicated, and the activity
  counter that guards admission and drain is the number of those not finished.\<close>

theorem delay_tasks_conserved:
  assumes "dp_reach st"
  shows "mset (dp_accepted st) =
      mset (dp_inserts (dp_strand st)) + mset (map snd (dp_timers st)) + mset (map fst (dp_spawned st))
      + mset (map fst (dp_executing st)) + mset (dp_finished st)
    \<and> distinct (dp_accepted st) \<and> distinct (dp_finished st)
    \<and> dp_activeTasks st + length (dp_finished st) = length (dp_accepted st)"
proof (intro conjI)
  show "distinct (dp_accepted st)" by (rule dp.admitted_once [OF assms])
  show "distinct (dp_finished st)" by (rule dp.finished_once [OF assms])
  show "mset (dp_accepted st) =
      mset (dp_inserts (dp_strand st)) + mset (map snd (dp_timers st)) + mset (map fst (dp_spawned st))
      + mset (map fst (dp_executing st)) + mset (dp_finished st)"
    using dp.conserved [OF assms] by (simp add: dp_in_flight_def dp_waiting_def add.assoc)
  have "dp_activeTasks st = size (dp_in_flight st)" using dp_reach_inv [OF assms] by (simp add: dp_inv_def dp_flow_def)
  then show "dp_activeTasks st + length (dp_finished st) = length (dp_accepted st)"
    by (metis dp.conserved [OF assms] size_mset size_union)
qed

theorem delay_tasks_conserved_witness:
  "dp_reach dp_demo_stopping \<and> dp_activeTasks dp_demo_stopping = 1
   \<and> dp_activeTasks dp_demo_stopping + length (dp_finished dp_demo_stopping) = length (dp_accepted dp_demo_stopping)"
  using delay_tasks_conserved [OF dp_demo_reach(2)] dp_demo_reach(2)
  by (simp add: dp_demo_stopping_eq dp_demo_dispatched_eq dp_demo_posted_eq)

text \<open>C14. Once \<open>stop()\<close> is released every accepted callback has finished, exactly once, and no later
  \<open>delay\<close> is accepted.\<close>

theorem delay_drain_complete:
  assumes "dp_reach st" "dp_drained st"
  shows "mset (dp_finished st) = mset (dp_accepted st) \<and> dp_timers st = [] \<and> dp_executing st = []
    \<and> (\<forall>c d t pf. \<exists>e. fst (dp_delay c d t pf st) = Inl e)"
proof -
  have "dp_in_flight st = {#}" by (rule dp.released_empty [OF assms])
  moreover have "dp_closed st" using dp_reach_inv [OF assms(1)] assms(2) unfolding dp_inv_def dp_life_def by metis
  then have "\<exists>e. fst (dp_delay c d t pf st) = Inl e" for c d t pf
    by (cases "fst (dp_delay c d t pf st)") (auto dest: dp_delay_accepts(2))
  ultimately show ?thesis using dp.released_all_finished [OF assms] by (simp add: dp_in_flight_def dp_waiting_def)
qed

theorem delay_drain_complete_witness:
  "dp_reach dp_demo_drained \<and> dp_drained dp_demo_drained
   \<and> mset (dp_finished dp_demo_drained) = {#0#} \<and> dp_timers dp_demo_drained = []"
  using delay_drain_complete [OF dp_demo_reach(3) dp_demo_drained_fields(1)] dp_demo_reach(3) dp_demo_drained_fields
  by simp

text \<open>C27. A callback is dispatched or runs only when the clock has reached its time or its context was
  cancelled; one that is not reported as expedited is due and its time is not a context deadline.\<close>

theorem delay_never_early:
  assumes "dp_reach st" "(i, expedited) \<in> set (dp_spawned st) \<union> set (dp_executing st)"
  shows "(dt_runAt (dp_tasks st ! i) \<le> dp_clock st \<or> dt_cancelRequested (dp_tasks st ! i))
    \<and> (\<not> expedited \<longrightarrow> dt_runAt (dp_tasks st ! i) \<le> dp_clock st \<and> \<not> dt_expeditedByDeadline (dp_tasks st ! i))"
proof -
  have "dp_may_run st i expedited"
    using dp_reach_inv [OF assms(1)] assms(2) by (intro dp_timedD(2)) (simp_all add: dp_inv_def)
  then show ?thesis unfolding dp_may_run_def by blast
qed

theorem delay_never_early_witness:
  "dp_reach dp_demo_dispatched \<and> (0, False) \<in> set (dp_spawned dp_demo_dispatched)
   \<and> dt_runAt (dp_tasks dp_demo_dispatched ! 0) \<le> dp_clock dp_demo_dispatched"
proof -
  have "(0, False) \<in> set (dp_spawned dp_demo_dispatched)" by (simp add: dp_demo_dispatched_eq)
  then show ?thesis using delay_never_early [OF dp_demo_reach(1), of 0 False] dp_demo_reach(1) by simp
qed

text \<open>C13. Drain can always complete: from every reachable state in which \<open>stop()\<close> has closed the pool, the
  pool's own steps (time passing, the strand, the executor) lead to a state where \<open>stop()\<close> is released.\<close>

theorem delay_stop_returns:
  assumes "dp_reach st" "dp_closed st"
  shows "\<exists>st'. dp_internal\<^sup>*\<^sup>* st st' \<and> dp_drained st' \<and> mset (dp_finished st') = mset (dp_accepted st')"
proof -
  obtain st' where st': "dp_internal\<^sup>*\<^sup>* st st'" "dp_in_flight st' = {#}" using dp_drains [OF assms(1)] by blast
  have r: "dp_reach st'" "dp_closed st'" using dp_internal_star [OF st'(1) assms(1)] assms(2) by simp_all
  have "dp_activeTasks st' = 0" using dp_reach_inv [OF r(1)] st'(2) by (simp add: dp_inv_def dp_flow_def)
  then have "dp_drained st'" using dp_reach_inv [OF r(1)] r(2) by (simp add: dp_inv_def dp_life_def)
  then show ?thesis using st'(1) dp.released_all_finished [OF r(1)] by blast
qed

theorem delay_stop_returns_witness:
  "dp_reach dp_demo_stopping \<and> dp_closed dp_demo_stopping \<and> \<not> dp_drained dp_demo_stopping
   \<and> (\<exists>st'. dp_internal\<^sup>*\<^sup>* dp_demo_stopping st' \<and> dp_drained st' \<and> mset (dp_finished st') = mset (dp_accepted st'))"
proof -
  have "dp_closed dp_demo_stopping" "\<not> dp_drained dp_demo_stopping"
    by (simp_all add: dp_demo_stopping_eq dp_demo_dispatched_eq dp_demo_posted_eq DelayPoolImpl_def)
  then show ?thesis using delay_stop_returns [OF dp_demo_reach(2)] dp_demo_reach(2) by blast
qed

text \<open>The time of a new callback: \<open>delay\<close> never overflows the clock's range, gives a time that is neither
  in the past nor after the deadline of the context, and marks the callback as expedited by its deadline exactly
  when the deadline comes before the requested time.\<close>

theorem delay_time_bounds:
  assumes "0 \<le> dp_clock st" "dp_clock st \<le> kTimePointMax" "fst (dp_delay c d t pf st) = Inr i"
  shows "let task = dp_tasks (snd (dp_delay c d t pf st)) ! i; due = saturatedAdd (dp_clock st) t in
    dp_clock st \<le> dt_runAt task \<and> dt_runAt task \<le> kTimePointMax
    \<and> due = (if t \<le> 0 then dp_clock st else min (dp_clock st + t) kTimePointMax)
    \<and> (\<forall>deadline. d = Some deadline \<longrightarrow> dt_runAt task \<le> deadline)
    \<and> dt_expeditedByDeadline task = (\<exists>deadline. d = Some deadline \<and> deadline < due)
    \<and> (\<not> dt_expeditedByDeadline task \<longrightarrow> dt_runAt task = due)"
proof -
  have task: "dp_tasks (snd (dp_delay c d t pf st)) ! i = dp_new_task d t st"
    using dp_delay_accepts(1,4) [OF assms(3)] by (auto simp: nth_append)
  have due: "saturatedAdd (dp_clock st) t = (if t \<le> 0 then dp_clock st else min (dp_clock st + t) kTimePointMax)"
    by (auto simp: saturatedAdd_def)
  have "dp_clock st < deadline" if "d = Some deadline" for deadline
    using assms(3) that by (auto simp: dp_delay_def rejectCancelled_def Let_def split: if_splits)
  then show ?thesis using assms(1,2) unfolding task due Let_def
    by (cases d) (auto simp: dp_new_task_def due Let_def min_def)
qed

theorem delay_time_bounds_witness:
  "fst (dp_delay False (Some 3) 5 False (DelayPoolImpl True 1)) = Inr 0
   \<and> dt_runAt (dp_tasks (snd (dp_delay False (Some 3) 5 False (DelayPoolImpl True 1))) ! 0) \<le> 3
   \<and> dt_expeditedByDeadline (dp_tasks (snd (dp_delay False (Some 3) 5 False (DelayPoolImpl True 1))) ! 0)"
proof -
  have d: "fst (dp_delay False (Some 3) 5 False (DelayPoolImpl True 1)) = Inr 0"
    by (simp add: dp_delay_def DelayPoolImpl_def saturatedAdd_def kTimePointMax_def kMaxActiveTasks_def)
  have c: "dp_clock (DelayPoolImpl True 1) = 1" "(1 :: int) \<le> kTimePointMax"
    "saturatedAdd 1 5 = 6" by (simp_all add: DelayPoolImpl_def kTimePointMax_def saturatedAdd_def)
  show ?thesis using delay_time_bounds [OF _ _ d] d c by (simp add: Let_def)
qed

end
