(* ===== verification/ConfigStreams.thy ===== *)
theory ConfigStreams
  imports ServiceApi
begin

section \<open>Stream configurations (runtime/config/stream_types.hpp)\<close>

text \<open>
  The configuration struct of each of the 17 stream kinds, its parser, and \<open>StreamConfigRef\<close>, the
  variant the runtime looks streams up by. The six members that \<open>ParseFunctionFields\<close> fills form one
  record here. A \<open>document_\<close> function gives the entries that spell a configuration under the keys of
  the service description; the parsers read such a document back, whatever other properties it has.
\<close>

subsection \<open>Structs\<close>

record InputStreamConfig =
  InputStream_id :: int
  InputStream_name :: string
  InputStream_pipeline :: string
  InputStream_component :: string
  InputStream_idService :: int
  InputStream_idSource :: int
  InputStream_idSources :: "int list"
  InputStream_xPos :: double
  InputStream_yPos :: double
  InputStream_valueType :: string
  InputStream_idEndpoint :: int
  InputStream_properties :: PropertiesMap

record SubStreamConfig =
  SubStream_id :: int
  SubStream_name :: string
  SubStream_pipeline :: string
  SubStream_component :: string
  SubStream_idService :: int
  SubStream_idSource :: int
  SubStream_xPos :: double
  SubStream_yPos :: double
  SubStream_valueType :: string
  SubStream_properties :: PropertiesMap

record MapStreamConfig =
  MapStream_id :: int
  MapStream_name :: string
  MapStream_pipeline :: string
  MapStream_component :: string
  MapStream_idService :: int
  MapStream_idSource :: int
  MapStream_xPos :: double
  MapStream_yPos :: double
  MapStream_valueType :: string
  MapStream_function :: FunctionFields
  MapStream_properties :: PropertiesMap

record FilterStreamConfig =
  FilterStream_id :: int
  FilterStream_name :: string
  FilterStream_pipeline :: string
  FilterStream_component :: string
  FilterStream_idService :: int
  FilterStream_idSource :: int
  FilterStream_xPos :: double
  FilterStream_yPos :: double
  FilterStream_function :: FunctionFields
  FilterStream_properties :: PropertiesMap

record JoinStreamConfig =
  JoinStream_id :: int
  JoinStream_name :: string
  JoinStream_pipeline :: string
  JoinStream_component :: string
  JoinStream_idService :: int
  JoinStream_idSource :: int
  JoinStream_idSources :: "int list"
  JoinStream_xPos :: double
  JoinStream_yPos :: double
  JoinStream_valueType :: string
  JoinStream_joinType :: JoinType
  JoinStream_joinStorage :: JoinStorageType
  JoinStream_ttl :: int
  JoinStream_renewTTL :: bool
  JoinStream_function :: FunctionFields
  JoinStream_properties :: PropertiesMap

record MultiJoinStreamConfig =
  MultiJoinStream_id :: int
  MultiJoinStream_name :: string
  MultiJoinStream_pipeline :: string
  MultiJoinStream_component :: string
  MultiJoinStream_idService :: int
  MultiJoinStream_idSource :: int
  MultiJoinStream_idSources :: "int list"
  MultiJoinStream_xPos :: double
  MultiJoinStream_yPos :: double
  MultiJoinStream_valueType :: string
  MultiJoinStream_joinStorage :: JoinStorageType
  MultiJoinStream_ttl :: int
  MultiJoinStream_renewTTL :: bool
  MultiJoinStream_function :: FunctionFields
  MultiJoinStream_properties :: PropertiesMap

record ProcessStreamConfig =
  ProcessStream_id :: int
  ProcessStream_name :: string
  ProcessStream_pipeline :: string
  ProcessStream_component :: string
  ProcessStream_idService :: int
  ProcessStream_idSource :: int
  ProcessStream_xPos :: double
  ProcessStream_yPos :: double
  ProcessStream_pattern :: ProcessPattern
  ProcessStream_function :: FunctionFields
  ProcessStream_properties :: PropertiesMap

record FlatMapStreamConfig =
  FlatMapStream_id :: int
  FlatMapStream_name :: string
  FlatMapStream_pipeline :: string
  FlatMapStream_component :: string
  FlatMapStream_idService :: int
  FlatMapStream_idSource :: int
  FlatMapStream_xPos :: double
  FlatMapStream_yPos :: double
  FlatMapStream_valueType :: string
  FlatMapStream_function :: FunctionFields
  FlatMapStream_properties :: PropertiesMap

record FlatMapIterableStreamConfig =
  FlatMapIterableStream_id :: int
  FlatMapIterableStream_name :: string
  FlatMapIterableStream_pipeline :: string
  FlatMapIterableStream_component :: string
  FlatMapIterableStream_idService :: int
  FlatMapIterableStream_idSource :: int
  FlatMapIterableStream_xPos :: double
  FlatMapIterableStream_yPos :: double
  FlatMapIterableStream_valueType :: string
  FlatMapIterableStream_properties :: PropertiesMap

record KeyByStreamConfig =
  KeyByStream_id :: int
  KeyByStream_name :: string
  KeyByStream_pipeline :: string
  KeyByStream_component :: string
  KeyByStream_idService :: int
  KeyByStream_idSource :: int
  KeyByStream_xPos :: double
  KeyByStream_yPos :: double
  KeyByStream_keyType :: string
  KeyByStream_valueType :: string
  KeyByStream_function :: FunctionFields
  KeyByStream_properties :: PropertiesMap

record MergeStreamConfig =
  MergeStream_id :: int
  MergeStream_name :: string
  MergeStream_pipeline :: string
  MergeStream_component :: string
  MergeStream_idService :: int
  MergeStream_idSources :: "int list"
  MergeStream_xPos :: double
  MergeStream_yPos :: double
  MergeStream_properties :: PropertiesMap

record SplitStreamConfig =
  SplitStream_id :: int
  SplitStream_name :: string
  SplitStream_pipeline :: string
  SplitStream_component :: string
  SplitStream_idService :: int
  SplitStream_idSource :: int
  SplitStream_xPos :: double
  SplitStream_yPos :: double
  SplitStream_properties :: PropertiesMap

record CaseStreamConfig =
  CaseStream_id :: int
  CaseStream_name :: string
  CaseStream_pipeline :: string
  CaseStream_component :: string
  CaseStream_idService :: int
  CaseStream_idSource :: int
  CaseStream_xPos :: double
  CaseStream_yPos :: double
  CaseStream_function :: FunctionFields
  CaseStream_properties :: PropertiesMap

record WhenStreamConfig =
  WhenStream_id :: int
  WhenStream_name :: string
  WhenStream_pipeline :: string
  WhenStream_component :: string
  WhenStream_idService :: int
  WhenStream_idSource :: int
  WhenStream_xPos :: double
  WhenStream_yPos :: double
  WhenStream_valueType :: string
  WhenStream_properties :: PropertiesMap

record SinkStreamConfig =
  SinkStream_id :: int
  SinkStream_name :: string
  SinkStream_pipeline :: string
  SinkStream_component :: string
  SinkStream_idService :: int
  SinkStream_idSource :: int
  SinkStream_xPos :: double
  SinkStream_yPos :: double
  SinkStream_idEndpoint :: int
  SinkStream_valueType :: string
  SinkStream_properties :: PropertiesMap

record CycleLinkStreamConfig =
  CycleLinkStream_id :: int
  CycleLinkStream_name :: string
  CycleLinkStream_pipeline :: string
  CycleLinkStream_component :: string
  CycleLinkStream_idService :: int
  CycleLinkStream_idSource :: int
  CycleLinkStream_xPos :: double
  CycleLinkStream_yPos :: double
  CycleLinkStream_properties :: PropertiesMap

record DelayStreamConfig =
  DelayStream_id :: int
  DelayStream_name :: string
  DelayStream_pipeline :: string
  DelayStream_component :: string
  DelayStream_idService :: int
  DelayStream_idSource :: int
  DelayStream_xPos :: double
  DelayStream_yPos :: double
  DelayStream_duration :: int
  DelayStream_function :: FunctionFields
  DelayStream_properties :: PropertiesMap

subsection \<open>The variant\<close>

datatype StreamConfigRef =
    Ref_InputStream InputStreamConfig
  | Ref_SubStream SubStreamConfig
  | Ref_MapStream MapStreamConfig
  | Ref_FilterStream FilterStreamConfig
  | Ref_JoinStream JoinStreamConfig
  | Ref_MultiJoinStream MultiJoinStreamConfig
  | Ref_ProcessStream ProcessStreamConfig
  | Ref_FlatMapStream FlatMapStreamConfig
  | Ref_FlatMapIterableStream FlatMapIterableStreamConfig
  | Ref_KeyByStream KeyByStreamConfig
  | Ref_MergeStream MergeStreamConfig
  | Ref_SplitStream SplitStreamConfig
  | Ref_CaseStream CaseStreamConfig
  | Ref_WhenStream WhenStreamConfig
  | Ref_SinkStream SinkStreamConfig
  | Ref_CycleLinkStream CycleLinkStreamConfig
  | Ref_DelayStream DelayStreamConfig

fun Stream_GetID :: "StreamConfigRef \<Rightarrow> int" where
  "Stream_GetID (Ref_InputStream c) = InputStream_id c"
| "Stream_GetID (Ref_SubStream c) = SubStream_id c"
| "Stream_GetID (Ref_MapStream c) = MapStream_id c"
| "Stream_GetID (Ref_FilterStream c) = FilterStream_id c"
| "Stream_GetID (Ref_JoinStream c) = JoinStream_id c"
| "Stream_GetID (Ref_MultiJoinStream c) = MultiJoinStream_id c"
| "Stream_GetID (Ref_ProcessStream c) = ProcessStream_id c"
| "Stream_GetID (Ref_FlatMapStream c) = FlatMapStream_id c"
| "Stream_GetID (Ref_FlatMapIterableStream c) = FlatMapIterableStream_id c"
| "Stream_GetID (Ref_KeyByStream c) = KeyByStream_id c"
| "Stream_GetID (Ref_MergeStream c) = MergeStream_id c"
| "Stream_GetID (Ref_SplitStream c) = SplitStream_id c"
| "Stream_GetID (Ref_CaseStream c) = CaseStream_id c"
| "Stream_GetID (Ref_WhenStream c) = WhenStream_id c"
| "Stream_GetID (Ref_SinkStream c) = SinkStream_id c"
| "Stream_GetID (Ref_CycleLinkStream c) = CycleLinkStream_id c"
| "Stream_GetID (Ref_DelayStream c) = DelayStream_id c"

fun Stream_GetName :: "StreamConfigRef \<Rightarrow> string" where
  "Stream_GetName (Ref_InputStream c) = InputStream_name c"
| "Stream_GetName (Ref_SubStream c) = SubStream_name c"
| "Stream_GetName (Ref_MapStream c) = MapStream_name c"
| "Stream_GetName (Ref_FilterStream c) = FilterStream_name c"
| "Stream_GetName (Ref_JoinStream c) = JoinStream_name c"
| "Stream_GetName (Ref_MultiJoinStream c) = MultiJoinStream_name c"
| "Stream_GetName (Ref_ProcessStream c) = ProcessStream_name c"
| "Stream_GetName (Ref_FlatMapStream c) = FlatMapStream_name c"
| "Stream_GetName (Ref_FlatMapIterableStream c) = FlatMapIterableStream_name c"
| "Stream_GetName (Ref_KeyByStream c) = KeyByStream_name c"
| "Stream_GetName (Ref_MergeStream c) = MergeStream_name c"
| "Stream_GetName (Ref_SplitStream c) = SplitStream_name c"
| "Stream_GetName (Ref_CaseStream c) = CaseStream_name c"
| "Stream_GetName (Ref_WhenStream c) = WhenStream_name c"
| "Stream_GetName (Ref_SinkStream c) = SinkStream_name c"
| "Stream_GetName (Ref_CycleLinkStream c) = CycleLinkStream_name c"
| "Stream_GetName (Ref_DelayStream c) = DelayStream_name c"

fun Stream_GetPipeline :: "StreamConfigRef \<Rightarrow> string" where
  "Stream_GetPipeline (Ref_InputStream c) = InputStream_pipeline c"
| "Stream_GetPipeline (Ref_SubStream c) = SubStream_pipeline c"
| "Stream_GetPipeline (Ref_MapStream c) = MapStream_pipeline c"
| "Stream_GetPipeline (Ref_FilterStream c) = FilterStream_pipeline c"
| "Stream_GetPipeline (Ref_JoinStream c) = JoinStream_pipeline c"
| "Stream_GetPipeline (Ref_MultiJoinStream c) = MultiJoinStream_pipeline c"
| "Stream_GetPipeline (Ref_ProcessStream c) = ProcessStream_pipeline c"
| "Stream_GetPipeline (Ref_FlatMapStream c) = FlatMapStream_pipeline c"
| "Stream_GetPipeline (Ref_FlatMapIterableStream c) = FlatMapIterableStream_pipeline c"
| "Stream_GetPipeline (Ref_KeyByStream c) = KeyByStream_pipeline c"
| "Stream_GetPipeline (Ref_MergeStream c) = MergeStream_pipeline c"
| "Stream_GetPipeline (Ref_SplitStream c) = SplitStream_pipeline c"
| "Stream_GetPipeline (Ref_CaseStream c) = CaseStream_pipeline c"
| "Stream_GetPipeline (Ref_WhenStream c) = WhenStream_pipeline c"
| "Stream_GetPipeline (Ref_SinkStream c) = SinkStream_pipeline c"
| "Stream_GetPipeline (Ref_CycleLinkStream c) = CycleLinkStream_pipeline c"
| "Stream_GetPipeline (Ref_DelayStream c) = DelayStream_pipeline c"

fun Stream_GetComponent :: "StreamConfigRef \<Rightarrow> string" where
  "Stream_GetComponent (Ref_InputStream c) = InputStream_component c"
| "Stream_GetComponent (Ref_SubStream c) = SubStream_component c"
| "Stream_GetComponent (Ref_MapStream c) = MapStream_component c"
| "Stream_GetComponent (Ref_FilterStream c) = FilterStream_component c"
| "Stream_GetComponent (Ref_JoinStream c) = JoinStream_component c"
| "Stream_GetComponent (Ref_MultiJoinStream c) = MultiJoinStream_component c"
| "Stream_GetComponent (Ref_ProcessStream c) = ProcessStream_component c"
| "Stream_GetComponent (Ref_FlatMapStream c) = FlatMapStream_component c"
| "Stream_GetComponent (Ref_FlatMapIterableStream c) = FlatMapIterableStream_component c"
| "Stream_GetComponent (Ref_KeyByStream c) = KeyByStream_component c"
| "Stream_GetComponent (Ref_MergeStream c) = MergeStream_component c"
| "Stream_GetComponent (Ref_SplitStream c) = SplitStream_component c"
| "Stream_GetComponent (Ref_CaseStream c) = CaseStream_component c"
| "Stream_GetComponent (Ref_WhenStream c) = WhenStream_component c"
| "Stream_GetComponent (Ref_SinkStream c) = SinkStream_component c"
| "Stream_GetComponent (Ref_CycleLinkStream c) = CycleLinkStream_component c"
| "Stream_GetComponent (Ref_DelayStream c) = DelayStream_component c"

fun Stream_GetType :: "StreamConfigRef \<Rightarrow> TransformationType" where
  "Stream_GetType (Ref_InputStream c) = TransformationType_kInput"
| "Stream_GetType (Ref_SubStream c) = TransformationType_kSubStream"
| "Stream_GetType (Ref_MapStream c) = TransformationType_kMap"
| "Stream_GetType (Ref_FilterStream c) = TransformationType_kFilter"
| "Stream_GetType (Ref_JoinStream c) = TransformationType_kJoin"
| "Stream_GetType (Ref_MultiJoinStream c) = TransformationType_kMultiJoin"
| "Stream_GetType (Ref_ProcessStream c) = TransformationType_kProcess"
| "Stream_GetType (Ref_FlatMapStream c) = TransformationType_kFlatMap"
| "Stream_GetType (Ref_FlatMapIterableStream c) = TransformationType_kFlatMapIterable"
| "Stream_GetType (Ref_KeyByStream c) = TransformationType_kKeyBy"
| "Stream_GetType (Ref_MergeStream c) = TransformationType_kMerge"
| "Stream_GetType (Ref_SplitStream c) = TransformationType_kSplit"
| "Stream_GetType (Ref_CaseStream c) = TransformationType_kCase"
| "Stream_GetType (Ref_WhenStream c) = TransformationType_kWhen"
| "Stream_GetType (Ref_SinkStream c) = TransformationType_kSink"
| "Stream_GetType (Ref_CycleLinkStream c) = TransformationType_kCycleLink"
| "Stream_GetType (Ref_DelayStream c) = TransformationType_kDelay"

fun Stream_GetIdService :: "StreamConfigRef \<Rightarrow> int" where
  "Stream_GetIdService (Ref_InputStream c) = InputStream_idService c"
| "Stream_GetIdService (Ref_SubStream c) = SubStream_idService c"
| "Stream_GetIdService (Ref_MapStream c) = MapStream_idService c"
| "Stream_GetIdService (Ref_FilterStream c) = FilterStream_idService c"
| "Stream_GetIdService (Ref_JoinStream c) = JoinStream_idService c"
| "Stream_GetIdService (Ref_MultiJoinStream c) = MultiJoinStream_idService c"
| "Stream_GetIdService (Ref_ProcessStream c) = ProcessStream_idService c"
| "Stream_GetIdService (Ref_FlatMapStream c) = FlatMapStream_idService c"
| "Stream_GetIdService (Ref_FlatMapIterableStream c) = FlatMapIterableStream_idService c"
| "Stream_GetIdService (Ref_KeyByStream c) = KeyByStream_idService c"
| "Stream_GetIdService (Ref_MergeStream c) = MergeStream_idService c"
| "Stream_GetIdService (Ref_SplitStream c) = SplitStream_idService c"
| "Stream_GetIdService (Ref_CaseStream c) = CaseStream_idService c"
| "Stream_GetIdService (Ref_WhenStream c) = WhenStream_idService c"
| "Stream_GetIdService (Ref_SinkStream c) = SinkStream_idService c"
| "Stream_GetIdService (Ref_CycleLinkStream c) = CycleLinkStream_idService c"
| "Stream_GetIdService (Ref_DelayStream c) = DelayStream_idService c"

fun Stream_GetIdSource :: "StreamConfigRef \<Rightarrow> int" where
  "Stream_GetIdSource (Ref_InputStream c) = InputStream_idSource c"
| "Stream_GetIdSource (Ref_SubStream c) = SubStream_idSource c"
| "Stream_GetIdSource (Ref_MapStream c) = MapStream_idSource c"
| "Stream_GetIdSource (Ref_FilterStream c) = FilterStream_idSource c"
| "Stream_GetIdSource (Ref_JoinStream c) = JoinStream_idSource c"
| "Stream_GetIdSource (Ref_MultiJoinStream c) = MultiJoinStream_idSource c"
| "Stream_GetIdSource (Ref_ProcessStream c) = ProcessStream_idSource c"
| "Stream_GetIdSource (Ref_FlatMapStream c) = FlatMapStream_idSource c"
| "Stream_GetIdSource (Ref_FlatMapIterableStream c) = FlatMapIterableStream_idSource c"
| "Stream_GetIdSource (Ref_KeyByStream c) = KeyByStream_idSource c"
| "Stream_GetIdSource (Ref_MergeStream c) = 0"
| "Stream_GetIdSource (Ref_SplitStream c) = SplitStream_idSource c"
| "Stream_GetIdSource (Ref_CaseStream c) = CaseStream_idSource c"
| "Stream_GetIdSource (Ref_WhenStream c) = WhenStream_idSource c"
| "Stream_GetIdSource (Ref_SinkStream c) = SinkStream_idSource c"
| "Stream_GetIdSource (Ref_CycleLinkStream c) = CycleLinkStream_idSource c"
| "Stream_GetIdSource (Ref_DelayStream c) = DelayStream_idSource c"

fun Stream_GetIdSources :: "StreamConfigRef \<Rightarrow> int list" where
  "Stream_GetIdSources (Ref_InputStream c) = InputStream_idSources c"
| "Stream_GetIdSources (Ref_SubStream c) = []"
| "Stream_GetIdSources (Ref_MapStream c) = []"
| "Stream_GetIdSources (Ref_FilterStream c) = []"
| "Stream_GetIdSources (Ref_JoinStream c) = JoinStream_idSources c"
| "Stream_GetIdSources (Ref_MultiJoinStream c) = MultiJoinStream_idSources c"
| "Stream_GetIdSources (Ref_ProcessStream c) = []"
| "Stream_GetIdSources (Ref_FlatMapStream c) = []"
| "Stream_GetIdSources (Ref_FlatMapIterableStream c) = []"
| "Stream_GetIdSources (Ref_KeyByStream c) = []"
| "Stream_GetIdSources (Ref_MergeStream c) = MergeStream_idSources c"
| "Stream_GetIdSources (Ref_SplitStream c) = []"
| "Stream_GetIdSources (Ref_CaseStream c) = []"
| "Stream_GetIdSources (Ref_WhenStream c) = []"
| "Stream_GetIdSources (Ref_SinkStream c) = []"
| "Stream_GetIdSources (Ref_CycleLinkStream c) = []"
| "Stream_GetIdSources (Ref_DelayStream c) = []"

fun Stream_GetXPos :: "StreamConfigRef \<Rightarrow> double" where
  "Stream_GetXPos (Ref_InputStream c) = InputStream_xPos c"
| "Stream_GetXPos (Ref_SubStream c) = SubStream_xPos c"
| "Stream_GetXPos (Ref_MapStream c) = MapStream_xPos c"
| "Stream_GetXPos (Ref_FilterStream c) = FilterStream_xPos c"
| "Stream_GetXPos (Ref_JoinStream c) = JoinStream_xPos c"
| "Stream_GetXPos (Ref_MultiJoinStream c) = MultiJoinStream_xPos c"
| "Stream_GetXPos (Ref_ProcessStream c) = ProcessStream_xPos c"
| "Stream_GetXPos (Ref_FlatMapStream c) = FlatMapStream_xPos c"
| "Stream_GetXPos (Ref_FlatMapIterableStream c) = FlatMapIterableStream_xPos c"
| "Stream_GetXPos (Ref_KeyByStream c) = KeyByStream_xPos c"
| "Stream_GetXPos (Ref_MergeStream c) = MergeStream_xPos c"
| "Stream_GetXPos (Ref_SplitStream c) = SplitStream_xPos c"
| "Stream_GetXPos (Ref_CaseStream c) = CaseStream_xPos c"
| "Stream_GetXPos (Ref_WhenStream c) = WhenStream_xPos c"
| "Stream_GetXPos (Ref_SinkStream c) = SinkStream_xPos c"
| "Stream_GetXPos (Ref_CycleLinkStream c) = CycleLinkStream_xPos c"
| "Stream_GetXPos (Ref_DelayStream c) = DelayStream_xPos c"

fun Stream_GetYPos :: "StreamConfigRef \<Rightarrow> double" where
  "Stream_GetYPos (Ref_InputStream c) = InputStream_yPos c"
| "Stream_GetYPos (Ref_SubStream c) = SubStream_yPos c"
| "Stream_GetYPos (Ref_MapStream c) = MapStream_yPos c"
| "Stream_GetYPos (Ref_FilterStream c) = FilterStream_yPos c"
| "Stream_GetYPos (Ref_JoinStream c) = JoinStream_yPos c"
| "Stream_GetYPos (Ref_MultiJoinStream c) = MultiJoinStream_yPos c"
| "Stream_GetYPos (Ref_ProcessStream c) = ProcessStream_yPos c"
| "Stream_GetYPos (Ref_FlatMapStream c) = FlatMapStream_yPos c"
| "Stream_GetYPos (Ref_FlatMapIterableStream c) = FlatMapIterableStream_yPos c"
| "Stream_GetYPos (Ref_KeyByStream c) = KeyByStream_yPos c"
| "Stream_GetYPos (Ref_MergeStream c) = MergeStream_yPos c"
| "Stream_GetYPos (Ref_SplitStream c) = SplitStream_yPos c"
| "Stream_GetYPos (Ref_CaseStream c) = CaseStream_yPos c"
| "Stream_GetYPos (Ref_WhenStream c) = WhenStream_yPos c"
| "Stream_GetYPos (Ref_SinkStream c) = SinkStream_yPos c"
| "Stream_GetYPos (Ref_CycleLinkStream c) = CycleLinkStream_yPos c"
| "Stream_GetYPos (Ref_DelayStream c) = DelayStream_yPos c"

subsection \<open>Parsers\<close>

definition Parse_InputStreamConfig :: "yaml_cpp \<Rightarrow> yaml \<Rightarrow> (config_error, InputStreamConfig) result" where
  "Parse_InputStreamConfig Y v =
     bindR (int_or Y 0 v ''id'') (\<lambda>id'.
     bindR (string_or Y '''' v ''name'') (\<lambda>name'.
     bindR (string_or Y '''' v ''pipeline'') (\<lambda>pipeline'.
     bindR (string_or Y '''' v ''component'') (\<lambda>component'.
     bindR (int_or Y 0 v ''idService'') (\<lambda>idService'.
     bindR (int_or Y 0 v ''idSource'') (\<lambda>idSource'.
     bindR (int_list_or Y [] v ''idSources'') (\<lambda>idSources'.
     bindR (double_or Y 0 v ''xPos'') (\<lambda>xPos'.
     bindR (double_or Y 0 v ''yPos'') (\<lambda>yPos'.
     bindR (string_or Y '''' v ''valueType'') (\<lambda>valueType'.
     bindR (int_or Y 0 v ''idEndpoint'') (\<lambda>idEndpoint'.
     bindR (ParseRemainingProperties Y v
       [''id'', ''name'', ''pipeline'', ''component'', ''idService'', ''idSource'', ''idSources'',
        ''xPos'', ''yPos'', ''valueType'', ''idEndpoint'']) (\<lambda>properties'.
       Inr \<lparr>InputStream_id = id', InputStream_name = name', InputStream_pipeline = pipeline',
         InputStream_component = component', InputStream_idService = idService',
         InputStream_idSource = idSource', InputStream_idSources = idSources',
         InputStream_xPos = xPos', InputStream_yPos = yPos', InputStream_valueType = valueType',
         InputStream_idEndpoint = idEndpoint', InputStream_properties = properties'\<rparr>))))))))))))"

definition Parse_SubStreamConfig :: "yaml_cpp \<Rightarrow> yaml \<Rightarrow> (config_error, SubStreamConfig) result" where
  "Parse_SubStreamConfig Y v =
     bindR (int_or Y 0 v ''id'') (\<lambda>id'.
     bindR (string_or Y '''' v ''name'') (\<lambda>name'.
     bindR (string_or Y '''' v ''pipeline'') (\<lambda>pipeline'.
     bindR (string_or Y '''' v ''component'') (\<lambda>component'.
     bindR (int_or Y 0 v ''idService'') (\<lambda>idService'.
     bindR (int_or Y 0 v ''idSource'') (\<lambda>idSource'.
     bindR (double_or Y 0 v ''xPos'') (\<lambda>xPos'.
     bindR (double_or Y 0 v ''yPos'') (\<lambda>yPos'.
     bindR (string_or Y '''' v ''valueType'') (\<lambda>valueType'.
     bindR (ParseRemainingProperties Y v
       [''id'', ''name'', ''pipeline'', ''component'', ''idService'', ''idSource'', ''xPos'',
        ''yPos'', ''valueType'']) (\<lambda>properties'.
       Inr \<lparr>SubStream_id = id', SubStream_name = name', SubStream_pipeline = pipeline',
         SubStream_component = component', SubStream_idService = idService',
         SubStream_idSource = idSource', SubStream_xPos = xPos', SubStream_yPos = yPos',
         SubStream_valueType = valueType', SubStream_properties = properties'\<rparr>))))))))))"

definition Parse_MapStreamConfig :: "yaml_cpp \<Rightarrow> yaml \<Rightarrow> (config_error, MapStreamConfig) result" where
  "Parse_MapStreamConfig Y v =
     bindR (int_or Y 0 v ''id'') (\<lambda>id'.
     bindR (string_or Y '''' v ''name'') (\<lambda>name'.
     bindR (string_or Y '''' v ''pipeline'') (\<lambda>pipeline'.
     bindR (string_or Y '''' v ''component'') (\<lambda>component'.
     bindR (int_or Y 0 v ''idService'') (\<lambda>idService'.
     bindR (int_or Y 0 v ''idSource'') (\<lambda>idSource'.
     bindR (double_or Y 0 v ''xPos'') (\<lambda>xPos'.
     bindR (double_or Y 0 v ''yPos'') (\<lambda>yPos'.
     bindR (string_or Y '''' v ''valueType'') (\<lambda>valueType'.
     bindR (ParseFunctionFields Y v) (\<lambda>function'.
     bindR (ParseRemainingProperties Y v
       [''id'', ''name'', ''pipeline'', ''component'', ''idService'', ''idSource'', ''xPos'',
        ''yPos'', ''valueType'', ''functionPackage'', ''functionName'', ''publicFunction'',
        ''functionDescription'', ''functionInitializerGroup'', ''functionModule'']) (\<lambda>properties'.
       Inr \<lparr>MapStream_id = id', MapStream_name = name', MapStream_pipeline = pipeline',
         MapStream_component = component', MapStream_idService = idService',
         MapStream_idSource = idSource', MapStream_xPos = xPos', MapStream_yPos = yPos',
         MapStream_valueType = valueType', MapStream_function = function',
         MapStream_properties = properties'\<rparr>)))))))))))"

definition Parse_FilterStreamConfig :: "yaml_cpp \<Rightarrow> yaml \<Rightarrow> (config_error, FilterStreamConfig) result" where
  "Parse_FilterStreamConfig Y v =
     bindR (int_or Y 0 v ''id'') (\<lambda>id'.
     bindR (string_or Y '''' v ''name'') (\<lambda>name'.
     bindR (string_or Y '''' v ''pipeline'') (\<lambda>pipeline'.
     bindR (string_or Y '''' v ''component'') (\<lambda>component'.
     bindR (int_or Y 0 v ''idService'') (\<lambda>idService'.
     bindR (int_or Y 0 v ''idSource'') (\<lambda>idSource'.
     bindR (double_or Y 0 v ''xPos'') (\<lambda>xPos'.
     bindR (double_or Y 0 v ''yPos'') (\<lambda>yPos'.
     bindR (ParseFunctionFields Y v) (\<lambda>function'.
     bindR (ParseRemainingProperties Y v
       [''id'', ''name'', ''pipeline'', ''component'', ''idService'', ''idSource'', ''xPos'',
        ''yPos'', ''functionPackage'', ''functionName'', ''publicFunction'', ''functionDescription'',
        ''functionInitializerGroup'', ''functionModule'']) (\<lambda>properties'.
       Inr \<lparr>FilterStream_id = id', FilterStream_name = name', FilterStream_pipeline = pipeline',
         FilterStream_component = component', FilterStream_idService = idService',
         FilterStream_idSource = idSource', FilterStream_xPos = xPos', FilterStream_yPos = yPos',
         FilterStream_function = function', FilterStream_properties = properties'\<rparr>))))))))))"

definition Parse_JoinStreamConfig :: "yaml_cpp \<Rightarrow> yaml \<Rightarrow> (config_error, JoinStreamConfig) result" where
  "Parse_JoinStreamConfig Y v =
     bindR (int_or Y 0 v ''id'') (\<lambda>id'.
     bindR (string_or Y '''' v ''name'') (\<lambda>name'.
     bindR (string_or Y '''' v ''pipeline'') (\<lambda>pipeline'.
     bindR (string_or Y '''' v ''component'') (\<lambda>component'.
     bindR (int_or Y 0 v ''idService'') (\<lambda>idService'.
     bindR (int_or Y 0 v ''idSource'') (\<lambda>idSource'.
     bindR (int_list_or Y [] v ''idSources'') (\<lambda>idSources'.
     bindR (double_or Y 0 v ''xPos'') (\<lambda>xPos'.
     bindR (double_or Y 0 v ''yPos'') (\<lambda>yPos'.
     bindR (string_or Y '''' v ''valueType'') (\<lambda>valueType'.
     bindR (field_or Y (Parse_JoinType Y) JoinType_kUndefined v ''joinType'') (\<lambda>joinType'.
     bindR (field_or Y (Parse_JoinStorageType Y) JoinStorageType_kUndefined v ''joinStorage'') (\<lambda>joinStorage'.
     bindR (int_or Y 0 v ''ttl'') (\<lambda>ttl'.
     bindR (bool_or Y False v ''renewTTL'') (\<lambda>renewTTL'.
     bindR (ParseFunctionFields Y v) (\<lambda>function'.
     bindR (ParseRemainingProperties Y v
       [''id'', ''name'', ''pipeline'', ''component'', ''idService'', ''idSource'', ''idSources'',
        ''xPos'', ''yPos'', ''valueType'', ''joinType'', ''joinStorage'', ''ttl'', ''renewTTL'',
        ''functionPackage'', ''functionName'', ''publicFunction'', ''functionDescription'',
        ''functionInitializerGroup'', ''functionModule'']) (\<lambda>properties'.
       Inr \<lparr>JoinStream_id = id', JoinStream_name = name', JoinStream_pipeline = pipeline',
         JoinStream_component = component', JoinStream_idService = idService',
         JoinStream_idSource = idSource', JoinStream_idSources = idSources', JoinStream_xPos = xPos',
         JoinStream_yPos = yPos', JoinStream_valueType = valueType', JoinStream_joinType = joinType',
         JoinStream_joinStorage = joinStorage', JoinStream_ttl = ttl', JoinStream_renewTTL = renewTTL',
         JoinStream_function = function', JoinStream_properties = properties'\<rparr>))))))))))))))))"

definition Parse_MultiJoinStreamConfig :: "yaml_cpp \<Rightarrow> yaml \<Rightarrow> (config_error, MultiJoinStreamConfig) result" where
  "Parse_MultiJoinStreamConfig Y v =
     bindR (int_or Y 0 v ''id'') (\<lambda>id'.
     bindR (string_or Y '''' v ''name'') (\<lambda>name'.
     bindR (string_or Y '''' v ''pipeline'') (\<lambda>pipeline'.
     bindR (string_or Y '''' v ''component'') (\<lambda>component'.
     bindR (int_or Y 0 v ''idService'') (\<lambda>idService'.
     bindR (int_or Y 0 v ''idSource'') (\<lambda>idSource'.
     bindR (int_list_or Y [] v ''idSources'') (\<lambda>idSources'.
     bindR (double_or Y 0 v ''xPos'') (\<lambda>xPos'.
     bindR (double_or Y 0 v ''yPos'') (\<lambda>yPos'.
     bindR (string_or Y '''' v ''valueType'') (\<lambda>valueType'.
     bindR (field_or Y (Parse_JoinStorageType Y) JoinStorageType_kUndefined v ''joinStorage'') (\<lambda>joinStorage'.
     bindR (int_or Y 0 v ''ttl'') (\<lambda>ttl'.
     bindR (bool_or Y False v ''renewTTL'') (\<lambda>renewTTL'.
     bindR (ParseFunctionFields Y v) (\<lambda>function'.
     bindR (ParseRemainingProperties Y v
       [''id'', ''name'', ''pipeline'', ''component'', ''idService'', ''idSource'', ''idSources'',
        ''xPos'', ''yPos'', ''valueType'', ''joinStorage'', ''ttl'', ''renewTTL'',
        ''functionPackage'', ''functionName'', ''publicFunction'', ''functionDescription'',
        ''functionInitializerGroup'', ''functionModule'']) (\<lambda>properties'.
       Inr \<lparr>MultiJoinStream_id = id', MultiJoinStream_name = name', MultiJoinStream_pipeline = pipeline',
         MultiJoinStream_component = component', MultiJoinStream_idService = idService',
         MultiJoinStream_idSource = idSource', MultiJoinStream_idSources = idSources',
         MultiJoinStream_xPos = xPos', MultiJoinStream_yPos = yPos',
         MultiJoinStream_valueType = valueType', MultiJoinStream_joinStorage = joinStorage',
         MultiJoinStream_ttl = ttl', MultiJoinStream_renewTTL = renewTTL',
         MultiJoinStream_function = function', MultiJoinStream_properties = properties'\<rparr>)))))))))))))))"

definition Parse_ProcessStreamConfig :: "yaml_cpp \<Rightarrow> yaml \<Rightarrow> (config_error, ProcessStreamConfig) result" where
  "Parse_ProcessStreamConfig Y v =
     bindR (int_or Y 0 v ''id'') (\<lambda>id'.
     bindR (string_or Y '''' v ''name'') (\<lambda>name'.
     bindR (string_or Y '''' v ''pipeline'') (\<lambda>pipeline'.
     bindR (string_or Y '''' v ''component'') (\<lambda>component'.
     bindR (int_or Y 0 v ''idService'') (\<lambda>idService'.
     bindR (int_or Y 0 v ''idSource'') (\<lambda>idSource'.
     bindR (double_or Y 0 v ''xPos'') (\<lambda>xPos'.
     bindR (double_or Y 0 v ''yPos'') (\<lambda>yPos'.
     bindR (field_or Y (Parse_ProcessPattern Y) ProcessPattern_kUndefined v ''pattern'') (\<lambda>pattern'.
     bindR (ParseFunctionFields Y v) (\<lambda>function'.
     bindR (ParseRemainingProperties Y v
       [''id'', ''name'', ''pipeline'', ''component'', ''idService'', ''idSource'', ''xPos'',
        ''yPos'', ''pattern'', ''functionPackage'', ''functionName'', ''publicFunction'',
        ''functionDescription'', ''functionInitializerGroup'', ''functionModule'']) (\<lambda>properties'.
       Inr \<lparr>ProcessStream_id = id', ProcessStream_name = name', ProcessStream_pipeline = pipeline',
         ProcessStream_component = component', ProcessStream_idService = idService',
         ProcessStream_idSource = idSource', ProcessStream_xPos = xPos', ProcessStream_yPos = yPos',
         ProcessStream_pattern = pattern', ProcessStream_function = function',
         ProcessStream_properties = properties'\<rparr>)))))))))))"

definition Parse_FlatMapStreamConfig :: "yaml_cpp \<Rightarrow> yaml \<Rightarrow> (config_error, FlatMapStreamConfig) result" where
  "Parse_FlatMapStreamConfig Y v =
     bindR (int_or Y 0 v ''id'') (\<lambda>id'.
     bindR (string_or Y '''' v ''name'') (\<lambda>name'.
     bindR (string_or Y '''' v ''pipeline'') (\<lambda>pipeline'.
     bindR (string_or Y '''' v ''component'') (\<lambda>component'.
     bindR (int_or Y 0 v ''idService'') (\<lambda>idService'.
     bindR (int_or Y 0 v ''idSource'') (\<lambda>idSource'.
     bindR (double_or Y 0 v ''xPos'') (\<lambda>xPos'.
     bindR (double_or Y 0 v ''yPos'') (\<lambda>yPos'.
     bindR (string_or Y '''' v ''valueType'') (\<lambda>valueType'.
     bindR (ParseFunctionFields Y v) (\<lambda>function'.
     bindR (ParseRemainingProperties Y v
       [''id'', ''name'', ''pipeline'', ''component'', ''idService'', ''idSource'', ''xPos'',
        ''yPos'', ''valueType'', ''functionPackage'', ''functionName'', ''publicFunction'',
        ''functionDescription'', ''functionInitializerGroup'', ''functionModule'']) (\<lambda>properties'.
       Inr \<lparr>FlatMapStream_id = id', FlatMapStream_name = name', FlatMapStream_pipeline = pipeline',
         FlatMapStream_component = component', FlatMapStream_idService = idService',
         FlatMapStream_idSource = idSource', FlatMapStream_xPos = xPos', FlatMapStream_yPos = yPos',
         FlatMapStream_valueType = valueType', FlatMapStream_function = function',
         FlatMapStream_properties = properties'\<rparr>)))))))))))"

definition Parse_FlatMapIterableStreamConfig :: "yaml_cpp \<Rightarrow> yaml \<Rightarrow> (config_error, FlatMapIterableStreamConfig) result" where
  "Parse_FlatMapIterableStreamConfig Y v =
     bindR (int_or Y 0 v ''id'') (\<lambda>id'.
     bindR (string_or Y '''' v ''name'') (\<lambda>name'.
     bindR (string_or Y '''' v ''pipeline'') (\<lambda>pipeline'.
     bindR (string_or Y '''' v ''component'') (\<lambda>component'.
     bindR (int_or Y 0 v ''idService'') (\<lambda>idService'.
     bindR (int_or Y 0 v ''idSource'') (\<lambda>idSource'.
     bindR (double_or Y 0 v ''xPos'') (\<lambda>xPos'.
     bindR (double_or Y 0 v ''yPos'') (\<lambda>yPos'.
     bindR (string_or Y '''' v ''valueType'') (\<lambda>valueType'.
     bindR (ParseRemainingProperties Y v
       [''id'', ''name'', ''pipeline'', ''component'', ''idService'', ''idSource'', ''xPos'',
        ''yPos'', ''valueType'']) (\<lambda>properties'.
       Inr \<lparr>FlatMapIterableStream_id = id', FlatMapIterableStream_name = name',
         FlatMapIterableStream_pipeline = pipeline', FlatMapIterableStream_component = component',
         FlatMapIterableStream_idService = idService', FlatMapIterableStream_idSource = idSource',
         FlatMapIterableStream_xPos = xPos', FlatMapIterableStream_yPos = yPos',
         FlatMapIterableStream_valueType = valueType', FlatMapIterableStream_properties = properties'\<rparr>))))))))))"

definition Parse_KeyByStreamConfig :: "yaml_cpp \<Rightarrow> yaml \<Rightarrow> (config_error, KeyByStreamConfig) result" where
  "Parse_KeyByStreamConfig Y v =
     bindR (int_or Y 0 v ''id'') (\<lambda>id'.
     bindR (string_or Y '''' v ''name'') (\<lambda>name'.
     bindR (string_or Y '''' v ''pipeline'') (\<lambda>pipeline'.
     bindR (string_or Y '''' v ''component'') (\<lambda>component'.
     bindR (int_or Y 0 v ''idService'') (\<lambda>idService'.
     bindR (int_or Y 0 v ''idSource'') (\<lambda>idSource'.
     bindR (double_or Y 0 v ''xPos'') (\<lambda>xPos'.
     bindR (double_or Y 0 v ''yPos'') (\<lambda>yPos'.
     bindR (string_or Y '''' v ''keyType'') (\<lambda>keyType'.
     bindR (string_or Y '''' v ''valueType'') (\<lambda>valueType'.
     bindR (ParseFunctionFields Y v) (\<lambda>function'.
     bindR (ParseRemainingProperties Y v
       [''id'', ''name'', ''pipeline'', ''component'', ''idService'', ''idSource'', ''xPos'',
        ''yPos'', ''keyType'', ''valueType'', ''functionPackage'', ''functionName'',
        ''publicFunction'', ''functionDescription'', ''functionInitializerGroup'', ''functionModule'']) (\<lambda>properties'.
       Inr \<lparr>KeyByStream_id = id', KeyByStream_name = name', KeyByStream_pipeline = pipeline',
         KeyByStream_component = component', KeyByStream_idService = idService',
         KeyByStream_idSource = idSource', KeyByStream_xPos = xPos', KeyByStream_yPos = yPos',
         KeyByStream_keyType = keyType', KeyByStream_valueType = valueType',
         KeyByStream_function = function', KeyByStream_properties = properties'\<rparr>))))))))))))"

definition Parse_MergeStreamConfig :: "yaml_cpp \<Rightarrow> yaml \<Rightarrow> (config_error, MergeStreamConfig) result" where
  "Parse_MergeStreamConfig Y v =
     bindR (int_or Y 0 v ''id'') (\<lambda>id'.
     bindR (string_or Y '''' v ''name'') (\<lambda>name'.
     bindR (string_or Y '''' v ''pipeline'') (\<lambda>pipeline'.
     bindR (string_or Y '''' v ''component'') (\<lambda>component'.
     bindR (int_or Y 0 v ''idService'') (\<lambda>idService'.
     bindR (int_list_or Y [] v ''idSources'') (\<lambda>idSources'.
     bindR (double_or Y 0 v ''xPos'') (\<lambda>xPos'.
     bindR (double_or Y 0 v ''yPos'') (\<lambda>yPos'.
     bindR (ParseRemainingProperties Y v
       [''id'', ''name'', ''pipeline'', ''component'', ''idService'', ''idSources'', ''xPos'',
        ''yPos'']) (\<lambda>properties'.
       Inr \<lparr>MergeStream_id = id', MergeStream_name = name', MergeStream_pipeline = pipeline',
         MergeStream_component = component', MergeStream_idService = idService',
         MergeStream_idSources = idSources', MergeStream_xPos = xPos', MergeStream_yPos = yPos',
         MergeStream_properties = properties'\<rparr>)))))))))"

definition Parse_SplitStreamConfig :: "yaml_cpp \<Rightarrow> yaml \<Rightarrow> (config_error, SplitStreamConfig) result" where
  "Parse_SplitStreamConfig Y v =
     bindR (int_or Y 0 v ''id'') (\<lambda>id'.
     bindR (string_or Y '''' v ''name'') (\<lambda>name'.
     bindR (string_or Y '''' v ''pipeline'') (\<lambda>pipeline'.
     bindR (string_or Y '''' v ''component'') (\<lambda>component'.
     bindR (int_or Y 0 v ''idService'') (\<lambda>idService'.
     bindR (int_or Y 0 v ''idSource'') (\<lambda>idSource'.
     bindR (double_or Y 0 v ''xPos'') (\<lambda>xPos'.
     bindR (double_or Y 0 v ''yPos'') (\<lambda>yPos'.
     bindR (ParseRemainingProperties Y v
       [''id'', ''name'', ''pipeline'', ''component'', ''idService'', ''idSource'', ''xPos'', ''yPos'']) (\<lambda>properties'.
       Inr \<lparr>SplitStream_id = id', SplitStream_name = name', SplitStream_pipeline = pipeline',
         SplitStream_component = component', SplitStream_idService = idService',
         SplitStream_idSource = idSource', SplitStream_xPos = xPos', SplitStream_yPos = yPos',
         SplitStream_properties = properties'\<rparr>)))))))))"

definition Parse_CaseStreamConfig :: "yaml_cpp \<Rightarrow> yaml \<Rightarrow> (config_error, CaseStreamConfig) result" where
  "Parse_CaseStreamConfig Y v =
     bindR (int_or Y 0 v ''id'') (\<lambda>id'.
     bindR (string_or Y '''' v ''name'') (\<lambda>name'.
     bindR (string_or Y '''' v ''pipeline'') (\<lambda>pipeline'.
     bindR (string_or Y '''' v ''component'') (\<lambda>component'.
     bindR (int_or Y 0 v ''idService'') (\<lambda>idService'.
     bindR (int_or Y 0 v ''idSource'') (\<lambda>idSource'.
     bindR (double_or Y 0 v ''xPos'') (\<lambda>xPos'.
     bindR (double_or Y 0 v ''yPos'') (\<lambda>yPos'.
     bindR (ParseFunctionFields Y v) (\<lambda>function'.
     bindR (ParseRemainingProperties Y v
       [''id'', ''name'', ''pipeline'', ''component'', ''idService'', ''idSource'', ''xPos'',
        ''yPos'', ''functionPackage'', ''functionName'', ''publicFunction'', ''functionDescription'',
        ''functionInitializerGroup'', ''functionModule'']) (\<lambda>properties'.
       Inr \<lparr>CaseStream_id = id', CaseStream_name = name', CaseStream_pipeline = pipeline',
         CaseStream_component = component', CaseStream_idService = idService',
         CaseStream_idSource = idSource', CaseStream_xPos = xPos', CaseStream_yPos = yPos',
         CaseStream_function = function', CaseStream_properties = properties'\<rparr>))))))))))"

definition Parse_WhenStreamConfig :: "yaml_cpp \<Rightarrow> yaml \<Rightarrow> (config_error, WhenStreamConfig) result" where
  "Parse_WhenStreamConfig Y v =
     bindR (int_or Y 0 v ''id'') (\<lambda>id'.
     bindR (string_or Y '''' v ''name'') (\<lambda>name'.
     bindR (string_or Y '''' v ''pipeline'') (\<lambda>pipeline'.
     bindR (string_or Y '''' v ''component'') (\<lambda>component'.
     bindR (int_or Y 0 v ''idService'') (\<lambda>idService'.
     bindR (int_or Y 0 v ''idSource'') (\<lambda>idSource'.
     bindR (double_or Y 0 v ''xPos'') (\<lambda>xPos'.
     bindR (double_or Y 0 v ''yPos'') (\<lambda>yPos'.
     bindR (string_or Y '''' v ''valueType'') (\<lambda>valueType'.
     bindR (ParseRemainingProperties Y v
       [''id'', ''name'', ''pipeline'', ''component'', ''idService'', ''idSource'', ''xPos'',
        ''yPos'', ''valueType'']) (\<lambda>properties'.
       Inr \<lparr>WhenStream_id = id', WhenStream_name = name', WhenStream_pipeline = pipeline',
         WhenStream_component = component', WhenStream_idService = idService',
         WhenStream_idSource = idSource', WhenStream_xPos = xPos', WhenStream_yPos = yPos',
         WhenStream_valueType = valueType', WhenStream_properties = properties'\<rparr>))))))))))"

definition Parse_SinkStreamConfig :: "yaml_cpp \<Rightarrow> yaml \<Rightarrow> (config_error, SinkStreamConfig) result" where
  "Parse_SinkStreamConfig Y v =
     bindR (int_or Y 0 v ''id'') (\<lambda>id'.
     bindR (string_or Y '''' v ''name'') (\<lambda>name'.
     bindR (string_or Y '''' v ''pipeline'') (\<lambda>pipeline'.
     bindR (string_or Y '''' v ''component'') (\<lambda>component'.
     bindR (int_or Y 0 v ''idService'') (\<lambda>idService'.
     bindR (int_or Y 0 v ''idSource'') (\<lambda>idSource'.
     bindR (double_or Y 0 v ''xPos'') (\<lambda>xPos'.
     bindR (double_or Y 0 v ''yPos'') (\<lambda>yPos'.
     bindR (int_or Y 0 v ''idEndpoint'') (\<lambda>idEndpoint'.
     bindR (string_or Y '''' v ''valueType'') (\<lambda>valueType'.
     bindR (ParseRemainingProperties Y v
       [''id'', ''name'', ''pipeline'', ''component'', ''idService'', ''idSource'', ''xPos'',
        ''yPos'', ''idEndpoint'', ''valueType'']) (\<lambda>properties'.
       Inr \<lparr>SinkStream_id = id', SinkStream_name = name', SinkStream_pipeline = pipeline',
         SinkStream_component = component', SinkStream_idService = idService',
         SinkStream_idSource = idSource', SinkStream_xPos = xPos', SinkStream_yPos = yPos',
         SinkStream_idEndpoint = idEndpoint', SinkStream_valueType = valueType',
         SinkStream_properties = properties'\<rparr>)))))))))))"

definition Parse_CycleLinkStreamConfig :: "yaml_cpp \<Rightarrow> yaml \<Rightarrow> (config_error, CycleLinkStreamConfig) result" where
  "Parse_CycleLinkStreamConfig Y v =
     bindR (int_or Y 0 v ''id'') (\<lambda>id'.
     bindR (string_or Y '''' v ''name'') (\<lambda>name'.
     bindR (string_or Y '''' v ''pipeline'') (\<lambda>pipeline'.
     bindR (string_or Y '''' v ''component'') (\<lambda>component'.
     bindR (int_or Y 0 v ''idService'') (\<lambda>idService'.
     bindR (int_or Y 0 v ''idSource'') (\<lambda>idSource'.
     bindR (double_or Y 0 v ''xPos'') (\<lambda>xPos'.
     bindR (double_or Y 0 v ''yPos'') (\<lambda>yPos'.
     bindR (ParseRemainingProperties Y v
       [''id'', ''name'', ''pipeline'', ''component'', ''idService'', ''idSource'', ''xPos'', ''yPos'']) (\<lambda>properties'.
       Inr \<lparr>CycleLinkStream_id = id', CycleLinkStream_name = name', CycleLinkStream_pipeline = pipeline',
         CycleLinkStream_component = component', CycleLinkStream_idService = idService',
         CycleLinkStream_idSource = idSource', CycleLinkStream_xPos = xPos',
         CycleLinkStream_yPos = yPos', CycleLinkStream_properties = properties'\<rparr>)))))))))"

definition Parse_DelayStreamConfig :: "yaml_cpp \<Rightarrow> yaml \<Rightarrow> (config_error, DelayStreamConfig) result" where
  "Parse_DelayStreamConfig Y v =
     bindR (int_or Y 0 v ''id'') (\<lambda>id'.
     bindR (string_or Y '''' v ''name'') (\<lambda>name'.
     bindR (string_or Y '''' v ''pipeline'') (\<lambda>pipeline'.
     bindR (string_or Y '''' v ''component'') (\<lambda>component'.
     bindR (int_or Y 0 v ''idService'') (\<lambda>idService'.
     bindR (int_or Y 0 v ''idSource'') (\<lambda>idSource'.
     bindR (double_or Y 0 v ''xPos'') (\<lambda>xPos'.
     bindR (double_or Y 0 v ''yPos'') (\<lambda>yPos'.
     bindR (int_or Y 0 v ''duration'') (\<lambda>duration'.
     bindR (ParseFunctionFields Y v) (\<lambda>function'.
     bindR (ParseRemainingProperties Y v
       [''id'', ''name'', ''pipeline'', ''component'', ''idService'', ''idSource'', ''xPos'',
        ''yPos'', ''duration'', ''functionPackage'', ''functionName'', ''publicFunction'',
        ''functionDescription'', ''functionInitializerGroup'', ''functionModule'']) (\<lambda>properties'.
       Inr \<lparr>DelayStream_id = id', DelayStream_name = name', DelayStream_pipeline = pipeline',
         DelayStream_component = component', DelayStream_idService = idService',
         DelayStream_idSource = idSource', DelayStream_xPos = xPos', DelayStream_yPos = yPos',
         DelayStream_duration = duration', DelayStream_function = function',
         DelayStream_properties = properties'\<rparr>)))))))))))"

subsection \<open>Documents\<close>

definition document_InputStreamConfig :: "yaml_printer \<Rightarrow> InputStreamConfig \<Rightarrow> (yaml \<times> yaml) list" where
  "document_InputStreamConfig P c =
    [(YScalar ''id'', yp_int P (InputStream_id c)),
     (YScalar ''name'', YScalar (InputStream_name c)),
     (YScalar ''pipeline'', YScalar (InputStream_pipeline c)),
     (YScalar ''component'', YScalar (InputStream_component c)),
     (YScalar ''idService'', yp_int P (InputStream_idService c)),
     (YScalar ''idSource'', yp_int P (InputStream_idSource c)),
     (YScalar ''idSources'', yp_int_list P (InputStream_idSources c)),
     (YScalar ''xPos'', yp_double P (InputStream_xPos c)),
     (YScalar ''yPos'', yp_double P (InputStream_yPos c)),
     (YScalar ''valueType'', YScalar (InputStream_valueType c)),
     (YScalar ''idEndpoint'', yp_int P (InputStream_idEndpoint c))]"

definition document_SubStreamConfig :: "yaml_printer \<Rightarrow> SubStreamConfig \<Rightarrow> (yaml \<times> yaml) list" where
  "document_SubStreamConfig P c =
    [(YScalar ''id'', yp_int P (SubStream_id c)), (YScalar ''name'', YScalar (SubStream_name c)),
     (YScalar ''pipeline'', YScalar (SubStream_pipeline c)),
     (YScalar ''component'', YScalar (SubStream_component c)),
     (YScalar ''idService'', yp_int P (SubStream_idService c)),
     (YScalar ''idSource'', yp_int P (SubStream_idSource c)),
     (YScalar ''xPos'', yp_double P (SubStream_xPos c)),
     (YScalar ''yPos'', yp_double P (SubStream_yPos c)),
     (YScalar ''valueType'', YScalar (SubStream_valueType c))]"

definition document_MapStreamConfig :: "yaml_printer \<Rightarrow> MapStreamConfig \<Rightarrow> (yaml \<times> yaml) list" where
  "document_MapStreamConfig P c =
    [(YScalar ''id'', yp_int P (MapStream_id c)), (YScalar ''name'', YScalar (MapStream_name c)),
     (YScalar ''pipeline'', YScalar (MapStream_pipeline c)),
     (YScalar ''component'', YScalar (MapStream_component c)),
     (YScalar ''idService'', yp_int P (MapStream_idService c)),
     (YScalar ''idSource'', yp_int P (MapStream_idSource c)),
     (YScalar ''xPos'', yp_double P (MapStream_xPos c)),
     (YScalar ''yPos'', yp_double P (MapStream_yPos c)),
     (YScalar ''valueType'', YScalar (MapStream_valueType c))] @ document_FunctionFields P (MapStream_function c)"

definition document_FilterStreamConfig :: "yaml_printer \<Rightarrow> FilterStreamConfig \<Rightarrow> (yaml \<times> yaml) list" where
  "document_FilterStreamConfig P c =
    [(YScalar ''id'', yp_int P (FilterStream_id c)),
     (YScalar ''name'', YScalar (FilterStream_name c)),
     (YScalar ''pipeline'', YScalar (FilterStream_pipeline c)),
     (YScalar ''component'', YScalar (FilterStream_component c)),
     (YScalar ''idService'', yp_int P (FilterStream_idService c)),
     (YScalar ''idSource'', yp_int P (FilterStream_idSource c)),
     (YScalar ''xPos'', yp_double P (FilterStream_xPos c)),
     (YScalar ''yPos'', yp_double P (FilterStream_yPos c))] @ document_FunctionFields P (FilterStream_function c)"

definition document_JoinStreamConfig :: "yaml_printer \<Rightarrow> JoinStreamConfig \<Rightarrow> (yaml \<times> yaml) list" where
  "document_JoinStreamConfig P c =
    [(YScalar ''id'', yp_int P (JoinStream_id c)), (YScalar ''name'', YScalar (JoinStream_name c)),
     (YScalar ''pipeline'', YScalar (JoinStream_pipeline c)),
     (YScalar ''component'', YScalar (JoinStream_component c)),
     (YScalar ''idService'', yp_int P (JoinStream_idService c)),
     (YScalar ''idSource'', yp_int P (JoinStream_idSource c)),
     (YScalar ''idSources'', yp_int_list P (JoinStream_idSources c)),
     (YScalar ''xPos'', yp_double P (JoinStream_xPos c)),
     (YScalar ''yPos'', yp_double P (JoinStream_yPos c)),
     (YScalar ''valueType'', YScalar (JoinStream_valueType c)),
     (YScalar ''joinType'', YScalar (spelling kJoinTypeMap (JoinStream_joinType c))),
     (YScalar ''joinStorage'', YScalar (spelling kJoinStorageTypeMap (JoinStream_joinStorage c))),
     (YScalar ''ttl'', yp_int P (JoinStream_ttl c)),
     (YScalar ''renewTTL'', yp_bool P (JoinStream_renewTTL c))] @ document_FunctionFields P (JoinStream_function c)"

definition document_MultiJoinStreamConfig :: "yaml_printer \<Rightarrow> MultiJoinStreamConfig \<Rightarrow> (yaml \<times> yaml) list" where
  "document_MultiJoinStreamConfig P c =
    [(YScalar ''id'', yp_int P (MultiJoinStream_id c)),
     (YScalar ''name'', YScalar (MultiJoinStream_name c)),
     (YScalar ''pipeline'', YScalar (MultiJoinStream_pipeline c)),
     (YScalar ''component'', YScalar (MultiJoinStream_component c)),
     (YScalar ''idService'', yp_int P (MultiJoinStream_idService c)),
     (YScalar ''idSource'', yp_int P (MultiJoinStream_idSource c)),
     (YScalar ''idSources'', yp_int_list P (MultiJoinStream_idSources c)),
     (YScalar ''xPos'', yp_double P (MultiJoinStream_xPos c)),
     (YScalar ''yPos'', yp_double P (MultiJoinStream_yPos c)),
     (YScalar ''valueType'', YScalar (MultiJoinStream_valueType c)),
     (YScalar ''joinStorage'', YScalar (spelling kJoinStorageTypeMap (MultiJoinStream_joinStorage c))),
     (YScalar ''ttl'', yp_int P (MultiJoinStream_ttl c)),
     (YScalar ''renewTTL'', yp_bool P (MultiJoinStream_renewTTL c))] @ document_FunctionFields P (MultiJoinStream_function c)"

definition document_ProcessStreamConfig :: "yaml_printer \<Rightarrow> ProcessStreamConfig \<Rightarrow> (yaml \<times> yaml) list" where
  "document_ProcessStreamConfig P c =
    [(YScalar ''id'', yp_int P (ProcessStream_id c)),
     (YScalar ''name'', YScalar (ProcessStream_name c)),
     (YScalar ''pipeline'', YScalar (ProcessStream_pipeline c)),
     (YScalar ''component'', YScalar (ProcessStream_component c)),
     (YScalar ''idService'', yp_int P (ProcessStream_idService c)),
     (YScalar ''idSource'', yp_int P (ProcessStream_idSource c)),
     (YScalar ''xPos'', yp_double P (ProcessStream_xPos c)),
     (YScalar ''yPos'', yp_double P (ProcessStream_yPos c)),
     (YScalar ''pattern'', YScalar (spelling kProcessPatternMap (ProcessStream_pattern c)))] @ document_FunctionFields P (ProcessStream_function c)"

definition document_FlatMapStreamConfig :: "yaml_printer \<Rightarrow> FlatMapStreamConfig \<Rightarrow> (yaml \<times> yaml) list" where
  "document_FlatMapStreamConfig P c =
    [(YScalar ''id'', yp_int P (FlatMapStream_id c)),
     (YScalar ''name'', YScalar (FlatMapStream_name c)),
     (YScalar ''pipeline'', YScalar (FlatMapStream_pipeline c)),
     (YScalar ''component'', YScalar (FlatMapStream_component c)),
     (YScalar ''idService'', yp_int P (FlatMapStream_idService c)),
     (YScalar ''idSource'', yp_int P (FlatMapStream_idSource c)),
     (YScalar ''xPos'', yp_double P (FlatMapStream_xPos c)),
     (YScalar ''yPos'', yp_double P (FlatMapStream_yPos c)),
     (YScalar ''valueType'', YScalar (FlatMapStream_valueType c))] @ document_FunctionFields P (FlatMapStream_function c)"

definition document_FlatMapIterableStreamConfig :: "yaml_printer \<Rightarrow> FlatMapIterableStreamConfig \<Rightarrow> (yaml \<times> yaml) list" where
  "document_FlatMapIterableStreamConfig P c =
    [(YScalar ''id'', yp_int P (FlatMapIterableStream_id c)),
     (YScalar ''name'', YScalar (FlatMapIterableStream_name c)),
     (YScalar ''pipeline'', YScalar (FlatMapIterableStream_pipeline c)),
     (YScalar ''component'', YScalar (FlatMapIterableStream_component c)),
     (YScalar ''idService'', yp_int P (FlatMapIterableStream_idService c)),
     (YScalar ''idSource'', yp_int P (FlatMapIterableStream_idSource c)),
     (YScalar ''xPos'', yp_double P (FlatMapIterableStream_xPos c)),
     (YScalar ''yPos'', yp_double P (FlatMapIterableStream_yPos c)),
     (YScalar ''valueType'', YScalar (FlatMapIterableStream_valueType c))]"

definition document_KeyByStreamConfig :: "yaml_printer \<Rightarrow> KeyByStreamConfig \<Rightarrow> (yaml \<times> yaml) list" where
  "document_KeyByStreamConfig P c =
    [(YScalar ''id'', yp_int P (KeyByStream_id c)),
     (YScalar ''name'', YScalar (KeyByStream_name c)),
     (YScalar ''pipeline'', YScalar (KeyByStream_pipeline c)),
     (YScalar ''component'', YScalar (KeyByStream_component c)),
     (YScalar ''idService'', yp_int P (KeyByStream_idService c)),
     (YScalar ''idSource'', yp_int P (KeyByStream_idSource c)),
     (YScalar ''xPos'', yp_double P (KeyByStream_xPos c)),
     (YScalar ''yPos'', yp_double P (KeyByStream_yPos c)),
     (YScalar ''keyType'', YScalar (KeyByStream_keyType c)),
     (YScalar ''valueType'', YScalar (KeyByStream_valueType c))] @ document_FunctionFields P (KeyByStream_function c)"

definition document_MergeStreamConfig :: "yaml_printer \<Rightarrow> MergeStreamConfig \<Rightarrow> (yaml \<times> yaml) list" where
  "document_MergeStreamConfig P c =
    [(YScalar ''id'', yp_int P (MergeStream_id c)),
     (YScalar ''name'', YScalar (MergeStream_name c)),
     (YScalar ''pipeline'', YScalar (MergeStream_pipeline c)),
     (YScalar ''component'', YScalar (MergeStream_component c)),
     (YScalar ''idService'', yp_int P (MergeStream_idService c)),
     (YScalar ''idSources'', yp_int_list P (MergeStream_idSources c)),
     (YScalar ''xPos'', yp_double P (MergeStream_xPos c)),
     (YScalar ''yPos'', yp_double P (MergeStream_yPos c))]"

definition document_SplitStreamConfig :: "yaml_printer \<Rightarrow> SplitStreamConfig \<Rightarrow> (yaml \<times> yaml) list" where
  "document_SplitStreamConfig P c =
    [(YScalar ''id'', yp_int P (SplitStream_id c)),
     (YScalar ''name'', YScalar (SplitStream_name c)),
     (YScalar ''pipeline'', YScalar (SplitStream_pipeline c)),
     (YScalar ''component'', YScalar (SplitStream_component c)),
     (YScalar ''idService'', yp_int P (SplitStream_idService c)),
     (YScalar ''idSource'', yp_int P (SplitStream_idSource c)),
     (YScalar ''xPos'', yp_double P (SplitStream_xPos c)),
     (YScalar ''yPos'', yp_double P (SplitStream_yPos c))]"

definition document_CaseStreamConfig :: "yaml_printer \<Rightarrow> CaseStreamConfig \<Rightarrow> (yaml \<times> yaml) list" where
  "document_CaseStreamConfig P c =
    [(YScalar ''id'', yp_int P (CaseStream_id c)), (YScalar ''name'', YScalar (CaseStream_name c)),
     (YScalar ''pipeline'', YScalar (CaseStream_pipeline c)),
     (YScalar ''component'', YScalar (CaseStream_component c)),
     (YScalar ''idService'', yp_int P (CaseStream_idService c)),
     (YScalar ''idSource'', yp_int P (CaseStream_idSource c)),
     (YScalar ''xPos'', yp_double P (CaseStream_xPos c)),
     (YScalar ''yPos'', yp_double P (CaseStream_yPos c))] @ document_FunctionFields P (CaseStream_function c)"

definition document_WhenStreamConfig :: "yaml_printer \<Rightarrow> WhenStreamConfig \<Rightarrow> (yaml \<times> yaml) list" where
  "document_WhenStreamConfig P c =
    [(YScalar ''id'', yp_int P (WhenStream_id c)), (YScalar ''name'', YScalar (WhenStream_name c)),
     (YScalar ''pipeline'', YScalar (WhenStream_pipeline c)),
     (YScalar ''component'', YScalar (WhenStream_component c)),
     (YScalar ''idService'', yp_int P (WhenStream_idService c)),
     (YScalar ''idSource'', yp_int P (WhenStream_idSource c)),
     (YScalar ''xPos'', yp_double P (WhenStream_xPos c)),
     (YScalar ''yPos'', yp_double P (WhenStream_yPos c)),
     (YScalar ''valueType'', YScalar (WhenStream_valueType c))]"

definition document_SinkStreamConfig :: "yaml_printer \<Rightarrow> SinkStreamConfig \<Rightarrow> (yaml \<times> yaml) list" where
  "document_SinkStreamConfig P c =
    [(YScalar ''id'', yp_int P (SinkStream_id c)), (YScalar ''name'', YScalar (SinkStream_name c)),
     (YScalar ''pipeline'', YScalar (SinkStream_pipeline c)),
     (YScalar ''component'', YScalar (SinkStream_component c)),
     (YScalar ''idService'', yp_int P (SinkStream_idService c)),
     (YScalar ''idSource'', yp_int P (SinkStream_idSource c)),
     (YScalar ''xPos'', yp_double P (SinkStream_xPos c)),
     (YScalar ''yPos'', yp_double P (SinkStream_yPos c)),
     (YScalar ''idEndpoint'', yp_int P (SinkStream_idEndpoint c)),
     (YScalar ''valueType'', YScalar (SinkStream_valueType c))]"

definition document_CycleLinkStreamConfig :: "yaml_printer \<Rightarrow> CycleLinkStreamConfig \<Rightarrow> (yaml \<times> yaml) list" where
  "document_CycleLinkStreamConfig P c =
    [(YScalar ''id'', yp_int P (CycleLinkStream_id c)),
     (YScalar ''name'', YScalar (CycleLinkStream_name c)),
     (YScalar ''pipeline'', YScalar (CycleLinkStream_pipeline c)),
     (YScalar ''component'', YScalar (CycleLinkStream_component c)),
     (YScalar ''idService'', yp_int P (CycleLinkStream_idService c)),
     (YScalar ''idSource'', yp_int P (CycleLinkStream_idSource c)),
     (YScalar ''xPos'', yp_double P (CycleLinkStream_xPos c)),
     (YScalar ''yPos'', yp_double P (CycleLinkStream_yPos c))]"

definition document_DelayStreamConfig :: "yaml_printer \<Rightarrow> DelayStreamConfig \<Rightarrow> (yaml \<times> yaml) list" where
  "document_DelayStreamConfig P c =
    [(YScalar ''id'', yp_int P (DelayStream_id c)),
     (YScalar ''name'', YScalar (DelayStream_name c)),
     (YScalar ''pipeline'', YScalar (DelayStream_pipeline c)),
     (YScalar ''component'', YScalar (DelayStream_component c)),
     (YScalar ''idService'', yp_int P (DelayStream_idService c)),
     (YScalar ''idSource'', yp_int P (DelayStream_idSource c)),
     (YScalar ''xPos'', yp_double P (DelayStream_xPos c)),
     (YScalar ''yPos'', yp_double P (DelayStream_yPos c)),
     (YScalar ''duration'', yp_int P (DelayStream_duration c))] @ document_FunctionFields P (DelayStream_function c)"

text \<open>The document of a configuration, its other properties, and the parser of a kind of stream.\<close>

fun document_stream :: "yaml_printer \<Rightarrow> StreamConfigRef \<Rightarrow> (yaml \<times> yaml) list" where
  "document_stream P (Ref_InputStream c) = document_InputStreamConfig P c"
| "document_stream P (Ref_SubStream c) = document_SubStreamConfig P c"
| "document_stream P (Ref_MapStream c) = document_MapStreamConfig P c"
| "document_stream P (Ref_FilterStream c) = document_FilterStreamConfig P c"
| "document_stream P (Ref_JoinStream c) = document_JoinStreamConfig P c"
| "document_stream P (Ref_MultiJoinStream c) = document_MultiJoinStreamConfig P c"
| "document_stream P (Ref_ProcessStream c) = document_ProcessStreamConfig P c"
| "document_stream P (Ref_FlatMapStream c) = document_FlatMapStreamConfig P c"
| "document_stream P (Ref_FlatMapIterableStream c) = document_FlatMapIterableStreamConfig P c"
| "document_stream P (Ref_KeyByStream c) = document_KeyByStreamConfig P c"
| "document_stream P (Ref_MergeStream c) = document_MergeStreamConfig P c"
| "document_stream P (Ref_SplitStream c) = document_SplitStreamConfig P c"
| "document_stream P (Ref_CaseStream c) = document_CaseStreamConfig P c"
| "document_stream P (Ref_WhenStream c) = document_WhenStreamConfig P c"
| "document_stream P (Ref_SinkStream c) = document_SinkStreamConfig P c"
| "document_stream P (Ref_CycleLinkStream c) = document_CycleLinkStreamConfig P c"
| "document_stream P (Ref_DelayStream c) = document_DelayStreamConfig P c"

text \<open>The numbers such a document spells.\<close>

definition numbers_InputStreamConfig :: "InputStreamConfig \<Rightarrow> number list" where
  "numbers_InputStreamConfig c =
    [NInt (InputStream_id c), NInt (InputStream_idService c), NInt (InputStream_idSource c),
     NDouble (InputStream_xPos c), NDouble (InputStream_yPos c), NInt (InputStream_idEndpoint c)] @ map NInt (InputStream_idSources c)"

definition numbers_SubStreamConfig :: "SubStreamConfig \<Rightarrow> number list" where
  "numbers_SubStreamConfig c =
    [NInt (SubStream_id c), NInt (SubStream_idService c), NInt (SubStream_idSource c), NDouble (SubStream_xPos c),
     NDouble (SubStream_yPos c)]"

definition numbers_MapStreamConfig :: "MapStreamConfig \<Rightarrow> number list" where
  "numbers_MapStreamConfig c =
    [NInt (MapStream_id c), NInt (MapStream_idService c), NInt (MapStream_idSource c), NDouble (MapStream_xPos c),
     NDouble (MapStream_yPos c)]"

definition numbers_FilterStreamConfig :: "FilterStreamConfig \<Rightarrow> number list" where
  "numbers_FilterStreamConfig c =
    [NInt (FilterStream_id c), NInt (FilterStream_idService c), NInt (FilterStream_idSource c),
     NDouble (FilterStream_xPos c), NDouble (FilterStream_yPos c)]"

definition numbers_JoinStreamConfig :: "JoinStreamConfig \<Rightarrow> number list" where
  "numbers_JoinStreamConfig c =
    [NInt (JoinStream_id c), NInt (JoinStream_idService c), NInt (JoinStream_idSource c), NDouble (JoinStream_xPos c),
     NDouble (JoinStream_yPos c), NInt (JoinStream_ttl c)] @ map NInt (JoinStream_idSources c)"

definition numbers_MultiJoinStreamConfig :: "MultiJoinStreamConfig \<Rightarrow> number list" where
  "numbers_MultiJoinStreamConfig c =
    [NInt (MultiJoinStream_id c), NInt (MultiJoinStream_idService c), NInt (MultiJoinStream_idSource c),
     NDouble (MultiJoinStream_xPos c), NDouble (MultiJoinStream_yPos c), NInt (MultiJoinStream_ttl c)] @ map NInt (MultiJoinStream_idSources c)"

definition numbers_ProcessStreamConfig :: "ProcessStreamConfig \<Rightarrow> number list" where
  "numbers_ProcessStreamConfig c =
    [NInt (ProcessStream_id c), NInt (ProcessStream_idService c), NInt (ProcessStream_idSource c),
     NDouble (ProcessStream_xPos c), NDouble (ProcessStream_yPos c)]"

definition numbers_FlatMapStreamConfig :: "FlatMapStreamConfig \<Rightarrow> number list" where
  "numbers_FlatMapStreamConfig c =
    [NInt (FlatMapStream_id c), NInt (FlatMapStream_idService c), NInt (FlatMapStream_idSource c),
     NDouble (FlatMapStream_xPos c), NDouble (FlatMapStream_yPos c)]"

definition numbers_FlatMapIterableStreamConfig :: "FlatMapIterableStreamConfig \<Rightarrow> number list" where
  "numbers_FlatMapIterableStreamConfig c =
    [NInt (FlatMapIterableStream_id c), NInt (FlatMapIterableStream_idService c),
     NInt (FlatMapIterableStream_idSource c), NDouble (FlatMapIterableStream_xPos c),
     NDouble (FlatMapIterableStream_yPos c)]"

definition numbers_KeyByStreamConfig :: "KeyByStreamConfig \<Rightarrow> number list" where
  "numbers_KeyByStreamConfig c =
    [NInt (KeyByStream_id c), NInt (KeyByStream_idService c), NInt (KeyByStream_idSource c),
     NDouble (KeyByStream_xPos c), NDouble (KeyByStream_yPos c)]"

definition numbers_MergeStreamConfig :: "MergeStreamConfig \<Rightarrow> number list" where
  "numbers_MergeStreamConfig c =
    [NInt (MergeStream_id c), NInt (MergeStream_idService c), NDouble (MergeStream_xPos c),
     NDouble (MergeStream_yPos c)] @ map NInt (MergeStream_idSources c)"

definition numbers_SplitStreamConfig :: "SplitStreamConfig \<Rightarrow> number list" where
  "numbers_SplitStreamConfig c =
    [NInt (SplitStream_id c), NInt (SplitStream_idService c), NInt (SplitStream_idSource c),
     NDouble (SplitStream_xPos c), NDouble (SplitStream_yPos c)]"

definition numbers_CaseStreamConfig :: "CaseStreamConfig \<Rightarrow> number list" where
  "numbers_CaseStreamConfig c =
    [NInt (CaseStream_id c), NInt (CaseStream_idService c), NInt (CaseStream_idSource c), NDouble (CaseStream_xPos c),
     NDouble (CaseStream_yPos c)]"

definition numbers_WhenStreamConfig :: "WhenStreamConfig \<Rightarrow> number list" where
  "numbers_WhenStreamConfig c =
    [NInt (WhenStream_id c), NInt (WhenStream_idService c), NInt (WhenStream_idSource c), NDouble (WhenStream_xPos c),
     NDouble (WhenStream_yPos c)]"

definition numbers_SinkStreamConfig :: "SinkStreamConfig \<Rightarrow> number list" where
  "numbers_SinkStreamConfig c =
    [NInt (SinkStream_id c), NInt (SinkStream_idService c), NInt (SinkStream_idSource c), NDouble (SinkStream_xPos c),
     NDouble (SinkStream_yPos c), NInt (SinkStream_idEndpoint c)]"

definition numbers_CycleLinkStreamConfig :: "CycleLinkStreamConfig \<Rightarrow> number list" where
  "numbers_CycleLinkStreamConfig c =
    [NInt (CycleLinkStream_id c), NInt (CycleLinkStream_idService c), NInt (CycleLinkStream_idSource c),
     NDouble (CycleLinkStream_xPos c), NDouble (CycleLinkStream_yPos c)]"

definition numbers_DelayStreamConfig :: "DelayStreamConfig \<Rightarrow> number list" where
  "numbers_DelayStreamConfig c =
    [NInt (DelayStream_id c), NInt (DelayStream_idService c), NInt (DelayStream_idSource c),
     NDouble (DelayStream_xPos c), NDouble (DelayStream_yPos c), NInt (DelayStream_duration c)]"

fun numbers_stream :: "StreamConfigRef \<Rightarrow> number list" where
  "numbers_stream (Ref_InputStream c) = numbers_InputStreamConfig c"
| "numbers_stream (Ref_SubStream c) = numbers_SubStreamConfig c"
| "numbers_stream (Ref_MapStream c) = numbers_MapStreamConfig c"
| "numbers_stream (Ref_FilterStream c) = numbers_FilterStreamConfig c"
| "numbers_stream (Ref_JoinStream c) = numbers_JoinStreamConfig c"
| "numbers_stream (Ref_MultiJoinStream c) = numbers_MultiJoinStreamConfig c"
| "numbers_stream (Ref_ProcessStream c) = numbers_ProcessStreamConfig c"
| "numbers_stream (Ref_FlatMapStream c) = numbers_FlatMapStreamConfig c"
| "numbers_stream (Ref_FlatMapIterableStream c) = numbers_FlatMapIterableStreamConfig c"
| "numbers_stream (Ref_KeyByStream c) = numbers_KeyByStreamConfig c"
| "numbers_stream (Ref_MergeStream c) = numbers_MergeStreamConfig c"
| "numbers_stream (Ref_SplitStream c) = numbers_SplitStreamConfig c"
| "numbers_stream (Ref_CaseStream c) = numbers_CaseStreamConfig c"
| "numbers_stream (Ref_WhenStream c) = numbers_WhenStreamConfig c"
| "numbers_stream (Ref_SinkStream c) = numbers_SinkStreamConfig c"
| "numbers_stream (Ref_CycleLinkStream c) = numbers_CycleLinkStreamConfig c"
| "numbers_stream (Ref_DelayStream c) = numbers_DelayStreamConfig c"

fun stream_properties :: "StreamConfigRef \<Rightarrow> PropertiesMap" where
  "stream_properties (Ref_InputStream c) = InputStream_properties c"
| "stream_properties (Ref_SubStream c) = SubStream_properties c"
| "stream_properties (Ref_MapStream c) = MapStream_properties c"
| "stream_properties (Ref_FilterStream c) = FilterStream_properties c"
| "stream_properties (Ref_JoinStream c) = JoinStream_properties c"
| "stream_properties (Ref_MultiJoinStream c) = MultiJoinStream_properties c"
| "stream_properties (Ref_ProcessStream c) = ProcessStream_properties c"
| "stream_properties (Ref_FlatMapStream c) = FlatMapStream_properties c"
| "stream_properties (Ref_FlatMapIterableStream c) = FlatMapIterableStream_properties c"
| "stream_properties (Ref_KeyByStream c) = KeyByStream_properties c"
| "stream_properties (Ref_MergeStream c) = MergeStream_properties c"
| "stream_properties (Ref_SplitStream c) = SplitStream_properties c"
| "stream_properties (Ref_CaseStream c) = CaseStream_properties c"
| "stream_properties (Ref_WhenStream c) = WhenStream_properties c"
| "stream_properties (Ref_SinkStream c) = SinkStream_properties c"
| "stream_properties (Ref_CycleLinkStream c) = CycleLinkStream_properties c"
| "stream_properties (Ref_DelayStream c) = DelayStream_properties c"

fun Parse_stream :: "TransformationType \<Rightarrow> yaml_cpp \<Rightarrow> yaml \<Rightarrow> (config_error, StreamConfigRef) result" where
  "Parse_stream TransformationType_kInput Y v = bindR (Parse_InputStreamConfig Y v) (\<lambda>c. Inr (Ref_InputStream c))"
| "Parse_stream TransformationType_kSubStream Y v = bindR (Parse_SubStreamConfig Y v) (\<lambda>c. Inr (Ref_SubStream c))"
| "Parse_stream TransformationType_kMap Y v = bindR (Parse_MapStreamConfig Y v) (\<lambda>c. Inr (Ref_MapStream c))"
| "Parse_stream TransformationType_kFilter Y v = bindR (Parse_FilterStreamConfig Y v) (\<lambda>c. Inr (Ref_FilterStream c))"
| "Parse_stream TransformationType_kJoin Y v = bindR (Parse_JoinStreamConfig Y v) (\<lambda>c. Inr (Ref_JoinStream c))"
| "Parse_stream TransformationType_kMultiJoin Y v = bindR (Parse_MultiJoinStreamConfig Y v) (\<lambda>c. Inr (Ref_MultiJoinStream c))"
| "Parse_stream TransformationType_kProcess Y v = bindR (Parse_ProcessStreamConfig Y v) (\<lambda>c. Inr (Ref_ProcessStream c))"
| "Parse_stream TransformationType_kFlatMap Y v = bindR (Parse_FlatMapStreamConfig Y v) (\<lambda>c. Inr (Ref_FlatMapStream c))"
| "Parse_stream TransformationType_kFlatMapIterable Y v = bindR (Parse_FlatMapIterableStreamConfig Y v) (\<lambda>c. Inr (Ref_FlatMapIterableStream c))"
| "Parse_stream TransformationType_kKeyBy Y v = bindR (Parse_KeyByStreamConfig Y v) (\<lambda>c. Inr (Ref_KeyByStream c))"
| "Parse_stream TransformationType_kMerge Y v = bindR (Parse_MergeStreamConfig Y v) (\<lambda>c. Inr (Ref_MergeStream c))"
| "Parse_stream TransformationType_kSplit Y v = bindR (Parse_SplitStreamConfig Y v) (\<lambda>c. Inr (Ref_SplitStream c))"
| "Parse_stream TransformationType_kCase Y v = bindR (Parse_CaseStreamConfig Y v) (\<lambda>c. Inr (Ref_CaseStream c))"
| "Parse_stream TransformationType_kWhen Y v = bindR (Parse_WhenStreamConfig Y v) (\<lambda>c. Inr (Ref_WhenStream c))"
| "Parse_stream TransformationType_kSink Y v = bindR (Parse_SinkStreamConfig Y v) (\<lambda>c. Inr (Ref_SinkStream c))"
| "Parse_stream TransformationType_kCycleLink Y v = bindR (Parse_CycleLinkStreamConfig Y v) (\<lambda>c. Inr (Ref_CycleLinkStream c))"
| "Parse_stream TransformationType_kDelay Y v = bindR (Parse_DelayStreamConfig Y v) (\<lambda>c. Inr (Ref_DelayStream c))"
| "Parse_stream _ Y v = Inl (ConfigLogicError ''no such stream configuration'')"

subsection \<open>Reading the documents back\<close>

lemma Parse_InputStreamConfig_document:
  assumes "yaml_cpp_laws Y" "yaml_reads Y P" "fresh_properties (document_InputStreamConfig P c) props"
    "InputStream_properties c = fmap_of_list props" "list_all representable (numbers_InputStreamConfig c)"
  shows "Parse_InputStreamConfig Y (YMap (document_InputStreamConfig P c @ property_entries props)) = Inr c"
  unfolding Parse_InputStreamConfig_def
  by (subst ParseRemainingProperties_document [OF assms(1,3)])
    (simp_all add: document_InputStreamConfig_def read_back assms(1,2) assms(5) [unfolded numbers_InputStreamConfig_def, simplified] assms(4) [symmetric])

lemma Parse_SubStreamConfig_document:
  assumes "yaml_cpp_laws Y" "yaml_reads Y P" "fresh_properties (document_SubStreamConfig P c) props"
    "SubStream_properties c = fmap_of_list props" "list_all representable (numbers_SubStreamConfig c)"
  shows "Parse_SubStreamConfig Y (YMap (document_SubStreamConfig P c @ property_entries props)) = Inr c"
  unfolding Parse_SubStreamConfig_def
  by (subst ParseRemainingProperties_document [OF assms(1,3)])
    (simp_all add: document_SubStreamConfig_def read_back assms(1,2) assms(5) [unfolded numbers_SubStreamConfig_def, simplified] assms(4) [symmetric])

lemma Parse_MapStreamConfig_document:
  assumes "yaml_cpp_laws Y" "yaml_reads Y P" "fresh_properties (document_MapStreamConfig P c) props"
    "MapStream_properties c = fmap_of_list props" "list_all representable (numbers_MapStreamConfig c)"
  shows "Parse_MapStreamConfig Y (YMap (document_MapStreamConfig P c @ property_entries props)) = Inr c"
  unfolding Parse_MapStreamConfig_def
  by (subst ParseRemainingProperties_document [OF assms(1,3)])
    (simp_all add: document_MapStreamConfig_def read_back assms(1,2) assms(5) [unfolded numbers_MapStreamConfig_def, simplified] assms(4) [symmetric])

lemma Parse_FilterStreamConfig_document:
  assumes "yaml_cpp_laws Y" "yaml_reads Y P" "fresh_properties (document_FilterStreamConfig P c) props"
    "FilterStream_properties c = fmap_of_list props" "list_all representable (numbers_FilterStreamConfig c)"
  shows "Parse_FilterStreamConfig Y (YMap (document_FilterStreamConfig P c @ property_entries props)) = Inr c"
  unfolding Parse_FilterStreamConfig_def
  by (subst ParseRemainingProperties_document [OF assms(1,3)])
    (simp_all add: document_FilterStreamConfig_def read_back assms(1,2) assms(5) [unfolded numbers_FilterStreamConfig_def, simplified] assms(4) [symmetric])

lemma Parse_JoinStreamConfig_document:
  assumes "yaml_cpp_laws Y" "yaml_reads Y P" "fresh_properties (document_JoinStreamConfig P c) props"
    "JoinStream_properties c = fmap_of_list props" "list_all representable (numbers_JoinStreamConfig c)"
  shows "Parse_JoinStreamConfig Y (YMap (document_JoinStreamConfig P c @ property_entries props)) = Inr c"
  unfolding Parse_JoinStreamConfig_def
  by (subst ParseRemainingProperties_document [OF assms(1,3)])
    (simp_all add: document_JoinStreamConfig_def read_back assms(1,2) assms(5) [unfolded numbers_JoinStreamConfig_def, simplified] assms(4) [symmetric])

lemma Parse_MultiJoinStreamConfig_document:
  assumes "yaml_cpp_laws Y" "yaml_reads Y P" "fresh_properties (document_MultiJoinStreamConfig P c) props"
    "MultiJoinStream_properties c = fmap_of_list props" "list_all representable (numbers_MultiJoinStreamConfig c)"
  shows "Parse_MultiJoinStreamConfig Y (YMap (document_MultiJoinStreamConfig P c @ property_entries props)) = Inr c"
  unfolding Parse_MultiJoinStreamConfig_def
  by (subst ParseRemainingProperties_document [OF assms(1,3)])
    (simp_all add: document_MultiJoinStreamConfig_def read_back assms(1,2) assms(5) [unfolded numbers_MultiJoinStreamConfig_def, simplified] assms(4) [symmetric])

lemma Parse_ProcessStreamConfig_document:
  assumes "yaml_cpp_laws Y" "yaml_reads Y P" "fresh_properties (document_ProcessStreamConfig P c) props"
    "ProcessStream_properties c = fmap_of_list props" "list_all representable (numbers_ProcessStreamConfig c)"
  shows "Parse_ProcessStreamConfig Y (YMap (document_ProcessStreamConfig P c @ property_entries props)) = Inr c"
  unfolding Parse_ProcessStreamConfig_def
  by (subst ParseRemainingProperties_document [OF assms(1,3)])
    (simp_all add: document_ProcessStreamConfig_def read_back assms(1,2) assms(5) [unfolded numbers_ProcessStreamConfig_def, simplified] assms(4) [symmetric])

lemma Parse_FlatMapStreamConfig_document:
  assumes "yaml_cpp_laws Y" "yaml_reads Y P" "fresh_properties (document_FlatMapStreamConfig P c) props"
    "FlatMapStream_properties c = fmap_of_list props" "list_all representable (numbers_FlatMapStreamConfig c)"
  shows "Parse_FlatMapStreamConfig Y (YMap (document_FlatMapStreamConfig P c @ property_entries props)) = Inr c"
  unfolding Parse_FlatMapStreamConfig_def
  by (subst ParseRemainingProperties_document [OF assms(1,3)])
    (simp_all add: document_FlatMapStreamConfig_def read_back assms(1,2) assms(5) [unfolded numbers_FlatMapStreamConfig_def, simplified] assms(4) [symmetric])

lemma Parse_FlatMapIterableStreamConfig_document:
  assumes "yaml_cpp_laws Y" "yaml_reads Y P" "fresh_properties (document_FlatMapIterableStreamConfig P c) props"
    "FlatMapIterableStream_properties c = fmap_of_list props" "list_all representable (numbers_FlatMapIterableStreamConfig c)"
  shows "Parse_FlatMapIterableStreamConfig Y (YMap (document_FlatMapIterableStreamConfig P c @ property_entries props)) = Inr c"
  unfolding Parse_FlatMapIterableStreamConfig_def
  by (subst ParseRemainingProperties_document [OF assms(1,3)])
    (simp_all add: document_FlatMapIterableStreamConfig_def read_back assms(1,2) assms(5) [unfolded numbers_FlatMapIterableStreamConfig_def, simplified] assms(4) [symmetric])

lemma Parse_KeyByStreamConfig_document:
  assumes "yaml_cpp_laws Y" "yaml_reads Y P" "fresh_properties (document_KeyByStreamConfig P c) props"
    "KeyByStream_properties c = fmap_of_list props" "list_all representable (numbers_KeyByStreamConfig c)"
  shows "Parse_KeyByStreamConfig Y (YMap (document_KeyByStreamConfig P c @ property_entries props)) = Inr c"
  unfolding Parse_KeyByStreamConfig_def
  by (subst ParseRemainingProperties_document [OF assms(1,3)])
    (simp_all add: document_KeyByStreamConfig_def read_back assms(1,2) assms(5) [unfolded numbers_KeyByStreamConfig_def, simplified] assms(4) [symmetric])

lemma Parse_MergeStreamConfig_document:
  assumes "yaml_cpp_laws Y" "yaml_reads Y P" "fresh_properties (document_MergeStreamConfig P c) props"
    "MergeStream_properties c = fmap_of_list props" "list_all representable (numbers_MergeStreamConfig c)"
  shows "Parse_MergeStreamConfig Y (YMap (document_MergeStreamConfig P c @ property_entries props)) = Inr c"
  unfolding Parse_MergeStreamConfig_def
  by (subst ParseRemainingProperties_document [OF assms(1,3)])
    (simp_all add: document_MergeStreamConfig_def read_back assms(1,2) assms(5) [unfolded numbers_MergeStreamConfig_def, simplified] assms(4) [symmetric])

lemma Parse_SplitStreamConfig_document:
  assumes "yaml_cpp_laws Y" "yaml_reads Y P" "fresh_properties (document_SplitStreamConfig P c) props"
    "SplitStream_properties c = fmap_of_list props" "list_all representable (numbers_SplitStreamConfig c)"
  shows "Parse_SplitStreamConfig Y (YMap (document_SplitStreamConfig P c @ property_entries props)) = Inr c"
  unfolding Parse_SplitStreamConfig_def
  by (subst ParseRemainingProperties_document [OF assms(1,3)])
    (simp_all add: document_SplitStreamConfig_def read_back assms(1,2) assms(5) [unfolded numbers_SplitStreamConfig_def, simplified] assms(4) [symmetric])

lemma Parse_CaseStreamConfig_document:
  assumes "yaml_cpp_laws Y" "yaml_reads Y P" "fresh_properties (document_CaseStreamConfig P c) props"
    "CaseStream_properties c = fmap_of_list props" "list_all representable (numbers_CaseStreamConfig c)"
  shows "Parse_CaseStreamConfig Y (YMap (document_CaseStreamConfig P c @ property_entries props)) = Inr c"
  unfolding Parse_CaseStreamConfig_def
  by (subst ParseRemainingProperties_document [OF assms(1,3)])
    (simp_all add: document_CaseStreamConfig_def read_back assms(1,2) assms(5) [unfolded numbers_CaseStreamConfig_def, simplified] assms(4) [symmetric])

lemma Parse_WhenStreamConfig_document:
  assumes "yaml_cpp_laws Y" "yaml_reads Y P" "fresh_properties (document_WhenStreamConfig P c) props"
    "WhenStream_properties c = fmap_of_list props" "list_all representable (numbers_WhenStreamConfig c)"
  shows "Parse_WhenStreamConfig Y (YMap (document_WhenStreamConfig P c @ property_entries props)) = Inr c"
  unfolding Parse_WhenStreamConfig_def
  by (subst ParseRemainingProperties_document [OF assms(1,3)])
    (simp_all add: document_WhenStreamConfig_def read_back assms(1,2) assms(5) [unfolded numbers_WhenStreamConfig_def, simplified] assms(4) [symmetric])

lemma Parse_SinkStreamConfig_document:
  assumes "yaml_cpp_laws Y" "yaml_reads Y P" "fresh_properties (document_SinkStreamConfig P c) props"
    "SinkStream_properties c = fmap_of_list props" "list_all representable (numbers_SinkStreamConfig c)"
  shows "Parse_SinkStreamConfig Y (YMap (document_SinkStreamConfig P c @ property_entries props)) = Inr c"
  unfolding Parse_SinkStreamConfig_def
  by (subst ParseRemainingProperties_document [OF assms(1,3)])
    (simp_all add: document_SinkStreamConfig_def read_back assms(1,2) assms(5) [unfolded numbers_SinkStreamConfig_def, simplified] assms(4) [symmetric])

lemma Parse_CycleLinkStreamConfig_document:
  assumes "yaml_cpp_laws Y" "yaml_reads Y P" "fresh_properties (document_CycleLinkStreamConfig P c) props"
    "CycleLinkStream_properties c = fmap_of_list props" "list_all representable (numbers_CycleLinkStreamConfig c)"
  shows "Parse_CycleLinkStreamConfig Y (YMap (document_CycleLinkStreamConfig P c @ property_entries props)) = Inr c"
  unfolding Parse_CycleLinkStreamConfig_def
  by (subst ParseRemainingProperties_document [OF assms(1,3)])
    (simp_all add: document_CycleLinkStreamConfig_def read_back assms(1,2) assms(5) [unfolded numbers_CycleLinkStreamConfig_def, simplified] assms(4) [symmetric])

lemma Parse_DelayStreamConfig_document:
  assumes "yaml_cpp_laws Y" "yaml_reads Y P" "fresh_properties (document_DelayStreamConfig P c) props"
    "DelayStream_properties c = fmap_of_list props" "list_all representable (numbers_DelayStreamConfig c)"
  shows "Parse_DelayStreamConfig Y (YMap (document_DelayStreamConfig P c @ property_entries props)) = Inr c"
  unfolding Parse_DelayStreamConfig_def
  by (subst ParseRemainingProperties_document [OF assms(1,3)])
    (simp_all add: document_DelayStreamConfig_def read_back assms(1,2) assms(5) [unfolded numbers_DelayStreamConfig_def, simplified] assms(4) [symmetric])

lemmas stream_documents =
  Parse_InputStreamConfig_document
  Parse_SubStreamConfig_document
  Parse_MapStreamConfig_document
  Parse_FilterStreamConfig_document
  Parse_JoinStreamConfig_document
  Parse_MultiJoinStreamConfig_document
  Parse_ProcessStreamConfig_document
  Parse_FlatMapStreamConfig_document
  Parse_FlatMapIterableStreamConfig_document
  Parse_KeyByStreamConfig_document
  Parse_MergeStreamConfig_document
  Parse_SplitStreamConfig_document
  Parse_CaseStreamConfig_document
  Parse_WhenStreamConfig_document
  Parse_SinkStreamConfig_document
  Parse_CycleLinkStreamConfig_document
  Parse_DelayStreamConfig_document

subsection \<open>Properties\<close>

text \<open>C36. The parser of each of the 17 stream kinds recovers a configuration from any document that spells it, when its
  integers have 32 bits and its coordinates are zero or normal floating-point numbers:
  every member is read from its own key with its own conversion, other keys become the properties and no known key
  does, and the kind the variant reports is the kind of the parser.\<close>

theorem stream_config_round_trip:
  assumes "yaml_cpp_laws Y" "yaml_reads Y P" "fresh_properties (document_stream P c) props"
    and "stream_properties c = fmap_of_list props" "list_all representable (numbers_stream c)"
  shows "Parse_stream (Stream_GetType c) Y (YMap (document_stream P c @ property_entries props)) = Inr c"
  using assms by (cases c) (simp_all add: stream_documents)

definition example_sink :: SinkStreamConfig where
  "example_sink = \<lparr>SinkStream_id = 7, SinkStream_name = ''out'', SinkStream_pipeline = ''p'', SinkStream_component = ''c'',
     SinkStream_idService = 1, SinkStream_idSource = 6, SinkStream_xPos = 0, SinkStream_yPos = 4607182418800017408, SinkStream_idEndpoint = 3,
     SinkStream_valueType = ''string'', SinkStream_properties = fmap_of_list [(''note'', YScalar ''x'')]\<rparr>"

theorem stream_config_round_trip_witness:
  "Parse_stream TransformationType_kSink plain_yaml
     (YMap (document_stream plain_printer (Ref_SinkStream example_sink) @ property_entries [(''note'', YScalar ''x'')]))
   = Inr (Ref_SinkStream example_sink)"
proof -
  have "fresh_properties (document_stream plain_printer (Ref_SinkStream example_sink)) [(''note'', YScalar ''x'')]"
    by (simp add: fresh_properties_def document_SinkStreamConfig_def)
  moreover have "stream_properties (Ref_SinkStream example_sink) = fmap_of_list [(''note'', YScalar ''x'')]"
    by (simp add: example_sink_def)
  moreover have "list_all representable (numbers_stream (Ref_SinkStream example_sink))"
    by (simp add: example_sink_def numbers_SinkStreamConfig_def representable.simps normal_bits_def)
  ultimately show ?thesis
    using stream_config_round_trip [OF plain_yaml_laws plain_yaml_reads] by fastforce
qed

end
