(* ===== verification/ConfigConnectors.thy ===== *)
theory ConfigConnectors
  imports ServiceApi
begin

section \<open>Endpoint and data connector configurations (runtime/config/endpoint_types.hpp, dataconnector_types.hpp)\<close>

text \<open>
  The six kinds of endpoint and of data connector: struct, parser and the variant the runtime
  looks them up by. As for streams, the parsers read back any document that spells a configuration;
  the parsers of scheduled endpoints refuse a time zone other than UTC, that of gRPC connectors a
  connection count below one.
\<close>

subsection \<open>Endpoints\<close>

record HttpEndpointConfig =
  HttpEndpoint_id :: int
  HttpEndpoint_name :: string
  HttpEndpoint_idDataConnector :: int
  HttpEndpoint_tracingEnabled :: bool
  HttpEndpoint_httpMethodType :: HTTPMethodType
  HttpEndpoint_path :: string
  HttpEndpoint_function :: FunctionFields
  HttpEndpoint_properties :: PropertiesMap

record GrpcEndpointConfig =
  GrpcEndpoint_id :: int
  GrpcEndpoint_name :: string
  GrpcEndpoint_idDataConnector :: int
  GrpcEndpoint_tracingEnabled :: bool
  GrpcEndpoint_grpcMethodType :: GrpcMethodType
  GrpcEndpoint_methodName :: string
  GrpcEndpoint_function :: FunctionFields
  GrpcEndpoint_properties :: PropertiesMap

record KafkaEndpointConfig =
  KafkaEndpoint_id :: int
  KafkaEndpoint_name :: string
  KafkaEndpoint_idDataConnector :: int
  KafkaEndpoint_tracingEnabled :: bool
  KafkaEndpoint_enabled :: bool
  KafkaEndpoint_createTopic :: bool
  KafkaEndpoint_topic :: string
  KafkaEndpoint_partitions :: int
  KafkaEndpoint_consumerGroup :: string
  KafkaEndpoint_replicationFactor :: int
  KafkaEndpoint_function :: FunctionFields
  KafkaEndpoint_properties :: PropertiesMap

record CronEndpointConfig =
  CronEndpoint_id :: int
  CronEndpoint_name :: string
  CronEndpoint_idDataConnector :: int
  CronEndpoint_tracingEnabled :: bool
  CronEndpoint_enabled :: bool
  CronEndpoint_schedule :: string
  CronEndpoint_timezone :: string
  CronEndpoint_overlapPolicy :: ScheduleOverlapPolicy
  CronEndpoint_missedRunPolicy :: ScheduleMissedRunPolicy
  CronEndpoint_function :: FunctionFields
  CronEndpoint_properties :: PropertiesMap

record TemporalEndpointConfig =
  TemporalEndpoint_id :: int
  TemporalEndpoint_name :: string
  TemporalEndpoint_idDataConnector :: int
  TemporalEndpoint_tracingEnabled :: bool
  TemporalEndpoint_enabled :: bool
  TemporalEndpoint_taskQueue :: string
  TemporalEndpoint_temporalExecutionType :: TemporalExecutionType
  TemporalEndpoint_schedule :: string
  TemporalEndpoint_scheduleId :: string
  TemporalEndpoint_timezone :: string
  TemporalEndpoint_overlapPolicy :: ScheduleOverlapPolicy
  TemporalEndpoint_missedRunPolicy :: ScheduleMissedRunPolicy
  TemporalEndpoint_workflowExecutionTimeout :: int
  TemporalEndpoint_activityStartToCloseTimeout :: int
  TemporalEndpoint_activityHeartbeatTimeout :: int
  TemporalEndpoint_maximumAttempts :: int
  TemporalEndpoint_maxConcurrentActivities :: int
  TemporalEndpoint_maxConcurrentWorkflowTasks :: int
  TemporalEndpoint_function :: FunctionFields
  TemporalEndpoint_properties :: PropertiesMap

record CustomEndpointConfig =
  CustomEndpoint_id :: int
  CustomEndpoint_name :: string
  CustomEndpoint_idDataConnector :: int
  CustomEndpoint_tracingEnabled :: bool
  CustomEndpoint_function :: FunctionFields
  CustomEndpoint_properties :: PropertiesMap

datatype EndpointConfigRef =
    Ref_HttpEndpoint HttpEndpointConfig
  | Ref_GrpcEndpoint GrpcEndpointConfig
  | Ref_KafkaEndpoint KafkaEndpointConfig
  | Ref_CronEndpoint CronEndpointConfig
  | Ref_TemporalEndpoint TemporalEndpointConfig
  | Ref_CustomEndpoint CustomEndpointConfig

fun Endpoint_GetID :: "EndpointConfigRef \<Rightarrow> int" where
  "Endpoint_GetID (Ref_HttpEndpoint c) = HttpEndpoint_id c"
| "Endpoint_GetID (Ref_GrpcEndpoint c) = GrpcEndpoint_id c"
| "Endpoint_GetID (Ref_KafkaEndpoint c) = KafkaEndpoint_id c"
| "Endpoint_GetID (Ref_CronEndpoint c) = CronEndpoint_id c"
| "Endpoint_GetID (Ref_TemporalEndpoint c) = TemporalEndpoint_id c"
| "Endpoint_GetID (Ref_CustomEndpoint c) = CustomEndpoint_id c"

fun Endpoint_GetName :: "EndpointConfigRef \<Rightarrow> string" where
  "Endpoint_GetName (Ref_HttpEndpoint c) = HttpEndpoint_name c"
| "Endpoint_GetName (Ref_GrpcEndpoint c) = GrpcEndpoint_name c"
| "Endpoint_GetName (Ref_KafkaEndpoint c) = KafkaEndpoint_name c"
| "Endpoint_GetName (Ref_CronEndpoint c) = CronEndpoint_name c"
| "Endpoint_GetName (Ref_TemporalEndpoint c) = TemporalEndpoint_name c"
| "Endpoint_GetName (Ref_CustomEndpoint c) = CustomEndpoint_name c"

fun Endpoint_GetIdDataConnector :: "EndpointConfigRef \<Rightarrow> int" where
  "Endpoint_GetIdDataConnector (Ref_HttpEndpoint c) = HttpEndpoint_idDataConnector c"
| "Endpoint_GetIdDataConnector (Ref_GrpcEndpoint c) = GrpcEndpoint_idDataConnector c"
| "Endpoint_GetIdDataConnector (Ref_KafkaEndpoint c) = KafkaEndpoint_idDataConnector c"
| "Endpoint_GetIdDataConnector (Ref_CronEndpoint c) = CronEndpoint_idDataConnector c"
| "Endpoint_GetIdDataConnector (Ref_TemporalEndpoint c) = TemporalEndpoint_idDataConnector c"
| "Endpoint_GetIdDataConnector (Ref_CustomEndpoint c) = CustomEndpoint_idDataConnector c"

fun Endpoint_GetTracingEnabled :: "EndpointConfigRef \<Rightarrow> bool" where
  "Endpoint_GetTracingEnabled (Ref_HttpEndpoint c) = HttpEndpoint_tracingEnabled c"
| "Endpoint_GetTracingEnabled (Ref_GrpcEndpoint c) = GrpcEndpoint_tracingEnabled c"
| "Endpoint_GetTracingEnabled (Ref_KafkaEndpoint c) = KafkaEndpoint_tracingEnabled c"
| "Endpoint_GetTracingEnabled (Ref_CronEndpoint c) = CronEndpoint_tracingEnabled c"
| "Endpoint_GetTracingEnabled (Ref_TemporalEndpoint c) = TemporalEndpoint_tracingEnabled c"
| "Endpoint_GetTracingEnabled (Ref_CustomEndpoint c) = CustomEndpoint_tracingEnabled c"

fun Endpoint_GetType :: "EndpointConfigRef \<Rightarrow> DataConnectorType" where
  "Endpoint_GetType (Ref_HttpEndpoint c) = DataConnectorType_kHTTP"
| "Endpoint_GetType (Ref_GrpcEndpoint c) = DataConnectorType_kGRPC"
| "Endpoint_GetType (Ref_KafkaEndpoint c) = DataConnectorType_kKafka"
| "Endpoint_GetType (Ref_CronEndpoint c) = DataConnectorType_kCron"
| "Endpoint_GetType (Ref_TemporalEndpoint c) = DataConnectorType_kTemporal"
| "Endpoint_GetType (Ref_CustomEndpoint c) = DataConnectorType_kCustom"

definition Parse_HttpEndpointConfig :: "yaml_cpp \<Rightarrow> yaml \<Rightarrow> (config_error, HttpEndpointConfig) result" where
  "Parse_HttpEndpointConfig Y v =
     bindR (int_or Y 0 v ''id'') (\<lambda>id'.
     bindR (string_or Y '''' v ''name'') (\<lambda>name'.
     bindR (int_or Y 0 v ''idDataConnector'') (\<lambda>idDataConnector'.
     bindR (bool_or Y False v ''tracingEnabled'') (\<lambda>tracingEnabled'.
     bindR (field_or Y (Parse_HTTPMethodType Y) HTTPMethodType_kUndefined v ''httpMethodType'') (\<lambda>httpMethodType'.
     bindR (string_or Y '''' v ''path'') (\<lambda>path'.
     bindR (ParseFunctionFields Y v) (\<lambda>function'.
     bindR (ParseRemainingProperties Y v
       [''id'', ''name'', ''idDataConnector'', ''tracingEnabled'', ''httpMethodType'', ''path'',
        ''functionName'', ''functionPackage'', ''publicFunction'', ''functionDescription'',
        ''functionInitializerGroup'', ''functionModule'']) (\<lambda>properties'.
       Inr \<lparr>HttpEndpoint_id = id', HttpEndpoint_name = name',
         HttpEndpoint_idDataConnector = idDataConnector',
         HttpEndpoint_tracingEnabled = tracingEnabled', HttpEndpoint_httpMethodType = httpMethodType',
         HttpEndpoint_path = path', HttpEndpoint_function = function',
         HttpEndpoint_properties = properties'\<rparr>))))))))"

definition Parse_GrpcEndpointConfig :: "yaml_cpp \<Rightarrow> yaml \<Rightarrow> (config_error, GrpcEndpointConfig) result" where
  "Parse_GrpcEndpointConfig Y v =
     bindR (int_or Y 0 v ''id'') (\<lambda>id'.
     bindR (string_or Y '''' v ''name'') (\<lambda>name'.
     bindR (int_or Y 0 v ''idDataConnector'') (\<lambda>idDataConnector'.
     bindR (bool_or Y False v ''tracingEnabled'') (\<lambda>tracingEnabled'.
     bindR (field_or Y (Parse_GrpcMethodType Y) GrpcMethodType_kUndefined v ''grpcMethodType'') (\<lambda>grpcMethodType'.
     bindR (string_or Y '''' v ''methodName'') (\<lambda>methodName'.
     bindR (ParseFunctionFields Y v) (\<lambda>function'.
     bindR (ParseRemainingProperties Y v
       [''id'', ''name'', ''idDataConnector'', ''tracingEnabled'', ''grpcMethodType'', ''methodName'',
        ''functionName'', ''functionPackage'', ''publicFunction'', ''functionDescription'',
        ''functionInitializerGroup'', ''functionModule'']) (\<lambda>properties'.
       Inr \<lparr>GrpcEndpoint_id = id', GrpcEndpoint_name = name',
         GrpcEndpoint_idDataConnector = idDataConnector',
         GrpcEndpoint_tracingEnabled = tracingEnabled', GrpcEndpoint_grpcMethodType = grpcMethodType',
         GrpcEndpoint_methodName = methodName', GrpcEndpoint_function = function',
         GrpcEndpoint_properties = properties'\<rparr>))))))))"

definition Parse_KafkaEndpointConfig :: "yaml_cpp \<Rightarrow> yaml \<Rightarrow> (config_error, KafkaEndpointConfig) result" where
  "Parse_KafkaEndpointConfig Y v =
     bindR (int_or Y 0 v ''id'') (\<lambda>id'.
     bindR (string_or Y '''' v ''name'') (\<lambda>name'.
     bindR (int_or Y 0 v ''idDataConnector'') (\<lambda>idDataConnector'.
     bindR (bool_or Y False v ''tracingEnabled'') (\<lambda>tracingEnabled'.
     bindR (bool_or Y False v ''enabled'') (\<lambda>enabled'.
     bindR (bool_or Y False v ''createTopic'') (\<lambda>createTopic'.
     bindR (string_or Y '''' v ''topic'') (\<lambda>topic'.
     bindR (int_or Y 0 v ''partitions'') (\<lambda>partitions'.
     bindR (string_or Y '''' v ''consumerGroup'') (\<lambda>consumerGroup'.
     bindR (int_or Y 0 v ''replicationFactor'') (\<lambda>replicationFactor'.
     bindR (ParseFunctionFields Y v) (\<lambda>function'.
     bindR (ParseRemainingProperties Y v
       [''id'', ''name'', ''idDataConnector'', ''tracingEnabled'', ''enabled'', ''createTopic'',
        ''topic'', ''partitions'', ''consumerGroup'', ''replicationFactor'', ''functionName'',
        ''functionPackage'', ''publicFunction'', ''functionDescription'',
        ''functionInitializerGroup'', ''functionModule'']) (\<lambda>properties'.
       Inr \<lparr>KafkaEndpoint_id = id', KafkaEndpoint_name = name',
         KafkaEndpoint_idDataConnector = idDataConnector',
         KafkaEndpoint_tracingEnabled = tracingEnabled', KafkaEndpoint_enabled = enabled',
         KafkaEndpoint_createTopic = createTopic', KafkaEndpoint_topic = topic',
         KafkaEndpoint_partitions = partitions', KafkaEndpoint_consumerGroup = consumerGroup',
         KafkaEndpoint_replicationFactor = replicationFactor', KafkaEndpoint_function = function',
         KafkaEndpoint_properties = properties'\<rparr>))))))))))))"

definition Parse_CronEndpointConfig :: "yaml_cpp \<Rightarrow> yaml \<Rightarrow> (config_error, CronEndpointConfig) result" where
  "Parse_CronEndpointConfig Y v =
     bindR (int_or Y 0 v ''id'') (\<lambda>id'.
     bindR (string_or Y '''' v ''name'') (\<lambda>name'.
     bindR (int_or Y 0 v ''idDataConnector'') (\<lambda>idDataConnector'.
     bindR (bool_or Y False v ''tracingEnabled'') (\<lambda>tracingEnabled'.
     bindR (bool_or Y False v ''enabled'') (\<lambda>enabled'.
     bindR (string_or Y '''' v ''schedule'') (\<lambda>schedule'.
     bindR (string_or Y ''UTC'' v ''timezone'') (\<lambda>timezone'.
     if timezone' \<noteq> ''UTC'' then Inl (ConfigInvalidArgument ''scheduled endpoint timezone must be UTC'') else
     bindR (field_or Y (Parse_ScheduleOverlapPolicy Y) ScheduleOverlapPolicy_kSkip v ''overlapPolicy'') (\<lambda>overlapPolicy'.
     bindR (field_or Y (Parse_ScheduleMissedRunPolicy Y) ScheduleMissedRunPolicy_kSkip v ''missedRunPolicy'') (\<lambda>missedRunPolicy'.
     bindR (ParseFunctionFields Y v) (\<lambda>function'.
     bindR (ParseRemainingProperties Y v
       [''id'', ''name'', ''idDataConnector'', ''tracingEnabled'', ''enabled'', ''schedule'',
        ''timezone'', ''overlapPolicy'', ''missedRunPolicy'', ''functionName'', ''functionPackage'',
        ''publicFunction'', ''functionDescription'', ''functionInitializerGroup'', ''functionModule'']) (\<lambda>properties'.
       Inr \<lparr>CronEndpoint_id = id', CronEndpoint_name = name',
         CronEndpoint_idDataConnector = idDataConnector',
         CronEndpoint_tracingEnabled = tracingEnabled', CronEndpoint_enabled = enabled',
         CronEndpoint_schedule = schedule', CronEndpoint_timezone = timezone',
         CronEndpoint_overlapPolicy = overlapPolicy', CronEndpoint_missedRunPolicy = missedRunPolicy',
         CronEndpoint_function = function', CronEndpoint_properties = properties'\<rparr>)))))))))))"

definition Parse_TemporalEndpointConfig :: "yaml_cpp \<Rightarrow> yaml \<Rightarrow> (config_error, TemporalEndpointConfig) result" where
  "Parse_TemporalEndpointConfig Y v =
     bindR (int_or Y 0 v ''id'') (\<lambda>id'.
     bindR (string_or Y '''' v ''name'') (\<lambda>name'.
     bindR (int_or Y 0 v ''idDataConnector'') (\<lambda>idDataConnector'.
     bindR (bool_or Y False v ''tracingEnabled'') (\<lambda>tracingEnabled'.
     bindR (bool_or Y False v ''enabled'') (\<lambda>enabled'.
     bindR (string_or Y '''' v ''taskQueue'') (\<lambda>taskQueue'.
     bindR (field_or Y (Parse_TemporalExecutionType Y) TemporalExecutionType_kActivity v ''temporalExecutionType'') (\<lambda>temporalExecutionType'.
     bindR (string_or Y '''' v ''schedule'') (\<lambda>schedule'.
     bindR (string_or Y '''' v ''scheduleId'') (\<lambda>scheduleId'.
     bindR (string_or Y ''UTC'' v ''timezone'') (\<lambda>timezone'.
     if timezone' \<noteq> ''UTC'' then Inl (ConfigInvalidArgument ''scheduled endpoint timezone must be UTC'') else
     bindR (field_or Y (Parse_ScheduleOverlapPolicy Y) ScheduleOverlapPolicy_kSkip v ''overlapPolicy'') (\<lambda>overlapPolicy'.
     bindR (field_or Y (Parse_ScheduleMissedRunPolicy Y) ScheduleMissedRunPolicy_kSkip v ''missedRunPolicy'') (\<lambda>missedRunPolicy'.
     bindR (int_or Y 0 v ''workflowExecutionTimeout'') (\<lambda>workflowExecutionTimeout'.
     bindR (int_or Y 0 v ''activityStartToCloseTimeout'') (\<lambda>activityStartToCloseTimeout'.
     bindR (int_or Y 0 v ''activityHeartbeatTimeout'') (\<lambda>activityHeartbeatTimeout'.
     bindR (int_or Y 0 v ''maximumAttempts'') (\<lambda>maximumAttempts'.
     bindR (int_or Y 0 v ''maxConcurrentActivities'') (\<lambda>maxConcurrentActivities'.
     bindR (int_or Y 0 v ''maxConcurrentWorkflowTasks'') (\<lambda>maxConcurrentWorkflowTasks'.
     bindR (ParseFunctionFields Y v) (\<lambda>function'.
     bindR (ParseRemainingProperties Y v
       [''id'', ''name'', ''idDataConnector'', ''tracingEnabled'', ''enabled'', ''taskQueue'',
        ''temporalExecutionType'', ''schedule'', ''scheduleId'', ''timezone'', ''overlapPolicy'',
        ''missedRunPolicy'', ''workflowExecutionTimeout'', ''activityStartToCloseTimeout'',
        ''activityHeartbeatTimeout'', ''maximumAttempts'', ''functionName'',
        ''maxConcurrentActivities'', ''maxConcurrentWorkflowTasks'', ''functionPackage'',
        ''publicFunction'', ''functionDescription'', ''functionInitializerGroup'', ''functionModule'']) (\<lambda>properties'.
       Inr \<lparr>TemporalEndpoint_id = id', TemporalEndpoint_name = name',
         TemporalEndpoint_idDataConnector = idDataConnector',
         TemporalEndpoint_tracingEnabled = tracingEnabled', TemporalEndpoint_enabled = enabled',
         TemporalEndpoint_taskQueue = taskQueue',
         TemporalEndpoint_temporalExecutionType = temporalExecutionType',
         TemporalEndpoint_schedule = schedule', TemporalEndpoint_scheduleId = scheduleId',
         TemporalEndpoint_timezone = timezone', TemporalEndpoint_overlapPolicy = overlapPolicy',
         TemporalEndpoint_missedRunPolicy = missedRunPolicy',
         TemporalEndpoint_workflowExecutionTimeout = workflowExecutionTimeout',
         TemporalEndpoint_activityStartToCloseTimeout = activityStartToCloseTimeout',
         TemporalEndpoint_activityHeartbeatTimeout = activityHeartbeatTimeout',
         TemporalEndpoint_maximumAttempts = maximumAttempts',
         TemporalEndpoint_maxConcurrentActivities = maxConcurrentActivities',
         TemporalEndpoint_maxConcurrentWorkflowTasks = maxConcurrentWorkflowTasks',
         TemporalEndpoint_function = function', TemporalEndpoint_properties = properties'\<rparr>))))))))))))))))))))"

definition Parse_CustomEndpointConfig :: "yaml_cpp \<Rightarrow> yaml \<Rightarrow> (config_error, CustomEndpointConfig) result" where
  "Parse_CustomEndpointConfig Y v =
     bindR (int_or Y 0 v ''id'') (\<lambda>id'.
     bindR (string_or Y '''' v ''name'') (\<lambda>name'.
     bindR (int_or Y 0 v ''idDataConnector'') (\<lambda>idDataConnector'.
     bindR (bool_or Y False v ''tracingEnabled'') (\<lambda>tracingEnabled'.
     bindR (ParseFunctionFields Y v) (\<lambda>function'.
     bindR (ParseRemainingProperties Y v
       [''id'', ''name'', ''idDataConnector'', ''tracingEnabled'', ''functionName'',
        ''functionPackage'', ''publicFunction'', ''functionDescription'',
        ''functionInitializerGroup'', ''functionModule'']) (\<lambda>properties'.
       Inr \<lparr>CustomEndpoint_id = id', CustomEndpoint_name = name',
         CustomEndpoint_idDataConnector = idDataConnector',
         CustomEndpoint_tracingEnabled = tracingEnabled', CustomEndpoint_function = function',
         CustomEndpoint_properties = properties'\<rparr>))))))"

definition document_HttpEndpointConfig :: "yaml_printer \<Rightarrow> HttpEndpointConfig \<Rightarrow> (yaml \<times> yaml) list" where
  "document_HttpEndpointConfig P c =
    [(YScalar ''id'', yp_int P (HttpEndpoint_id c)),
     (YScalar ''name'', YScalar (HttpEndpoint_name c)),
     (YScalar ''idDataConnector'', yp_int P (HttpEndpoint_idDataConnector c)),
     (YScalar ''tracingEnabled'', yp_bool P (HttpEndpoint_tracingEnabled c)),
     (YScalar ''httpMethodType'', YScalar (spelling kHTTPMethodTypeMap (HttpEndpoint_httpMethodType c))),
     (YScalar ''path'', YScalar (HttpEndpoint_path c))] @ document_FunctionFields P (HttpEndpoint_function c)"

definition document_GrpcEndpointConfig :: "yaml_printer \<Rightarrow> GrpcEndpointConfig \<Rightarrow> (yaml \<times> yaml) list" where
  "document_GrpcEndpointConfig P c =
    [(YScalar ''id'', yp_int P (GrpcEndpoint_id c)),
     (YScalar ''name'', YScalar (GrpcEndpoint_name c)),
     (YScalar ''idDataConnector'', yp_int P (GrpcEndpoint_idDataConnector c)),
     (YScalar ''tracingEnabled'', yp_bool P (GrpcEndpoint_tracingEnabled c)),
     (YScalar ''grpcMethodType'', YScalar (spelling kGrpcMethodTypeMap (GrpcEndpoint_grpcMethodType c))),
     (YScalar ''methodName'', YScalar (GrpcEndpoint_methodName c))] @ document_FunctionFields P (GrpcEndpoint_function c)"

definition document_KafkaEndpointConfig :: "yaml_printer \<Rightarrow> KafkaEndpointConfig \<Rightarrow> (yaml \<times> yaml) list" where
  "document_KafkaEndpointConfig P c =
    [(YScalar ''id'', yp_int P (KafkaEndpoint_id c)),
     (YScalar ''name'', YScalar (KafkaEndpoint_name c)),
     (YScalar ''idDataConnector'', yp_int P (KafkaEndpoint_idDataConnector c)),
     (YScalar ''tracingEnabled'', yp_bool P (KafkaEndpoint_tracingEnabled c)),
     (YScalar ''enabled'', yp_bool P (KafkaEndpoint_enabled c)),
     (YScalar ''createTopic'', yp_bool P (KafkaEndpoint_createTopic c)),
     (YScalar ''topic'', YScalar (KafkaEndpoint_topic c)),
     (YScalar ''partitions'', yp_int P (KafkaEndpoint_partitions c)),
     (YScalar ''consumerGroup'', YScalar (KafkaEndpoint_consumerGroup c)),
     (YScalar ''replicationFactor'', yp_int P (KafkaEndpoint_replicationFactor c))] @ document_FunctionFields P (KafkaEndpoint_function c)"

definition document_CronEndpointConfig :: "yaml_printer \<Rightarrow> CronEndpointConfig \<Rightarrow> (yaml \<times> yaml) list" where
  "document_CronEndpointConfig P c =
    [(YScalar ''id'', yp_int P (CronEndpoint_id c)),
     (YScalar ''name'', YScalar (CronEndpoint_name c)),
     (YScalar ''idDataConnector'', yp_int P (CronEndpoint_idDataConnector c)),
     (YScalar ''tracingEnabled'', yp_bool P (CronEndpoint_tracingEnabled c)),
     (YScalar ''enabled'', yp_bool P (CronEndpoint_enabled c)),
     (YScalar ''schedule'', YScalar (CronEndpoint_schedule c)),
     (YScalar ''timezone'', YScalar (CronEndpoint_timezone c)),
     (YScalar ''overlapPolicy'', YScalar (spelling kScheduleOverlapPolicyMap (CronEndpoint_overlapPolicy c))),
     (YScalar ''missedRunPolicy'', YScalar (spelling kScheduleMissedRunPolicyMap (CronEndpoint_missedRunPolicy c)))] @ document_FunctionFields P (CronEndpoint_function c)"

definition document_TemporalEndpointConfig :: "yaml_printer \<Rightarrow> TemporalEndpointConfig \<Rightarrow> (yaml \<times> yaml) list" where
  "document_TemporalEndpointConfig P c =
    [(YScalar ''id'', yp_int P (TemporalEndpoint_id c)),
     (YScalar ''name'', YScalar (TemporalEndpoint_name c)),
     (YScalar ''idDataConnector'', yp_int P (TemporalEndpoint_idDataConnector c)),
     (YScalar ''tracingEnabled'', yp_bool P (TemporalEndpoint_tracingEnabled c)),
     (YScalar ''enabled'', yp_bool P (TemporalEndpoint_enabled c)),
     (YScalar ''taskQueue'', YScalar (TemporalEndpoint_taskQueue c)),
     (YScalar ''temporalExecutionType'', YScalar (spelling kTemporalExecutionTypeMap (TemporalEndpoint_temporalExecutionType c))),
     (YScalar ''schedule'', YScalar (TemporalEndpoint_schedule c)),
     (YScalar ''scheduleId'', YScalar (TemporalEndpoint_scheduleId c)),
     (YScalar ''timezone'', YScalar (TemporalEndpoint_timezone c)),
     (YScalar ''overlapPolicy'', YScalar (spelling kScheduleOverlapPolicyMap (TemporalEndpoint_overlapPolicy c))),
     (YScalar ''missedRunPolicy'', YScalar (spelling kScheduleMissedRunPolicyMap (TemporalEndpoint_missedRunPolicy c))),
     (YScalar ''workflowExecutionTimeout'', yp_int P (TemporalEndpoint_workflowExecutionTimeout c)),
     (YScalar ''activityStartToCloseTimeout'', yp_int P (TemporalEndpoint_activityStartToCloseTimeout c)),
     (YScalar ''activityHeartbeatTimeout'', yp_int P (TemporalEndpoint_activityHeartbeatTimeout c)),
     (YScalar ''maximumAttempts'', yp_int P (TemporalEndpoint_maximumAttempts c)),
     (YScalar ''maxConcurrentActivities'', yp_int P (TemporalEndpoint_maxConcurrentActivities c)),
     (YScalar ''maxConcurrentWorkflowTasks'', yp_int P (TemporalEndpoint_maxConcurrentWorkflowTasks c))] @ document_FunctionFields P (TemporalEndpoint_function c)"

definition document_CustomEndpointConfig :: "yaml_printer \<Rightarrow> CustomEndpointConfig \<Rightarrow> (yaml \<times> yaml) list" where
  "document_CustomEndpointConfig P c =
    [(YScalar ''id'', yp_int P (CustomEndpoint_id c)),
     (YScalar ''name'', YScalar (CustomEndpoint_name c)),
     (YScalar ''idDataConnector'', yp_int P (CustomEndpoint_idDataConnector c)),
     (YScalar ''tracingEnabled'', yp_bool P (CustomEndpoint_tracingEnabled c))] @ document_FunctionFields P (CustomEndpoint_function c)"

fun document_endpoint :: "yaml_printer \<Rightarrow> EndpointConfigRef \<Rightarrow> (yaml \<times> yaml) list" where
  "document_endpoint P (Ref_HttpEndpoint c) = document_HttpEndpointConfig P c"
| "document_endpoint P (Ref_GrpcEndpoint c) = document_GrpcEndpointConfig P c"
| "document_endpoint P (Ref_KafkaEndpoint c) = document_KafkaEndpointConfig P c"
| "document_endpoint P (Ref_CronEndpoint c) = document_CronEndpointConfig P c"
| "document_endpoint P (Ref_TemporalEndpoint c) = document_TemporalEndpointConfig P c"
| "document_endpoint P (Ref_CustomEndpoint c) = document_CustomEndpointConfig P c"

text \<open>The numbers such a document spells.\<close>

definition numbers_HttpEndpointConfig :: "HttpEndpointConfig \<Rightarrow> number list" where
  "numbers_HttpEndpointConfig c =
    [NInt (HttpEndpoint_id c), NInt (HttpEndpoint_idDataConnector c)]"

definition numbers_GrpcEndpointConfig :: "GrpcEndpointConfig \<Rightarrow> number list" where
  "numbers_GrpcEndpointConfig c =
    [NInt (GrpcEndpoint_id c), NInt (GrpcEndpoint_idDataConnector c)]"

definition numbers_KafkaEndpointConfig :: "KafkaEndpointConfig \<Rightarrow> number list" where
  "numbers_KafkaEndpointConfig c =
    [NInt (KafkaEndpoint_id c), NInt (KafkaEndpoint_idDataConnector c), NInt (KafkaEndpoint_partitions c),
     NInt (KafkaEndpoint_replicationFactor c)]"

definition numbers_CronEndpointConfig :: "CronEndpointConfig \<Rightarrow> number list" where
  "numbers_CronEndpointConfig c =
    [NInt (CronEndpoint_id c), NInt (CronEndpoint_idDataConnector c)]"

definition numbers_TemporalEndpointConfig :: "TemporalEndpointConfig \<Rightarrow> number list" where
  "numbers_TemporalEndpointConfig c =
    [NInt (TemporalEndpoint_id c), NInt (TemporalEndpoint_idDataConnector c),
     NInt (TemporalEndpoint_workflowExecutionTimeout c), NInt (TemporalEndpoint_activityStartToCloseTimeout c),
     NInt (TemporalEndpoint_activityHeartbeatTimeout c), NInt (TemporalEndpoint_maximumAttempts c),
     NInt (TemporalEndpoint_maxConcurrentActivities c), NInt (TemporalEndpoint_maxConcurrentWorkflowTasks c)]"

definition numbers_CustomEndpointConfig :: "CustomEndpointConfig \<Rightarrow> number list" where
  "numbers_CustomEndpointConfig c =
    [NInt (CustomEndpoint_id c), NInt (CustomEndpoint_idDataConnector c)]"

fun numbers_endpoint :: "EndpointConfigRef \<Rightarrow> number list" where
  "numbers_endpoint (Ref_HttpEndpoint c) = numbers_HttpEndpointConfig c"
| "numbers_endpoint (Ref_GrpcEndpoint c) = numbers_GrpcEndpointConfig c"
| "numbers_endpoint (Ref_KafkaEndpoint c) = numbers_KafkaEndpointConfig c"
| "numbers_endpoint (Ref_CronEndpoint c) = numbers_CronEndpointConfig c"
| "numbers_endpoint (Ref_TemporalEndpoint c) = numbers_TemporalEndpointConfig c"
| "numbers_endpoint (Ref_CustomEndpoint c) = numbers_CustomEndpointConfig c"

fun endpoint_properties :: "EndpointConfigRef \<Rightarrow> PropertiesMap" where
  "endpoint_properties (Ref_HttpEndpoint c) = HttpEndpoint_properties c"
| "endpoint_properties (Ref_GrpcEndpoint c) = GrpcEndpoint_properties c"
| "endpoint_properties (Ref_KafkaEndpoint c) = KafkaEndpoint_properties c"
| "endpoint_properties (Ref_CronEndpoint c) = CronEndpoint_properties c"
| "endpoint_properties (Ref_TemporalEndpoint c) = TemporalEndpoint_properties c"
| "endpoint_properties (Ref_CustomEndpoint c) = CustomEndpoint_properties c"

fun endpoint_valid :: "EndpointConfigRef \<Rightarrow> bool" where
  "endpoint_valid (Ref_HttpEndpoint c) = True"
| "endpoint_valid (Ref_GrpcEndpoint c) = True"
| "endpoint_valid (Ref_KafkaEndpoint c) = True"
| "endpoint_valid (Ref_CronEndpoint c) = (CronEndpoint_timezone c = ''UTC'')"
| "endpoint_valid (Ref_TemporalEndpoint c) = (TemporalEndpoint_timezone c = ''UTC'')"
| "endpoint_valid (Ref_CustomEndpoint c) = True"

fun Parse_endpoint :: "DataConnectorType \<Rightarrow> yaml_cpp \<Rightarrow> yaml \<Rightarrow> (config_error, EndpointConfigRef) result" where
  "Parse_endpoint DataConnectorType_kHTTP Y v = bindR (Parse_HttpEndpointConfig Y v) (\<lambda>c. Inr (Ref_HttpEndpoint c))"
| "Parse_endpoint DataConnectorType_kGRPC Y v = bindR (Parse_GrpcEndpointConfig Y v) (\<lambda>c. Inr (Ref_GrpcEndpoint c))"
| "Parse_endpoint DataConnectorType_kKafka Y v = bindR (Parse_KafkaEndpointConfig Y v) (\<lambda>c. Inr (Ref_KafkaEndpoint c))"
| "Parse_endpoint DataConnectorType_kCron Y v = bindR (Parse_CronEndpointConfig Y v) (\<lambda>c. Inr (Ref_CronEndpoint c))"
| "Parse_endpoint DataConnectorType_kTemporal Y v = bindR (Parse_TemporalEndpointConfig Y v) (\<lambda>c. Inr (Ref_TemporalEndpoint c))"
| "Parse_endpoint DataConnectorType_kCustom Y v = bindR (Parse_CustomEndpointConfig Y v) (\<lambda>c. Inr (Ref_CustomEndpoint c))"
| "Parse_endpoint _ Y v = Inl (ConfigLogicError ''no such endpoint configuration'')"

lemma Parse_HttpEndpointConfig_document:
  assumes "yaml_cpp_laws Y" "yaml_reads Y P" "fresh_properties (document_HttpEndpointConfig P c) props"
    "HttpEndpoint_properties c = fmap_of_list props" "list_all representable (numbers_HttpEndpointConfig c)"
  shows "Parse_HttpEndpointConfig Y (YMap (document_HttpEndpointConfig P c @ property_entries props)) = Inr c"
  unfolding Parse_HttpEndpointConfig_def
  by (subst ParseRemainingProperties_document [OF assms(1,3)])
    (simp_all add: document_HttpEndpointConfig_def read_back assms(1,2) assms(5) [unfolded numbers_HttpEndpointConfig_def, simplified] assms(4) [symmetric])

lemma Parse_GrpcEndpointConfig_document:
  assumes "yaml_cpp_laws Y" "yaml_reads Y P" "fresh_properties (document_GrpcEndpointConfig P c) props"
    "GrpcEndpoint_properties c = fmap_of_list props" "list_all representable (numbers_GrpcEndpointConfig c)"
  shows "Parse_GrpcEndpointConfig Y (YMap (document_GrpcEndpointConfig P c @ property_entries props)) = Inr c"
  unfolding Parse_GrpcEndpointConfig_def
  by (subst ParseRemainingProperties_document [OF assms(1,3)])
    (simp_all add: document_GrpcEndpointConfig_def read_back assms(1,2) assms(5) [unfolded numbers_GrpcEndpointConfig_def, simplified] assms(4) [symmetric])

lemma Parse_KafkaEndpointConfig_document:
  assumes "yaml_cpp_laws Y" "yaml_reads Y P" "fresh_properties (document_KafkaEndpointConfig P c) props"
    "KafkaEndpoint_properties c = fmap_of_list props" "list_all representable (numbers_KafkaEndpointConfig c)"
  shows "Parse_KafkaEndpointConfig Y (YMap (document_KafkaEndpointConfig P c @ property_entries props)) = Inr c"
  unfolding Parse_KafkaEndpointConfig_def
  by (subst ParseRemainingProperties_document [OF assms(1,3)])
    (simp_all add: document_KafkaEndpointConfig_def read_back assms(1,2) assms(5) [unfolded numbers_KafkaEndpointConfig_def, simplified] assms(4) [symmetric])

lemma Parse_CronEndpointConfig_document:
  assumes "yaml_cpp_laws Y" "yaml_reads Y P" "fresh_properties (document_CronEndpointConfig P c) props"
    "CronEndpoint_properties c = fmap_of_list props" "CronEndpoint_timezone c = ''UTC''" "list_all representable (numbers_CronEndpointConfig c)"
  shows "Parse_CronEndpointConfig Y (YMap (document_CronEndpointConfig P c @ property_entries props)) = Inr c"
  unfolding Parse_CronEndpointConfig_def
  by (subst ParseRemainingProperties_document [OF assms(1,3)])
    (simp_all add: document_CronEndpointConfig_def read_back assms(1,2) assms(6) [unfolded numbers_CronEndpointConfig_def, simplified] assms(4) [symmetric] assms(5))

lemma Parse_TemporalEndpointConfig_document:
  assumes "yaml_cpp_laws Y" "yaml_reads Y P" "fresh_properties (document_TemporalEndpointConfig P c) props"
    "TemporalEndpoint_properties c = fmap_of_list props" "TemporalEndpoint_timezone c = ''UTC''" "list_all representable (numbers_TemporalEndpointConfig c)"
  shows "Parse_TemporalEndpointConfig Y (YMap (document_TemporalEndpointConfig P c @ property_entries props)) = Inr c"
  unfolding Parse_TemporalEndpointConfig_def
  by (subst ParseRemainingProperties_document [OF assms(1,3)])
    (simp_all add: document_TemporalEndpointConfig_def read_back assms(1,2) assms(6) [unfolded numbers_TemporalEndpointConfig_def, simplified] assms(4) [symmetric] assms(5))

lemma Parse_CustomEndpointConfig_document:
  assumes "yaml_cpp_laws Y" "yaml_reads Y P" "fresh_properties (document_CustomEndpointConfig P c) props"
    "CustomEndpoint_properties c = fmap_of_list props" "list_all representable (numbers_CustomEndpointConfig c)"
  shows "Parse_CustomEndpointConfig Y (YMap (document_CustomEndpointConfig P c @ property_entries props)) = Inr c"
  unfolding Parse_CustomEndpointConfig_def
  by (subst ParseRemainingProperties_document [OF assms(1,3)])
    (simp_all add: document_CustomEndpointConfig_def read_back assms(1,2) assms(5) [unfolded numbers_CustomEndpointConfig_def, simplified] assms(4) [symmetric])

lemmas endpoint_documents =
  Parse_HttpEndpointConfig_document
  Parse_GrpcEndpointConfig_document
  Parse_KafkaEndpointConfig_document
  Parse_CronEndpointConfig_document
  Parse_TemporalEndpointConfig_document
  Parse_CustomEndpointConfig_document

subsection \<open>Data connectors\<close>

record HttpDataConnectorConfig =
  HttpDataConnector_id :: int
  HttpDataConnector_name :: string
  HttpDataConnector_implementation :: DataConnectorImplementation
  HttpDataConnector_module :: string
  HttpDataConnector_host :: string
  HttpDataConnector_port :: int
  HttpDataConnector_useDedicatedListener :: bool
  HttpDataConnector_properties :: PropertiesMap

record GrpcDataConnectorConfig =
  GrpcDataConnector_id :: int
  GrpcDataConnector_name :: string
  GrpcDataConnector_implementation :: DataConnectorImplementation
  GrpcDataConnector_programmingLanguage :: ProgrammingLanguage
  GrpcDataConnector_module :: string
  GrpcDataConnector_address :: string
  GrpcDataConnector_connectionsCount :: int
  GrpcDataConnector_properties :: PropertiesMap

record KafkaDataConnectorConfig =
  KafkaDataConnector_id :: int
  KafkaDataConnector_name :: string
  KafkaDataConnector_implementation :: DataConnectorImplementation
  KafkaDataConnector_programmingLanguage :: ProgrammingLanguage
  KafkaDataConnector_brokers :: string
  KafkaDataConnector_version :: string
  KafkaDataConnector_dialTimeout :: float32
  KafkaDataConnector_usePartitioner :: bool
  KafkaDataConnector_async :: bool
  KafkaDataConnector_securityProtocol :: KafkaSecurityProtocol
  KafkaDataConnector_saslMechanism :: KafkaSaslMechanism
  KafkaDataConnector_username :: string
  KafkaDataConnector_password :: string
  KafkaDataConnector_properties :: PropertiesMap

record CronDataConnectorConfig =
  CronDataConnector_id :: int
  CronDataConnector_name :: string
  CronDataConnector_implementation :: DataConnectorImplementation
  CronDataConnector_properties :: PropertiesMap

record TemporalDataConnectorConfig =
  TemporalDataConnector_id :: int
  TemporalDataConnector_name :: string
  TemporalDataConnector_implementation :: DataConnectorImplementation
  TemporalDataConnector_address :: string
  TemporalDataConnector_namespaceName :: string
  TemporalDataConnector_identity :: string
  TemporalDataConnector_apiKey :: string
  TemporalDataConnector_tlsEnabled :: bool
  TemporalDataConnector_tlsServerName :: string
  TemporalDataConnector_tlsCaFile :: string
  TemporalDataConnector_tlsCertFile :: string
  TemporalDataConnector_tlsKeyFile :: string
  TemporalDataConnector_workerStopTimeout :: int
  TemporalDataConnector_properties :: PropertiesMap

record CustomDataConnectorConfig =
  CustomDataConnector_id :: int
  CustomDataConnector_name :: string
  CustomDataConnector_implementation :: DataConnectorImplementation
  CustomDataConnector_properties :: PropertiesMap

datatype DataConnectorConfigRef =
    Ref_HttpDataConnector HttpDataConnectorConfig
  | Ref_GrpcDataConnector GrpcDataConnectorConfig
  | Ref_KafkaDataConnector KafkaDataConnectorConfig
  | Ref_CronDataConnector CronDataConnectorConfig
  | Ref_TemporalDataConnector TemporalDataConnectorConfig
  | Ref_CustomDataConnector CustomDataConnectorConfig

fun DataConnector_GetID :: "DataConnectorConfigRef \<Rightarrow> int" where
  "DataConnector_GetID (Ref_HttpDataConnector c) = HttpDataConnector_id c"
| "DataConnector_GetID (Ref_GrpcDataConnector c) = GrpcDataConnector_id c"
| "DataConnector_GetID (Ref_KafkaDataConnector c) = KafkaDataConnector_id c"
| "DataConnector_GetID (Ref_CronDataConnector c) = CronDataConnector_id c"
| "DataConnector_GetID (Ref_TemporalDataConnector c) = TemporalDataConnector_id c"
| "DataConnector_GetID (Ref_CustomDataConnector c) = CustomDataConnector_id c"

fun DataConnector_GetName :: "DataConnectorConfigRef \<Rightarrow> string" where
  "DataConnector_GetName (Ref_HttpDataConnector c) = HttpDataConnector_name c"
| "DataConnector_GetName (Ref_GrpcDataConnector c) = GrpcDataConnector_name c"
| "DataConnector_GetName (Ref_KafkaDataConnector c) = KafkaDataConnector_name c"
| "DataConnector_GetName (Ref_CronDataConnector c) = CronDataConnector_name c"
| "DataConnector_GetName (Ref_TemporalDataConnector c) = TemporalDataConnector_name c"
| "DataConnector_GetName (Ref_CustomDataConnector c) = CustomDataConnector_name c"

fun DataConnector_GetType :: "DataConnectorConfigRef \<Rightarrow> DataConnectorType" where
  "DataConnector_GetType (Ref_HttpDataConnector c) = DataConnectorType_kHTTP"
| "DataConnector_GetType (Ref_GrpcDataConnector c) = DataConnectorType_kGRPC"
| "DataConnector_GetType (Ref_KafkaDataConnector c) = DataConnectorType_kKafka"
| "DataConnector_GetType (Ref_CronDataConnector c) = DataConnectorType_kCron"
| "DataConnector_GetType (Ref_TemporalDataConnector c) = DataConnectorType_kTemporal"
| "DataConnector_GetType (Ref_CustomDataConnector c) = DataConnectorType_kCustom"

fun DataConnector_GetImplementation :: "DataConnectorConfigRef \<Rightarrow> DataConnectorImplementation" where
  "DataConnector_GetImplementation (Ref_HttpDataConnector c) = HttpDataConnector_implementation c"
| "DataConnector_GetImplementation (Ref_GrpcDataConnector c) = GrpcDataConnector_implementation c"
| "DataConnector_GetImplementation (Ref_KafkaDataConnector c) = KafkaDataConnector_implementation c"
| "DataConnector_GetImplementation (Ref_CronDataConnector c) = CronDataConnector_implementation c"
| "DataConnector_GetImplementation (Ref_TemporalDataConnector c) = TemporalDataConnector_implementation c"
| "DataConnector_GetImplementation (Ref_CustomDataConnector c) = CustomDataConnector_implementation c"

definition Parse_HttpDataConnectorConfig :: "yaml_cpp \<Rightarrow> yaml \<Rightarrow> (config_error, HttpDataConnectorConfig) result" where
  "Parse_HttpDataConnectorConfig Y v =
     bindR (int_or Y 0 v ''id'') (\<lambda>id'.
     bindR (string_or Y '''' v ''name'') (\<lambda>name'.
     bindR (field_or Y (Parse_DataConnectorImplementation Y) DataConnectorImplementation_kUndefined v ''implementation'') (\<lambda>implementation'.
     bindR (string_or Y '''' v ''module'') (\<lambda>module'.
     bindR (string_or Y '''' v ''host'') (\<lambda>host'.
     bindR (int_or Y 0 v ''port'') (\<lambda>port'.
     bindR (bool_or Y False v ''useDedicatedListener'') (\<lambda>useDedicatedListener'.
     bindR (ParseRemainingProperties Y v
       [''id'', ''name'', ''implementation'', ''module'', ''host'', ''port'', ''useDedicatedListener'']) (\<lambda>properties'.
       Inr \<lparr>HttpDataConnector_id = id', HttpDataConnector_name = name',
         HttpDataConnector_implementation = implementation', HttpDataConnector_module = module',
         HttpDataConnector_host = host', HttpDataConnector_port = port',
         HttpDataConnector_useDedicatedListener = useDedicatedListener',
         HttpDataConnector_properties = properties'\<rparr>))))))))"

definition Parse_GrpcDataConnectorConfig :: "yaml_cpp \<Rightarrow> yaml \<Rightarrow> (config_error, GrpcDataConnectorConfig) result" where
  "Parse_GrpcDataConnectorConfig Y v =
     bindR (int_or Y 0 v ''id'') (\<lambda>id'.
     bindR (string_or Y '''' v ''name'') (\<lambda>name'.
     bindR (field_or Y (Parse_DataConnectorImplementation Y) DataConnectorImplementation_kUndefined v ''implementation'') (\<lambda>implementation'.
     bindR (field_or Y (Parse_ProgrammingLanguage Y) ProgrammingLanguage_kUndefined v ''programmingLanguage'') (\<lambda>programmingLanguage'.
     bindR (string_or Y '''' v ''module'') (\<lambda>module'.
     bindR (string_or Y '''' v ''address'') (\<lambda>address'.
     bindR (int_or Y 1 v ''connectionsCount'') (\<lambda>connectionsCount'.
     if connectionsCount' < 1 then Inl (ConfigInvalidArgument ''gRPC connectionsCount must be at least 1'') else
     bindR (ParseRemainingProperties Y v
       [''id'', ''name'', ''implementation'', ''programmingLanguage'', ''module'', ''address'',
        ''connectionsCount'']) (\<lambda>properties'.
       Inr \<lparr>GrpcDataConnector_id = id', GrpcDataConnector_name = name',
         GrpcDataConnector_implementation = implementation',
         GrpcDataConnector_programmingLanguage = programmingLanguage',
         GrpcDataConnector_module = module', GrpcDataConnector_address = address',
         GrpcDataConnector_connectionsCount = connectionsCount',
         GrpcDataConnector_properties = properties'\<rparr>))))))))"

definition Parse_KafkaDataConnectorConfig :: "yaml_cpp \<Rightarrow> yaml \<Rightarrow> (config_error, KafkaDataConnectorConfig) result" where
  "Parse_KafkaDataConnectorConfig Y v =
     bindR (int_or Y 0 v ''id'') (\<lambda>id'.
     bindR (string_or Y '''' v ''name'') (\<lambda>name'.
     bindR (field_or Y (Parse_DataConnectorImplementation Y) DataConnectorImplementation_kUndefined v ''implementation'') (\<lambda>implementation'.
     bindR (field_or Y (Parse_ProgrammingLanguage Y) ProgrammingLanguage_kUndefined v ''programmingLanguage'') (\<lambda>programmingLanguage'.
     bindR (string_or Y '''' v ''brokers'') (\<lambda>brokers'.
     bindR (string_or Y '''' v ''version'') (\<lambda>version'.
     bindR (float_or Y 0 v ''dialTimeout'') (\<lambda>dialTimeout'.
     bindR (bool_or Y False v ''usePartitioner'') (\<lambda>usePartitioner'.
     bindR (bool_or Y False v ''async'') (\<lambda>async'.
     bindR (field_or Y (Parse_KafkaSecurityProtocol Y) KafkaSecurityProtocol_kPLAINTEXT v ''securityProtocol'') (\<lambda>securityProtocol'.
     bindR (field_or Y (Parse_KafkaSaslMechanism Y) KafkaSaslMechanism_kPLAIN v ''saslMechanism'') (\<lambda>saslMechanism'.
     bindR (string_or Y '''' v ''username'') (\<lambda>username'.
     bindR (string_or Y '''' v ''password'') (\<lambda>password'.
     bindR (ParseRemainingProperties Y v
       [''id'', ''name'', ''implementation'', ''programmingLanguage'', ''brokers'', ''version'',
        ''dialTimeout'', ''usePartitioner'', ''async'', ''securityProtocol'', ''saslMechanism'',
        ''username'', ''password'']) (\<lambda>properties'.
       Inr \<lparr>KafkaDataConnector_id = id', KafkaDataConnector_name = name',
         KafkaDataConnector_implementation = implementation',
         KafkaDataConnector_programmingLanguage = programmingLanguage',
         KafkaDataConnector_brokers = brokers', KafkaDataConnector_version = version',
         KafkaDataConnector_dialTimeout = dialTimeout',
         KafkaDataConnector_usePartitioner = usePartitioner', KafkaDataConnector_async = async',
         KafkaDataConnector_securityProtocol = securityProtocol',
         KafkaDataConnector_saslMechanism = saslMechanism', KafkaDataConnector_username = username',
         KafkaDataConnector_password = password', KafkaDataConnector_properties = properties'\<rparr>))))))))))))))"

definition Parse_CronDataConnectorConfig :: "yaml_cpp \<Rightarrow> yaml \<Rightarrow> (config_error, CronDataConnectorConfig) result" where
  "Parse_CronDataConnectorConfig Y v =
     bindR (int_or Y 0 v ''id'') (\<lambda>id'.
     bindR (string_or Y '''' v ''name'') (\<lambda>name'.
     bindR (field_or Y (Parse_DataConnectorImplementation Y) DataConnectorImplementation_kUndefined v ''implementation'') (\<lambda>implementation'.
     bindR (ParseRemainingProperties Y v
       [''id'', ''name'', ''implementation'']) (\<lambda>properties'.
       Inr \<lparr>CronDataConnector_id = id', CronDataConnector_name = name',
         CronDataConnector_implementation = implementation', CronDataConnector_properties = properties'\<rparr>))))"

definition Parse_TemporalDataConnectorConfig :: "yaml_cpp \<Rightarrow> yaml \<Rightarrow> (config_error, TemporalDataConnectorConfig) result" where
  "Parse_TemporalDataConnectorConfig Y v =
     bindR (int_or Y 0 v ''id'') (\<lambda>id'.
     bindR (string_or Y '''' v ''name'') (\<lambda>name'.
     bindR (field_or Y (Parse_DataConnectorImplementation Y) DataConnectorImplementation_kUndefined v ''implementation'') (\<lambda>implementation'.
     bindR (string_or Y '''' v ''address'') (\<lambda>address'.
     bindR (string_or Y '''' v ''namespace'') (\<lambda>namespaceName'.
     bindR (string_or Y '''' v ''identity'') (\<lambda>identity'.
     bindR (string_or Y '''' v ''apiKey'') (\<lambda>apiKey'.
     bindR (bool_or Y False v ''tlsEnabled'') (\<lambda>tlsEnabled'.
     bindR (string_or Y '''' v ''tlsServerName'') (\<lambda>tlsServerName'.
     bindR (string_or Y '''' v ''tlsCaFile'') (\<lambda>tlsCaFile'.
     bindR (string_or Y '''' v ''tlsCertFile'') (\<lambda>tlsCertFile'.
     bindR (string_or Y '''' v ''tlsKeyFile'') (\<lambda>tlsKeyFile'.
     bindR (int_or Y 0 v ''workerStopTimeout'') (\<lambda>workerStopTimeout'.
     bindR (ParseRemainingProperties Y v
       [''id'', ''name'', ''implementation'', ''address'', ''namespace'', ''identity'', ''apiKey'',
        ''tlsEnabled'', ''tlsServerName'', ''tlsCaFile'', ''tlsCertFile'', ''tlsKeyFile'',
        ''workerStopTimeout'']) (\<lambda>properties'.
       Inr \<lparr>TemporalDataConnector_id = id', TemporalDataConnector_name = name',
         TemporalDataConnector_implementation = implementation',
         TemporalDataConnector_address = address',
         TemporalDataConnector_namespaceName = namespaceName',
         TemporalDataConnector_identity = identity', TemporalDataConnector_apiKey = apiKey',
         TemporalDataConnector_tlsEnabled = tlsEnabled',
         TemporalDataConnector_tlsServerName = tlsServerName',
         TemporalDataConnector_tlsCaFile = tlsCaFile',
         TemporalDataConnector_tlsCertFile = tlsCertFile',
         TemporalDataConnector_tlsKeyFile = tlsKeyFile',
         TemporalDataConnector_workerStopTimeout = workerStopTimeout',
         TemporalDataConnector_properties = properties'\<rparr>))))))))))))))"

definition Parse_CustomDataConnectorConfig :: "yaml_cpp \<Rightarrow> yaml \<Rightarrow> (config_error, CustomDataConnectorConfig) result" where
  "Parse_CustomDataConnectorConfig Y v =
     bindR (int_or Y 0 v ''id'') (\<lambda>id'.
     bindR (string_or Y '''' v ''name'') (\<lambda>name'.
     bindR (field_or Y (Parse_DataConnectorImplementation Y) DataConnectorImplementation_kUndefined v ''implementation'') (\<lambda>implementation'.
     bindR (ParseRemainingProperties Y v
       [''id'', ''name'', ''implementation'']) (\<lambda>properties'.
       Inr \<lparr>CustomDataConnector_id = id', CustomDataConnector_name = name',
         CustomDataConnector_implementation = implementation',
         CustomDataConnector_properties = properties'\<rparr>))))"

definition document_HttpDataConnectorConfig :: "yaml_printer \<Rightarrow> HttpDataConnectorConfig \<Rightarrow> (yaml \<times> yaml) list" where
  "document_HttpDataConnectorConfig P c =
    [(YScalar ''id'', yp_int P (HttpDataConnector_id c)),
     (YScalar ''name'', YScalar (HttpDataConnector_name c)),
     (YScalar ''implementation'', YScalar (spelling kDataConnectorImplementationMap (HttpDataConnector_implementation c))),
     (YScalar ''module'', YScalar (HttpDataConnector_module c)),
     (YScalar ''host'', YScalar (HttpDataConnector_host c)),
     (YScalar ''port'', yp_int P (HttpDataConnector_port c)),
     (YScalar ''useDedicatedListener'', yp_bool P (HttpDataConnector_useDedicatedListener c))]"

definition document_GrpcDataConnectorConfig :: "yaml_printer \<Rightarrow> GrpcDataConnectorConfig \<Rightarrow> (yaml \<times> yaml) list" where
  "document_GrpcDataConnectorConfig P c =
    [(YScalar ''id'', yp_int P (GrpcDataConnector_id c)),
     (YScalar ''name'', YScalar (GrpcDataConnector_name c)),
     (YScalar ''implementation'', YScalar (spelling kDataConnectorImplementationMap (GrpcDataConnector_implementation c))),
     (YScalar ''programmingLanguage'', YScalar (spelling kProgrammingLanguageMap (GrpcDataConnector_programmingLanguage c))),
     (YScalar ''module'', YScalar (GrpcDataConnector_module c)),
     (YScalar ''address'', YScalar (GrpcDataConnector_address c)),
     (YScalar ''connectionsCount'', yp_int P (GrpcDataConnector_connectionsCount c))]"

definition document_KafkaDataConnectorConfig :: "yaml_printer \<Rightarrow> KafkaDataConnectorConfig \<Rightarrow> (yaml \<times> yaml) list" where
  "document_KafkaDataConnectorConfig P c =
    [(YScalar ''id'', yp_int P (KafkaDataConnector_id c)),
     (YScalar ''name'', YScalar (KafkaDataConnector_name c)),
     (YScalar ''implementation'', YScalar (spelling kDataConnectorImplementationMap (KafkaDataConnector_implementation c))),
     (YScalar ''programmingLanguage'', YScalar (spelling kProgrammingLanguageMap (KafkaDataConnector_programmingLanguage c))),
     (YScalar ''brokers'', YScalar (KafkaDataConnector_brokers c)),
     (YScalar ''version'', YScalar (KafkaDataConnector_version c)),
     (YScalar ''dialTimeout'', yp_float P (KafkaDataConnector_dialTimeout c)),
     (YScalar ''usePartitioner'', yp_bool P (KafkaDataConnector_usePartitioner c)),
     (YScalar ''async'', yp_bool P (KafkaDataConnector_async c)),
     (YScalar ''securityProtocol'', YScalar (spelling kKafkaSecurityProtocolMap (KafkaDataConnector_securityProtocol c))),
     (YScalar ''saslMechanism'', YScalar (spelling kKafkaSaslMechanismMap (KafkaDataConnector_saslMechanism c))),
     (YScalar ''username'', YScalar (KafkaDataConnector_username c)),
     (YScalar ''password'', YScalar (KafkaDataConnector_password c))]"

definition document_CronDataConnectorConfig :: "yaml_printer \<Rightarrow> CronDataConnectorConfig \<Rightarrow> (yaml \<times> yaml) list" where
  "document_CronDataConnectorConfig P c =
    [(YScalar ''id'', yp_int P (CronDataConnector_id c)),
     (YScalar ''name'', YScalar (CronDataConnector_name c)),
     (YScalar ''implementation'', YScalar (spelling kDataConnectorImplementationMap (CronDataConnector_implementation c)))]"

definition document_TemporalDataConnectorConfig :: "yaml_printer \<Rightarrow> TemporalDataConnectorConfig \<Rightarrow> (yaml \<times> yaml) list" where
  "document_TemporalDataConnectorConfig P c =
    [(YScalar ''id'', yp_int P (TemporalDataConnector_id c)),
     (YScalar ''name'', YScalar (TemporalDataConnector_name c)),
     (YScalar ''implementation'', YScalar (spelling kDataConnectorImplementationMap (TemporalDataConnector_implementation c))),
     (YScalar ''address'', YScalar (TemporalDataConnector_address c)),
     (YScalar ''namespace'', YScalar (TemporalDataConnector_namespaceName c)),
     (YScalar ''identity'', YScalar (TemporalDataConnector_identity c)),
     (YScalar ''apiKey'', YScalar (TemporalDataConnector_apiKey c)),
     (YScalar ''tlsEnabled'', yp_bool P (TemporalDataConnector_tlsEnabled c)),
     (YScalar ''tlsServerName'', YScalar (TemporalDataConnector_tlsServerName c)),
     (YScalar ''tlsCaFile'', YScalar (TemporalDataConnector_tlsCaFile c)),
     (YScalar ''tlsCertFile'', YScalar (TemporalDataConnector_tlsCertFile c)),
     (YScalar ''tlsKeyFile'', YScalar (TemporalDataConnector_tlsKeyFile c)),
     (YScalar ''workerStopTimeout'', yp_int P (TemporalDataConnector_workerStopTimeout c))]"

definition document_CustomDataConnectorConfig :: "yaml_printer \<Rightarrow> CustomDataConnectorConfig \<Rightarrow> (yaml \<times> yaml) list" where
  "document_CustomDataConnectorConfig P c =
    [(YScalar ''id'', yp_int P (CustomDataConnector_id c)),
     (YScalar ''name'', YScalar (CustomDataConnector_name c)),
     (YScalar ''implementation'', YScalar (spelling kDataConnectorImplementationMap (CustomDataConnector_implementation c)))]"

fun document_connector :: "yaml_printer \<Rightarrow> DataConnectorConfigRef \<Rightarrow> (yaml \<times> yaml) list" where
  "document_connector P (Ref_HttpDataConnector c) = document_HttpDataConnectorConfig P c"
| "document_connector P (Ref_GrpcDataConnector c) = document_GrpcDataConnectorConfig P c"
| "document_connector P (Ref_KafkaDataConnector c) = document_KafkaDataConnectorConfig P c"
| "document_connector P (Ref_CronDataConnector c) = document_CronDataConnectorConfig P c"
| "document_connector P (Ref_TemporalDataConnector c) = document_TemporalDataConnectorConfig P c"
| "document_connector P (Ref_CustomDataConnector c) = document_CustomDataConnectorConfig P c"

text \<open>The numbers such a document spells.\<close>

definition numbers_HttpDataConnectorConfig :: "HttpDataConnectorConfig \<Rightarrow> number list" where
  "numbers_HttpDataConnectorConfig c =
    [NInt (HttpDataConnector_id c), NInt (HttpDataConnector_port c)]"

definition numbers_GrpcDataConnectorConfig :: "GrpcDataConnectorConfig \<Rightarrow> number list" where
  "numbers_GrpcDataConnectorConfig c =
    [NInt (GrpcDataConnector_id c), NInt (GrpcDataConnector_connectionsCount c)]"

definition numbers_KafkaDataConnectorConfig :: "KafkaDataConnectorConfig \<Rightarrow> number list" where
  "numbers_KafkaDataConnectorConfig c =
    [NInt (KafkaDataConnector_id c), NFloat (KafkaDataConnector_dialTimeout c)]"

definition numbers_CronDataConnectorConfig :: "CronDataConnectorConfig \<Rightarrow> number list" where
  "numbers_CronDataConnectorConfig c =
    [NInt (CronDataConnector_id c)]"

definition numbers_TemporalDataConnectorConfig :: "TemporalDataConnectorConfig \<Rightarrow> number list" where
  "numbers_TemporalDataConnectorConfig c =
    [NInt (TemporalDataConnector_id c), NInt (TemporalDataConnector_workerStopTimeout c)]"

definition numbers_CustomDataConnectorConfig :: "CustomDataConnectorConfig \<Rightarrow> number list" where
  "numbers_CustomDataConnectorConfig c =
    [NInt (CustomDataConnector_id c)]"

fun numbers_connector :: "DataConnectorConfigRef \<Rightarrow> number list" where
  "numbers_connector (Ref_HttpDataConnector c) = numbers_HttpDataConnectorConfig c"
| "numbers_connector (Ref_GrpcDataConnector c) = numbers_GrpcDataConnectorConfig c"
| "numbers_connector (Ref_KafkaDataConnector c) = numbers_KafkaDataConnectorConfig c"
| "numbers_connector (Ref_CronDataConnector c) = numbers_CronDataConnectorConfig c"
| "numbers_connector (Ref_TemporalDataConnector c) = numbers_TemporalDataConnectorConfig c"
| "numbers_connector (Ref_CustomDataConnector c) = numbers_CustomDataConnectorConfig c"

fun connector_properties :: "DataConnectorConfigRef \<Rightarrow> PropertiesMap" where
  "connector_properties (Ref_HttpDataConnector c) = HttpDataConnector_properties c"
| "connector_properties (Ref_GrpcDataConnector c) = GrpcDataConnector_properties c"
| "connector_properties (Ref_KafkaDataConnector c) = KafkaDataConnector_properties c"
| "connector_properties (Ref_CronDataConnector c) = CronDataConnector_properties c"
| "connector_properties (Ref_TemporalDataConnector c) = TemporalDataConnector_properties c"
| "connector_properties (Ref_CustomDataConnector c) = CustomDataConnector_properties c"

fun connector_valid :: "DataConnectorConfigRef \<Rightarrow> bool" where
  "connector_valid (Ref_HttpDataConnector c) = True"
| "connector_valid (Ref_GrpcDataConnector c) = (1 \<le> GrpcDataConnector_connectionsCount c)"
| "connector_valid (Ref_KafkaDataConnector c) = True"
| "connector_valid (Ref_CronDataConnector c) = True"
| "connector_valid (Ref_TemporalDataConnector c) = True"
| "connector_valid (Ref_CustomDataConnector c) = True"

fun Parse_connector :: "DataConnectorType \<Rightarrow> yaml_cpp \<Rightarrow> yaml \<Rightarrow> (config_error, DataConnectorConfigRef) result" where
  "Parse_connector DataConnectorType_kHTTP Y v = bindR (Parse_HttpDataConnectorConfig Y v) (\<lambda>c. Inr (Ref_HttpDataConnector c))"
| "Parse_connector DataConnectorType_kGRPC Y v = bindR (Parse_GrpcDataConnectorConfig Y v) (\<lambda>c. Inr (Ref_GrpcDataConnector c))"
| "Parse_connector DataConnectorType_kKafka Y v = bindR (Parse_KafkaDataConnectorConfig Y v) (\<lambda>c. Inr (Ref_KafkaDataConnector c))"
| "Parse_connector DataConnectorType_kCron Y v = bindR (Parse_CronDataConnectorConfig Y v) (\<lambda>c. Inr (Ref_CronDataConnector c))"
| "Parse_connector DataConnectorType_kTemporal Y v = bindR (Parse_TemporalDataConnectorConfig Y v) (\<lambda>c. Inr (Ref_TemporalDataConnector c))"
| "Parse_connector DataConnectorType_kCustom Y v = bindR (Parse_CustomDataConnectorConfig Y v) (\<lambda>c. Inr (Ref_CustomDataConnector c))"
| "Parse_connector _ Y v = Inl (ConfigLogicError ''no such connector configuration'')"

lemma Parse_HttpDataConnectorConfig_document:
  assumes "yaml_cpp_laws Y" "yaml_reads Y P" "fresh_properties (document_HttpDataConnectorConfig P c) props"
    "HttpDataConnector_properties c = fmap_of_list props" "list_all representable (numbers_HttpDataConnectorConfig c)"
  shows "Parse_HttpDataConnectorConfig Y (YMap (document_HttpDataConnectorConfig P c @ property_entries props)) = Inr c"
  unfolding Parse_HttpDataConnectorConfig_def
  by (subst ParseRemainingProperties_document [OF assms(1,3)])
    (simp_all add: document_HttpDataConnectorConfig_def read_back assms(1,2) assms(5) [unfolded numbers_HttpDataConnectorConfig_def, simplified] assms(4) [symmetric])

lemma Parse_GrpcDataConnectorConfig_document:
  assumes "yaml_cpp_laws Y" "yaml_reads Y P" "fresh_properties (document_GrpcDataConnectorConfig P c) props"
    "GrpcDataConnector_properties c = fmap_of_list props" "1 \<le> GrpcDataConnector_connectionsCount c" "list_all representable (numbers_GrpcDataConnectorConfig c)"
  shows "Parse_GrpcDataConnectorConfig Y (YMap (document_GrpcDataConnectorConfig P c @ property_entries props)) = Inr c"
  unfolding Parse_GrpcDataConnectorConfig_def
  by (subst ParseRemainingProperties_document [OF assms(1,3)])
    (simp_all add: document_GrpcDataConnectorConfig_def read_back assms(1,2) assms(6) [unfolded numbers_GrpcDataConnectorConfig_def, simplified] assms(4) [symmetric] not_less assms(5))

lemma Parse_KafkaDataConnectorConfig_document:
  assumes "yaml_cpp_laws Y" "yaml_reads Y P" "fresh_properties (document_KafkaDataConnectorConfig P c) props"
    "KafkaDataConnector_properties c = fmap_of_list props" "list_all representable (numbers_KafkaDataConnectorConfig c)"
  shows "Parse_KafkaDataConnectorConfig Y (YMap (document_KafkaDataConnectorConfig P c @ property_entries props)) = Inr c"
  unfolding Parse_KafkaDataConnectorConfig_def
  by (subst ParseRemainingProperties_document [OF assms(1,3)])
    (simp_all add: document_KafkaDataConnectorConfig_def read_back assms(1,2) assms(5) [unfolded numbers_KafkaDataConnectorConfig_def, simplified] assms(4) [symmetric])

lemma Parse_CronDataConnectorConfig_document:
  assumes "yaml_cpp_laws Y" "yaml_reads Y P" "fresh_properties (document_CronDataConnectorConfig P c) props"
    "CronDataConnector_properties c = fmap_of_list props" "list_all representable (numbers_CronDataConnectorConfig c)"
  shows "Parse_CronDataConnectorConfig Y (YMap (document_CronDataConnectorConfig P c @ property_entries props)) = Inr c"
  unfolding Parse_CronDataConnectorConfig_def
  by (subst ParseRemainingProperties_document [OF assms(1,3)])
    (simp_all add: document_CronDataConnectorConfig_def read_back assms(1,2) assms(5) [unfolded numbers_CronDataConnectorConfig_def, simplified] assms(4) [symmetric])

lemma Parse_TemporalDataConnectorConfig_document:
  assumes "yaml_cpp_laws Y" "yaml_reads Y P" "fresh_properties (document_TemporalDataConnectorConfig P c) props"
    "TemporalDataConnector_properties c = fmap_of_list props" "list_all representable (numbers_TemporalDataConnectorConfig c)"
  shows "Parse_TemporalDataConnectorConfig Y (YMap (document_TemporalDataConnectorConfig P c @ property_entries props)) = Inr c"
  unfolding Parse_TemporalDataConnectorConfig_def
  by (subst ParseRemainingProperties_document [OF assms(1,3)])
    (simp_all add: document_TemporalDataConnectorConfig_def read_back assms(1,2) assms(5) [unfolded numbers_TemporalDataConnectorConfig_def, simplified] assms(4) [symmetric])

lemma Parse_CustomDataConnectorConfig_document:
  assumes "yaml_cpp_laws Y" "yaml_reads Y P" "fresh_properties (document_CustomDataConnectorConfig P c) props"
    "CustomDataConnector_properties c = fmap_of_list props" "list_all representable (numbers_CustomDataConnectorConfig c)"
  shows "Parse_CustomDataConnectorConfig Y (YMap (document_CustomDataConnectorConfig P c @ property_entries props)) = Inr c"
  unfolding Parse_CustomDataConnectorConfig_def
  by (subst ParseRemainingProperties_document [OF assms(1,3)])
    (simp_all add: document_CustomDataConnectorConfig_def read_back assms(1,2) assms(5) [unfolded numbers_CustomDataConnectorConfig_def, simplified] assms(4) [symmetric])

lemmas connector_documents =
  Parse_HttpDataConnectorConfig_document
  Parse_GrpcDataConnectorConfig_document
  Parse_KafkaDataConnectorConfig_document
  Parse_CronDataConnectorConfig_document
  Parse_TemporalDataConnectorConfig_document
  Parse_CustomDataConnectorConfig_document

subsection \<open>Properties\<close>

text \<open>What a parser lets through is valid: the checks stand on the path to every result.\<close>

lemma Parse_valid:
  "Parse_CronEndpointConfig Y v = Inr c \<Longrightarrow> CronEndpoint_timezone c = ''UTC''"
  "Parse_TemporalEndpointConfig Y v = Inr c' \<Longrightarrow> TemporalEndpoint_timezone c' = ''UTC''"
  "Parse_GrpcDataConnectorConfig Y v = Inr c'' \<Longrightarrow> 1 \<le> GrpcDataConnector_connectionsCount c''"
  by (auto simp: Parse_CronEndpointConfig_def Parse_TemporalEndpointConfig_def Parse_GrpcDataConnectorConfig_def
      bindR_eq_Inr split: if_splits)

text \<open>The parsers of the six endpoint kinds recover every valid configuration from a document that spells it,
  and produce valid configurations only: a scheduled endpoint is in UTC.\<close>

theorem endpoint_config_round_trip:
  assumes "yaml_cpp_laws Y" "yaml_reads Y P" "fresh_properties (document_endpoint P c) props"
    and "endpoint_properties c = fmap_of_list props" "list_all representable (numbers_endpoint c)"
  shows "(endpoint_valid c \<longrightarrow>
       Parse_endpoint (Endpoint_GetType c) Y (YMap (document_endpoint P c @ property_entries props)) = Inr c)
     \<and> (\<forall>kind v c'. Parse_endpoint kind Y v = Inr c' \<longrightarrow> endpoint_valid c' \<and> Endpoint_GetType c' = kind)"
proof (intro conjI impI allI)
  assume "endpoint_valid c"
  then show "Parse_endpoint (Endpoint_GetType c) Y (YMap (document_endpoint P c @ property_entries props)) = Inr c"
    using assms by (cases c) (simp_all add: endpoint_documents)
next
  fix kind v c' assume "Parse_endpoint kind Y v = Inr c'"
  then show "endpoint_valid c'" "Endpoint_GetType c' = kind"
    by (cases kind; auto simp: bindR_eq_Inr Parse_valid)+
qed

text \<open>The same for the six kinds of data connector; a gRPC connector has at least one connection.\<close>

theorem connector_config_round_trip:
  assumes "yaml_cpp_laws Y" "yaml_reads Y P" "fresh_properties (document_connector P c) props"
    and "connector_properties c = fmap_of_list props" "list_all representable (numbers_connector c)"
  shows "(connector_valid c \<longrightarrow>
       Parse_connector (DataConnector_GetType c) Y (YMap (document_connector P c @ property_entries props)) = Inr c)
     \<and> (\<forall>kind v c'. Parse_connector kind Y v = Inr c' \<longrightarrow> connector_valid c' \<and> DataConnector_GetType c' = kind)"
proof (intro conjI impI allI)
  assume "connector_valid c"
  then show "Parse_connector (DataConnector_GetType c) Y (YMap (document_connector P c @ property_entries props)) = Inr c"
    using assms by (cases c) (simp_all add: connector_documents)
next
  fix kind v c' assume "Parse_connector kind Y v = Inr c'"
  then show "connector_valid c'" "DataConnector_GetType c' = kind"
    by (cases kind; auto simp: bindR_eq_Inr Parse_valid)+
qed

text \<open>Examples for the witnesses.\<close>

definition example_cron :: CronEndpointConfig where
  "example_cron = \<lparr>CronEndpoint_id = 3, CronEndpoint_name = ''tick'', CronEndpoint_idDataConnector = 2,
     CronEndpoint_tracingEnabled = False, CronEndpoint_enabled = True, CronEndpoint_schedule = ''0 0 * * *'',
     CronEndpoint_timezone = ''UTC'', CronEndpoint_overlapPolicy = ScheduleOverlapPolicy_kSkip,
     CronEndpoint_missedRunPolicy = ScheduleMissedRunPolicy_kSkip,
     CronEndpoint_function = \<lparr>functionName = ''f'', functionPackage = '''', publicFunction = False,
       functionDescription = '''', functionInitializerGroup = '''', functionModule = ''''\<rparr>,
     CronEndpoint_properties = fmap_of_list [(''note'', YScalar ''x'')]\<rparr>"

definition example_grpc :: GrpcDataConnectorConfig where
  "example_grpc = \<lparr>GrpcDataConnector_id = 4, GrpcDataConnector_name = ''rpc'',
     GrpcDataConnector_implementation = DataConnectorImplementation_kAsioGRPC,
     GrpcDataConnector_programmingLanguage = ProgrammingLanguage_kCppBoost, GrpcDataConnector_module = '''',
     GrpcDataConnector_address = ''localhost:1'', GrpcDataConnector_connectionsCount = 2,
     GrpcDataConnector_properties = fmap_of_list []\<rparr>"

theorem endpoint_config_round_trip_witness:
  "endpoint_valid (Ref_CronEndpoint example_cron) \<and>
   Parse_endpoint DataConnectorType_kCron plain_yaml
     (YMap (document_endpoint plain_printer (Ref_CronEndpoint example_cron) @ property_entries [(''note'', YScalar ''x'')]))
   = Inr (Ref_CronEndpoint example_cron)"
proof -
  let ?c = "Ref_CronEndpoint example_cron"
  have "fresh_properties (document_endpoint plain_printer ?c) [(''note'', YScalar ''x'')]"
    by (simp add: fresh_properties_def document_CronEndpointConfig_def document_FunctionFields_def)
  moreover have "endpoint_properties ?c = fmap_of_list [(''note'', YScalar ''x'')]" "endpoint_valid ?c"
    "list_all representable (numbers_endpoint ?c)"
    by (simp_all add: example_cron_def numbers_CronEndpointConfig_def representable.simps)
  ultimately show ?thesis
    using endpoint_config_round_trip [OF plain_yaml_laws plain_yaml_reads] by fastforce
qed

theorem connector_config_round_trip_witness:
  "connector_valid (Ref_GrpcDataConnector example_grpc) \<and>
   Parse_connector DataConnectorType_kGRPC plain_yaml
     (YMap (document_connector plain_printer (Ref_GrpcDataConnector example_grpc) @ property_entries []))
   = Inr (Ref_GrpcDataConnector example_grpc)"
proof -
  let ?c = "Ref_GrpcDataConnector example_grpc"
  have "fresh_properties (document_connector plain_printer ?c) []" by (simp add: fresh_properties_def)
  moreover have "connector_properties ?c = fmap_of_list []" "connector_valid ?c"
    "list_all representable (numbers_connector ?c)"
    by (simp_all add: example_grpc_def numbers_GrpcDataConnectorConfig_def representable.simps)
  ultimately show ?thesis
    using connector_config_round_trip [OF plain_yaml_laws plain_yaml_reads] by fastforce
qed

end
