(* ===== verification/ConfigLinks.thy ===== *)
theory ConfigLinks
  imports ServiceApi
begin

section \<open>Links and call semantics (runtime/config/link_types.hpp)\<close>

text \<open>
  A link between two streams may fix how the consumer is called: directly, through a task pool,
  through a priority task pool, or in parallel. The document spells this either as one scalar with
  the options beside it, or as a mapping with one key per semantics.
\<close>

record FunctionCallSemanticsConfig =
  FunctionCall_async :: bool

record TaskPoolCallSemanticsConfig =
  TaskPool_poolName :: string

record PriorityTaskPoolCallSemanticsConfig =
  PriorityTaskPool_poolName :: string
  PriorityTaskPool_priority :: int

datatype ParallelCallSemanticsConfig = ParallelCallSemanticsConfig

record CallSemanticsGroup =
  functionCall :: "FunctionCallSemanticsConfig option"
  taskPool :: "TaskPoolCallSemanticsConfig option"
  priorityTaskPool :: "PriorityTaskPoolCallSemanticsConfig option"
  parallelCall :: "ParallelCallSemanticsConfig option"

definition no_semantics :: CallSemanticsGroup where
  "no_semantics = \<lparr>functionCall = None, taskPool = None, priorityTaskPool = None, parallelCall = None\<rparr>"

definition has_value :: "'a option \<Rightarrow> nat" where
  "has_value x = (if x = None then 0 else 1)"

definition CallSemanticsGroup_Validate :: "CallSemanticsGroup \<Rightarrow> (config_error, unit) result" where
  "CallSemanticsGroup_Validate g =
     (let n = has_value (functionCall g) + has_value (taskPool g) + has_value (priorityTaskPool g)
              + has_value (parallelCall g)
      in if n \<noteq> 1
         then Inl (ConfigRuntimeError (''exactly one call semantics must be specified, got '' @ to_decimal n))
         else Inr ())"

record LinkConfig =
  Link_from :: int
  Link_to :: int
  Link_callSemantics :: "CallSemanticsGroup option"
  Link_properties :: PropertiesMap

fun error_what :: "config_error \<Rightarrow> string" where
  "error_what YamlException = ''yaml''"
| "error_what (ConfigInvalidArgument e) = e"
| "error_what (ConfigRuntimeError e) = e"
| "error_what (ConfigLogicError e) = e"

definition LinkConfig_Validate :: "LinkConfig \<Rightarrow> (config_error, unit) result" where
  "LinkConfig_Validate l =
     (case Link_callSemantics l of
        None \<Rightarrow> Inr ()
      | Some g \<Rightarrow>
          (case CallSemanticsGroup_Validate g of
             Inr u \<Rightarrow> Inr u
           | Inl e \<Rightarrow> Inl (ConfigRuntimeError (''link from='' @ int_to_decimal (Link_from l) @ '' to=''
                       @ int_to_decimal (Link_to l) @ '' has invalid configuration: '' @ error_what e))))"

fun MakeCallSemanticsGroup ::
  "CallSemantics \<Rightarrow> string \<Rightarrow> int \<Rightarrow> bool \<Rightarrow> (config_error, CallSemanticsGroup) result"
where
  "MakeCallSemanticsGroup CallSemantics_kFunctionCall poolName priority async =
     Inr (no_semantics\<lparr>functionCall := Some \<lparr>FunctionCall_async = async\<rparr>\<rparr>)"
| "MakeCallSemanticsGroup CallSemantics_kTaskPool poolName priority async =
     Inr (no_semantics\<lparr>taskPool := Some \<lparr>TaskPool_poolName = poolName\<rparr>\<rparr>)"
| "MakeCallSemanticsGroup CallSemantics_kPriorityTaskPool poolName priority async =
     Inr (no_semantics\<lparr>priorityTaskPool :=
            Some \<lparr>PriorityTaskPool_poolName = poolName, PriorityTaskPool_priority = priority\<rparr>\<rparr>)"
| "MakeCallSemanticsGroup CallSemantics_kParallelCall poolName priority async =
     Inr (no_semantics\<lparr>parallelCall := Some ParallelCallSemanticsConfig\<rparr>)"
| "MakeCallSemanticsGroup _ poolName priority async =
     Inl (ConfigRuntimeError ''undefined or inherited semantics has no concrete call-semantics group'')"

definition Parse_FunctionCallSemanticsConfig ::
  "yaml_cpp \<Rightarrow> yaml \<Rightarrow> (config_error, FunctionCallSemanticsConfig) result" where
  "Parse_FunctionCallSemanticsConfig Y v =
     bindR (bool_or Y False v ''async'') (\<lambda>async. Inr \<lparr>FunctionCall_async = async\<rparr>)"

definition Parse_TaskPoolCallSemanticsConfig ::
  "yaml_cpp \<Rightarrow> yaml \<Rightarrow> (config_error, TaskPoolCallSemanticsConfig) result" where
  "Parse_TaskPoolCallSemanticsConfig Y v =
     bindR (string_or Y '''' v ''poolName'') (\<lambda>poolName. Inr \<lparr>TaskPool_poolName = poolName\<rparr>)"

definition Parse_PriorityTaskPoolCallSemanticsConfig ::
  "yaml_cpp \<Rightarrow> yaml \<Rightarrow> (config_error, PriorityTaskPoolCallSemanticsConfig) result" where
  "Parse_PriorityTaskPoolCallSemanticsConfig Y v =
     bindR (string_or Y '''' v ''poolName'') (\<lambda>poolName.
     bindR (int_or Y 0 v ''priority'') (\<lambda>priority.
       Inr \<lparr>PriorityTaskPool_poolName = poolName, PriorityTaskPool_priority = priority\<rparr>))"

definition Parse_ParallelCallSemanticsConfig ::
  "yaml_cpp \<Rightarrow> yaml \<Rightarrow> (config_error, ParallelCallSemanticsConfig) result" where
  "Parse_ParallelCallSemanticsConfig Y v = Inr ParallelCallSemanticsConfig"

text \<open>\<open>if (const auto v = value[key]; !v.IsMissing()) field = v.As<T>()\<close>\<close>

definition optional_field ::
  "yaml_cpp \<Rightarrow> (yaml \<Rightarrow> (config_error, 'a) result) \<Rightarrow> yaml \<Rightarrow> string \<Rightarrow> (config_error, 'a option) result"
where
  "optional_field Y As v k =
     bindR (yc_subscript Y v k) (\<lambda>x. if IsMissing x then Inr None else bindR (As x) (\<lambda>a. Inr (Some a)))"

definition Parse_CallSemanticsGroup :: "yaml_cpp \<Rightarrow> yaml \<Rightarrow> (config_error, CallSemanticsGroup) result" where
  "Parse_CallSemanticsGroup Y v =
     (if IsString v
      then bindR (Parse_CallSemantics Y v) (\<lambda>type. MakeCallSemanticsGroup type '''' 0 False)
      else
        bindR (yc_subscript Y v ''functionCall'') (\<lambda>function.
        bindR (if IsMissing function
               then bindR (yc_subscript Y v ''function'') (yc_assign Y function)
               else Inr function) (\<lambda>function.
        bindR (if IsMissing function then Inr None
               else bindR (Parse_FunctionCallSemanticsConfig Y function) (\<lambda>f. Inr (Some f))) (\<lambda>f.
        bindR (optional_field Y (Parse_TaskPoolCallSemanticsConfig Y) v ''taskPool'') (\<lambda>t.
        bindR (optional_field Y (Parse_PriorityTaskPoolCallSemanticsConfig Y) v ''priorityTaskPool'') (\<lambda>p.
        bindR (optional_field Y (Parse_ParallelCallSemanticsConfig Y) v ''parallelCall'') (\<lambda>c.
          Inr \<lparr>functionCall = f, taskPool = t, priorityTaskPool = p, parallelCall = c\<rparr>)))))))"

definition Parse_LinkConfig :: "yaml_cpp \<Rightarrow> yaml \<Rightarrow> (config_error, LinkConfig) result" where
  "Parse_LinkConfig Y v =
     bindR (int_or Y 0 v ''from'') (\<lambda>from.
     bindR (int_or Y 0 v ''to'') (\<lambda>to.
     bindR (yc_subscript Y v ''callSemantics'') (\<lambda>s.
     bindR (if IsMissing s then Inr None
            else if IsString s
            then bindR (Parse_CallSemantics Y s) (\<lambda>type.
                   if type \<noteq> CallSemantics_kUndefined \<and> type \<noteq> CallSemantics_kInherited
                   then bindR (string_or Y '''' v ''poolName'') (\<lambda>poolName.
                        bindR (int_or Y 0 v ''priority'') (\<lambda>priority.
                        bindR (bool_or Y False v ''async'') (\<lambda>async.
                        bindR (MakeCallSemanticsGroup type poolName priority async) (\<lambda>g. Inr (Some g)))))
                   else Inr None)
            else bindR (Parse_CallSemanticsGroup Y s) (\<lambda>g. Inr (Some g))) (\<lambda>callSemantics.
     bindR (ParseRemainingProperties Y v
       [''from'', ''to'', ''callSemantics'', ''poolName'', ''priority'', ''async'']) (\<lambda>properties.
       Inr \<lparr>Link_from = from, Link_to = to, Link_callSemantics = callSemantics, Link_properties = properties\<rparr>)))))"

subsection \<open>Properties\<close>

text \<open>The number of semantics a group names.\<close>

lemma CallSemanticsGroup_Validate_iff:
  "CallSemanticsGroup_Validate g = Inr () \<longleftrightarrow>
     has_value (functionCall g) + has_value (taskPool g) + has_value (priorityTaskPool g) + has_value (parallelCall g) = 1"
  by (simp add: CallSemanticsGroup_Validate_def Let_def)

lemma MakeCallSemanticsGroup_valid:
  "MakeCallSemanticsGroup type poolName priority async = Inr g \<Longrightarrow> CallSemanticsGroup_Validate g = Inr ()"
  by (cases type) (auto simp: CallSemanticsGroup_Validate_iff no_semantics_def has_value_def)

text \<open>The mapping form reads the key \<open>function\<close> by assigning to the node of the missing key
  \<open>functionCall\<close>. If that assignment throws, as it does for a node that came from a missing key
  in yaml-cpp, every mapping without the key \<open>functionCall\<close> is refused, whatever it names.\<close>

lemma mapping_form_needs_functionCall:
  assumes "yaml_cpp_laws Y" "\<And>new. yc_assign Y YUndefined new = Inl e" "map_of es (YScalar ''functionCall'') = None"
  shows "Parse_CallSemanticsGroup Y (YMap es) = Inl e"
  using assms by (simp add: Parse_CallSemanticsGroup_def yaml_cpp_lawsD IsMissing_def)

text \<open>A link whose call semantics is spelled as a scalar parses to a configuration that passes validation:
  \<open>Undefined\<close> and \<open>Inherited\<close> leave the semantics open, every other spelling names exactly one
  semantics with the pool, priority and mode given beside it.\<close>

theorem link_scalar_semantics:
  assumes "yaml_cpp_laws Y" "Parse_LinkConfig Y (YMap es) = Inr l"
    and "map_of es (YScalar ''callSemantics'') = Some (YScalar (spelling kCallSemanticsMap type))"
  shows "LinkConfig_Validate l = Inr ()
    \<and> (Link_callSemantics l = None \<longleftrightarrow> type = CallSemantics_kUndefined \<or> type = CallSemantics_kInherited)
    \<and> (\<forall>g. Link_callSemantics l = Some g \<longrightarrow>
         MakeCallSemanticsGroup type
           (case string_or Y '''' (YMap es) ''poolName'' of Inr s \<Rightarrow> s)
           (case int_or Y 0 (YMap es) ''priority'' of Inr i \<Rightarrow> i)
           (case bool_or Y False (YMap es) ''async'' of Inr b \<Rightarrow> b) = Inr g)"
proof -
  have "Parse_CallSemantics Y (YScalar (spelling kCallSemanticsMap type)) = Inr type"
    unfolding Parse_CallSemantics_def by (simp add: sp_CallSemantics.parse_iff [OF assms(1)])
  then show ?thesis using assms(2,3)
    by (auto simp: Parse_LinkConfig_def bindR_eq_Inr yaml_cpp_lawsD [OF assms(1)] IsMissing_def LinkConfig_Validate_def
        MakeCallSemanticsGroup_valid split: if_splits option.splits sum.splits)
qed

theorem link_scalar_semantics_witness:
  "\<exists>l. Parse_LinkConfig plain_yaml (YMap [(YScalar ''callSemantics'', YScalar ''TaskPool''), (YScalar ''poolName'', YScalar ''p'')])
       = Inr l \<and> LinkConfig_Validate l = Inr () \<and> Link_callSemantics l \<noteq> None"
proof -
  let ?es = "[(YScalar ''callSemantics'', YScalar ''TaskPool''), (YScalar ''poolName'', YScalar ''p'')]"
  have t: "spelling kCallSemanticsMap CallSemantics_kTaskPool = ''TaskPool''" by (simp add: kCallSemanticsMap_def)
  have "\<exists>l. Parse_LinkConfig plain_yaml (YMap ?es) = Inr l"
    by (simp add: Parse_LinkConfig_def read_back ParseRemainingProperties_def Parse_CallSemantics_def ParseEnum_def
        kCallSemanticsMap_def yaml_cpp_lawsD IsMissing_def As_or_def)
  then obtain l where l: "Parse_LinkConfig plain_yaml (YMap ?es) = Inr l" ..
  from link_scalar_semantics [OF plain_yaml_laws l, of CallSemantics_kTaskPool] show ?thesis using l t by auto
qed

end
