(* ===== verification/ConfigRuntime.thy ===== *)
theory ConfigRuntime
  imports ConfigStreams ConfigConnectors ConfigLinks
begin

section \<open>The runtime configuration (runtime/config/config.hpp, type_types.hpp)\<close>

text \<open>
  The remaining configuration structs with their parsers, the lists a concrete configuration hands
  out (\<open>IConfig\<close>), and \<open>RuntimeConfig\<close>: the indices built over them, with the checks its
  constructor makes, and the lookups.
\<close>

subsection \<open>Structs and parsers\<close>

record TypeConfig =
  Type_name :: string
  Type_type :: DataType
  Type_typeDefinition :: string
  Type_typeImport :: string
  Type_valueType :: string
  Type_keyType :: string
  Type_package :: string
  Type_module :: string
  Type_definitionFormat :: TypeDefinitionFormat
  Type_publicType :: bool
  Type_transferByValue :: bool
  Type_useAlias :: bool
  Type_properties :: PropertiesMap

definition Parse_TypeConfig :: "yaml_cpp \<Rightarrow> yaml \<Rightarrow> (config_error, TypeConfig) result" where
  "Parse_TypeConfig Y v =
     bindR (string_or Y '''' v ''name'') (\<lambda>name'.
     bindR (field_or Y (Parse_DataType Y) DataType_kUndefined v ''type'') (\<lambda>type'.
     bindR (string_or Y '''' v ''typeDefinition'') (\<lambda>typeDefinition'.
     bindR (string_or Y '''' v ''typeImport'') (\<lambda>typeImport'.
     bindR (string_or Y '''' v ''valueType'') (\<lambda>valueType'.
     bindR (string_or Y '''' v ''keyType'') (\<lambda>keyType'.
     bindR (string_or Y '''' v ''package'') (\<lambda>package'.
     bindR (string_or Y '''' v ''module'') (\<lambda>module'.
     bindR (field_or Y (Parse_TypeDefinitionFormat Y) TypeDefinitionFormat_kUndefined v ''definitionFormat'') (\<lambda>definitionFormat'.
     bindR (bool_or Y False v ''publicType'') (\<lambda>publicType'.
     bindR (bool_or Y False v ''transferByValue'') (\<lambda>transferByValue'.
     bindR (bool_or Y False v ''useAlias'') (\<lambda>useAlias'.
     bindR (ParseRemainingProperties Y v
       [''name'', ''type'', ''typeDefinition'', ''typeImport'', ''valueType'', ''keyType'',
        ''package'', ''module'', ''definitionFormat'', ''publicType'', ''transferByValue'',
        ''useAlias'']) (\<lambda>properties'.
       Inr \<lparr>Type_name = name', Type_type = type', Type_typeDefinition = typeDefinition',
         Type_typeImport = typeImport', Type_valueType = valueType', Type_keyType = keyType',
         Type_package = package', Type_module = module', Type_definitionFormat = definitionFormat',
         Type_publicType = publicType', Type_transferByValue = transferByValue',
         Type_useAlias = useAlias', Type_properties = properties'\<rparr>)))))))))))))"

record PoolConfig =
  Pool_name :: string
  Pool_executorsCount :: int
  Pool_queueCapacity :: int
  Pool_properties :: PropertiesMap

definition Parse_PoolConfig :: "yaml_cpp \<Rightarrow> yaml \<Rightarrow> (config_error, PoolConfig) result" where
  "Parse_PoolConfig Y v =
     bindR (string_or Y '''' v ''name'') (\<lambda>name'.
     bindR (int_or Y 0 v ''executorsCount'') (\<lambda>executorsCount'.
     bindR (int_or Y 0 v ''queueCapacity'') (\<lambda>queueCapacity'.
     bindR (ParseRemainingProperties Y v
       [''name'', ''executorsCount'', ''queueCapacity'']) (\<lambda>properties'.
       Inr \<lparr>Pool_name = name', Pool_executorsCount = executorsCount', Pool_queueCapacity = queueCapacity',
         Pool_properties = properties'\<rparr>))))"

record ModuleConfig =
  Module_name :: string
  Module_path :: string
  Module_properties :: PropertiesMap

definition Parse_ModuleConfig :: "yaml_cpp \<Rightarrow> yaml \<Rightarrow> (config_error, ModuleConfig) result" where
  "Parse_ModuleConfig Y v =
     bindR (string_or Y '''' v ''name'') (\<lambda>name'.
     bindR (string_or Y '''' v ''path'') (\<lambda>path'.
     bindR (ParseRemainingProperties Y v
       [''name'', ''path'']) (\<lambda>properties'.
       Inr \<lparr>Module_name = name', Module_path = path', Module_properties = properties'\<rparr>)))"

record ServiceConfig =
  Service_id :: int
  Service_name :: string
  Service_color :: string
  Service_defaultCallSemantics :: "CallSemanticsGroup option"
  Service_defaultGrpcTimeout :: int
  Service_environment :: Environment
  Service_golangVersion :: string
  Service_grpcHost :: string
  Service_grpcPort :: int
  Service_httpHost :: string
  Service_httpPort :: int
  Service_logLevel :: LogLevel
  Service_metricsHandler :: string
  Service_startupHandler :: string
  Service_readinessHandler :: string
  Service_livenessHandler :: string
  Service_kubernetesWorkloadType :: KubernetesWorkloadType
  Service_modulePath :: string
  Service_shutdownTimeout :: int
  Service_statusHandler :: string
  Service_properties :: PropertiesMap

definition Parse_ServiceConfig :: "yaml_cpp \<Rightarrow> yaml \<Rightarrow> (config_error, ServiceConfig) result" where
  "Parse_ServiceConfig Y v =
     bindR (int_or Y 0 v ''id'') (\<lambda>id'.
     bindR (string_or Y '''' v ''name'') (\<lambda>name'.
     bindR (string_or Y '''' v ''color'') (\<lambda>color'.
     bindR (yc_subscript Y v ''defaultCallSemantics'') (\<lambda>s.
     bindR (if IsMissing s then Inr None
            else if IsString s
            then bindR (Parse_CallSemantics Y s) (\<lambda>type.
                   if type \<noteq> CallSemantics_kUndefined \<and> type \<noteq> CallSemantics_kInherited
                   then bindR (MakeCallSemanticsGroup type '''' 0 False) (\<lambda>g. Inr (Some g))
                   else Inr None)
            else bindR (Parse_CallSemanticsGroup Y s) (\<lambda>g. Inr (Some g))) (\<lambda>defaultCallSemantics'.
     bindR (int_or Y 0 v ''defaultGrpcTimeout'') (\<lambda>defaultGrpcTimeout'.
     bindR (field_or Y (Parse_Environment Y) Environment_kUndefined v ''environment'') (\<lambda>environment'.
     bindR (string_or Y '''' v ''golangVersion'') (\<lambda>golangVersion'.
     bindR (string_or Y '''' v ''grpcHost'') (\<lambda>grpcHost'.
     bindR (int_or Y 0 v ''grpcPort'') (\<lambda>grpcPort'.
     bindR (string_or Y '''' v ''httpHost'') (\<lambda>httpHost'.
     bindR (int_or Y 0 v ''httpPort'') (\<lambda>httpPort'.
     bindR (field_or Y (Parse_LogLevel Y) LogLevel_kUndefined v ''logLevel'') (\<lambda>logLevel'.
     bindR (string_or Y '''' v ''metricsHandler'') (\<lambda>metricsHandler'.
     bindR (string_or Y '''' v ''startupHandler'') (\<lambda>startupHandler'.
     bindR (string_or Y '''' v ''readinessHandler'') (\<lambda>readinessHandler'.
     bindR (string_or Y '''' v ''livenessHandler'') (\<lambda>livenessHandler'.
     bindR (field_or Y (Parse_KubernetesWorkloadType Y) KubernetesWorkloadType_kDeployment v ''kubernetesWorkloadType'') (\<lambda>kubernetesWorkloadType'.
     bindR (string_or Y '''' v ''modulePath'') (\<lambda>modulePath'.
     bindR (int_or Y 0 v ''shutdownTimeout'') (\<lambda>shutdownTimeout'.
     bindR (string_or Y '''' v ''statusHandler'') (\<lambda>statusHandler'.
     bindR (ParseRemainingProperties Y v
       [''id'', ''name'', ''color'', ''defaultCallSemantics'', ''defaultGrpcTimeout'',
        ''environment'', ''golangVersion'', ''grpcHost'', ''grpcPort'', ''httpHost'', ''httpPort'',
        ''logLevel'', ''metricsHandler'', ''startupHandler'', ''readinessHandler'',
        ''livenessHandler'', ''kubernetesWorkloadType'', ''modulePath'', ''shutdownTimeout'',
        ''statusHandler'']) (\<lambda>properties'.
       Inr \<lparr>Service_id = id', Service_name = name', Service_color = color',
         Service_defaultCallSemantics = defaultCallSemantics',
         Service_defaultGrpcTimeout = defaultGrpcTimeout', Service_environment = environment',
         Service_golangVersion = golangVersion', Service_grpcHost = grpcHost',
         Service_grpcPort = grpcPort', Service_httpHost = httpHost', Service_httpPort = httpPort',
         Service_logLevel = logLevel', Service_metricsHandler = metricsHandler',
         Service_startupHandler = startupHandler', Service_readinessHandler = readinessHandler',
         Service_livenessHandler = livenessHandler',
         Service_kubernetesWorkloadType = kubernetesWorkloadType', Service_modulePath = modulePath',
         Service_shutdownTimeout = shutdownTimeout', Service_statusHandler = statusHandler',
         Service_properties = properties'\<rparr>))))))))))))))))))))))"

subsection \<open>Indices\<close>

record IConfig =
  GetServices :: "ServiceConfig list"
  GetStreams :: "StreamConfigRef list"
  GetDataConnectors :: "DataConnectorConfigRef list"
  GetEndpoints :: "EndpointConfigRef list"
  GetPools :: "PoolConfig list"
  GetLinks :: "LinkConfig list"
  GetModules :: "ModuleConfig list"
  GetTypes :: "TypeConfig list"

type_synonym LinkID = "int \<times> int"

record RuntimeConfig =
  streamsByName :: "(string, StreamConfigRef) fmap"
  streamsByID :: "(int, StreamConfigRef) fmap"
  servicesByName :: "(string, ServiceConfig) fmap"
  servicesByID :: "(int, ServiceConfig) fmap"
  endpointsByName :: "(string, EndpointConfigRef) fmap"
  endpointsByID :: "(int, EndpointConfigRef) fmap"
  dataConnectorsByName :: "(string, DataConnectorConfigRef) fmap"
  dataConnectorsByID :: "(int, DataConnectorConfigRef) fmap"
  poolByName :: "(string, PoolConfig) fmap"
  typesByName :: "(string, TypeConfig) fmap"
  linksByID :: "(LinkID, LinkConfig) fmap"

definition InsertUnique ::
  "('k, 'v) fmap \<Rightarrow> 'k \<Rightarrow> 'v \<Rightarrow> string \<Rightarrow> (config_error, ('k, 'v) fmap) result"
where
  "InsertUnique m k v error_msg =
     (if fmlookup m k = None then Inr (fmupd k v m) else Inl (ConfigRuntimeError error_msg))"

text \<open>The loops over streams, services, endpoints and connectors have one shape: index by name, then by id.\<close>

definition IndexByNameAndID ::
  "string \<Rightarrow> ('a \<Rightarrow> string) \<Rightarrow> ('a \<Rightarrow> int) \<Rightarrow> 'a list \<Rightarrow> (config_error, (string, 'a) fmap \<times> (int, 'a) fmap) result"
where
  "IndexByNameAndID kind name ident xs =
     foldR (\<lambda>(byName, byID) x.
       bindR (InsertUnique byName (name x) x (''duplicate '' @ kind @ '' name: '' @ name x)) (\<lambda>byName.
       bindR (InsertUnique byID (ident x) x (''duplicate '' @ kind @ '' id: '' @ int_to_decimal (ident x))) (\<lambda>byID.
         Inr (byName, byID))))
       (fmempty, fmempty) xs"

definition IndexByName :: "string \<Rightarrow> ('a \<Rightarrow> string) \<Rightarrow> 'a list \<Rightarrow> (config_error, (string, 'a) fmap) result" where
  "IndexByName kind name xs =
     foldR (\<lambda>byName x. InsertUnique byName (name x) x (''duplicate '' @ kind @ '' name: '' @ name x)) fmempty xs"

definition CheckEndpoint :: "(int, DataConnectorConfigRef) fmap \<Rightarrow> EndpointConfigRef \<Rightarrow> (config_error, unit) result" where
  "CheckEndpoint connectors ep =
     (case fmlookup connectors (Endpoint_GetIdDataConnector ep) of
        None \<Rightarrow> Inl (ConfigRuntimeError (''endpoint '' @ Endpoint_GetName ep @ '' references unknown data connector ''
                  @ int_to_decimal (Endpoint_GetIdDataConnector ep)))
      | Some connector \<Rightarrow>
          if DataConnector_GetType connector \<noteq> Endpoint_GetType ep
          then Inl (ConfigRuntimeError (''endpoint '' @ Endpoint_GetName ep @ '' type does not match data connector ''
                  @ DataConnector_GetName connector))
          else Inr ())"

definition IndexLink :: "(LinkID, LinkConfig) fmap \<Rightarrow> LinkConfig \<Rightarrow> (config_error, (LinkID, LinkConfig) fmap) result" where
  "IndexLink links l =
     bindR (LinkConfig_Validate l) (\<lambda>_.
       InsertUnique links (Link_from l, Link_to l) l
         (''duplicate link from='' @ int_to_decimal (Link_from l) @ '' to='' @ int_to_decimal (Link_to l)))"

definition MakeRuntimeConfig :: "IConfig \<Rightarrow> (config_error, RuntimeConfig) result" where
  "MakeRuntimeConfig config =
     bindR (IndexByNameAndID ''stream'' Stream_GetName Stream_GetID (GetStreams config)) (\<lambda>(streamsN, streamsI).
     bindR (IndexByNameAndID ''service'' Service_name Service_id (GetServices config)) (\<lambda>(servicesN, servicesI).
     bindR (IndexByNameAndID ''endpoint'' Endpoint_GetName Endpoint_GetID (GetEndpoints config)) (\<lambda>(endpointsN, endpointsI).
     bindR (IndexByNameAndID ''data connector'' DataConnector_GetName DataConnector_GetID (GetDataConnectors config))
       (\<lambda>(connectorsN, connectorsI).
     bindR (foldR (\<lambda>_. CheckEndpoint connectorsI) () (GetEndpoints config)) (\<lambda>_.
     bindR (IndexByName ''pool'' Pool_name (GetPools config)) (\<lambda>pools.
     bindR (IndexByName ''type'' Type_name (GetTypes config)) (\<lambda>types.
     bindR (foldR IndexLink fmempty (GetLinks config)) (\<lambda>links.
       Inr \<lparr>streamsByName = streamsN, streamsByID = streamsI, servicesByName = servicesN, servicesByID = servicesI,
         endpointsByName = endpointsN, endpointsByID = endpointsI, dataConnectorsByName = connectorsN,
         dataConnectorsByID = connectorsI, poolByName = pools, typesByName = types, linksByID = links\<rparr>))))))))"

subsection \<open>Lookups\<close>

definition GetStreamConfigByName :: "RuntimeConfig \<Rightarrow> string \<Rightarrow> StreamConfigRef option" where
  "GetStreamConfigByName rc name = fmlookup (streamsByName rc) name"

definition GetStreamConfigByID :: "RuntimeConfig \<Rightarrow> int \<Rightarrow> StreamConfigRef option" where
  "GetStreamConfigByID rc i = fmlookup (streamsByID rc) i"

definition GetServiceConfigByName :: "RuntimeConfig \<Rightarrow> string \<Rightarrow> ServiceConfig option" where
  "GetServiceConfigByName rc name = fmlookup (servicesByName rc) name"

definition GetServiceConfigByID :: "RuntimeConfig \<Rightarrow> int \<Rightarrow> ServiceConfig option" where
  "GetServiceConfigByID rc i = fmlookup (servicesByID rc) i"

definition GetOnlyServiceConfig :: "RuntimeConfig \<Rightarrow> ServiceConfig option" where
  "GetOnlyServiceConfig rc =
     (case sorted_list_of_fset (fmdom (servicesByID rc)) of
        [i] \<Rightarrow> fmlookup (servicesByID rc) i
      | _ \<Rightarrow> None)"

definition GetEndpointConfigByID :: "RuntimeConfig \<Rightarrow> int \<Rightarrow> EndpointConfigRef option" where
  "GetEndpointConfigByID rc i = fmlookup (endpointsByID rc) i"

definition GetDataConnectorByID :: "RuntimeConfig \<Rightarrow> int \<Rightarrow> DataConnectorConfigRef option" where
  "GetDataConnectorByID rc i = fmlookup (dataConnectorsByID rc) i"

definition GetPoolByName :: "RuntimeConfig \<Rightarrow> string \<Rightarrow> PoolConfig option" where
  "GetPoolByName rc name = fmlookup (poolByName rc) name"

definition GetTypeByName :: "RuntimeConfig \<Rightarrow> string \<Rightarrow> TypeConfig option" where
  "GetTypeByName rc name = fmlookup (typesByName rc) name"

definition GetLink :: "RuntimeConfig \<Rightarrow> int \<Rightarrow> int \<Rightarrow> LinkConfig option" where
  "GetLink rc from to = fmlookup (linksByID rc) (from, to)"

lemmas lookup_defs = GetStreamConfigByName_def GetStreamConfigByID_def GetServiceConfigByName_def GetServiceConfigByID_def
  GetEndpointConfigByID_def GetDataConnectorByID_def GetPoolByName_def GetTypeByName_def GetLink_def

subsection \<open>What an index holds\<close>

definition indexes :: "('a \<Rightarrow> 'k) \<Rightarrow> 'a list \<Rightarrow> ('k, 'a) fmap \<Rightarrow> bool" where
  "indexes key xs m \<longleftrightarrow> (\<forall>k x. fmlookup m k = Some x \<longleftrightarrow> x \<in> set xs \<and> key x = k)"

abbreviation insert_all ::
  "('a \<Rightarrow> 'k) \<Rightarrow> ('a \<Rightarrow> string) \<Rightarrow> ('k, 'a) fmap \<Rightarrow> 'a list \<Rightarrow> (config_error, ('k, 'a) fmap) result"
where
  "insert_all key msg m xs \<equiv> foldR (\<lambda>m x. InsertUnique m (key x) x (msg x)) m xs"

lemma insert_all_succeeds:
  "(\<exists>m'. insert_all key msg m xs = Inr m') \<longleftrightarrow> distinct (map key xs) \<and> (\<forall>x \<in> set xs. fmlookup m (key x) = None)"
proof (induction xs arbitrary: m)
  case (Cons x xs)
  show ?case
  proof (cases "fmlookup m (key x)")
    case None
    then show ?thesis using Cons.IH [of "fmupd (key x) x m"] by (auto simp: InsertUnique_def)
  qed (simp add: InsertUnique_def)
qed simp

lemma insert_all_lookup:
  "insert_all key msg m xs = Inr m' \<Longrightarrow>
   fmlookup m' k = Some y \<longleftrightarrow> fmlookup m k = Some y \<or> (y \<in> set xs \<and> key y = k)"
proof (induction xs arbitrary: m)
  case (Cons x xs)
  then have n: "fmlookup m (key x) = None" and r: "insert_all key msg (fmupd (key x) x m) xs = Inr m'"
    by (auto simp: InsertUnique_def split: if_splits)
  show ?case using Cons.IH [OF r] n by (auto split: if_splits)
qed simp

lemma insert_all_indexes: "insert_all key msg fmempty xs = Inr m \<Longrightarrow> indexes key xs m"
  using insert_all_lookup [of key msg fmempty xs m] by (simp add: indexes_def)

lemma insert_all_empty: "(\<exists>m. insert_all key msg fmempty xs = Inr m) \<longleftrightarrow> distinct (map key xs)"
  by (simp add: insert_all_succeeds)

lemma insert_pair:
  "foldR (\<lambda>(a, b) x. bindR (InsertUnique a (f x) x (mf x)) (\<lambda>a. bindR (InsertUnique b (g x) x (mg x)) (\<lambda>b. Inr (a, b))))
     (a, b) xs = Inr (a', b')
   \<longleftrightarrow> insert_all f mf a xs = Inr a' \<and> insert_all g mg b xs = Inr b'"
proof (induction xs arbitrary: a b)
  case (Cons x xs)
  then show ?case by (auto simp: InsertUnique_def)
qed auto

lemma IndexByNameAndID_iff:
  "IndexByNameAndID kind name ident xs = Inr (a, b) \<longleftrightarrow>
     insert_all name (\<lambda>x. ''duplicate '' @ kind @ '' name: '' @ name x) fmempty xs = Inr a
     \<and> insert_all ident (\<lambda>x. ''duplicate '' @ kind @ '' id: '' @ int_to_decimal (ident x)) fmempty xs = Inr b"
  unfolding IndexByNameAndID_def by (rule insert_pair)

lemma IndexByNameAndID_succeeds:
  "(\<exists>a b. IndexByNameAndID kind name ident xs = Inr (a, b)) \<longleftrightarrow> distinct (map name xs) \<and> distinct (map ident xs)"
  by (simp add: IndexByNameAndID_iff insert_all_empty)

lemma IndexByNameAndID_indexes:
  "IndexByNameAndID kind name ident xs = Inr (a, b) \<Longrightarrow> indexes name xs a \<and> indexes ident xs b"
  by (auto simp: IndexByNameAndID_iff dest: insert_all_indexes)

lemma IndexByNameAndID_distinct:
  "IndexByNameAndID kind name ident xs = Inr (a, b) \<Longrightarrow> distinct (map name xs) \<and> distinct (map ident xs)"
  using IndexByNameAndID_succeeds by blast

lemma IndexByName_iff: "(\<exists>m. IndexByName kind name xs = Inr m) \<longleftrightarrow> distinct (map name xs)"
  by (simp add: IndexByName_def insert_all_empty)

lemma IndexByName_distinct: "IndexByName kind name xs = Inr m \<Longrightarrow> distinct (map name xs)"
  using IndexByName_iff by blast

lemma IndexByName_indexes: "IndexByName kind name xs = Inr m \<Longrightarrow> indexes name xs m"
  unfolding IndexByName_def by (rule insert_all_indexes)

lemma foldR_guarded:
  "foldR (\<lambda>m x. bindR (check x) (\<lambda>u :: unit. g m x)) m xs = Inr m' \<longleftrightarrow>
   (\<forall>x \<in> set xs. check x = Inr ()) \<and> foldR g m xs = Inr m'"
proof (induction xs arbitrary: m)
  case (Cons x xs)
  show ?case by (cases "check x"; cases "g m x") (simp_all add: Cons.IH)
qed simp

lemma IndexLinks_iff:
  "foldR IndexLink m ls = Inr m' \<longleftrightarrow>
     (\<forall>l \<in> set ls. LinkConfig_Validate l = Inr ())
     \<and> insert_all (\<lambda>l. (Link_from l, Link_to l))
         (\<lambda>l. ''duplicate link from='' @ int_to_decimal (Link_from l) @ '' to='' @ int_to_decimal (Link_to l)) m ls = Inr m'"
  unfolding IndexLink_def [abs_def] by (rule foldR_guarded)

lemma IndexLinks_succeeds:
  "(\<exists>m. foldR IndexLink fmempty ls = Inr m) \<longleftrightarrow>
     (\<forall>l \<in> set ls. LinkConfig_Validate l = Inr ()) \<and> distinct (map (\<lambda>l. (Link_from l, Link_to l)) ls)"
  unfolding IndexLinks_iff ex_simps insert_all_empty ..

lemma IndexLinks_indexes: "foldR IndexLink fmempty ls = Inr m \<Longrightarrow> indexes (\<lambda>l. (Link_from l, Link_to l)) ls m"
  unfolding IndexLinks_iff by (erule conjE) (rule insert_all_indexes)

lemma CheckEndpoints_iff:
  "foldR (\<lambda>_. CheckEndpoint connectors) () eps = Inr u \<longleftrightarrow> (\<forall>ep \<in> set eps. CheckEndpoint connectors ep = Inr ())"
  by (induction eps) (auto simp: bindR_eq_Inr)

lemma CheckEndpoint_iff:
  assumes i: "indexes DataConnector_GetID dcs connectors"
  shows "CheckEndpoint connectors ep = Inr () \<longleftrightarrow>
     (\<exists>dc \<in> set dcs. DataConnector_GetID dc = Endpoint_GetIdDataConnector ep \<and> DataConnector_GetType dc = Endpoint_GetType ep)"
proof -
  let ?r = "fmlookup connectors (Endpoint_GetIdDataConnector ep)"
  have l: "?r = Some dc \<longleftrightarrow> dc \<in> set dcs \<and> DataConnector_GetID dc = Endpoint_GetIdDataConnector ep" for dc
    using i by (simp only: indexes_def)
  show ?thesis
  proof (cases ?r)
    case None
    then show ?thesis using l by (auto simp: CheckEndpoint_def)
  next
    case (Some dc)
    have "dc' = dc" if "dc' \<in> set dcs" "DataConnector_GetID dc' = Endpoint_GetIdDataConnector ep" for dc'
      using l [of dc'] that Some by simp
    then show ?thesis using l [of dc] Some by (auto simp: CheckEndpoint_def)
  qed
qed

lemma only_indexed:
  fixes key :: "'a \<Rightarrow> int"
  assumes "indexes key xs m" "distinct (map key xs)"
  shows "(case sorted_list_of_fset (fmdom m) of [i] \<Rightarrow> fmlookup m i | _ \<Rightarrow> None) = Some v \<longleftrightarrow> xs = [v]"
proof -
  have "fset (fmdom m) = key ` set xs"
    using assms(1) by (auto simp: indexes_def fmlookup_dom_iff)
  then have s: "sorted_list_of_fset (fmdom m) = sorted_list_of_set (key ` set xs)"
    by (simp add: sorted_list_of_fset.rep_eq)
  have "length (sorted_list_of_fset (fmdom m)) = length xs"
    unfolding s using assms(2) by (simp add: distinct_map distinct_card card_image)
  then show ?thesis
  proof (cases xs)
    case (Cons x ys)
    have "fmlookup m (key x) = Some x" using assms(1) Cons by (simp add: indexes_def)
    show ?thesis
    proof (cases ys)
      case Nil
      then show ?thesis using Cons s \<open>fmlookup m (key x) = Some x\<close> by auto
    next
      case (Cons y zs)
      then have "length (sorted_list_of_fset (fmdom m)) = Suc (Suc (length zs))"
        using \<open>xs = x # ys\<close> \<open>length _ = length xs\<close> by simp
      then obtain i j js where "sorted_list_of_fset (fmdom m) = i # j # js" by (metis length_Suc_conv)
      then show ?thesis using Cons \<open>xs = x # ys\<close> by simp
    qed
  qed (simp add: s)
qed

subsection \<open>Properties\<close>

text \<open>The checks of the constructor, as one condition on the configuration.\<close>

definition config_consistent :: "IConfig \<Rightarrow> bool" where
  "config_consistent config \<longleftrightarrow>
     distinct (map Stream_GetName (GetStreams config)) \<and> distinct (map Stream_GetID (GetStreams config))
     \<and> distinct (map Service_name (GetServices config)) \<and> distinct (map Service_id (GetServices config))
     \<and> distinct (map Endpoint_GetName (GetEndpoints config)) \<and> distinct (map Endpoint_GetID (GetEndpoints config))
     \<and> distinct (map DataConnector_GetName (GetDataConnectors config))
     \<and> distinct (map DataConnector_GetID (GetDataConnectors config))
     \<and> (\<forall>ep \<in> set (GetEndpoints config). \<exists>dc \<in> set (GetDataConnectors config).
          DataConnector_GetID dc = Endpoint_GetIdDataConnector ep \<and> DataConnector_GetType dc = Endpoint_GetType ep)
     \<and> distinct (map Pool_name (GetPools config)) \<and> distinct (map Type_name (GetTypes config))
     \<and> (\<forall>l \<in> set (GetLinks config). LinkConfig_Validate l = Inr ())
     \<and> distinct (map (\<lambda>l. (Link_from l, Link_to l)) (GetLinks config))"

definition config_indexed :: "IConfig \<Rightarrow> RuntimeConfig \<Rightarrow> bool" where
  "config_indexed config rc \<longleftrightarrow>
     indexes Stream_GetName (GetStreams config) (streamsByName rc) \<and> indexes Stream_GetID (GetStreams config) (streamsByID rc)
     \<and> indexes Service_name (GetServices config) (servicesByName rc) \<and> indexes Service_id (GetServices config) (servicesByID rc)
     \<and> indexes Endpoint_GetName (GetEndpoints config) (endpointsByName rc)
     \<and> indexes Endpoint_GetID (GetEndpoints config) (endpointsByID rc)
     \<and> indexes DataConnector_GetName (GetDataConnectors config) (dataConnectorsByName rc)
     \<and> indexes DataConnector_GetID (GetDataConnectors config) (dataConnectorsByID rc)
     \<and> indexes Pool_name (GetPools config) (poolByName rc) \<and> indexes Type_name (GetTypes config) (typesByName rc)
     \<and> indexes (\<lambda>l. (Link_from l, Link_to l)) (GetLinks config) (linksByID rc)"

lemma MakeRuntimeConfig_steps:
  assumes "MakeRuntimeConfig config = Inr rc"
  shows "IndexByNameAndID ''stream'' Stream_GetName Stream_GetID (GetStreams config) = Inr (streamsByName rc, streamsByID rc)"
    "IndexByNameAndID ''service'' Service_name Service_id (GetServices config) = Inr (servicesByName rc, servicesByID rc)"
    "IndexByNameAndID ''endpoint'' Endpoint_GetName Endpoint_GetID (GetEndpoints config) = Inr (endpointsByName rc, endpointsByID rc)"
    "IndexByNameAndID ''data connector'' DataConnector_GetName DataConnector_GetID (GetDataConnectors config)
       = Inr (dataConnectorsByName rc, dataConnectorsByID rc)"
    "foldR (\<lambda>_. CheckEndpoint (dataConnectorsByID rc)) () (GetEndpoints config) = Inr ()"
    "IndexByName ''pool'' Pool_name (GetPools config) = Inr (poolByName rc)"
    "IndexByName ''type'' Type_name (GetTypes config) = Inr (typesByName rc)"
    "foldR IndexLink fmempty (GetLinks config) = Inr (linksByID rc)"
  using assms by (auto simp: MakeRuntimeConfig_def bindR_eq_Inr)

lemma MakeRuntimeConfig_indexed:
  assumes "MakeRuntimeConfig config = Inr rc" shows "config_indexed config rc"
proof -
  note i = MakeRuntimeConfig_steps [OF assms]
  show ?thesis
    using i(1-4) [THEN IndexByNameAndID_indexes] i(6-7) [THEN IndexByName_indexes] IndexLinks_indexes [OF i(8)]
    by (simp add: config_indexed_def)
qed

lemma MakeRuntimeConfig_consistent: "MakeRuntimeConfig config = Inr rc \<Longrightarrow> config_consistent config"
proof -
  assume r: "MakeRuntimeConfig config = Inr rc"
  note i = MakeRuntimeConfig_steps [OF r]
  have "\<forall>ep \<in> set (GetEndpoints config). \<exists>dc \<in> set (GetDataConnectors config).
      DataConnector_GetID dc = Endpoint_GetIdDataConnector ep \<and> DataConnector_GetType dc = Endpoint_GetType ep"
    using i(5) by (simp add: CheckEndpoints_iff CheckEndpoint_iff [OF conjunct2 [OF IndexByNameAndID_indexes [OF i(4)]]])
  moreover have "\<forall>l \<in> set (GetLinks config). LinkConfig_Validate l = Inr ()"
    "distinct (map (\<lambda>l. (Link_from l, Link_to l)) (GetLinks config))"
    using i(8) IndexLinks_succeeds by blast+
  ultimately show ?thesis
    using i(1-4) [THEN IndexByNameAndID_distinct] i(6-7) [THEN IndexByName_distinct]
    by (simp add: config_consistent_def)
qed

lemma MakeRuntimeConfig_complete: "config_consistent config \<Longrightarrow> \<exists>rc. MakeRuntimeConfig config = Inr rc"
proof -
  assume w: "config_consistent config"
  note d = w [unfolded config_consistent_def]
  obtain sn si where s: "IndexByNameAndID ''stream'' Stream_GetName Stream_GetID (GetStreams config) = Inr (sn, si)"
    using d IndexByNameAndID_succeeds by blast
  obtain vn vi where v: "IndexByNameAndID ''service'' Service_name Service_id (GetServices config) = Inr (vn, vi)"
    using d IndexByNameAndID_succeeds by blast
  obtain en ei where e: "IndexByNameAndID ''endpoint'' Endpoint_GetName Endpoint_GetID (GetEndpoints config) = Inr (en, ei)"
    using d IndexByNameAndID_succeeds by blast
  obtain cn ci where c: "IndexByNameAndID ''data connector'' DataConnector_GetName DataConnector_GetID (GetDataConnectors config) = Inr (cn, ci)"
    using d IndexByNameAndID_succeeds by blast
  obtain p where p: "IndexByName ''pool'' Pool_name (GetPools config) = Inr p" using d IndexByName_iff by blast
  obtain t where t: "IndexByName ''type'' Type_name (GetTypes config) = Inr t" using d IndexByName_iff by blast
  obtain l where l: "foldR IndexLink fmempty (GetLinks config) = Inr l"
    using d IndexLinks_succeeds by blast
  have k: "foldR (\<lambda>_. CheckEndpoint ci) () (GetEndpoints config) = Inr ()"
    using w by (simp add: config_consistent_def CheckEndpoints_iff CheckEndpoint_iff [OF conjunct2 [OF IndexByNameAndID_indexes [OF c]]])
  show ?thesis by (simp add: MakeRuntimeConfig_def s v e c p t l k)
qed

text \<open>C20. The constructor of \<open>RuntimeConfig\<close> succeeds exactly on consistent configurations: names and ids of
  streams, services, endpoints and connectors, names of pools and types and the ends of links are unique, every
  endpoint refers to a connector of its own kind, and every link names at most one call semantics.\<close>

theorem runtime_config_accepts_iff:
  "(\<exists>rc. MakeRuntimeConfig config = Inr rc) \<longleftrightarrow> config_consistent config"
  using MakeRuntimeConfig_consistent MakeRuntimeConfig_complete by blast

text \<open>C21. The lookups of a constructed \<open>RuntimeConfig\<close> are exact: each returns an item if and only if the
  configuration has one with that name, id or pair of ends, and then that item; an endpoint found by its id always
  leads to a connector of its kind; the only service is found exactly when there is one.\<close>

theorem runtime_config_lookups:
  assumes "MakeRuntimeConfig config = Inr rc"
  shows "(GetStreamConfigByName rc name = Some s \<longleftrightarrow> s \<in> set (GetStreams config) \<and> Stream_GetName s = name)
    \<and> (GetStreamConfigByID rc i = Some s \<longleftrightarrow> s \<in> set (GetStreams config) \<and> Stream_GetID s = i)
    \<and> (GetServiceConfigByName rc name = Some v \<longleftrightarrow> v \<in> set (GetServices config) \<and> Service_name v = name)
    \<and> (GetServiceConfigByID rc i = Some v \<longleftrightarrow> v \<in> set (GetServices config) \<and> Service_id v = i)
    \<and> (GetEndpointConfigByID rc i = Some ep \<longleftrightarrow> ep \<in> set (GetEndpoints config) \<and> Endpoint_GetID ep = i)
    \<and> (GetDataConnectorByID rc i = Some dc \<longleftrightarrow> dc \<in> set (GetDataConnectors config) \<and> DataConnector_GetID dc = i)
    \<and> (GetPoolByName rc name = Some p \<longleftrightarrow> p \<in> set (GetPools config) \<and> Pool_name p = name)
    \<and> (GetTypeByName rc name = Some t \<longleftrightarrow> t \<in> set (GetTypes config) \<and> Type_name t = name)
    \<and> (GetLink rc from to = Some l \<longleftrightarrow> l \<in> set (GetLinks config) \<and> Link_from l = from \<and> Link_to l = to)
    \<and> (GetEndpointConfigByID rc i = Some ep \<longrightarrow>
         (\<exists>dc. GetDataConnectorByID rc (Endpoint_GetIdDataConnector ep) = Some dc \<and> DataConnector_GetType dc = Endpoint_GetType ep))
    \<and> (GetOnlyServiceConfig rc = Some v \<longleftrightarrow> GetServices config = [v])"
proof (intro conjI)
  have x: "config_indexed config rc" by (rule MakeRuntimeConfig_indexed [OF assms])
  have w: "config_consistent config" by (rule MakeRuntimeConfig_consistent [OF assms])
  note l = x [unfolded config_indexed_def indexes_def]
  show "GetStreamConfigByName rc name = Some s \<longleftrightarrow> s \<in> set (GetStreams config) \<and> Stream_GetName s = name"
    "GetStreamConfigByID rc i = Some s \<longleftrightarrow> s \<in> set (GetStreams config) \<and> Stream_GetID s = i"
    "GetServiceConfigByName rc name = Some v \<longleftrightarrow> v \<in> set (GetServices config) \<and> Service_name v = name"
    "GetServiceConfigByID rc i = Some v \<longleftrightarrow> v \<in> set (GetServices config) \<and> Service_id v = i"
    "GetEndpointConfigByID rc i = Some ep \<longleftrightarrow> ep \<in> set (GetEndpoints config) \<and> Endpoint_GetID ep = i"
    "GetDataConnectorByID rc i = Some dc \<longleftrightarrow> dc \<in> set (GetDataConnectors config) \<and> DataConnector_GetID dc = i"
    "GetPoolByName rc name = Some p \<longleftrightarrow> p \<in> set (GetPools config) \<and> Pool_name p = name"
    "GetTypeByName rc name = Some t \<longleftrightarrow> t \<in> set (GetTypes config) \<and> Type_name t = name"
    "GetLink rc from to = Some l \<longleftrightarrow> l \<in> set (GetLinks config) \<and> Link_from l = from \<and> Link_to l = to"
    using l by (simp_all add: lookup_defs)
  show "GetEndpointConfigByID rc i = Some ep \<longrightarrow>
      (\<exists>dc. GetDataConnectorByID rc (Endpoint_GetIdDataConnector ep) = Some dc \<and> DataConnector_GetType dc = Endpoint_GetType ep)"
  proof
    assume "GetEndpointConfigByID rc i = Some ep"
    then have "ep \<in> set (GetEndpoints config)" using l by (simp add: lookup_defs)
    then obtain dc where "dc \<in> set (GetDataConnectors config)"
        "DataConnector_GetID dc = Endpoint_GetIdDataConnector ep" "DataConnector_GetType dc = Endpoint_GetType ep"
      using w by (auto simp: config_consistent_def)
    then show "\<exists>dc. GetDataConnectorByID rc (Endpoint_GetIdDataConnector ep) = Some dc
        \<and> DataConnector_GetType dc = Endpoint_GetType ep"
      using l by (intro exI [of _ dc]) (simp add: lookup_defs)
  qed
  show "GetOnlyServiceConfig rc = Some v \<longleftrightarrow> GetServices config = [v]"
    unfolding GetOnlyServiceConfig_def
    by (rule only_indexed [where key = Service_id]) (use x w in \<open>simp_all add: config_indexed_def config_consistent_def\<close>)
qed

definition example_config :: IConfig where
  "example_config = \<lparr>GetServices = [], GetStreams = [Ref_SinkStream example_sink], GetDataConnectors = [], GetEndpoints = [],
     GetPools = [], GetLinks = [], GetModules = [], GetTypes = []\<rparr>"

theorem runtime_config_lookups_witness:
  "\<exists>rc. MakeRuntimeConfig example_config = Inr rc \<and> GetStreamConfigByID rc 7 = Some (Ref_SinkStream example_sink)
     \<and> GetStreamConfigByName rc ''out'' = Some (Ref_SinkStream example_sink)"
proof -
  obtain rc where rc: "MakeRuntimeConfig example_config = Inr rc"
    using MakeRuntimeConfig_complete [of example_config] by (auto simp: config_consistent_def example_config_def)
  have "Stream_GetID (Ref_SinkStream example_sink) = 7" "Stream_GetName (Ref_SinkStream example_sink) = ''out''"
    by (simp_all add: example_sink_def)
  then show ?thesis
    using runtime_config_lookups [OF rc, of "''out''" "Ref_SinkStream example_sink" 7] rc by (simp add: example_config_def)
qed

end
