(* ===== verification/Substitution.thy ===== *)
theory Substitution
  imports Yaml "HOL-Library.Sublist"
begin

section \<open>Configuration substitution (runtime/config/substitution.hpp)\<close>

text \<open>
  Replacement of \<open>$name\<close>, \<open>${NAME:-default}\<close> and \<open>${file:path}\<close> in the scalars of a
  document, and of the decorated keys \<open>key#env\<close>, \<open>key#file\<close>, \<open>key#fallback\<close> of its
  mappings. Documents are values here: the sharing of nodes between yaml-cpp handles is not modelled, so a
  variable is looked up in the document as it was loaded, not as an earlier replacement of a decorated
  variable may have left it.
  A variable may name itself, so \<open>SubstituteNode\<close> need not return; it is defined with a bound on the
  depth of the recursion, and the result \<open>None\<close> means that the bound was not enough. The functions it
  calls take the recursive call as an argument, as the forward declaration in the source does.
\<close>

type_synonym 'a bounded = "(config_error, 'a) result option"

definition bindB :: "'a bounded \<Rightarrow> ('a \<Rightarrow> 'b bounded) \<Rightarrow> 'b bounded" where
  "bindB m f = (case m of None \<Rightarrow> None | Some (Inl e) \<Rightarrow> Some (Inl e) | Some (Inr x) \<Rightarrow> f x)"

fun foldB :: "('s \<Rightarrow> 'a \<Rightarrow> 's bounded) \<Rightarrow> 's \<Rightarrow> 'a list \<Rightarrow> 's bounded" where
  "foldB f s [] = Some (Inr s)"
| "foldB f s (x # xs) = bindB (f s x) (\<lambda>s'. foldB f s' xs)"

lemma bindB_simps [simp]:
  "bindB None f = None" "bindB (Some (Inl e)) f = Some (Inl e)" "bindB (Some (Inr x)) f = f x"
  by (simp_all add: bindB_def)

subsection \<open>Options, files and replacement values\<close>

record SubstitutionOptions =
  so_variables :: yaml
  so_baseDirectory :: string
  so_environment :: "(string \<Rightarrow> string option) option"

text \<open>What the process reads from its host: the content of each readable file and \<open>std::getenv\<close>.\<close>

type_synonym files = "string \<Rightarrow> string option"

record host =
  host_file :: files
  host_getenv :: "string \<Rightarrow> string option"

definition Environment_value :: "host \<Rightarrow> SubstitutionOptions \<Rightarrow> string \<Rightarrow> string option" where
  "Environment_value host options name =
     (case so_environment options of Some environment \<Rightarrow> environment name | None \<Rightarrow> host_getenv host name)"

definition ParseReplacement :: "yaml_cpp \<Rightarrow> string \<Rightarrow> yaml" where
  "ParseReplacement Y value =
     (case yc_load Y value of
        Inr parsed \<Rightarrow> if \<not> IsMissing parsed \<and> parsed \<noteq> YNull then parsed else YScalar value
      | Inl _ \<Rightarrow> YScalar value)"

definition ReadConfigFile :: "files \<Rightarrow> string \<Rightarrow> (config_error, string) result" where
  "ReadConfigFile files path =
     (if path = [] then Inr []
      else case files path of
             Some contents \<Rightarrow> Inr contents
           | None \<Rightarrow> Inl (ConfigRuntimeError (''cannot read configuration '' @ path)))"

definition line_end :: "char \<Rightarrow> bool" where
  "line_end c \<longleftrightarrow> c = char_of (10 :: nat) \<or> c = char_of (13 :: nat)"

definition ReadSubstitutionFile :: "files \<Rightarrow> string \<Rightarrow> (config_error, string) result" where
  "ReadSubstitutionFile files path =
     bindR (ReadConfigFile files path) (\<lambda>value. Inr (rev (dropWhile line_end (rev value))))"

text \<open>\<open>std::filesystem::path\<close>: a relative path is taken from the base directory.\<close>

definition resolve_path :: "SubstitutionOptions \<Rightarrow> string \<Rightarrow> string" where
  "resolve_path options path =
     (if path \<noteq> [] \<and> hd path = CHR ''/'' then path
      else if so_baseDirectory options = [] \<or> last (so_baseDirectory options) = CHR ''/''
      then so_baseDirectory options @ path
      else so_baseDirectory options @ ''/'' @ path)"

subsection \<open>Scalars\<close>

text \<open>\<open>find\<close>: the text before and after the first occurrence of a pattern.\<close>

fun find_sub :: "string \<Rightarrow> string \<Rightarrow> (string \<times> string) option" where
  "find_sub pat [] = (if pat = [] then Some ([], []) else None)"
| "find_sub pat (c # cs) =
     (if prefix pat (c # cs) then Some ([], drop (length pat) (c # cs))
      else case find_sub pat cs of Some (a, b) \<Rightarrow> Some (c # a, b) | None \<Rightarrow> None)"

lemma find_sub_Some: "find_sub pat s = Some (a, b) \<Longrightarrow> s = a @ pat @ b"
proof (induction pat s arbitrary: a rule: find_sub.induct)
  case (2 pat c cs)
  show ?case
  proof (cases "prefix pat (c # cs)")
    case True
    then show ?thesis using "2.prems" by (auto simp: prefix_def)
  next
    case False
    then show ?thesis using 2 by (auto split: option.splits)
  qed
qed (simp split: if_splits)

text \<open>The loop over \<open>${NAME:-default}\<close>: the expanded text and whether anything was replaced.\<close>

function expand :: "(string \<Rightarrow> string option) \<Rightarrow> string \<Rightarrow> string \<Rightarrow> (config_error, string \<times> bool) result" where
  "expand env source s =
     (case find_sub ''${'' s of
        None \<Rightarrow> Inr (s, False)
      | Some (before, after) \<Rightarrow>
          (case find_sub ''}'' after of
             None \<Rightarrow> Inl (ConfigRuntimeError (''unterminated configuration substitution: '' @ source))
           | Some (expression, rest) \<Rightarrow>
               (let (name, fallback) = (case find_sub '':-'' expression of
                      Some (n, d) \<Rightarrow> (n, Some d) | None \<Rightarrow> (expression, None))
                in case (case env name of Some v \<Rightarrow> Some v | None \<Rightarrow> fallback) of
                     None \<Rightarrow> Inl (ConfigRuntimeError (''environment variable is not defined: '' @ name))
                   | Some value \<Rightarrow>
                       bindR (expand env source rest) (\<lambda>(r, _). Inr (before @ value @ r, True)))))"
  by pat_completeness auto
termination
  by (relation "measure (\<lambda>(env, source, s). length s)") (auto dest!: find_sub_Some)

declare expand.simps [simp del]

definition SubstituteScalar ::
  "yaml_cpp \<Rightarrow> host \<Rightarrow> (yaml \<Rightarrow> yaml bounded) \<Rightarrow> SubstitutionOptions \<Rightarrow> string \<Rightarrow> yaml bounded"
where
  "SubstituteScalar Y host rec options source =
     (if length source > 1 \<and> source ! 0 = CHR ''$'' \<and> source ! 1 \<noteq> CHR ''{''
      then let name = drop 1 source in
           bindB (Some (if \<not> IsMissing (so_variables options) \<and> so_variables options \<noteq> YNull
                        then yc_subscript Y (so_variables options) name else Inr YNull)) (\<lambda>variable.
             if IsMissing variable
             then Some (Inl (ConfigRuntimeError (''configuration variable is not defined: '' @ name)))
             else rec variable)
      else if prefix ''${file:'' source \<and> suffix ''}'' source
      then bindB (Some (ReadSubstitutionFile (host_file host) (resolve_path options (take (length source - 8) (drop 7 source)))))
             (\<lambda>value. Some (Inr (ParseReplacement Y value)))
      else bindB (Some (expand (Environment_value host options) source source)) (\<lambda>(result, changed).
             Some (Inr (if changed then ParseReplacement Y result else YScalar source))))"

subsection \<open>Mappings\<close>

definition decorated :: "string \<Rightarrow> bool" where
  "decorated key \<longleftrightarrow> suffix ''#env'' key \<or> suffix ''#fallback'' key \<or> suffix ''#file'' key"

definition SubstituteEntry ::
  "yaml_cpp \<Rightarrow> host \<Rightarrow> (yaml \<Rightarrow> yaml bounded) \<Rightarrow> SubstitutionOptions \<Rightarrow> yaml
   \<Rightarrow> (yaml \<times> yaml) list \<Rightarrow> yaml \<times> yaml \<Rightarrow> (yaml \<times> yaml) list bounded"
where
  "SubstituteEntry Y host rec options node result entry =
     bindB (Some (yc_string Y (fst entry))) (\<lambda>key.
       if decorated key then Some (Inr result)
       else
         bindB (Some (yc_subscript Y node (key @ ''#env''))) (\<lambda>environmentKey.
         bindB (Some (yc_subscript Y node (key @ ''#file''))) (\<lambda>fileKey.
         bindB (Some (yc_subscript Y node (key @ ''#fallback''))) (\<lambda>fallbackKey.
         bindB (Some
           (if \<not> IsMissing environmentKey
            then bindR (yc_string Y environmentKey) (\<lambda>name.
                   Inr (case Environment_value host options name of
                          Some value \<Rightarrow> ParseReplacement Y value
                        | None \<Rightarrow> if \<not> IsMissing fallbackKey then fallbackKey else snd entry))
            else if \<not> IsMissing fileKey
            then bindR (yc_string Y fileKey) (\<lambda>path.
                 bindR (ReadSubstitutionFile (host_file host) (resolve_path options path)) (\<lambda>value.
                   Inr (ParseReplacement Y value)))
            else Inr (snd entry))) (\<lambda>selected.
         bindB (rec selected) (\<lambda>x. Some (Inr (AList.update (YScalar key) x result))))))))"

definition SubstituteFallback ::
  "yaml_cpp \<Rightarrow> host \<Rightarrow> (yaml \<Rightarrow> yaml bounded) \<Rightarrow> SubstitutionOptions \<Rightarrow> yaml
   \<Rightarrow> (yaml \<times> yaml) list \<Rightarrow> yaml \<times> yaml \<Rightarrow> (yaml \<times> yaml) list bounded"
where
  "SubstituteFallback Y host rec options node result entry =
     bindB (Some (yc_string Y (fst entry))) (\<lambda>decoratedKey.
       if \<not> suffix ''#fallback'' decoratedKey then Some (Inr result)
       else
         let key = take (length decoratedKey - 9) decoratedKey in
         if (case map_of result (YScalar key) of Some x \<Rightarrow> \<not> IsMissing x | None \<Rightarrow> False) then Some (Inr result)
         else
           bindB (Some (yc_subscript Y node (key @ ''#env''))) (\<lambda>environmentKey.
           bindB (if \<not> IsMissing environmentKey
                  then bindB (Some (yc_string Y environmentKey)) (\<lambda>name.
                         case Environment_value host options name of
                           Some value \<Rightarrow> Some (Inr (ParseReplacement Y value))
                         | None \<Rightarrow> rec (snd entry))
                  else rec (snd entry)) (\<lambda>x.
             Some (Inr (AList.update (YScalar key) x result)))))"

definition SubstituteMap ::
  "yaml_cpp \<Rightarrow> host \<Rightarrow> (yaml \<Rightarrow> yaml bounded) \<Rightarrow> SubstitutionOptions \<Rightarrow> (yaml \<times> yaml) list \<Rightarrow> yaml bounded"
where
  "SubstituteMap Y host rec options entries =
     bindB (foldB (SubstituteEntry Y host rec options (YMap entries)) [] entries) (\<lambda>result.
     bindB (foldB (SubstituteFallback Y host rec options (YMap entries)) result entries) (\<lambda>result.
       Some (Inr (YMap result))))"

subsection \<open>Nodes\<close>

primrec SubstituteNode ::
  "nat \<Rightarrow> yaml_cpp \<Rightarrow> host \<Rightarrow> SubstitutionOptions \<Rightarrow> yaml \<Rightarrow> yaml bounded"
where
  "SubstituteNode 0 Y host options node = None"
| "SubstituteNode (Suc bound) Y host options node =
     (case node of
        YUndefined \<Rightarrow> Some (Inr YNull)
      | YScalar source \<Rightarrow> SubstituteScalar Y host (SubstituteNode bound Y host options) options source
      | YSeq items \<Rightarrow>
          bindB (foldB (\<lambda>result item. bindB (SubstituteNode bound Y host options item) (\<lambda>x. Some (Inr (result @ [x]))))
                  [] items) (\<lambda>result. Some (Inr (YSeq result)))
      | YMap entries \<Rightarrow> SubstituteMap Y host (SubstituteNode bound Y host options) options entries
      | YNull \<Rightarrow> Some (Inr YNull))"

definition SubstituteConfiguration ::
  "nat \<Rightarrow> yaml_cpp \<Rightarrow> host \<Rightarrow> SubstitutionOptions \<Rightarrow> yaml \<Rightarrow> yaml bounded"
where
  "SubstituteConfiguration bound Y host options root =
     bindB (Some (if (IsMissing (so_variables options) \<or> so_variables options = YNull) \<and> IsObject root
                  then bindR (yc_subscript Y root ''variables'') (\<lambda>variables.
                         Inr (if IsMissing variables then options else options\<lparr>so_variables := variables\<rparr>))
                  else Inr options)) (\<lambda>options.
       SubstituteNode bound Y host options root)"

subsection \<open>Documents without markers\<close>

definition plain_text :: "string \<Rightarrow> bool" where
  "plain_text s \<longleftrightarrow> find_sub ''${'' s = None \<and> \<not> (length s > 1 \<and> s ! 0 = CHR ''$'' \<and> s ! 1 \<noteq> CHR ''{'')"

fun plain_doc :: "yaml \<Rightarrow> bool" and plain_entries :: "(yaml \<times> yaml) list \<Rightarrow> bool" and plain_items :: "yaml list \<Rightarrow> bool"
where
  "plain_doc YUndefined = False"
| "plain_doc YNull = True"
| "plain_doc (YScalar s) = plain_text s"
| "plain_doc (YSeq vs) = plain_items vs"
| "plain_doc (YMap es) = plain_entries es"
| "plain_entries [] = True"
| "plain_entries ((k, v) # es) =
     (IsString k \<and> (\<forall>s. k = YScalar s \<longrightarrow> \<not> decorated s) \<and> k \<notin> fst ` set es \<and> plain_doc v \<and> plain_entries es)"
| "plain_items [] = True"
| "plain_items (v # vs) = (plain_doc v \<and> plain_items vs)"

lemma plain_items_iff: "plain_items vs \<longleftrightarrow> (\<forall>v \<in> set vs. plain_doc v)"
  by (induction vs) auto

lemma plain_entries_key: "plain_entries es \<Longrightarrow> (k, v) \<in> set es \<Longrightarrow> \<exists>s. k = YScalar s \<and> \<not> decorated s"
proof (induction es)
  case (Cons e es)
  show ?case
  proof (cases "(k, v) = e")
    case True
    then show ?thesis using Cons.prems by (cases k) auto
  qed (use Cons in \<open>cases e, auto\<close>)
qed simp

lemma plain_entries_value: "plain_entries es \<Longrightarrow> (k, v) \<in> set es \<Longrightarrow> plain_doc v"
  by (induction es) auto

lemma plain_no_decoration: "plain_entries es \<Longrightarrow> decorated s \<Longrightarrow> map_of es (YScalar s) = None"
  using plain_entries_key by (fastforce simp: map_of_eq_None_iff)

lemma decorated_suffixes [simp]: "decorated (s @ ''#env'')" "decorated (s @ ''#file'')" "decorated (s @ ''#fallback'')"
  by (simp_all add: decorated_def suffix_def)

lemma update_absent: "k \<notin> fst ` set es \<Longrightarrow> AList.update k v es = es @ [(k, v)]"
  by (induction es) auto

lemma foldB_items:
  "\<forall>v \<in> set vs. rec v = Some (Inr v) \<Longrightarrow>
   foldB (\<lambda>result item. bindB (rec item) (\<lambda>x. Some (Inr (result @ [x])))) acc vs = Some (Inr (acc @ vs))"
  by (induction vs arbitrary: acc) simp_all

lemma SubstituteEntry_plain:
  assumes "yaml_cpp_laws Y" "plain_entries node" "\<not> decorated s" "rec v = Some (Inr v)" "YScalar s \<notin> fst ` set acc"
  shows "SubstituteEntry Y host rec options (YMap node) acc (YScalar s, v) = Some (Inr (acc @ [(YScalar s, v)]))"
  using assms plain_no_decoration [OF assms(2)]
  by (simp add: SubstituteEntry_def yaml_cpp_lawsD [OF assms(1)] IsMissing_def update_absent)

lemma foldB_entries_plain:
  "yaml_cpp_laws Y \<Longrightarrow> plain_entries node \<Longrightarrow> plain_entries es \<Longrightarrow> fst ` set es \<inter> fst ` set acc = {} \<Longrightarrow>
   \<forall>(k, v) \<in> set es. rec v = Some (Inr v) \<Longrightarrow>
   foldB (SubstituteEntry Y host rec options (YMap node)) acc es = Some (Inr (acc @ es))"
proof (induction es arbitrary: acc)
  case (Cons e es)
  obtain k v where e: "e = (k, v)" by (cases e)
  obtain s where s: "k = YScalar s" "\<not> decorated s" using plain_entries_key [OF Cons.prems(3), of k v] e by auto
  have "SubstituteEntry Y host rec options (YMap node) acc e = Some (Inr (acc @ [e]))"
    using SubstituteEntry_plain [OF Cons.prems(1,2) s(2), of rec v acc] Cons.prems(4,5) e s(1) by auto
  moreover have "foldB (SubstituteEntry Y host rec options (YMap node)) (acc @ [e]) es = Some (Inr ((acc @ [e]) @ es))"
    using Cons.prems e by (intro Cons.IH) auto
  ultimately show ?case by simp
qed simp

lemma foldB_fallback_plain:
  "yaml_cpp_laws Y \<Longrightarrow> plain_entries es \<Longrightarrow>
   foldB (SubstituteFallback Y host rec options node) acc es = Some (Inr acc)"
proof (induction es)
  case (Cons e es)
  obtain k v where e: "e = (k, v)" by (cases e)
  obtain s where s: "k = YScalar s" "\<not> decorated s" using plain_entries_key [OF Cons.prems(2), of k v] e by auto
  have "SubstituteFallback Y host rec options node acc e = Some (Inr acc)"
    using s e by (simp add: SubstituteFallback_def yaml_cpp_lawsD [OF Cons.prems(1)] decorated_def)
  then show ?case using Cons e by simp
qed simp

lemma SubstituteScalar_plain:
  "plain_text s \<Longrightarrow> SubstituteScalar Y host rec options s = Some (Inr (YScalar s))"
proof -
  assume p: "plain_text s"
  have n: "\<not> (1 < length s \<and> s ! 0 = CHR ''$'' \<and> s ! 1 \<noteq> CHR ''{'')" and f: "find_sub ''${'' s = None"
    using p by (simp_all only: plain_text_def not_False_eq_True simp_thms)
  have "\<not> prefix ''${file:'' s"
  proof
    assume "prefix ''${file:'' s"
    then obtain t where "s = ''${file:'' @ t" by (auto simp: prefix_def)
    then show False using f by simp
  qed
  then show ?thesis unfolding SubstituteScalar_def if_not_P [OF n] by (simp add: expand.simps f)
qed

lemma size_item: "v \<in> set vs \<Longrightarrow> size v < size (YSeq vs)"
  by (induction vs) auto

lemma size_entry: "(k, v) \<in> set es \<Longrightarrow> size v < size (YMap es)"
  by (induction es) auto

lemma SubstituteNode_plain:
  "yaml_cpp_laws Y \<Longrightarrow> plain_doc v \<Longrightarrow> size v < bound \<Longrightarrow> SubstituteNode bound Y host options v = Some (Inr v)"
proof (induction bound arbitrary: v)
  case (Suc bound)
  show ?case
  proof (cases v)
    case (YSeq vs)
    have "\<forall>x \<in> set vs. SubstituteNode bound Y host options x = Some (Inr x)"
    proof
      fix x assume x: "x \<in> set vs"
      have "plain_doc x" using Suc.prems(2) YSeq x by (simp add: plain_items_iff)
      moreover have "size x < bound" using size_item [OF x] Suc.prems(3) YSeq by simp
      ultimately show "SubstituteNode bound Y host options x = Some (Inr x)" by (rule Suc.IH [OF Suc.prems(1)])
    qed
    then show ?thesis using YSeq by (simp add: foldB_items)
  next
    case (YMap es)
    have "SubstituteNode bound Y host options x = Some (Inr x)" if "(k, x) \<in> set es" for k x
    proof (rule Suc.IH [OF Suc.prems(1)])
      show "plain_doc x" using Suc.prems(2) YMap plain_entries_value that by simp
      show "size x < bound" using size_entry [OF that] Suc.prems(3) YMap by simp
    qed
    then have "foldB (SubstituteEntry Y host (SubstituteNode bound Y host options) options (YMap es)) [] es
        = Some (Inr ([] @ es))"
      using YMap Suc.prems(1,2) by (intro foldB_entries_plain) auto
    then show ?thesis using YMap Suc.prems(1,2) by (simp add: SubstituteMap_def foldB_fallback_plain)
  qed (use Suc.prems in \<open>simp_all add: SubstituteScalar_plain\<close>)
qed simp

text \<open>C31. A document without substitution markers is left as it is, and the recursion ends: a bound above the size of
  the document is enough, whatever the variables, host and options are.\<close>

theorem substitution_plain_identity:
  "yaml_cpp_laws Y \<Longrightarrow> plain_doc v \<Longrightarrow> size v < bound \<Longrightarrow> SubstituteNode bound Y host options v = Some (Inr v)"
  by (rule SubstituteNode_plain)

theorem substitution_plain_identity_witness:
  "plain_doc (YMap [(YScalar ''a'', YSeq [YScalar ''x$y''])]) \<and>
   SubstituteNode 20 plain_yaml \<lparr>host_file = Map.empty, host_getenv = Map.empty\<rparr>
     \<lparr>so_variables = YNull, so_baseDirectory = '''', so_environment = None\<rparr>
     (YMap [(YScalar ''a'', YSeq [YScalar ''x$y''])]) = Some (Inr (YMap [(YScalar ''a'', YSeq [YScalar ''x$y''])]))"
proof -
  have "plain_doc (YMap [(YScalar ''a'', YSeq [YScalar ''x$y''])])"
    by (simp add: plain_text_def decorated_def suffix_def)
  then show ?thesis using substitution_plain_identity [OF plain_yaml_laws] by simp
qed

subsection \<open>Variables\<close>

text \<open>A variable that refers to itself: no bound is enough, the substitution does not return.\<close>

lemma self_reference_diverges:
  assumes "yaml_cpp_laws Y" "so_variables options = YMap [(YScalar ''a'', YScalar ''$a'')]"
  shows "SubstituteNode bound Y host options (YScalar ''$a'') = None"
  by (induction bound) (simp_all add: SubstituteScalar_def IsMissing_def assms(2) yaml_cpp_lawsD [OF assms(1)])

text \<open>Without a mapping of variables a reference is not an error: it becomes a null node.\<close>

lemma reference_without_variables:
  "SubstituteNode (Suc (Suc bound)) Y host \<lparr>so_variables = YNull, so_baseDirectory = base, so_environment = env\<rparr> (YScalar ''$a'')
   = Some (Inr YNull)"
  by (simp add: SubstituteScalar_def IsMissing_def)

subsection \<open>Expansion\<close>

lemma find_sub_pair:
  assumes "x \<noteq> y" "find_sub [x, y] lit = None"
  shows "find_sub [x, y] (lit @ x # y # rest) = Some (lit, rest)"
  using assms(2)
proof (induction lit)
  case (Cons c cs)
  then have "\<not> prefix [x, y] (c # cs)" "find_sub [x, y] cs = None" by (auto split: if_splits option.splits)
  then show ?case using Cons.IH assms(1) by (cases cs) (auto simp: prefix_Cons)
qed simp

lemma find_sub_char: "x \<notin> set a \<Longrightarrow> find_sub [x] (a @ x # rest) = Some (a, rest)"
  by (induction a) (auto simp: prefix_Cons)

text \<open>A text as literal pieces, each followed by one reference with an optional default.\<close>

type_synonym piece = "string \<times> string \<times> string option"

definition render_piece :: "piece \<Rightarrow> string" where
  "render_piece p = (case p of (lit, name, dflt) \<Rightarrow>
     lit @ ''${'' @ name @ (case dflt of Some d \<Rightarrow> '':-'' @ d | None \<Rightarrow> []) @ ''}'')"

definition piece_ok :: "piece \<Rightarrow> bool" where
  "piece_ok p = (case p of (lit, name, dflt) \<Rightarrow>
     find_sub ''${'' lit = None \<and> find_sub '':-'' name = None \<and> CHR ''}'' \<notin> set name
     \<and> (case dflt of Some d \<Rightarrow> CHR ''}'' \<notin> set d | None \<Rightarrow> True))"

definition piece_value :: "(string \<Rightarrow> string option) \<Rightarrow> piece \<Rightarrow> string option" where
  "piece_value env p = (case p of (lit, name, dflt) \<Rightarrow> (case env name of Some v \<Rightarrow> Some v | None \<Rightarrow> dflt))"

lemma expand_piece:
  assumes "piece_ok p"
  shows "expand env source (render_piece p @ rest) =
    (case piece_value env p of
       None \<Rightarrow> Inl (ConfigRuntimeError (''environment variable is not defined: '' @ fst (snd p)))
     | Some v \<Rightarrow> bindR (expand env source rest) (\<lambda>(r, _). Inr (fst p @ v @ r, True)))"
proof -
  obtain lit name dflt where p: "p = (lit, name, dflt)" by (cases p)
  define x where "x = name @ (case dflt of Some d \<Rightarrow> '':-'' @ d | None \<Rightarrow> [])"
  have ok: "find_sub ''${'' lit = None" "find_sub '':-'' name = None" "CHR ''}'' \<notin> set x"
    using assms p by (auto simp: piece_ok_def x_def split: option.splits)
  have s: "find_sub ''${'' (render_piece p @ rest) = Some (lit, x @ CHR ''}'' # rest)"
    using find_sub_pair [OF _ ok(1), of "x @ CHR ''}'' # rest"] by (simp add: p render_piece_def x_def)
  have e: "find_sub ''}'' (x @ CHR ''}'' # rest) = Some (x, rest)" by (rule find_sub_char [OF ok(3)])
  have x0: "dflt = None \<longrightarrow> x = name" by (simp add: x_def)
  have n: "find_sub '':-'' x = (case dflt of Some d \<Rightarrow> Some (name, d) | None \<Rightarrow> None)"
    using ok(2) find_sub_pair [OF _ ok(2)] by (simp add: x_def split: option.split)
  show ?thesis
    using x0 by (subst expand.simps) (simp add: s [unfolded p] e n p piece_value_def split: option.split)
qed

text \<open>C32. A text made of literal pieces and references \<open>${NAME}\<close> or \<open>${NAME:-default}\<close> expands to the pieces
  with each reference replaced by the variable of the environment, or by its default where the environment has none;
  the first reference with neither is reported by its name.\<close>

theorem expand_references:
  assumes "list_all piece_ok ps" "find_sub ''${'' final = None"
  shows "expand env source (concat (map render_piece ps) @ final) =
    (case List.find (\<lambda>p. piece_value env p = None) ps of
       Some p \<Rightarrow> Inl (ConfigRuntimeError (''environment variable is not defined: '' @ fst (snd p)))
     | None \<Rightarrow> Inr (concat (map (\<lambda>p. fst p @ the (piece_value env p)) ps) @ final, ps \<noteq> []))"
  using assms(1)
proof (induction ps)
  case Nil
  then show ?case using assms(2) by (subst expand.simps) simp
next
  case (Cons p ps)
  then have "expand env source (render_piece p @ concat (map render_piece ps) @ final) = (case piece_value env p of
       None \<Rightarrow> Inl (ConfigRuntimeError (''environment variable is not defined: '' @ fst (snd p)))
     | Some v \<Rightarrow> bindR (expand env source (concat (map render_piece ps) @ final)) (\<lambda>(r, _). Inr (fst p @ v @ r, True)))"
    by (intro expand_piece) simp
  then show ?case using Cons by (simp split: option.split)
qed

theorem expand_references_witness:
  "expand (\<lambda>n. if n = ''HOST'' then Some ''db'' else None) '''' ''http://${HOST}:${PORT:-80}/'' = Inr (''http://db:80/'', True)"
proof -
  let ?ps = "[(''http://'', ''HOST'', None), ('':'', ''PORT'', Some ''80'')]"
  have "list_all piece_ok ?ps" "find_sub ''${'' ''/'' = None" by (simp_all add: piece_ok_def)
  from expand_references [OF this, of "\<lambda>n. if n = ''HOST'' then Some ''db'' else None" "''''"]
  show ?thesis by (simp add: render_piece_def piece_value_def)
qed

end
