(* ===== verification/ConfigLoading.thy ===== *)
theory ConfigLoading
  imports ConfigRuntime Substitution
begin

section \<open>Loading and reloading the configuration (runtime/config/loader.hpp)\<close>

text \<open>
  The \<open>ConfigLoader\<close>: the fingerprint of the two files, the candidate configuration built from it, and the
  poller that replaces the published configuration when the files change. The generated configuration type and
  its three customization functions are a parameter, \<open>config_adapter\<close>; the metrics back end is the parameter
  \<open>metrics_api\<close>, which says which requests for an instrument throw. Every call that the loader makes
  outwards (counter, gauge, warning, reload callback) is recorded in order in \<open>ld_calls\<close>.

  Each file is read on its own, so the contents may change between two reads: an operation takes the state of the
  host at each of its reads. \<open>Load\<close> and the first half of \<open>PollOnce\<close> run under \<open>reloadMutex_\<close> and
  are single steps; the reload callback runs outside the mutex and is a step of its own.
\<close>

datatype thrown = StdException config_error | UnknownException

record 'c config_adapter =
  ad_Make :: 'c
  ad_Apply :: "yaml \<Rightarrow> 'c \<Rightarrow> (thrown, 'c) result"
  ad_Finalize :: "'c \<Rightarrow> (thrown, 'c) result"
  ad_IConfig :: "'c \<Rightarrow> IConfig"

record Paths =
  configPath :: string
  overridePath :: "string option"

definition has_override :: "Paths \<Rightarrow> bool" where
  "has_override paths = (case overridePath paths of Some p \<Rightarrow> p \<noteq> [] | None \<Rightarrow> False)"

record Fingerprint =
  fp_config :: string
  fp_values :: string

record 'c LoadedConfig =
  lc_config :: 'c
  lc_runtimeConfig :: RuntimeConfig

record 'c Candidate =
  cd_config :: "'c LoadedConfig"
  cd_fingerprint :: Fingerprint

text \<open>The host at the moments one attempt reads it: the base file, the override file, the substitutions.\<close>

record reads =
  rd_config :: files
  rd_values :: files
  rd_host :: host

definition throwing :: "(config_error, 'a) result \<Rightarrow> (thrown, 'a) result" where
  "throwing r = (case r of Inl e \<Rightarrow> Inl (StdException e) | Inr x \<Rightarrow> Inr x)"

text \<open>\<open>std::filesystem::path::parent_path\<close> of a path without repeated separators.\<close>

definition parent_path :: "string \<Rightarrow> string" where
  "parent_path path =
     (let dir = rev (dropWhile (\<lambda>c. c \<noteq> CHR ''/'') (rev path))
      in if dir = ''/'' then dir else butlast dir)"

subsection \<open>Building a candidate\<close>

definition ReadFingerprint :: "files \<Rightarrow> files \<Rightarrow> Paths \<Rightarrow> (thrown, Fingerprint) result" where
  "ReadFingerprint atConfig atValues paths =
     bindR (throwing (ReadConfigFile atConfig (configPath paths))) (\<lambda>config.
       if has_override paths
       then bindR (throwing (ReadConfigFile atValues (the (overridePath paths)))) (\<lambda>values.
              Inr \<lparr>fp_config = config, fp_values = values\<rparr>)
       else Inr \<lparr>fp_config = config, fp_values = []\<rparr>)"

definition MakeLoadedConfig :: "'c config_adapter \<Rightarrow> 'c \<Rightarrow> (thrown, 'c LoadedConfig) result" where
  "MakeLoadedConfig A config =
     bindR (throwing (MakeRuntimeConfig (ad_IConfig A config))) (\<lambda>rc.
       Inr \<lparr>lc_config = config, lc_runtimeConfig = rc\<rparr>)"

text \<open>The part of \<open>BuildCandidate\<close> after the files have been read: the merged document, and what is built from it;
  \<open>None\<close> when the substitution does not end within the bound.\<close>

definition MergedDocument :: "yaml_cpp \<Rightarrow> Paths \<Rightarrow> Fingerprint \<Rightarrow> (config_error, yaml) result" where
  "MergedDocument Y paths fingerprint =
     bindR (ParseYaml Y (fp_config fingerprint) (configPath paths)) (\<lambda>merged.
       if has_override paths
       then bindR (ParseYaml Y (fp_values fingerprint) (the (overridePath paths))) (\<lambda>values.
              DeepMerge Y merged values)
       else Inr merged)"

definition BuildLoaded ::
  "nat \<Rightarrow> yaml_cpp \<Rightarrow> 'c config_adapter \<Rightarrow> host \<Rightarrow> Paths \<Rightarrow> Fingerprint \<Rightarrow> (thrown, 'c LoadedConfig) result option"
where
  "BuildLoaded bound Y A host paths fingerprint =
     (case throwing (MergedDocument Y paths fingerprint) of
        Inl e \<Rightarrow> Some (Inl e)
      | Inr merged \<Rightarrow>
          (case SubstituteConfiguration bound Y host
             \<lparr>so_variables = YNull, so_baseDirectory = parent_path (configPath paths), so_environment = None\<rparr> merged of
             None \<Rightarrow> None
           | Some substituted \<Rightarrow> Some
               (bindR (throwing substituted) (\<lambda>document.
                bindR (ad_Apply A document (ad_Make A)) (\<lambda>config.
                bindR (ad_Finalize A config) (\<lambda>config.
                MakeLoadedConfig A config))))))"

definition BuildCandidate ::
  "nat \<Rightarrow> yaml_cpp \<Rightarrow> 'c config_adapter \<Rightarrow> reads \<Rightarrow> Paths \<Rightarrow> (thrown, 'c Candidate) result option"
where
  "BuildCandidate bound Y A r paths =
     (case ReadFingerprint (rd_config r) (rd_values r) paths of
        Inl e \<Rightarrow> Some (Inl e)
      | Inr fingerprint \<Rightarrow>
          (case BuildLoaded bound Y A (rd_host r) paths fingerprint of
             None \<Rightarrow> None
           | Some built \<Rightarrow> Some (bindR built (\<lambda>loaded. Inr \<lparr>cd_config = loaded, cd_fingerprint = fingerprint\<rparr>))))"

subsection \<open>The loader\<close>

record instrument =
  in_scope :: "(string \<times> string) list"
  in_name :: string
  in_labels :: "(string \<times> string) list"

record metrics_api =
  mt_scope :: "(string \<times> string) list \<Rightarrow> thrown option"
  mt_instrument :: "instrument \<Rightarrow> thrown option"

datatype 'c loader_call =
    CounterInc instrument
  | GaugeSet instrument int
  | LogWarn string string thrown
  | ReloadCallback_called "'c LoadedConfig"

type_synonym 'c ReloadCallback = "RuntimeConfig \<Rightarrow> thrown option"

text \<open>\<open>ld_pending\<close> is the configuration with which the poller is about to call the callback it has copied.\<close>

record 'c ConfigLoader =
  ld_paths :: Paths
  ld_serviceName :: string
  ld_state :: "'c LoadedConfig option"
  ld_fingerprint :: "Fingerprint option"
  ld_onReload :: "'c ReloadCallback option"
  ld_reloadSuccessCounter :: "instrument option"
  ld_reloadErrorCounter :: "instrument option"
  ld_serviceInfoGauge :: "instrument option"
  ld_poller :: bool
  ld_pending :: "('c ReloadCallback \<times> 'c LoadedConfig) option"
  ld_calls :: "'c loader_call list"

definition new_ConfigLoader :: "Paths \<Rightarrow> string \<Rightarrow> 'c ConfigLoader" where
  "new_ConfigLoader paths serviceName = \<lparr>ld_paths = paths, ld_serviceName = serviceName, ld_state = None,
     ld_fingerprint = None, ld_onReload = None, ld_reloadSuccessCounter = None, ld_reloadErrorCounter = None,
     ld_serviceInfoGauge = None, ld_poller = False, ld_pending = None, ld_calls = []\<rparr>"

definition record_call :: "'c loader_call \<Rightarrow> 'c ConfigLoader \<Rightarrow> 'c ConfigLoader" where
  "record_call c l = l\<lparr>ld_calls := ld_calls l @ [c]\<rparr>"

fun EnvironmentName :: "Environment \<Rightarrow> string" where
  "EnvironmentName Environment_kLocal = ''local''"
| "EnvironmentName Environment_kDebug = ''debug''"
| "EnvironmentName Environment_kStaging = ''staging''"
| "EnvironmentName Environment_kProduction = ''production''"
| "EnvironmentName Environment_kUndefined = []"

definition InitializeServiceMetrics ::
  "metrics_api \<Rightarrow> RuntimeConfig \<Rightarrow> 'c ConfigLoader \<Rightarrow> 'c ConfigLoader \<times> thrown option"
where
  "InitializeServiceMetrics M rc l =
     (let service = GetOnlyServiceConfig rc;
          l = (case service of
                 Some s \<Rightarrow> if Service_name s \<noteq> [] then l\<lparr>ld_serviceName := Service_name s\<rparr> else l
               | None \<Rightarrow> l);
          labels = [(''service'', ld_serviceName l)];
          success = \<lparr>in_scope = labels, in_name = ''config_reloads_total'', in_labels = [(''event'', ''success'')]\<rparr>;
          failure = \<lparr>in_scope = labels, in_name = ''config_reloads_total'', in_labels = [(''event'', ''error'')]\<rparr>
      in case mt_scope M labels of Some e \<Rightarrow> (l, Some e) | None \<Rightarrow>
         case mt_instrument M success of Some e \<Rightarrow> (l, Some e) | None \<Rightarrow>
         let l = l\<lparr>ld_reloadSuccessCounter := Some success\<rparr> in
         case mt_instrument M failure of Some e \<Rightarrow> (l, Some e) | None \<Rightarrow>
         let l = l\<lparr>ld_reloadErrorCounter := Some failure\<rparr> in
         case service of None \<Rightarrow> (l, None) | Some s \<Rightarrow>
         let infoLabels = [(''service'', ld_serviceName l), (''environment'', EnvironmentName (Service_environment s))];
             gauge = \<lparr>in_scope = infoLabels, in_name = ''info'', in_labels = []\<rparr>
         in case mt_scope M infoLabels of Some e \<Rightarrow> (l, Some e) | None \<Rightarrow>
            case mt_instrument M gauge of Some e \<Rightarrow> (l, Some e) | None \<Rightarrow>
              (record_call (GaugeSet gauge 1) (l\<lparr>ld_serviceInfoGauge := Some gauge\<rparr>), None))"

definition Load ::
  "nat \<Rightarrow> yaml_cpp \<Rightarrow> 'c config_adapter \<Rightarrow> metrics_api \<Rightarrow> reads \<Rightarrow> 'c ConfigLoader
   \<Rightarrow> ('c ConfigLoader \<times> (thrown, RuntimeConfig) result) option"
where
  "Load bound Y A M r l =
     (case BuildCandidate bound Y A r (ld_paths l) of
        None \<Rightarrow> None
      | Some (Inl e) \<Rightarrow> Some (l, Inl e)
      | Some (Inr loaded) \<Rightarrow>
          (case InitializeServiceMetrics M (lc_runtimeConfig (cd_config loaded))
             (l\<lparr>ld_state := Some (cd_config loaded), ld_fingerprint := Some (cd_fingerprint loaded)\<rparr>) of
             (l, Some e) \<Rightarrow> Some (l, Inl e)
           | (l, None) \<Rightarrow> Some (l, Inr (lc_runtimeConfig (cd_config loaded)))))"

text \<open>\<open>Stop\<close> joins the poller: it takes effect once the poller has no callback left to call.\<close>

definition Stop :: "'c ConfigLoader \<Rightarrow> 'c ConfigLoader" where
  "Stop l = (if ld_poller l then l\<lparr>ld_poller := False\<rparr> else l)"

definition Start :: "int \<Rightarrow> 'c ReloadCallback option \<Rightarrow> 'c ConfigLoader \<Rightarrow> 'c ConfigLoader \<times> thrown option" where
  "Start pollInterval onReload l =
     (if pollInterval \<le> 0
      then (l, Some (StdException (ConfigInvalidArgument ''config reload interval must be positive'')))
      else let l = (Stop l)\<lparr>ld_onReload := onReload\<rparr> in
           if \<not> has_override (ld_paths l) then (l, None) else (l\<lparr>ld_poller := True\<rparr>, None))"

definition CurrentLoaded :: "'c ConfigLoader \<Rightarrow> (thrown, 'c LoadedConfig) result" where
  "CurrentLoaded l =
     (case ld_state l of
        Some loaded \<Rightarrow> Inr loaded
      | None \<Rightarrow> Inl (StdException (ConfigLogicError ''configuration has not been loaded'')))"

definition GetRuntimeConfig :: "'c ConfigLoader \<Rightarrow> (thrown, RuntimeConfig) result" where
  "GetRuntimeConfig l = bindR (CurrentLoaded l) (\<lambda>loaded. Inr (lc_runtimeConfig loaded))"

definition GetConfig :: "'c ConfigLoader \<Rightarrow> (thrown, 'c) result" where
  "GetConfig l = bindR (CurrentLoaded l) (\<lambda>loaded. Inr (lc_config loaded))"

subsection \<open>Polling\<close>

definition IncBestEffort :: "instrument option \<Rightarrow> 'c ConfigLoader \<Rightarrow> 'c ConfigLoader" where
  "IncBestEffort counter l = (case counter of Some c \<Rightarrow> record_call (CounterInc c) l | None \<Rightarrow> l)"

definition LogReloadFailure :: "thrown \<Rightarrow> 'c ConfigLoader \<Rightarrow> 'c ConfigLoader" where
  "LogReloadFailure e l = record_call (LogWarn ''config reload failed'' (ld_serviceName l) e) l"

definition LogCallbackFailure :: "thrown \<Rightarrow> 'c ConfigLoader \<Rightarrow> 'c ConfigLoader" where
  "LogCallbackFailure e l = record_call (LogWarn ''config reload callback failed'' (ld_serviceName l) e) l"

definition reload_failed :: "thrown \<Rightarrow> 'c ConfigLoader \<Rightarrow> 'c ConfigLoader" where
  "reload_failed e l = IncBestEffort (ld_reloadErrorCounter l) (LogReloadFailure e l)"

definition publish :: "'c Candidate \<Rightarrow> 'c ConfigLoader \<Rightarrow> 'c ConfigLoader" where
  "publish candidate l =
     l\<lparr>ld_state := Some (cd_config candidate), ld_fingerprint := Some (cd_fingerprint candidate),
       ld_pending := (case ld_onReload l of Some callback \<Rightarrow> Some (callback, cd_config candidate) | None \<Rightarrow> None)\<rparr>"

text \<open>\<open>PollOnce\<close> up to the call of the callback; the first two arguments are the files at the two reads of the
  observed fingerprint, \<open>r\<close> is the host at the reads of \<open>BuildCandidate\<close>. The counters are incremented and
  the warning is written right after \<open>reloadMutex_\<close> is released; they belong to the step here. The result is
  \<open>None\<close> when the substitution does not end within the bound.\<close>

definition PollOnce ::
  "nat \<Rightarrow> yaml_cpp \<Rightarrow> 'c config_adapter \<Rightarrow> files \<Rightarrow> files \<Rightarrow> reads \<Rightarrow> 'c ConfigLoader \<Rightarrow> 'c ConfigLoader option"
where
  "PollOnce bound Y A atConfig atValues r l =
     (case ReadFingerprint atConfig atValues (ld_paths l) of
        Inl e \<Rightarrow> Some (reload_failed e l)
      | Inr observed \<Rightarrow>
          if ld_fingerprint l = Some observed then Some l
          else case BuildCandidate bound Y A r (ld_paths l) of
                 None \<Rightarrow> None
               | Some (Inl e) \<Rightarrow> Some (reload_failed e l)
               | Some (Inr candidate) \<Rightarrow> Some (IncBestEffort (ld_reloadSuccessCounter l) (publish candidate l)))"

definition PollOnce_callback :: "'c ConfigLoader \<Rightarrow> 'c ConfigLoader" where
  "PollOnce_callback l =
     (case ld_pending l of
        None \<Rightarrow> l
      | Some (callback, loaded) \<Rightarrow>
          let l = record_call (ReloadCallback_called loaded) (l\<lparr>ld_pending := None\<rparr>) in
          (case callback (lc_runtimeConfig loaded) of
             Some e \<Rightarrow> LogCallbackFailure e l
           | None \<Rightarrow> l))"

text \<open>The loader under the service thread (\<open>Load\<close>, \<open>Start\<close>, \<open>Stop\<close>), its poller and a host
  whose files change at any time.\<close>

inductive loader_reach ::
  "nat \<Rightarrow> yaml_cpp \<Rightarrow> 'c config_adapter \<Rightarrow> metrics_api \<Rightarrow> Paths \<Rightarrow> 'c ConfigLoader \<Rightarrow> bool"
  for bound Y A M paths
where
  init: "loader_reach bound Y A M paths (new_ConfigLoader paths name)"
| load: "loader_reach bound Y A M paths l \<Longrightarrow> Load bound Y A M r l = Some (l', res) \<Longrightarrow> loader_reach bound Y A M paths l'"
| start: "loader_reach bound Y A M paths l \<Longrightarrow> ld_pending l = None \<Longrightarrow> Start i cb l = (l', res) \<Longrightarrow> loader_reach bound Y A M paths l'"
| stop: "loader_reach bound Y A M paths l \<Longrightarrow> ld_pending l = None \<Longrightarrow> loader_reach bound Y A M paths (Stop l)"
| poll: "loader_reach bound Y A M paths l \<Longrightarrow> ld_poller l \<Longrightarrow> ld_pending l = None \<Longrightarrow>
    PollOnce bound Y A fc fv r l = Some l' \<Longrightarrow> loader_reach bound Y A M paths l'"
| callback: "loader_reach bound Y A M paths l \<Longrightarrow> loader_reach bound Y A M paths (PollOnce_callback l)"

subsection \<open>What is published was built from the recorded files\<close>

definition built_from :: "nat \<Rightarrow> yaml_cpp \<Rightarrow> 'c config_adapter \<Rightarrow> Paths \<Rightarrow> Fingerprint \<Rightarrow> 'c LoadedConfig \<Rightarrow> bool" where
  "built_from bound Y A paths fp L \<longleftrightarrow> (\<exists>host. BuildLoaded bound Y A host paths fp = Some (Inr L))"

lemma MakeLoadedConfig_Inr:
  assumes "MakeLoadedConfig A c = Inr L"
  shows "MakeRuntimeConfig (ad_IConfig A (lc_config L)) = Inr (lc_runtimeConfig L)"
  using assms by (auto simp: MakeLoadedConfig_def bindR_eq_Inr throwing_def split: sum.splits)

lemma case_sum_Some_Inr:
  assumes "(case r of Inl e \<Rightarrow> Some (Inl (f e)) | Inr x \<Rightarrow> g x) = Some (Inr y)"
  obtains x where "r = Inr x" "g x = Some (Inr y)"
  using assms by (cases r) auto

lemma case_option_Some_Inr:
  assumes "(case r of None \<Rightarrow> None | Some x \<Rightarrow> g x) = Some (Inr y)"
  obtains x where "r = Some x" "g x = Some (Inr y)"
  using assms by (cases r) auto

lemma built_from_runtime:
  assumes "built_from bound Y A paths fp L"
  shows "MakeRuntimeConfig (ad_IConfig A (lc_config L)) = Inr (lc_runtimeConfig L)"
proof -
  obtain host where "BuildLoaded bound Y A host paths fp = Some (Inr L)"
    using assms by (auto simp: built_from_def)
  then obtain c where "MakeLoadedConfig A c = Inr L"
    unfolding BuildLoaded_def
    by (elim case_sum_Some_Inr case_option_Some_Inr) (auto simp: bindR_eq_Inr)
  then show ?thesis by (rule MakeLoadedConfig_Inr)
qed

lemma BuildCandidate_Inr:
  assumes "BuildCandidate bound Y A r paths = Some (Inr c)"
  shows "ReadFingerprint (rd_config r) (rd_values r) paths = Inr (cd_fingerprint c)"
    and "BuildLoaded bound Y A (rd_host r) paths (cd_fingerprint c) = Some (Inr (cd_config c))"
  using assms by (auto simp: BuildCandidate_def bindR_eq_Inr split: sum.splits option.splits)

lemma BuildCandidate_stable:
  assumes "rd_config r = f" "rd_values r = f"
  shows "BuildCandidate bound Y A r paths =
    (case ReadFingerprint f f paths of
       Inl e \<Rightarrow> Some (Inl e)
     | Inr fp \<Rightarrow> map_option (\<lambda>b. bindR b (\<lambda>L. Inr \<lparr>cd_config = L, cd_fingerprint = fp\<rparr>)) (BuildLoaded bound Y A (rd_host r) paths fp))"
  using assms by (simp add: BuildCandidate_def split: sum.split option.split)

definition loader_inv :: "nat \<Rightarrow> yaml_cpp \<Rightarrow> 'c config_adapter \<Rightarrow> Paths \<Rightarrow> 'c ConfigLoader \<Rightarrow> bool" where
  "loader_inv bound Y A paths l \<longleftrightarrow>
     ld_paths l = paths
     \<and> (case ld_state l of
          None \<Rightarrow> ld_fingerprint l = None
        | Some L \<Rightarrow> (\<exists>fp. ld_fingerprint l = Some fp \<and> built_from bound Y A paths fp L))
     \<and> (\<forall>cb L. ld_pending l = Some (cb, L) \<longrightarrow> (\<exists>fp. built_from bound Y A paths fp L))
     \<and> (\<forall>L. ReloadCallback_called L \<in> set (ld_calls l) \<longrightarrow> (\<exists>fp. built_from bound Y A paths fp L))
     \<and> (ld_pending l \<noteq> None \<longrightarrow> ld_poller l)
     \<and> (ld_poller l \<longrightarrow> has_override paths)"

lemma Initialize_frame:
  assumes "InitializeServiceMetrics M rc l = (l', e)"
  shows "ld_paths l' = ld_paths l" "ld_state l' = ld_state l" "ld_fingerprint l' = ld_fingerprint l"
    "ld_pending l' = ld_pending l" "ld_poller l' = ld_poller l" "ld_onReload l' = ld_onReload l"
    "ReloadCallback_called L \<in> set (ld_calls l') \<longleftrightarrow> ReloadCallback_called L \<in> set (ld_calls l)"
  using assms
  by (auto simp: InitializeServiceMetrics_def Let_def record_call_def split: option.splits if_splits)

lemma IncBestEffort_frame [simp]:
  "ld_paths (IncBestEffort c l) = ld_paths l" "ld_state (IncBestEffort c l) = ld_state l"
  "ld_fingerprint (IncBestEffort c l) = ld_fingerprint l" "ld_pending (IncBestEffort c l) = ld_pending l"
  "ld_poller (IncBestEffort c l) = ld_poller l"
  "ld_calls (IncBestEffort c l) = ld_calls l @ (case c of Some i \<Rightarrow> [CounterInc i] | None \<Rightarrow> [])"
  by (simp_all add: IncBestEffort_def record_call_def split: option.split)

lemma reload_failed_frame [simp]:
  "ld_paths (reload_failed e l) = ld_paths l" "ld_state (reload_failed e l) = ld_state l"
  "ld_fingerprint (reload_failed e l) = ld_fingerprint l" "ld_pending (reload_failed e l) = ld_pending l"
  "ld_poller (reload_failed e l) = ld_poller l"
  "ld_calls (reload_failed e l) = ld_calls l @ LogWarn ''config reload failed'' (ld_serviceName l) e
     # (case ld_reloadErrorCounter l of Some i \<Rightarrow> [CounterInc i] | None \<Rightarrow> [])"
  by (simp_all add: reload_failed_def LogReloadFailure_def record_call_def)

lemma inv_load:
  assumes "loader_inv bound Y A paths l" "Load bound Y A M r l = Some (l', res)"
  shows "loader_inv bound Y A paths l'"
proof (cases "BuildCandidate bound Y A r (ld_paths l)")
  case None
  then show ?thesis using assms(2) by (simp add: Load_def)
next
  case (Some b)
  show ?thesis
  proof (cases b)
    case (Inl e)
    then show ?thesis using assms Some by (simp add: Load_def)
  next
    case (Inr c)
    let ?l = "l\<lparr>ld_state := Some (cd_config c), ld_fingerprint := Some (cd_fingerprint c)\<rparr>"
    obtain e where e: "InitializeServiceMetrics M (lc_runtimeConfig (cd_config c)) ?l = (l', e)"
      using assms(2) Some Inr by (auto simp: Load_def split: prod.splits option.splits)
    have "built_from bound Y A paths (cd_fingerprint c) (cd_config c)"
      using BuildCandidate_Inr(2) [OF Some [unfolded Inr]] assms(1) by (auto simp: built_from_def loader_inv_def)
    then show ?thesis using assms(1) by (simp add: loader_inv_def Initialize_frame [OF e])
  qed
qed

lemma PollOnce_cases:
  assumes "PollOnce bound Y A fc fv r l = Some l'"
  obtains (same) fp where "ReadFingerprint fc fv (ld_paths l) = Inr fp" "ld_fingerprint l = Some fp" "l' = l"
  | (unreadable) e where "ReadFingerprint fc fv (ld_paths l) = Inl e" "l' = reload_failed e l"
  | (failed) fp e where "ReadFingerprint fc fv (ld_paths l) = Inr fp"
      "BuildCandidate bound Y A r (ld_paths l) = Some (Inl e)" "l' = reload_failed e l"
  | (published) fp c where "ReadFingerprint fc fv (ld_paths l) = Inr fp" "ld_fingerprint l \<noteq> Some fp"
      "BuildCandidate bound Y A r (ld_paths l) = Some (Inr c)"
      "l' = IncBestEffort (ld_reloadSuccessCounter l) (publish c l)"
proof (cases "ReadFingerprint fc fv (ld_paths l)")
  case (Inl e)
  then show ?thesis using assms by (intro unreadable [of e]) (simp_all add: PollOnce_def)
next
  case (Inr fp)
  show ?thesis
  proof (cases "ld_fingerprint l = Some fp")
    case True
    then show ?thesis using assms Inr by (intro same [of fp]) (simp_all add: PollOnce_def)
  next
    case new: False
    then obtain b where b: "BuildCandidate bound Y A r (ld_paths l) = Some b"
      using assms Inr by (auto simp: PollOnce_def split: option.splits)
    show ?thesis
    proof (cases b)
      case (Inl e)
      then show ?thesis using assms Inr b new \<open>ReadFingerprint fc fv (ld_paths l) = Inr fp\<close>
        by (intro failed [of fp e]) (simp_all add: PollOnce_def)
    next
      case c: (Inr c)
      then show ?thesis using assms Inr b new by (intro published [of fp c]) (simp_all add: PollOnce_def)
    qed
  qed
qed

lemma inv_poll:
  assumes "loader_inv bound Y A paths l" "ld_poller l" "PollOnce bound Y A fc fv r l = Some l'"
  shows "loader_inv bound Y A paths l'"
  using assms(3)
proof (cases rule: PollOnce_cases)
  case (published fp c)
  have "built_from bound Y A paths (cd_fingerprint c) (cd_config c)"
    using BuildCandidate_Inr(2) [OF published(3)] assms(1) by (auto simp: built_from_def loader_inv_def)
  then show ?thesis using assms(1,2) by (auto simp: loader_inv_def published(4) publish_def split: option.splits)
qed (use assms(1) in \<open>auto simp: loader_inv_def split: option.splits\<close>)

lemma inv_callback:
  assumes "loader_inv bound Y A paths l"
  shows "loader_inv bound Y A paths (PollOnce_callback l)"
  using assms
  by (auto simp: loader_inv_def PollOnce_callback_def record_call_def LogCallbackFailure_def Let_def
      split: option.splits prod.splits)

lemma inv_start:
  assumes "loader_inv bound Y A paths l" "ld_pending l = None" "Start i cb l = (l', res)"
  shows "loader_inv bound Y A paths l'"
  using assms by (auto simp: Start_def Stop_def Let_def loader_inv_def split: if_splits option.splits)

lemma inv_stop:
  assumes "loader_inv bound Y A paths l" "ld_pending l = None"
  shows "loader_inv bound Y A paths (Stop l)"
  using assms by (auto simp: Stop_def loader_inv_def split: option.splits)

lemma reach_inv: "loader_reach bound Y A M paths l \<Longrightarrow> loader_inv bound Y A paths l"
proof (induction rule: loader_reach.induct)
  case (init name)
  then show ?case by (simp add: loader_inv_def new_ConfigLoader_def)
qed (blast intro: inv_load inv_start inv_stop inv_poll inv_callback)+


text \<open>C22. Whatever the order of loads, starts, stops, polls and callbacks, and whenever the files change: a
  published configuration was built from exactly the two file contents of the recorded fingerprint, it is
  consistent, its indices are those of its own lists, and every configuration handed to the reload callback was
  built the same way. Before the first successful load there is none, and the accessors say so.\<close>

theorem published_config_valid:
  assumes "loader_reach bound Y A M paths l"
  shows "(case CurrentLoaded l of
       Inl e \<Rightarrow> e = StdException (ConfigLogicError ''configuration has not been loaded'')
                  \<and> GetConfig l = Inl e \<and> GetRuntimeConfig l = Inl e \<and> ld_fingerprint l = None
     | Inr L \<Rightarrow> GetConfig l = Inr (lc_config L) \<and> GetRuntimeConfig l = Inr (lc_runtimeConfig L)
                  \<and> (\<exists>fp. ld_fingerprint l = Some fp \<and> built_from bound Y A paths fp L)
                  \<and> config_consistent (ad_IConfig A (lc_config L))
                  \<and> config_indexed (ad_IConfig A (lc_config L)) (lc_runtimeConfig L))
     \<and> (\<forall>L. ReloadCallback_called L \<in> set (ld_calls l) \<longrightarrow>
          (\<exists>fp. built_from bound Y A paths fp L) \<and> config_consistent (ad_IConfig A (lc_config L)))"
    (is "?published \<and> ?called")
proof
  have inv: "loader_inv bound Y A paths l" by (rule reach_inv [OF assms])
  show ?published
  proof (cases "ld_state l")
    case None
    then show ?thesis using inv by (simp add: CurrentLoaded_def GetConfig_def GetRuntimeConfig_def loader_inv_def)
  next
    case (Some L)
    obtain fp where fp: "ld_fingerprint l = Some fp" "built_from bound Y A paths fp L"
      using inv Some by (auto simp: loader_inv_def)
    have r: "MakeRuntimeConfig (ad_IConfig A (lc_config L)) = Inr (lc_runtimeConfig L)"
      by (rule built_from_runtime [OF fp(2)])
    show ?thesis
      using Some fp MakeRuntimeConfig_consistent [OF r] MakeRuntimeConfig_indexed [OF r]
      by (simp add: CurrentLoaded_def GetConfig_def GetRuntimeConfig_def)
  qed
  show ?called
  proof (intro allI impI)
    fix L
    assume "ReloadCallback_called L \<in> set (ld_calls l)"
    then obtain fp where fp: "built_from bound Y A paths fp L" using inv by (auto simp: loader_inv_def)
    then show "(\<exists>fp. built_from bound Y A paths fp L) \<and> config_consistent (ad_IConfig A (lc_config L))"
      using MakeRuntimeConfig_consistent [OF built_from_runtime [OF fp]] by auto
  qed
qed

subsection \<open>One poll of files that do not change\<close>

lemma BuildLoaded_None:
  "BuildLoaded bound Y A host paths fp = None \<longleftrightarrow>
     (\<exists>merged. MergedDocument Y paths fp = Inr merged
        \<and> SubstituteConfiguration bound Y host
            \<lparr>so_variables = YNull, so_baseDirectory = parent_path (configPath paths), so_environment = None\<rparr> merged = None)"
  by (auto simp: BuildLoaded_def throwing_def split: sum.splits option.splits)

lemma SubstituteConfiguration_plain:
  assumes "yaml_cpp_laws Y" "plain_doc v" "size v < bound"
  shows "SubstituteConfiguration bound Y host options v \<noteq> None"
  using SubstituteNode_plain [OF assms] by (cases v) (simp_all add: SubstituteConfiguration_def yaml_cpp_lawsD [OF assms(1)])

lemma PollOnce_None:
  assumes "PollOnce bound Y A fc fv r l = None"
  obtains fp where "ReadFingerprint fc fv (ld_paths l) = Inr fp" "ld_fingerprint l \<noteq> Some fp"
    "BuildCandidate bound Y A r (ld_paths l) = None"
  using assms by (auto simp: PollOnce_def split: sum.splits option.splits if_splits)

text \<open>A poll during which the files do not change, when it returns.\<close>

definition poll_settled ::
  "nat \<Rightarrow> yaml_cpp \<Rightarrow> 'c config_adapter \<Rightarrow> Paths \<Rightarrow> files \<Rightarrow> host \<Rightarrow> 'c ConfigLoader \<Rightarrow> 'c ConfigLoader \<Rightarrow> bool"
where
  "poll_settled bound Y A paths f host l l' \<longleftrightarrow>
     (\<exists>fp L. ReadFingerprint f f paths = Inr fp \<and> ld_fingerprint l' = Some fp \<and> ld_state l' = Some L
        \<and> built_from bound Y A paths fp L \<and> (\<forall>r'. PollOnce bound Y A f f r' l' = Some l')
        \<and> (ld_fingerprint l = Some fp \<longrightarrow> l' = l))
   \<or> (\<exists>e. (ReadFingerprint f f paths = Inl e
           \<or> (\<exists>fp. ReadFingerprint f f paths = Inr fp \<and> BuildLoaded bound Y A host paths fp = Some (Inl e)))
        \<and> ld_state l' = ld_state l \<and> ld_fingerprint l' = ld_fingerprint l \<and> ld_pending l' = ld_pending l
        \<and> ld_calls l' = ld_calls l @ LogWarn ''config reload failed'' (ld_serviceName l) e
            # (case ld_reloadErrorCounter l of Some i \<Rightarrow> [CounterInc i] | None \<Rightarrow> []))"

lemma PollOnce_settled:
  assumes "loader_reach bound Y A M paths l" "rd_config r = f" "rd_values r = f"
    and "PollOnce bound Y A f f r l = Some l'"
  shows "poll_settled bound Y A paths f (rd_host r) l l'"
proof -
  have inv: "loader_inv bound Y A paths l" by (rule reach_inv [OF assms(1)])
  then have p: "ld_paths l = paths" by (simp add: loader_inv_def)
  show ?thesis
    using assms(4)
  proof (cases rule: PollOnce_cases)
    case (same fp)
    then obtain L where "ld_state l = Some L" "built_from bound Y A paths fp L"
      using inv by (auto simp: loader_inv_def split: option.splits)
    then show ?thesis using same p unfolding poll_settled_def by (intro disjI1 exI [of _ fp] exI [of _ L]) (simp add: PollOnce_def)
  next
    case (unreadable e)
    then show ?thesis using p unfolding poll_settled_def by (intro disjI2 exI [of _ e]) simp
  next
    case (failed fp e)
    then have "BuildLoaded bound Y A (rd_host r) paths fp = Some (Inl e)"
      using p by (simp add: BuildCandidate_stable [OF assms(2,3)] bindR_eq_Inl split: option.splits)
    then show ?thesis using failed p unfolding poll_settled_def by (intro disjI2 exI [of _ e]) simp
  next
    case (published fp c)
    have c: "cd_fingerprint c = fp" using BuildCandidate_Inr(1) [OF published(3)] published(1) assms(2,3) by simp
    have "built_from bound Y A paths fp (cd_config c)"
      using BuildCandidate_Inr(2) [OF published(3)] c p by (auto simp: built_from_def)
    moreover have l': "ld_paths l' = paths" "ld_fingerprint l' = Some fp" "ld_state l' = Some (cd_config c)"
      using published(4) c p by (simp_all add: publish_def)
    moreover have "PollOnce bound Y A f f r' l' = Some l'" for r' using l' published(1) p by (simp add: PollOnce_def)
    ultimately show ?thesis using published(1,2) p unfolding poll_settled_def by (intro disjI1 exI [of _ fp] exI [of _ "cd_config c"]) simp
  qed
qed


subsection \<open>An example\<close>

definition demo_yaml :: yaml_cpp where
  "demo_yaml = plain_yaml\<lparr>yc_load := (\<lambda>s. Inr (if s = [] then YNull else YScalar s))\<rparr>"

definition demo_adapter :: "IConfig config_adapter" where
  "demo_adapter = \<lparr>ad_Make = example_config, ad_Apply = (\<lambda>_ c. Inr c), ad_Finalize = Inr, ad_IConfig = (\<lambda>c. c)\<rparr>"

definition demo_paths :: Paths where
  "demo_paths = \<lparr>configPath = ''c.yaml'', overridePath = Some ''o.yaml''\<rparr>"

definition demo_reads :: reads where
  "demo_reads = \<lparr>rd_config = (\<lambda>_. Some []), rd_values = (\<lambda>_. Some []),
     rd_host = \<lparr>host_file = Map.empty, host_getenv = Map.empty\<rparr>\<rparr>"

definition demo_metrics :: metrics_api where
  "demo_metrics = \<lparr>mt_scope = Map.empty, mt_instrument = Map.empty\<rparr>"

lemma demo_candidate:
  obtains rc where "MakeRuntimeConfig example_config = Inr rc"
    "BuildCandidate 2 demo_yaml demo_adapter demo_reads demo_paths
       = Some (Inr \<lparr>cd_config = \<lparr>lc_config = example_config, lc_runtimeConfig = rc\<rparr>,
           cd_fingerprint = \<lparr>fp_config = [], fp_values = []\<rparr>\<rparr>)"
proof -
  obtain rc where rc: "MakeRuntimeConfig example_config = Inr rc"
    using MakeRuntimeConfig_complete [of example_config] by (auto simp: config_consistent_def example_config_def)
  have "BuildCandidate 2 demo_yaml demo_adapter demo_reads demo_paths
       = Some (Inr \<lparr>cd_config = \<lparr>lc_config = example_config, lc_runtimeConfig = rc\<rparr>,
           cd_fingerprint = \<lparr>fp_config = [], fp_values = []\<rparr>\<rparr>)"
    by (simp add: BuildCandidate_def BuildLoaded_def MergedDocument_def ReadFingerprint_def ReadConfigFile_def demo_yaml_def demo_adapter_def
        demo_reads_def demo_paths_def has_override_def throwing_def ParseYaml_def MakeLoadedConfig_def rc plain_yaml_def
        SubstituteConfiguration_def SubstituteMap_def numeral_2_eq_2 IsMissing_def)
  then show ?thesis using rc that by blast
qed

theorem published_config_valid_witness:
  "\<exists>l L. loader_reach 2 demo_yaml demo_adapter demo_metrics demo_paths l \<and> GetConfig l = Inr example_config
     \<and> config_consistent example_config \<and> ReloadCallback_called L \<in> set (ld_calls l)
     \<and> config_consistent (lc_config L)"
proof -
  obtain rc where c: "BuildCandidate 2 demo_yaml demo_adapter demo_reads demo_paths
       = Some (Inr \<lparr>cd_config = \<lparr>lc_config = example_config, lc_runtimeConfig = rc\<rparr>,
           cd_fingerprint = \<lparr>fp_config = [], fp_values = []\<rparr>\<rparr>)"
    by (rule demo_candidate)
  let ?L = "\<lparr>lc_config = example_config, lc_runtimeConfig = rc\<rparr>"
  let ?f = "\<lambda>_. Some [] :: string option"
  obtain l1 :: "IConfig ConfigLoader" where l1: "l1 = fst (Start 10 (Some (\<lambda>_. None)) (new_ConfigLoader demo_paths ''svc''))" by simp
  have r1: "loader_reach 2 demo_yaml demo_adapter demo_metrics demo_paths l1"
    unfolding l1
    by (rule loader_reach.start [where i = 10 and cb = "Some (\<lambda>_. None)", OF loader_reach.init [where name = "''svc''"]])
      (simp add: new_ConfigLoader_def, rule prod.collapse [symmetric])
  have f1: "ld_paths l1 = demo_paths" "ld_poller l1" "ld_pending l1 = None" "ld_onReload l1 = Some (\<lambda>_. None)"
    "ld_fingerprint l1 = None"
    by (simp_all add: l1 Start_def Stop_def new_ConfigLoader_def Let_def has_override_def demo_paths_def)
  obtain l2 where l2: "PollOnce 2 demo_yaml demo_adapter ?f ?f demo_reads l1 = Some l2"
    and f2: "ld_pending l2 = Some (\<lambda>_. None, ?L)" "ld_state l2 = Some ?L"
    using c f1 by (simp add: PollOnce_def ReadFingerprint_def ReadConfigFile_def throwing_def publish_def)
  have r2: "loader_reach 2 demo_yaml demo_adapter demo_metrics demo_paths (PollOnce_callback l2)"
    by (rule loader_reach.callback [OF loader_reach.poll [OF r1 f1(2,3) l2]])
  have f3: "ld_state (PollOnce_callback l2) = Some ?L" "ReloadCallback_called ?L \<in> set (ld_calls (PollOnce_callback l2))"
    using f2 by (simp_all add: PollOnce_callback_def record_call_def)
  show ?thesis
    using r2 f3 published_config_valid [OF r2]
    by (intro exI [of _ "PollOnce_callback l2"] exI [of _ ?L]) (simp add: CurrentLoaded_def demo_adapter_def)
qed


end
