(* ===== verification/CommandLine.thy ===== *)
theory CommandLine
  imports Prelude "HOL-Library.Sublist"
begin

section \<open>The command line of a service (runtime/config/command_line.hpp)\<close>

text \<open>
  \<open>CommandLine::Parse\<close> over an argument vector whose entries may be null pointers. The index that the loop
  and \<open>NextValue\<close> share is an explicit argument, counted up to \<open>argc\<close>; \<open>workers\<close> is a 64-bit
  \<open>size_t\<close>, and the number of hardware threads is a parameter.
\<close>

datatype command_line_error = CommandLineInvalid string

record CommandLine =
  cl_configPath :: string
  cl_valuesPath :: string
  cl_workers :: "64 word"

definition DefaultWorkers :: "32 word \<Rightarrow> 64 word" where
  "DefaultWorkers detected = (if detected = 0 then 1 else ucast detected)"

definition default_CommandLine :: "32 word \<Rightarrow> CommandLine" where
  "default_CommandLine detected = \<lparr>cl_configPath = ''./config/config.yaml'',
     cl_valuesPath = ''./config/overrides.yaml'', cl_workers = DefaultWorkers detected\<rparr>"

definition RequireArgument :: "string option \<Rightarrow> (command_line_error, string) result" where
  "RequireArgument argument =
     (case argument of Some a \<Rightarrow> Inr a | None \<Rightarrow> Inl (CommandLineInvalid ''null command line argument''))"

text \<open>The value after the option at \<open>index\<close> and the index it is found at.\<close>

definition NextValue :: "string option list \<Rightarrow> nat \<Rightarrow> string \<Rightarrow> (command_line_error, string \<times> nat) result" where
  "NextValue argv index option =
     (if index + 1 \<ge> length argv then Inl (CommandLineInvalid (''missing value for '' @ option))
      else bindR (RequireArgument (argv ! (index + 1))) (\<lambda>value. Inr (value, index + 1)))"

definition RequireValue :: "string \<Rightarrow> string \<Rightarrow> (command_line_error, string) result" where
  "RequireValue option value =
     (if value = [] then Inl (CommandLineInvalid (''empty value for '' @ option)) else Inr value)"

text \<open>\<open>std::from_chars\<close> for a \<open>size_t\<close>: the longest prefix of digits as a number, whether it fits, and the
  rest; no number when there is no digit.\<close>

definition from_chars :: "string \<Rightarrow> (nat \<times> string) option" where
  "from_chars s =
     (let ds = takeWhile (\<lambda>c. digit_value c \<noteq> None) s
      in if ds = [] then None
         else case of_decimal 0 ds of
                Some n \<Rightarrow> if n < 2 ^ 64 then Some (n, drop (length ds) s) else None
              | None \<Rightarrow> None)"

definition ParseWorkers :: "string \<Rightarrow> (command_line_error, 64 word) result" where
  "ParseWorkers value =
     (if value = [] then Inl (CommandLineInvalid ''empty value for --workers'')
      else case from_chars value of
             Some (n, rest) \<Rightarrow>
               if rest \<noteq> [] \<or> n = 0
               then Inl (CommandLineInvalid ''--workers must be a positive base-10 integer'')
               else Inr (of_nat n)
           | None \<Rightarrow> Inl (CommandLineInvalid ''--workers must be a positive base-10 integer''))"

definition InlineValue :: "string \<Rightarrow> string \<Rightarrow> string option" where
  "InlineValue argument name =
     (if \<not> prefix name argument \<or> length argument \<le> length name \<or> argument ! length name \<noteq> CHR ''=''
      then None else Some (drop (length name + 1) argument))"

definition Parse_argument ::
  "string option list \<Rightarrow> nat \<Rightarrow> CommandLine \<Rightarrow> string \<Rightarrow> (command_line_error, CommandLine \<times> nat) result"
where
  "Parse_argument argv index result argument =
     (case InlineValue argument ''--config'' of
        Some v \<Rightarrow> bindR (RequireValue ''--config'' v) (\<lambda>x. Inr (result\<lparr>cl_configPath := x\<rparr>, index))
      | None \<Rightarrow>
      if argument = ''--config''
      then bindR (NextValue argv index ''--config'') (\<lambda>(x, i). Inr (result\<lparr>cl_configPath := x\<rparr>, i))
      else case InlineValue argument ''--values'' of
        Some v \<Rightarrow> bindR (RequireValue ''--values'' v) (\<lambda>x. Inr (result\<lparr>cl_valuesPath := x\<rparr>, index))
      | None \<Rightarrow>
      if argument = ''--values''
      then bindR (NextValue argv index ''--values'') (\<lambda>(x, i). Inr (result\<lparr>cl_valuesPath := x\<rparr>, i))
      else case InlineValue argument ''--workers'' of
        Some v \<Rightarrow> bindR (ParseWorkers v) (\<lambda>w. Inr (result\<lparr>cl_workers := w\<rparr>, index))
      | None \<Rightarrow>
      if argument = ''--workers''
      then bindR (NextValue argv index ''--workers'') (\<lambda>(x, i).
           bindR (ParseWorkers x) (\<lambda>w. Inr (result\<lparr>cl_workers := w\<rparr>, i)))
      else Inl (CommandLineInvalid (''unknown command line argument: '' @ argument)))"

lemma Parse_argument_index:
  "Parse_argument argv index result argument = Inr (result', i) \<Longrightarrow> index \<le> i"
  by (auto simp: Parse_argument_def NextValue_def bindR_eq_Inr split: option.splits if_splits)

text \<open>The loop from \<open>index\<close> on.\<close>

function Parse_from ::
  "string option list \<Rightarrow> nat \<Rightarrow> CommandLine \<Rightarrow> (command_line_error, CommandLine) result"
where
  "Parse_from argv index result =
     (if index \<ge> length argv then Inr result
      else case RequireArgument (argv ! index) of
             Inl e \<Rightarrow> Inl e
           | Inr argument \<Rightarrow>
               (case Parse_argument argv index result argument of
                  Inl e \<Rightarrow> Inl e
                | Inr (result', i) \<Rightarrow> Parse_from argv (i + 1) result'))"
  by pat_completeness auto
termination
  by (relation "measure (\<lambda>(argv, index, _). length argv - index)") (auto dest!: Parse_argument_index)

declare Parse_from.simps [simp del]

text \<open>\<open>argc\<close> is a C \<open>int\<close>, and \<open>argv\<close> is a null pointer or an array of at least \<open>argc\<close> entries.\<close>

definition Parse :: "32 word \<Rightarrow> int \<Rightarrow> string option list option \<Rightarrow> (command_line_error, CommandLine) result" where
  "Parse detected argc argv =
     (if argc < 0 \<or> (argc > 0 \<and> argv = None) then Inl (CommandLineInvalid ''invalid command line arguments'')
      else Parse_from (take (nat argc) (case argv of Some a \<Rightarrow> a | None \<Rightarrow> [])) 1 (default_CommandLine detected))"

subsection \<open>The command lines that are accepted\<close>

text \<open>An option as it is given: its value behind \<open>=\<close> (\<open>True\<close>) or as the next argument.\<close>

datatype cl_option = Config_option bool string | Values_option bool string | Workers_option bool string

definition workers_text :: "string \<Rightarrow> nat \<Rightarrow> bool" where
  "workers_text s n \<longleftrightarrow> s \<noteq> [] \<and> of_decimal 0 s = Some n \<and> 0 < n \<and> n < 2 ^ 64"

fun option_ok :: "cl_option \<Rightarrow> bool" where
  "option_ok (Config_option inline v) = (inline \<longrightarrow> v \<noteq> [])"
| "option_ok (Values_option inline v) = (inline \<longrightarrow> v \<noteq> [])"
| "option_ok (Workers_option inline v) = (\<exists>n. workers_text v n)"

definition render :: "bool \<Rightarrow> string \<Rightarrow> string \<Rightarrow> string list" where
  "render inline name v = (if inline then [name @ CHR ''='' # v] else [name, v])"

fun render_option :: "cl_option \<Rightarrow> string list" where
  "render_option (Config_option inline v) = render inline ''--config'' v"
| "render_option (Values_option inline v) = render inline ''--values'' v"
| "render_option (Workers_option inline v) = render inline ''--workers'' v"

fun set_option :: "cl_option \<Rightarrow> CommandLine \<Rightarrow> CommandLine" where
  "set_option (Config_option _ v) r = r\<lparr>cl_configPath := v\<rparr>"
| "set_option (Values_option _ v) r = r\<lparr>cl_valuesPath := v\<rparr>"
| "set_option (Workers_option _ v) r = r\<lparr>cl_workers := of_nat (the (of_decimal 0 v))\<rparr>"

lemma of_decimal_digits: "of_decimal acc s = Some n \<Longrightarrow> takeWhile (\<lambda>c. digit_value c \<noteq> None) s = s"
  by (induction acc s rule: of_decimal.induct) (auto split: option.splits)

lemma takeWhile_all: "takeWhile P s = s" if "drop (length (takeWhile P s)) s = []"
  using that by (metis append_Nil2 takeWhile_dropWhile_id dropWhile_eq_drop)

lemma ParseWorkers_iff: "ParseWorkers s = Inr w \<longleftrightarrow> (\<exists>n. workers_text s n \<and> w = of_nat n)"
proof
  assume "ParseWorkers s = Inr w"
  then obtain n where n: "s \<noteq> []" "from_chars s = Some (n, [])" "n \<noteq> 0" "w = of_nat n"
    by (auto simp: ParseWorkers_def split: if_splits option.splits)
  then have t: "takeWhile (\<lambda>c. digit_value c \<noteq> None) s = s"
    by (intro takeWhile_all) (auto simp: from_chars_def Let_def split: if_splits option.splits)
  have "of_decimal 0 s = Some n \<and> n < 2 ^ 64"
    using n(1,2) unfolding from_chars_def Let_def t by (auto split: if_splits option.splits)
  then show "\<exists>n. workers_text s n \<and> w = of_nat n" using n(1,3,4) by (auto simp: workers_text_def)
next
  assume "\<exists>n. workers_text s n \<and> w = of_nat n"
  then obtain n where n: "workers_text s n" "w = of_nat n" by blast
  then have t: "takeWhile (\<lambda>c. digit_value c \<noteq> None) s = s" by (intro of_decimal_digits [of 0 _ n]) (simp add: workers_text_def)
  have "from_chars s = Some (n, [])" using n unfolding from_chars_def Let_def t by (simp add: workers_text_def)
  then show "ParseWorkers s = Inr w" using n by (simp add: ParseWorkers_def workers_text_def)
qed

lemma ParseWorkers_text: "workers_text s n \<Longrightarrow> ParseWorkers s = Inr (of_nat (the (of_decimal 0 s)))"
  by (auto simp: ParseWorkers_iff) (auto simp: workers_text_def)

lemma InlineValue_Some: "InlineValue a name = Some v \<longleftrightarrow> a = name @ CHR ''='' # v"
proof
  assume "InlineValue a name = Some v"
  then have i: "prefix name a" "length name < length a" "a ! length name = CHR ''=''" "v = drop (length name + 1) a"
    by (auto simp: InlineValue_def split: if_splits)
  then obtain t where "a = name @ t" by (auto simp: prefix_def)
  then show "a = name @ CHR ''='' # v" using i by (cases t) auto
qed (simp add: InlineValue_def)

lemma InlineValue_name [simp]: "InlineValue name name = None"
  by (simp add: InlineValue_def)

lemma drop_two: "Suc i < length xs \<Longrightarrow> drop i xs = xs ! i # xs ! Suc i # drop (Suc (Suc i)) xs"
  by (simp add: Cons_nth_drop_Suc)

lemma NextValue_Inr:
  "NextValue argv i name = Inr (v, j) \<longleftrightarrow> j = Suc i \<and> Suc i < length argv \<and> argv ! Suc i = Some v"
  by (auto simp: NextValue_def RequireArgument_def bindR_eq_Inr split: if_splits option.splits)

lemma NextValue_drop:
  assumes "NextValue argv i name = Inr (v, j)" "argv ! i = Some name"
  shows "drop i argv = map Some (render False name v) @ drop (Suc j) argv"
  using assms by (simp add: NextValue_Inr render_def drop_two)

lemma Parse_argument_sound:
  assumes "Parse_argument argv i r a = Inr (r', j)" "i < length argv" "argv ! i = Some a"
  shows "\<exists>opt. option_ok opt \<and> drop i argv = map Some (render_option opt) @ drop (Suc j) argv \<and> r' = set_option opt r"
proof -
  have inline: "drop i argv = map Some (render True name v) @ drop (Suc i) argv" if "InlineValue a name = Some v" for name v
    using that assms(2,3) by (simp add: InlineValue_Some render_def Cons_nth_drop_Suc [symmetric])
  consider
    (ci) v where "InlineValue a ''--config'' = Some v" "v \<noteq> []" "r' = r\<lparr>cl_configPath := v\<rparr>" "j = i"
  | (cn) v where "a = ''--config''" "NextValue argv i a = Inr (v, j)" "r' = r\<lparr>cl_configPath := v\<rparr>"
  | (vi) v where "InlineValue a ''--values'' = Some v" "v \<noteq> []" "r' = r\<lparr>cl_valuesPath := v\<rparr>" "j = i"
  | (vn) v where "a = ''--values''" "NextValue argv i a = Inr (v, j)" "r' = r\<lparr>cl_valuesPath := v\<rparr>"
  | (wi) v w where "InlineValue a ''--workers'' = Some v" "ParseWorkers v = Inr w" "r' = r\<lparr>cl_workers := w\<rparr>" "j = i"
  | (wn) v w where "a = ''--workers''" "NextValue argv i a = Inr (v, j)" "ParseWorkers v = Inr w" "r' = r\<lparr>cl_workers := w\<rparr>"
    using assms(1)
    by (auto simp: Parse_argument_def bindR_eq_Inr RequireValue_def split: option.splits if_splits)
  then show ?thesis
  proof cases
    case ci
    then show ?thesis using inline by (intro exI [of _ "Config_option True v"]) simp
  next
    case cn
    then show ?thesis using NextValue_drop [OF cn(2) assms(3)] by (intro exI [of _ "Config_option False v"]) simp
  next
    case vi
    then show ?thesis using inline by (intro exI [of _ "Values_option True v"]) simp
  next
    case vn
    then show ?thesis using NextValue_drop [OF vn(2) assms(3)] by (intro exI [of _ "Values_option False v"]) simp
  next
    case wi
    obtain n where n: "workers_text v n" "w = of_nat n" using wi(2) by (auto simp: ParseWorkers_iff)
    then have "of_decimal 0 v = Some n" by (simp add: workers_text_def)
    then show ?thesis using wi inline n by (intro exI [of _ "Workers_option True v"]) auto
  next
    case wn
    obtain n where n: "workers_text v n" "w = of_nat n" using wn(3) by (auto simp: ParseWorkers_iff)
    then have "of_decimal 0 v = Some n" by (simp add: workers_text_def)
    then show ?thesis using NextValue_drop [OF wn(2) assms(3)] wn n by (intro exI [of _ "Workers_option False v"]) auto
  qed
qed

lemma InlineValue_other:
  "InlineValue ''--values'' ''--config'' = None" "InlineValue ''--workers'' ''--config'' = None"
  "InlineValue ''--workers'' ''--values'' = None"
  by (simp_all add: InlineValue_def)

lemma InlineValue_other_given:
  "InlineValue (''--values='' @ v) ''--config'' = None"
  "InlineValue (''--workers='' @ v) ''--config'' = None" "InlineValue (''--workers='' @ v) ''--values'' = None"
  by (simp_all add: InlineValue_def)

lemma InlineValue_given:
  "InlineValue (''--config='' @ v) ''--config'' = Some v" "InlineValue (''--values='' @ v) ''--values'' = Some v"
  "InlineValue (''--workers='' @ v) ''--workers'' = Some v"
  by (simp_all add: InlineValue_Some)

lemma NextValue_append: "NextValue (pre @ x # Some v # rest) (length pre) name = Inr (v, Suc (length pre))"
  by (simp add: NextValue_Inr nth_append)

lemma Parse_from_option:
  assumes "option_ok opt"
  shows "Parse_from (pre @ map Some (render_option opt) @ rest) (length pre) r =
         Parse_from ((pre @ map Some (render_option opt)) @ rest) (length (pre @ map Some (render_option opt))) (set_option opt r)"
proof (cases opt)
  case (Config_option inline v)
  then show ?thesis
    using assms InlineValue_given [of v]
    by (subst Parse_from.simps)
      (simp add: render_def Parse_argument_def RequireArgument_def RequireValue_def NextValue_append split: if_split)
next
  case (Values_option inline v)
  then show ?thesis
    using assms InlineValue_given [of v] InlineValue_other InlineValue_other_given [of v]
    by (subst Parse_from.simps)
      (simp add: render_def Parse_argument_def RequireArgument_def RequireValue_def NextValue_append split: if_split)
next
  case (Workers_option inline v)
  obtain n where n: "workers_text v n" using assms Workers_option by auto
  show ?thesis
    using Workers_option InlineValue_given [of v] InlineValue_other InlineValue_other_given [of v] ParseWorkers_text [OF n]
    by (subst Parse_from.simps)
      (simp add: render_def Parse_argument_def RequireArgument_def NextValue_append split: if_split)
qed

lemma Parse_from_complete:
  "list_all option_ok opts \<Longrightarrow>
   Parse_from (pre @ map Some (concat (map render_option opts))) (length pre) r = Inr (fold set_option opts r)"
proof (induction opts arbitrary: pre r)
  case Nil
  then show ?case by (simp add: Parse_from.simps)
next
  case (Cons opt opts)
  have "Parse_from (pre @ map Some (render_option opt) @ map Some (concat (map render_option opts))) (length pre) r
      = Inr (fold set_option opts (set_option opt r))"
    using Cons.prems Cons.IH [of "pre @ map Some (render_option opt)"] by (subst Parse_from_option) simp_all
  then show ?case by simp
qed

lemma Parse_from_sound:
  "Parse_from argv i r = Inr r' \<Longrightarrow>
   \<exists>opts. list_all option_ok opts \<and> drop i argv = map Some (concat (map render_option opts)) \<and> r' = fold set_option opts r"
proof (induction argv i r rule: Parse_from.induct)
  case (1 argv i r)
  show ?case
  proof (cases "length argv \<le> i")
    case True
    then show ?thesis using "1.prems" by (intro exI [of _ "[]"]) (simp add: Parse_from.simps)
  next
    case False
    obtain a where a: "argv ! i = Some a" "RequireArgument (argv ! i) = Inr a"
      using "1.prems" False by (subst (asm) Parse_from.simps) (auto simp: RequireArgument_def split: option.splits)
    obtain s j where s: "Parse_argument argv i r a = Inr (s, j)" "Parse_from argv (j + 1) s = Inr r'"
      using "1.prems" False a(2) by (subst (asm) Parse_from.simps) (auto split: sum.splits)
    obtain opts where opts: "list_all option_ok opts" "drop (j + 1) argv = map Some (concat (map render_option opts))"
      "r' = fold set_option opts s"
      using "1.IH" [OF False a(2) s(1) refl s(2)] by blast
    obtain opt where "option_ok opt" "drop i argv = map Some (render_option opt) @ drop (Suc j) argv" "s = set_option opt r"
      using Parse_argument_sound [OF s(1) _ a(1)] False by auto
    then show ?thesis using opts by (intro exI [of _ "opt # opts"]) simp
  qed
qed

text \<open>C33. The command lines that are accepted are exactly those made, behind the program name, of the three options
  in either form, each with a value of the right shape (no empty value behind \<open>=\<close>, a number of workers from 1 to
  $2^{64}-1$ in decimal digits), in any order and number; the last value given for an option is the one that counts,
  and an option not given has its default.\<close>

theorem command_line_iff:
  assumes "argv \<noteq> []"
  shows "Parse detected (int (length argv)) (Some argv) = Inr r \<longleftrightarrow>
     (\<exists>opts. list_all option_ok opts \<and> tl argv = map Some (concat (map render_option opts))
        \<and> r = fold set_option opts (default_CommandLine detected))"
proof -
  obtain p args where argv: "argv = p # args" using assms by (cases argv) auto
  have P: "Parse detected (int (length argv)) (Some argv) = Parse_from argv 1 (default_CommandLine detected)"
    by (simp add: Parse_def)
  show ?thesis
  proof
    assume "Parse detected (int (length argv)) (Some argv) = Inr r"
    then show "\<exists>opts. list_all option_ok opts \<and> tl argv = map Some (concat (map render_option opts))
        \<and> r = fold set_option opts (default_CommandLine detected)"
      using Parse_from_sound [of argv 1] P argv by simp
  next
    assume "\<exists>opts. list_all option_ok opts \<and> tl argv = map Some (concat (map render_option opts))
        \<and> r = fold set_option opts (default_CommandLine detected)"
    then obtain opts where opts: "list_all option_ok opts" "args = map Some (concat (map render_option opts))"
      "r = fold set_option opts (default_CommandLine detected)" using argv by auto
    have "Parse_from argv 1 (default_CommandLine detected) = Inr r"
      using Parse_from_complete [OF opts(1), of "[p]" "default_CommandLine detected"] argv opts(2,3) by simp
    then show "Parse detected (int (length argv)) (Some argv) = Inr r" using P by simp
  qed
qed

theorem command_line_iff_witness:
  "Parse 4 4 (Some [Some ''svc'', Some ''--config=a.yaml'', Some ''--workers'', Some ''12''])
   = Inr \<lparr>cl_configPath = ''a.yaml'', cl_valuesPath = ''./config/overrides.yaml'', cl_workers = 12\<rparr>"
proof -
  let ?opts = "[Config_option True ''a.yaml'', Workers_option False ''12'']"
  have "workers_text ''12'' 12" by (simp add: workers_text_def digit_value_def)
  then have "list_all option_ok ?opts" by auto
  then show ?thesis
    using command_line_iff [of "[Some ''svc'', Some ''--config=a.yaml'', Some ''--workers'', Some ''12'']" 4]
    by (auto simp: render_def default_CommandLine_def digit_value_def intro!: exI [of _ ?opts])
qed

text \<open>An empty value is refused behind \<open>=\<close> and accepted as the next argument.\<close>

lemma empty_value_by_form:
  "Parse_from [Some p, Some ''--config=''] 1 r = Inl (CommandLineInvalid ''empty value for --config'')"
  "Parse_from [Some p, Some ''--config'', Some []] 1 r = Inr (r\<lparr>cl_configPath := []\<rparr>)"
  by (subst Parse_from.simps, simp add: RequireArgument_def Parse_argument_def InlineValue_def RequireValue_def)
    (subst Parse_from.simps, simp add: RequireArgument_def Parse_argument_def InlineValue_def NextValue_def Parse_from.simps)

end
