(* ===== verification/Sync.thy ===== *)
theory Sync
  imports Prelude "HOL-Library.Multiset"
begin

unbundle bit_operations_syntax

section \<open>Events, cooperative locks and task storage (runtime/detail/sync.hpp)\<close>

text \<open>
  \<open>SingleUseEvent\<close>, \<open>CooperativeMutex\<close>, \<open>CooperativeSharedMutex\<close> and \<open>TaskStorage\<close>. Each critical
  section under the internal \<open>std::mutex\<close> is one step; the notifications that the code sends after releasing
  the mutex are steps of their own, taken at any later moment. How a waiting thread or coroutine is suspended is not
  modelled: \<open>Wait()\<close> returns at some moment at which the event is ready.

  A call of \<open>lock()\<close> is identified by its number; \<open>sm_granted\<close>, \<open>sm_inside\<close> and \<open>sm_released\<close>
  record which calls were admitted, have returned, and have been undone by an unlock.
\<close>

subsection \<open>SingleUseEvent\<close>

datatype waiter = AsyncWaiter nat | SyncWaiter nat

text \<open>\<open>ev_ready\<close> stands for a list head that is the ready marker.\<close>

record SingleUseEvent =
  ev_ready :: bool
  ev_waiters :: "waiter list"

definition new_SingleUseEvent :: SingleUseEvent where
  "new_SingleUseEvent = \<lparr>ev_ready = False, ev_waiters = []\<rparr>"

text \<open>The waiters that \<open>Send\<close> wakes, in order, and the event afterwards.\<close>

definition Send :: "SingleUseEvent \<Rightarrow> waiter list \<times> SingleUseEvent" where
  "Send e = (ev_waiters e, e\<lparr>ev_ready := True, ev_waiters := []\<rparr>)"

definition IsReady :: "SingleUseEvent \<Rightarrow> bool" where
  "IsReady e = ev_ready e"

definition Register :: "waiter \<Rightarrow> SingleUseEvent \<Rightarrow> bool \<times> SingleUseEvent" where
  "Register w e = (if ev_ready e then (False, e) else (True, e\<lparr>ev_waiters := w # ev_waiters e\<rparr>))"

text \<open>\<open>Wait()\<close> and the coroutine behind \<open>AsyncWait(context)\<close> up to their suspension: whether they suspend.\<close>

definition Wait :: "nat \<Rightarrow> SingleUseEvent \<Rightarrow> bool \<times> SingleUseEvent" where
  "Wait signal e = (if IsReady e then (False, e) else Register (SyncWaiter signal) e)"

definition AsyncWaitImpl :: "nat \<Rightarrow> bool option \<Rightarrow> SingleUseEvent \<Rightarrow> bool \<times> SingleUseEvent" where
  "AsyncWaitImpl signal contextCancelled e =
     (if IsReady e then (False, e)
      else if contextCancelled = Some True then (False, e)
      else Register (AsyncWaiter signal) e)"

text \<open>The waiters that suspended and those that were woken, over any sequence of calls.\<close>

inductive event_reach :: "SingleUseEvent \<Rightarrow> waiter list \<Rightarrow> waiter list \<Rightarrow> bool" where
  init: "event_reach new_SingleUseEvent [] []"
| wait: "event_reach e suspended woken \<Longrightarrow> Wait s e = (b, e') \<Longrightarrow>
    event_reach e' (if b then SyncWaiter s # suspended else suspended) woken"
| async_wait: "event_reach e suspended woken \<Longrightarrow> AsyncWaitImpl s c e = (b, e') \<Longrightarrow>
    event_reach e' (if b then AsyncWaiter s # suspended else suspended) woken"
| send: "event_reach e suspended woken \<Longrightarrow> Send e = (ws, e') \<Longrightarrow> event_reach e' suspended (ws @ woken)"

lemma event_wakes_once:
  "event_reach e suspended woken \<Longrightarrow>
   mset suspended = mset (ev_waiters e) + mset woken \<and> (ev_ready e \<longrightarrow> ev_waiters e = [])"
  by (induction rule: event_reach.induct)
    (auto simp: new_SingleUseEvent_def Wait_def AsyncWaitImpl_def Register_def Send_def IsReady_def split: if_splits)

lemma Send_ready [simp]: "IsReady (snd (Send e))"
  by (simp add: Send_def IsReady_def)

lemma new_not_ready [simp]: "\<not> IsReady new_SingleUseEvent"
  by (simp add: new_SingleUseEvent_def IsReady_def)

subsection \<open>CooperativeSharedMutex\<close>

record sm_State =
  sm_waiters :: "(nat \<times> bool) list"
  sm_readers :: u64
  sm_writer :: bool
  sm_event :: "nat \<Rightarrow> SingleUseEvent"
  sm_calls :: "bool list"
  sm_granted :: "nat list"
  sm_inside :: "nat list"
  sm_sending :: "nat list"
  sm_released :: "nat list"

definition new_CooperativeSharedMutex :: sm_State where
  "new_CooperativeSharedMutex = \<lparr>sm_waiters = [], sm_readers = 0, sm_writer = False, sm_event = (\<lambda>_. new_SingleUseEvent),
     sm_calls = [], sm_granted = [], sm_inside = [], sm_sending = [], sm_released = []\<rparr>"

definition Acquire :: "bool \<Rightarrow> sm_State \<Rightarrow> sm_State" where
  "Acquire writer st =
     (let c = length (sm_calls st);
          st = st\<lparr>sm_calls := sm_calls st @ [writer]\<rparr>
      in if \<not> sm_writer st \<and> sm_waiters st = [] \<and> (\<not> writer \<or> sm_readers st = 0)
         then (if writer then st\<lparr>sm_writer := True\<rparr> else st\<lparr>sm_readers := sm_readers st + 1\<rparr>)
                \<lparr>sm_granted := sm_granted st @ [c], sm_inside := sm_inside st @ [c]\<rparr>
         else st\<lparr>sm_event := (sm_event st)(c := new_SingleUseEvent), sm_waiters := sm_waiters st @ [(c, writer)]\<rparr>)"

text \<open>The loop that admits the readers at the front: the number admitted is the length of the result.\<close>

fun leading_readers :: "(nat \<times> bool) list \<Rightarrow> (nat \<times> bool) list" where
  "leading_readers [] = []"
| "leading_readers ((c, writer) # ws) = (if writer then [] else (c, writer) # leading_readers ws)"

definition admit_front :: "sm_State \<Rightarrow> sm_State" where
  "admit_front st =
     (let ready = (if snd (hd (sm_waiters st)) then [hd (sm_waiters st)] else leading_readers (sm_waiters st));
          st = (if snd (hd (sm_waiters st)) then st\<lparr>sm_writer := True\<rparr>
                else st\<lparr>sm_readers := sm_readers st + of_nat (length ready)\<rparr>)
      in st\<lparr>sm_waiters := drop (length ready) (sm_waiters st), sm_granted := sm_granted st @ map fst ready,
            sm_sending := sm_sending st @ map fst ready\<rparr>)"

definition Release :: "bool \<Rightarrow> nat \<Rightarrow> sm_State \<Rightarrow> sm_State" where
  "Release writer c st =
     (let st = st\<lparr>sm_released := sm_released st @ [c]\<rparr>;
          st = (if writer then st\<lparr>sm_writer := False\<rparr> else st\<lparr>sm_readers := sm_readers st - 1\<rparr>)
      in if sm_writer st \<or> sm_readers st \<noteq> 0 \<or> sm_waiters st = [] then st else admit_front st)"

text \<open>The \<open>Send()\<close> of one collected waiter, after the mutex has been released.\<close>

definition sm_send :: "nat \<Rightarrow> sm_State \<Rightarrow> sm_State" where
  "sm_send c st = st\<lparr>sm_event := (sm_event st)(c := snd (Send (sm_event st c))), sm_sending := remove1 c (sm_sending st)\<rparr>"

definition sm_waiting :: "nat \<Rightarrow> sm_State \<Rightarrow> bool" where
  "sm_waiting c st \<longleftrightarrow> c < length (sm_calls st) \<and> c \<notin> set (sm_inside st)"

definition sm_holds :: "nat \<Rightarrow> sm_State \<Rightarrow> bool" where
  "sm_holds c st \<longleftrightarrow> c \<in> set (sm_inside st) \<and> c \<notin> set (sm_released st)"

inductive sm_reach :: "sm_State \<Rightarrow> bool" where
  init: "sm_reach new_CooperativeSharedMutex"
| acquire: "sm_reach st \<Longrightarrow> sm_reach (Acquire writer st)"
| suspend: "sm_reach st \<Longrightarrow> sm_waiting c st \<Longrightarrow> sm_reach (st\<lparr>sm_event := (sm_event st)(c := snd (Wait c (sm_event st c)))\<rparr>)"
| return: "sm_reach st \<Longrightarrow> sm_waiting c st \<Longrightarrow> IsReady (sm_event st c) \<Longrightarrow> sm_reach (st\<lparr>sm_inside := sm_inside st @ [c]\<rparr>)"
| release: "sm_reach st \<Longrightarrow> sm_holds c st \<Longrightarrow> sm_reach (Release (sm_calls st ! c) c st)"
| send: "sm_reach st \<Longrightarrow> c \<in> set (sm_sending st) \<Longrightarrow> sm_reach (sm_send c st)"


subsection \<open>The invariant of the shared mutex\<close>

definition sm_active :: "sm_State \<Rightarrow> nat list" where
  "sm_active st = filter (\<lambda>c. c \<notin> set (sm_released st)) (sm_granted st)"

definition sm_queue_ok :: "sm_State \<Rightarrow> bool" where
  "sm_queue_ok st \<longleftrightarrow>
     sm_granted st @ map fst (sm_waiters st) = [0..<length (sm_calls st)]
     \<and> (\<forall>(c, w) \<in> set (sm_waiters st). w = sm_calls st ! c \<and> \<not> IsReady (sm_event st c))
     \<and> set (sm_inside st) \<subseteq> set (sm_granted st) \<and> set (sm_released st) \<subseteq> set (sm_inside st)
     \<and> set (sm_sending st) \<subseteq> set (sm_granted st)
     \<and> (\<forall>c \<in> set (sm_granted st). c \<in> set (sm_inside st) \<or> c \<in> set (sm_sending st) \<or> IsReady (sm_event st c))"

definition sm_count_ok :: "sm_State \<Rightarrow> bool" where
  "sm_count_ok st \<longleftrightarrow>
     (if sm_writer st then sm_readers st = 0 \<and> (\<exists>c. sm_active st = [c] \<and> sm_calls st ! c)
      else sm_readers st = of_nat (length (sm_active st)) \<and> (\<forall>c \<in> set (sm_active st). \<not> sm_calls st ! c))"

definition sm_wake_ok :: "sm_State \<Rightarrow> bool" where
  "sm_wake_ok st \<longleftrightarrow> (sm_waiters st \<noteq> [] \<longrightarrow> sm_active st \<noteq> [] \<and> (sm_writer st \<or> snd (hd (sm_waiters st))))"

lemma granted_bound: "sm_queue_ok st \<Longrightarrow> c \<in> set (sm_granted st) \<Longrightarrow> c < length (sm_calls st)"
proof -
  assume q: "sm_queue_ok st" and c: "c \<in> set (sm_granted st)"
  have "set (sm_granted st) \<subseteq> set (sm_granted st @ map fst (sm_waiters st))" by simp
  also have "\<dots> = {0..<length (sm_calls st)}" using q by (simp only: sm_queue_ok_def set_upt)
  finally show ?thesis using c by auto
qed

lemma granted_distinct: "sm_queue_ok st \<Longrightarrow> distinct (sm_granted st) \<and> distinct (map fst (sm_waiters st)) \<and> set (sm_granted st) \<inter> fst ` set (sm_waiters st) = {}"
  by (metis distinct_append distinct_upt list.set_map sm_queue_ok_def)

lemma of_nat_zero: "n < 2 ^ 64 \<Longrightarrow> (of_nat n :: u64) = 0 \<longleftrightarrow> n = 0"
  by (auto simp: word_of_nat_eq_0_iff dest: dvd_imp_le)

lemma active_length: "sm_queue_ok st \<Longrightarrow> length (sm_active st) \<le> length (sm_calls st)"
proof -
  assume q: "sm_queue_ok st"
  have "length (sm_granted st @ map fst (sm_waiters st)) = length (sm_calls st)" using q by (simp only: sm_queue_ok_def length_upt)
  then show ?thesis using length_filter_le [of _ "sm_granted st"] unfolding sm_active_def by (metis add_leD1 dual_order.trans le_refl length_append)
qed

lemma acquire_queue:
  assumes "sm_queue_ok st"
  shows "sm_queue_ok (Acquire writer st)"
proof -
  have b: "c \<noteq> length (sm_calls st)" if "c \<in> set (sm_granted st)" for c using granted_bound [OF assms that] by simp
  have w: "c < length (sm_calls st)" if "(c, v) \<in> set (sm_waiters st)" for c v
  proof -
    have "c \<in> set (sm_granted st @ map fst (sm_waiters st))" using that by force
    then show ?thesis using assms by (simp only: sm_queue_ok_def set_upt) auto
  qed
  show ?thesis
    using assms b w unfolding sm_queue_ok_def Acquire_def Let_def
    by (auto simp: nth_append split: if_splits)
qed

lemma acquire_count:
  assumes "sm_queue_ok st" "sm_count_ok st" "length (sm_calls st) < 2 ^ 64"
  shows "sm_count_ok (Acquire writer st)"
proof -
  let ?c = "length (sm_calls st)"
  have b: "c < ?c" if "c \<in> set (sm_active st)" for c
    using that granted_bound [OF assms(1)] by (simp add: sm_active_def)
  have r: "?c \<notin> set (sm_released st)"
    using assms(1) granted_bound [OF assms(1)] unfolding sm_queue_ok_def by blast
  show ?thesis
  proof (cases "\<not> sm_writer st \<and> sm_waiters st = [] \<and> (\<not> writer \<or> sm_readers st = 0)")
    case True
    then have e: "sm_active (Acquire writer st) = sm_active st @ [?c]"
      using r by (simp add: sm_active_def Acquire_def Let_def)
    have "writer \<longrightarrow> sm_active st = []"
      using True assms(2) of_nat_zero [of "length (sm_active st)"] active_length [OF assms(1)] assms(3)
      by (auto simp: sm_count_ok_def)
    then show ?thesis
      using True assms(2) b e by (auto simp: sm_count_ok_def Acquire_def Let_def nth_append)
  next
    case False
    then have f: "sm_active (Acquire writer st) = sm_active st" "sm_writer (Acquire writer st) = sm_writer st"
      "sm_readers (Acquire writer st) = sm_readers st" "sm_calls (Acquire writer st) = sm_calls st @ [writer]"
      by (auto simp: sm_active_def Acquire_def Let_def)
    have n: "(sm_calls st @ [writer]) ! c = sm_calls st ! c" if "c \<in> set (sm_active st)" for c
      using b [OF that] by (simp add: nth_append)
    show ?thesis using assms(2) n unfolding sm_count_ok_def f by (cases "sm_writer st") auto
  qed
qed

lemma acquire_wake:
  assumes "sm_queue_ok st" "sm_count_ok st" "sm_wake_ok st"
  shows "sm_wake_ok (Acquire writer st)"
proof (cases "\<not> sm_writer st \<and> sm_waiters st = [] \<and> (\<not> writer \<or> sm_readers st = 0)")
  case True
  then show ?thesis by (simp add: sm_wake_ok_def Acquire_def Let_def)
next
  case False
  have "sm_active (Acquire writer st) = sm_active st" using False by (auto simp: sm_active_def Acquire_def Let_def)
  moreover have "sm_active st \<noteq> []"
    using False assms by (auto simp: sm_wake_ok_def sm_count_ok_def split: if_splits)
  ultimately show ?thesis
    using False assms(3) by (auto simp: sm_wake_ok_def Acquire_def Let_def hd_append)
qed

lemma leading_readers_prefix: "take (length (leading_readers ws)) ws = leading_readers ws"
  by (induction ws rule: leading_readers.induct) auto

lemma leading_readers_set: "(c, w) \<in> set (leading_readers ws) \<Longrightarrow> \<not> w \<and> (c, w) \<in> set ws"
  by (induction ws rule: leading_readers.induct) (auto split: if_splits)

lemma leading_readers_rest: "drop (length (leading_readers ws)) ws \<noteq> [] \<Longrightarrow> snd (hd (drop (length (leading_readers ws)) ws))"
  by (induction ws rule: leading_readers.induct) auto

definition front :: "(nat \<times> bool) list \<Rightarrow> (nat \<times> bool) list" where
  "front ws = (if snd (hd ws) then [hd ws] else leading_readers ws)"

lemma front_split: "ws \<noteq> [] \<Longrightarrow> ws = front ws @ drop (length (front ws)) ws"
  using leading_readers_prefix [of ws] by (cases ws) (auto simp: front_def, metis append_take_drop_id)

lemma front_nonempty: "ws \<noteq> [] \<Longrightarrow> front ws \<noteq> []"
  by (cases ws) (auto simp: front_def)

lemma admit_front_simps:
  "sm_waiters (admit_front st) = drop (length (front (sm_waiters st))) (sm_waiters st)"
  "sm_granted (admit_front st) = sm_granted st @ map fst (front (sm_waiters st))"
  "sm_sending (admit_front st) = sm_sending st @ map fst (front (sm_waiters st))"
  "sm_inside (admit_front st) = sm_inside st" "sm_released (admit_front st) = sm_released st"
  "sm_event (admit_front st) = sm_event st" "sm_calls (admit_front st) = sm_calls st"
  "sm_writer (admit_front st) = (if snd (hd (sm_waiters st)) then True else sm_writer st)"
  "sm_readers (admit_front st) = (if snd (hd (sm_waiters st)) then sm_readers st
     else sm_readers st + of_nat (length (front (sm_waiters st))))"
  by (simp_all add: admit_front_def front_def Let_def)

lemma admit_queue:
  assumes "sm_queue_ok st" "sm_waiters st \<noteq> []"
  shows "sm_queue_ok (admit_front st)"
proof -
  let ?ws = "sm_waiters st"
  let ?f = "front ?ws"
  have s: "?ws = ?f @ drop (length ?f) ?ws" by (rule front_split [OF assms(2)])
  have "map fst ?ws = map fst ?f @ map fst (drop (length ?f) ?ws)" by (subst s) simp
  moreover have "set (drop (length ?f) ?ws) \<subseteq> set ?ws" by (rule set_drop_subset)
  ultimately show ?thesis
    using assms(1) unfolding sm_queue_ok_def admit_front_simps by auto
qed

lemma waiters_not_active:
  assumes "sm_queue_ok st" "(c, w) \<in> set (sm_waiters st)"
  shows "c \<notin> set (sm_released st)" "w = sm_calls st ! c"
proof -
  have "c \<notin> set (sm_granted st)" using granted_distinct [OF assms(1)] assms(2) by force
  then show "c \<notin> set (sm_released st)" using assms(1) unfolding sm_queue_ok_def by blast
  show "w = sm_calls st ! c" using assms unfolding sm_queue_ok_def by blast
qed

lemma front_waiting:
  assumes "ws \<noteq> []" "x \<in> set (front ws)"
  shows "x \<in> set ws"
proof -
  have "set ws = set (front ws @ drop (length (front ws)) ws)" using front_split [OF assms(1)] by simp
  then show ?thesis using assms(2) by auto
qed

lemma admit_ok:
  assumes q: "sm_queue_ok st" and ws: "sm_waiters st \<noteq> []"
    and idle: "\<not> sm_writer st" "sm_readers st = 0" "sm_active st = []"
  shows "sm_count_ok (admit_front st)" "sm_wake_ok (admit_front st)"
proof -
  let ?f = "front (sm_waiters st)"
  have nr: "filter (\<lambda>c. c \<notin> set (sm_released st)) (map fst ?f) = map fst ?f"
    using front_waiting [OF ws] waiters_not_active(1) [OF q] by (auto simp: filter_id_conv) blast
  have act: "sm_active (admit_front st) = map fst ?f"
    using idle(3) nr unfolding sm_active_def admit_front_simps by simp
  show "sm_count_ok (admit_front st)"
  proof (cases "snd (hd (sm_waiters st))")
    case True
    have "hd (sm_waiters st) \<in> set (sm_waiters st)" using ws by simp
    then have "sm_calls st ! fst (hd (sm_waiters st))"
      using waiters_not_active(2) [OF q, of "fst (hd (sm_waiters st))" True] True by (metis prod.collapse)
    then show ?thesis using True idle act by (simp add: sm_count_ok_def admit_front_simps front_def)
  next
    case False
    have "\<not> sm_calls st ! c" if m: "c \<in> fst ` set ?f" for c
    proof -
      obtain w where w: "(c, w) \<in> set ?f" using m by auto
      then have "\<not> w" using False leading_readers_set by (auto simp: front_def)
      then show ?thesis using waiters_not_active(2) [OF q front_waiting [OF ws w]] by simp
    qed
    then show ?thesis using False idle act by (simp add: sm_count_ok_def admit_front_simps)
  qed
  show "sm_wake_ok (admit_front st)"
    using act front_nonempty [OF ws] leading_readers_rest [of "sm_waiters st"]
    by (auto simp: sm_wake_ok_def admit_front_simps front_def)
qed


text \<open>The holder gone: the state in which \<open>Release\<close> looks at the queue.\<close>

definition dropped :: "bool \<Rightarrow> nat \<Rightarrow> sm_State \<Rightarrow> sm_State" where
  "dropped writer c st =
     (let st = st\<lparr>sm_released := sm_released st @ [c]\<rparr>
      in if writer then st\<lparr>sm_writer := False\<rparr> else st\<lparr>sm_readers := sm_readers st - 1\<rparr>)"

lemma Release_dropped:
  "Release w c st = (let d = dropped w c st in
     if sm_writer d \<or> sm_readers d \<noteq> 0 \<or> sm_waiters d = [] then d else admit_front d)"
  by (simp add: Release_def dropped_def Let_def)

lemma dropped_active: "sm_active (dropped w c st) = filter (\<lambda>x. x \<noteq> c) (sm_active st)"
proof -
  have "sm_active (dropped w c st) = filter (\<lambda>x. x \<notin> set (sm_released st @ [c])) (sm_granted st)"
    by (simp add: sm_active_def dropped_def Let_def)
  also have "\<dots> = filter (\<lambda>x. x \<noteq> c) (sm_active st)" unfolding sm_active_def filter_filter by (rule filter_cong) auto
  finally show ?thesis .
qed

lemma dropped_queue: "sm_queue_ok st \<Longrightarrow> sm_holds c st \<Longrightarrow> sm_queue_ok (dropped w c st)"
  by (auto simp: sm_queue_ok_def dropped_def Let_def sm_holds_def)

lemma holds_active: "sm_queue_ok st \<Longrightarrow> sm_holds c st \<Longrightarrow> c \<in> set (sm_active st)"
  by (auto simp: sm_queue_ok_def sm_holds_def sm_active_def)

lemma active_distinct: "sm_queue_ok st \<Longrightarrow> distinct (sm_active st)"
  using granted_distinct by (simp add: sm_active_def)

lemma length_filter_remove: "distinct xs \<Longrightarrow> c \<in> set xs \<Longrightarrow> length (filter (\<lambda>x. x \<noteq> c) xs) = length xs - 1"
proof -
  assume d: "distinct xs" "c \<in> set xs"
  have "filter (\<lambda>x. x \<noteq> c) xs = removeAll c xs" by (induction xs) auto
  then show ?thesis using d length_remove1 [of c xs] distinct_remove1_removeAll [of xs c] by simp
qed

lemma dropped_count:
  assumes "sm_queue_ok st" "sm_count_ok st" "sm_holds c st"
  shows "sm_count_ok (dropped (sm_calls st ! c) c st)"
proof -
  have c: "c \<in> set (sm_active st)" by (rule holds_active [OF assms(1,3)])
  have l: "length (filter (\<lambda>x. x \<noteq> c) (sm_active st)) = length (sm_active st) - 1"
    by (rule length_filter_remove [OF active_distinct [OF assms(1)] c])
  show ?thesis
  proof (cases "sm_writer st")
    case True
    then have "sm_active st = [c]" "sm_calls st ! c" "sm_readers st = 0" using assms(2) c by (auto simp: sm_count_ok_def)
    then show ?thesis using dropped_active [of True c st] by (simp add: sm_count_ok_def dropped_def Let_def)
  next
    case False
    then have s: "\<not> sm_calls st ! c" "sm_readers st = of_nat (length (sm_active st))"
      "\<forall>x \<in> set (sm_active st). \<not> sm_calls st ! x" using assms(2) c by (auto simp: sm_count_ok_def)
    have "0 < length (sm_active st)" using c by (cases "sm_active st") auto
    then have "(of_nat (length (sm_active st) - 1) :: u64) = of_nat (length (sm_active st)) - 1"
      by (cases "length (sm_active st)") simp_all
    then show ?thesis
      using False s l unfolding sm_count_ok_def dropped_active by (simp add: dropped_def Let_def)
  qed
qed

lemma release_ok:
  assumes q: "sm_queue_ok st" and n: "sm_count_ok st" and w: "sm_wake_ok st" and h: "sm_holds c st"
    and small: "length (sm_calls st) < 2 ^ 64"
  shows "sm_queue_ok (Release (sm_calls st ! c) c st) \<and> sm_count_ok (Release (sm_calls st ! c) c st)
     \<and> sm_wake_ok (Release (sm_calls st ! c) c st)"
proof -
  define d where "d = dropped (sm_calls st ! c) c st"
  have dq: "sm_queue_ok d" and dn: "sm_count_ok d" unfolding d_def by (rule dropped_queue [OF q h], rule dropped_count [OF q n h])
  have R: "Release (sm_calls st ! c) c st = (if sm_writer d \<or> sm_readers d \<noteq> 0 \<or> sm_waiters d = [] then d else admit_front d)"
    by (simp add: Release_dropped d_def Let_def)
  have dc: "sm_calls d = sm_calls st" "sm_waiters d = sm_waiters st" by (simp_all add: d_def dropped_def Let_def)
  show ?thesis
  proof (cases "sm_writer d \<or> sm_readers d \<noteq> 0 \<or> sm_waiters d = []")
    case True
    have "sm_wake_ok d"
    proof (cases "sm_waiters d = []")
      case False
      have "\<not> sm_writer d"
        using holds_active [OF q h] n by (auto simp: d_def dropped_def Let_def sm_count_ok_def split: if_splits)
      then have "sm_readers d \<noteq> 0" using True False by simp
      then have "sm_active d \<noteq> []" "\<not> sm_writer st"
        using dn \<open>\<not> sm_writer d\<close> n holds_active [OF q h]
        by (auto simp: sm_count_ok_def d_def dropped_def Let_def split: if_splits)
      then show ?thesis using w False dc by (simp add: sm_wake_ok_def)
    qed (simp add: sm_wake_ok_def)
    then show ?thesis using R True dq dn by simp
  next
    case False
    then have "sm_active d = []"
      using dn of_nat_zero [of "length (sm_active d)"] active_length [OF dq] small dc by (auto simp: sm_count_ok_def)
    then show ?thesis using R False admit_queue [OF dq] admit_ok [OF dq] by simp
  qed
qed

lemma sm_frame:
  assumes "sm_granted st' = sm_granted st" "sm_released st' = sm_released st" "sm_writer st' = sm_writer st"
    "sm_readers st' = sm_readers st" "sm_calls st' = sm_calls st" "sm_waiters st' = sm_waiters st"
  shows "sm_count_ok st' = sm_count_ok st" "sm_wake_ok st' = sm_wake_ok st"
  using assms by (simp_all add: sm_count_ok_def sm_wake_ok_def sm_active_def)

lemma Wait_keeps_ready [simp]: "IsReady (snd (Wait s e)) = IsReady e"
  by (simp add: Wait_def Register_def IsReady_def)

lemma return_granted:
  assumes "sm_queue_ok st" "sm_waiting c st" "IsReady (sm_event st c)"
  shows "c \<in> set (sm_granted st)"
proof -
  have "c \<in> set (sm_granted st @ map fst (sm_waiters st))"
    using assms(1,2) by (simp only: sm_queue_ok_def sm_waiting_def set_upt) auto
  moreover have "c \<notin> fst ` set (sm_waiters st)" using assms(1,3) by (auto simp: sm_queue_ok_def)
  ultimately show ?thesis by simp
qed

lemma reach_calls_mono: "length (sm_calls (Release w c st)) = length (sm_calls st)"
  by (simp add: Release_dropped Let_def admit_front_simps dropped_def)

lemma send_queue:
  assumes "sm_queue_ok st" "c \<in> set (sm_sending st)"
  shows "sm_queue_ok (sm_send c st)"
proof -
  have "c \<in> set (sm_granted st)" using assms by (auto simp: sm_queue_ok_def)
  then have "c \<notin> fst ` set (sm_waiters st)" using granted_distinct [OF assms(1)] by blast
  then have nc: "x \<noteq> c" if "(x, v) \<in> set (sm_waiters st)" for x v using that by force
  have "\<forall>(x, w) \<in> set (sm_waiters st). w = sm_calls st ! x \<and> \<not> IsReady (sm_event st x)"
    using assms(1) unfolding sm_queue_ok_def by simp
  then have w: "\<forall>(x, w) \<in> set (sm_waiters st). w = sm_calls st ! x \<and> \<not> IsReady (sm_event (sm_send c st) x)"
    using nc by (auto simp: sm_send_def)
  have s: "set (sm_sending (sm_send c st)) \<subseteq> set (sm_sending st)"
    "x \<in> set (sm_sending st) \<Longrightarrow> x \<in> set (sm_sending (sm_send c st)) \<or> IsReady (sm_event (sm_send c st) x)"
    "IsReady (sm_event st x) \<Longrightarrow> IsReady (sm_event (sm_send c st) x)" for x
    using set_remove1_subset [of c "sm_sending st"] by (auto simp: sm_send_def in_set_remove1)
  have f: "sm_granted (sm_send c st) = sm_granted st" "sm_inside (sm_send c st) = sm_inside st"
    "sm_released (sm_send c st) = sm_released st" "sm_calls (sm_send c st) = sm_calls st" "sm_waiters (sm_send c st) = sm_waiters st"
    by (simp_all add: sm_send_def)
  have q: "set (sm_sending st) \<subseteq> set (sm_granted st)"
    "\<forall>x \<in> set (sm_granted st). x \<in> set (sm_inside st) \<or> x \<in> set (sm_sending st) \<or> IsReady (sm_event st x)"
    using assms(1) unfolding sm_queue_ok_def by simp_all
  have "set (sm_sending (sm_send c st)) \<subseteq> set (sm_granted st)" using s(1) q(1) by (rule subset_trans)
  moreover have "\<forall>x \<in> set (sm_granted st). x \<in> set (sm_inside st) \<or> x \<in> set (sm_sending (sm_send c st)) \<or> IsReady (sm_event (sm_send c st) x)"
    using q(2) s(2,3) by blast
  ultimately show ?thesis using assms(1) w unfolding sm_queue_ok_def f by simp
qed

lemma sm_reach_inv:
  "sm_reach st \<Longrightarrow> length (sm_calls st) < 2 ^ 64 \<Longrightarrow> sm_queue_ok st \<and> sm_count_ok st \<and> sm_wake_ok st"
proof (induction rule: sm_reach.induct)
  case init
  then show ?case
    by (simp add: new_CooperativeSharedMutex_def sm_queue_ok_def sm_count_ok_def sm_wake_ok_def sm_active_def)
next
  case (acquire st writer)
  then have "length (sm_calls st) < 2 ^ 64" by (auto simp: Acquire_def Let_def split: if_splits)
  then show ?case using acquire.IH acquire_queue acquire_count acquire_wake by blast
next
  case (suspend st c)
  let ?st = "st\<lparr>sm_event := (sm_event st)(c := snd (Wait c (sm_event st c)))\<rparr>"
  have "sm_queue_ok ?st" using suspend by (auto simp: sm_queue_ok_def split: if_splits)
  then show ?case using suspend sm_frame [of ?st st] by simp
next
  case (return st c)
  let ?st = "st\<lparr>sm_inside := sm_inside st @ [c]\<rparr>"
  have "c \<in> set (sm_granted st)" using return return_granted by simp
  then have "sm_queue_ok ?st" using return by (auto simp: sm_queue_ok_def)
  then show ?case using return sm_frame [of ?st st] by simp
next
  case (release st c)
  then show ?case using release_ok [of st c] by (simp add: reach_calls_mono)
next
  case (send st c)
  have "length (sm_calls st) < 2 ^ 64" using send.prems by (simp add: sm_send_def)
  then show ?case using send send_queue [of st c] sm_frame [of "sm_send c st" st] by (simp add: sm_send_def)
qed

lemma sm_exclusive_fair:
  assumes "sm_reach st" "length (sm_calls st) < 2 ^ 64"
  shows "(\<forall>c d. sm_holds c st \<and> sm_holds d st \<and> sm_calls st ! c \<longrightarrow> c = d)
    \<and> sm_granted st @ map fst (sm_waiters st) = [0..<length (sm_calls st)]
    \<and> (sm_waiters st \<noteq> [] \<longrightarrow>
         (\<exists>c \<in> set (sm_granted st). c \<notin> set (sm_released st)
            \<and> (\<not> sm_calls st ! fst (hd (sm_waiters st)) \<longrightarrow> sm_calls st ! c)))
    \<and> (\<forall>c \<in> set (sm_granted st). c \<in> set (sm_inside st) \<or> c \<in> set (sm_sending st) \<or> IsReady (sm_event st c))"
proof -
  have q: "sm_queue_ok st" and n: "sm_count_ok st" and w: "sm_wake_ok st" using sm_reach_inv [OF assms] by simp_all
  have "\<forall>c d. sm_holds c st \<and> sm_holds d st \<and> sm_calls st ! c \<longrightarrow> c = d"
  proof (intro allI impI, elim conjE)
    fix c d
    assume "sm_holds c st" "sm_holds d st" and cw: "sm_calls st ! c"
    then have "c \<in> set (sm_active st)" "d \<in> set (sm_active st)" by (simp_all add: holds_active [OF q])
    then show "c = d" using n cw by (auto simp: sm_count_ok_def split: if_splits)
  qed
  moreover have "\<exists>c \<in> set (sm_granted st). c \<notin> set (sm_released st) \<and> (\<not> sm_calls st ! fst (hd (sm_waiters st)) \<longrightarrow> sm_calls st ! c)"
    if ws: "sm_waiters st \<noteq> []"
  proof -
    have "(fst (hd (sm_waiters st)), snd (hd (sm_waiters st))) \<in> set (sm_waiters st)" using ws by simp
    then have h: "snd (hd (sm_waiters st)) = sm_calls st ! fst (hd (sm_waiters st))" by (rule waiters_not_active(2) [OF q])
    have a: "hd (sm_active st) \<in> set (sm_active st)" using w ws by (simp add: sm_wake_ok_def)
    have "sm_writer st \<longrightarrow> sm_calls st ! hd (sm_active st)" using n by (auto simp: sm_count_ok_def)
    then show ?thesis using a w ws h by (intro bexI [of _ "hd (sm_active st)"]) (auto simp: sm_wake_ok_def sm_active_def)
  qed
  ultimately show ?thesis using q by (simp add: sm_queue_ok_def)
qed

text \<open>C15. The shared mutex. In every interleaving a writer never holds it together with another call; calls are
  admitted in the order in which they arrived, readers and writers alike, so that nobody is overtaken; while a call
  waits there is an admitted call that has not unlocked yet and will hand over, and the first in the queue is a
  reader only while a writer has the lock; and every admitted call has returned, or its wake-up has been sent or is
  about to be. (The number of calls is below $2^{64}$, the range of the reader count.)\<close>

theorem shared_mutex_exclusive_fair:
  assumes "sm_reach st" "length (sm_calls st) < 2 ^ 64"
  shows "(\<forall>c d. sm_holds c st \<and> sm_holds d st \<and> sm_calls st ! c \<longrightarrow> c = d)
    \<and> sm_granted st @ map fst (sm_waiters st) = [0..<length (sm_calls st)]
    \<and> (sm_waiters st \<noteq> [] \<longrightarrow>
         (\<exists>c \<in> set (sm_granted st). c \<notin> set (sm_released st)
            \<and> (\<not> sm_calls st ! fst (hd (sm_waiters st)) \<longrightarrow> sm_calls st ! c)))
    \<and> (\<forall>c \<in> set (sm_granted st). c \<in> set (sm_inside st) \<or> c \<in> set (sm_sending st) \<or> IsReady (sm_event st c))"
  by (rule sm_exclusive_fair [OF assms])

definition sm_demo :: sm_State where
  "sm_demo = sm_send 1 (Release False 0 (Acquire False (Acquire True (Acquire False new_CooperativeSharedMutex))))"

theorem shared_mutex_exclusive_fair_witness:
  "sm_reach sm_demo \<and> sm_granted sm_demo = [0, 1] \<and> map fst (sm_waiters sm_demo) = [2] \<and> IsReady (sm_event sm_demo 1)"
proof -
  have r: "sm_reach (Acquire False (Acquire True (Acquire False new_CooperativeSharedMutex)))"
    by (intro sm_reach.acquire sm_reach.init)
  have "sm_reach (Release (sm_calls (Acquire False (Acquire True (Acquire False new_CooperativeSharedMutex))) ! 0) 0
      (Acquire False (Acquire True (Acquire False new_CooperativeSharedMutex))))"
    by (rule sm_reach.release [OF r]) (simp add: sm_holds_def Acquire_def new_CooperativeSharedMutex_def Let_def)
  then have r2: "sm_reach (Release False 0 (Acquire False (Acquire True (Acquire False new_CooperativeSharedMutex))))"
    by (simp add: Acquire_def new_CooperativeSharedMutex_def Let_def)
  have r3: "sm_reach sm_demo" unfolding sm_demo_def
    by (rule sm_reach.send [OF r2])
      (simp add: Release_def admit_front_def Acquire_def new_CooperativeSharedMutex_def Let_def)
  have "length (sm_calls sm_demo) = 3" "sm_inside sm_demo = [0]" "sm_sending sm_demo = []" "sm_granted sm_demo = [0, 1]"
    by (simp_all add: sm_demo_def sm_send_def Release_def admit_front_def Acquire_def new_CooperativeSharedMutex_def Let_def)
  moreover from this have "sm_granted sm_demo @ map fst (sm_waiters sm_demo) = [0..<3]"
    "\<forall>c \<in> set (sm_granted sm_demo). c \<in> set (sm_inside sm_demo) \<or> c \<in> set (sm_sending sm_demo) \<or> IsReady (sm_event sm_demo c)"
    using shared_mutex_exclusive_fair [OF r3] by simp_all
  ultimately show ?thesis using r3 by (simp add: upt_rec)
qed

subsection \<open>CooperativeMutex\<close>

record cm_State =
  cm_locked :: bool
  cm_waiters :: "nat list"
  cm_event :: "nat \<Rightarrow> SingleUseEvent"
  cm_calls :: nat
  cm_granted :: "nat list"
  cm_inside :: "nat list"
  cm_sending :: "nat list"
  cm_released :: "nat list"

definition new_CooperativeMutex :: cm_State where
  "new_CooperativeMutex = \<lparr>cm_locked = False, cm_waiters = [], cm_event = (\<lambda>_. new_SingleUseEvent), cm_calls = 0,
     cm_granted = [], cm_inside = [], cm_sending = [], cm_released = []\<rparr>"

definition cm_lock :: "cm_State \<Rightarrow> cm_State" where
  "cm_lock st =
     (let c = cm_calls st;
          st = st\<lparr>cm_calls := c + 1\<rparr>
      in if \<not> cm_locked st
         then st\<lparr>cm_locked := True, cm_granted := cm_granted st @ [c], cm_inside := cm_inside st @ [c]\<rparr>
         else st\<lparr>cm_event := (cm_event st)(c := new_SingleUseEvent), cm_waiters := cm_waiters st @ [c]\<rparr>)"

definition cm_unlock :: "nat \<Rightarrow> cm_State \<Rightarrow> cm_State" where
  "cm_unlock c st =
     (let st = st\<lparr>cm_released := cm_released st @ [c]\<rparr>
      in case cm_waiters st of
           [] \<Rightarrow> st\<lparr>cm_locked := False\<rparr>
         | ready # waiters \<Rightarrow>
             st\<lparr>cm_waiters := waiters, cm_granted := cm_granted st @ [ready], cm_sending := cm_sending st @ [ready]\<rparr>)"

definition cm_send :: "nat \<Rightarrow> cm_State \<Rightarrow> cm_State" where
  "cm_send c st = st\<lparr>cm_event := (cm_event st)(c := snd (Send (cm_event st c))), cm_sending := remove1 c (cm_sending st)\<rparr>"

inductive cm_reach :: "cm_State \<Rightarrow> bool" where
  init: "cm_reach new_CooperativeMutex"
| lock: "cm_reach st \<Longrightarrow> cm_reach (cm_lock st)"
| suspend: "cm_reach st \<Longrightarrow> c < cm_calls st \<Longrightarrow> c \<notin> set (cm_inside st) \<Longrightarrow>
    cm_reach (st\<lparr>cm_event := (cm_event st)(c := snd (Wait c (cm_event st c)))\<rparr>)"
| return: "cm_reach st \<Longrightarrow> c < cm_calls st \<Longrightarrow> c \<notin> set (cm_inside st) \<Longrightarrow> IsReady (cm_event st c) \<Longrightarrow>
    cm_reach (st\<lparr>cm_inside := cm_inside st @ [c]\<rparr>)"
| unlock: "cm_reach st \<Longrightarrow> c \<in> set (cm_inside st) \<Longrightarrow> c \<notin> set (cm_released st) \<Longrightarrow> cm_reach (cm_unlock c st)"
| send: "cm_reach st \<Longrightarrow> c \<in> set (cm_sending st) \<Longrightarrow> cm_reach (cm_send c st)"

text \<open>The mutex as a shared mutex all of whose calls are writers.\<close>

definition cm_shared :: "cm_State \<Rightarrow> sm_State" where
  "cm_shared st = \<lparr>sm_waiters = map (\<lambda>c. (c, True)) (cm_waiters st), sm_readers = 0, sm_writer = cm_locked st,
     sm_event = cm_event st, sm_calls = replicate (cm_calls st) True, sm_granted = cm_granted st,
     sm_inside = cm_inside st, sm_sending = cm_sending st, sm_released = cm_released st\<rparr>"

lemma cm_lock_shared: "(cm_waiters st \<noteq> [] \<longrightarrow> cm_locked st) \<Longrightarrow> cm_shared (cm_lock st) = Acquire True (cm_shared st)"
  by (auto simp: cm_shared_def cm_lock_def Acquire_def Let_def replicate_append_same)

lemma cm_unlock_shared:
  "(cm_waiters st \<noteq> [] \<longrightarrow> cm_locked st) \<Longrightarrow> cm_shared (cm_unlock c st) = Release True c (cm_shared st)"
  by (cases "cm_waiters st") (auto simp: cm_shared_def cm_unlock_def Release_def admit_front_def Let_def)

lemma cm_simulates:
  "cm_reach st \<Longrightarrow> sm_reach (cm_shared st) \<and> (cm_waiters st \<noteq> [] \<longrightarrow> cm_locked st) \<and> (\<forall>c \<in> set (cm_inside st). c < cm_calls st)"
proof (induction rule: cm_reach.induct)
  case init
  have "cm_shared new_CooperativeMutex = new_CooperativeSharedMutex"
    by (simp add: cm_shared_def new_CooperativeMutex_def new_CooperativeSharedMutex_def)
  then show ?case using sm_reach.init by (simp add: new_CooperativeMutex_def)
next
  case (lock st)
  then show ?case using sm_reach.acquire [of "cm_shared st" True] cm_lock_shared [of st]
    by (auto simp: cm_lock_def Let_def split: if_splits)
next
  case (suspend st c)
  then have "sm_reach ((cm_shared st)\<lparr>sm_event := (sm_event (cm_shared st))(c := snd (Wait c (sm_event (cm_shared st) c)))\<rparr>)"
    by (intro sm_reach.suspend) (simp_all add: sm_waiting_def cm_shared_def)
  then show ?case using suspend by (simp add: cm_shared_def)
next
  case (return st c)
  then have "sm_reach ((cm_shared st)\<lparr>sm_inside := sm_inside (cm_shared st) @ [c]\<rparr>)"
    by (intro sm_reach.return) (simp_all add: sm_waiting_def cm_shared_def)
  then show ?case using return by (simp add: cm_shared_def)
next
  case (unlock st c)
  have "sm_reach (Release (sm_calls (cm_shared st) ! c) c (cm_shared st))"
    using unlock by (intro sm_reach.release) (simp_all add: sm_holds_def cm_shared_def)
  moreover have "c < cm_calls st" using unlock by blast
  ultimately show ?case using unlock cm_unlock_shared [of st c]
    by (auto simp: cm_shared_def cm_unlock_def Let_def split: list.splits)
next
  case (send st c)
  then have "sm_reach (sm_send c (cm_shared st))" by (intro sm_reach.send) (simp_all add: cm_shared_def)
  then show ?case using send by (simp add: cm_shared_def cm_send_def sm_send_def)
qed


text \<open>C16. The cooperative mutex behaves as a shared mutex that is only ever locked exclusively: each of its states
  is one of the shared mutex. So at most one call holds it, calls get it in the order of their arrival, a waiting call
  has a predecessor that will hand over, and no wake-up is lost.\<close>

theorem cooperative_mutex_refines:
  assumes "cm_reach st" "cm_calls st < 2 ^ 64"
  shows "sm_reach (cm_shared st)
    \<and> (\<forall>c d. c \<in> set (cm_inside st) - set (cm_released st) \<and> d \<in> set (cm_inside st) - set (cm_released st) \<longrightarrow> c = d)
    \<and> cm_granted st @ cm_waiters st = [0..<cm_calls st]
    \<and> (cm_waiters st \<noteq> [] \<longrightarrow> (\<exists>c \<in> set (cm_granted st). c \<notin> set (cm_released st)))
    \<and> (\<forall>c \<in> set (cm_granted st). c \<in> set (cm_inside st) \<or> c \<in> set (cm_sending st) \<or> IsReady (cm_event st c))"
proof -
  have r: "sm_reach (cm_shared st)" and i: "\<forall>c \<in> set (cm_inside st). c < cm_calls st"
    using cm_simulates [OF assms(1)] by simp_all
  have l: "length (sm_calls (cm_shared st)) < 2 ^ 64" using assms(2) by (simp add: cm_shared_def)
  note s = sm_exclusive_fair [OF r l]
  have "c = d" if "c \<in> set (cm_inside st) - set (cm_released st)" "d \<in> set (cm_inside st) - set (cm_released st)" for c d
  proof -
    have "sm_holds c (cm_shared st)" "sm_holds d (cm_shared st)" "sm_calls (cm_shared st) ! c"
      using that i by (simp_all add: sm_holds_def cm_shared_def)
    then show ?thesis using s by blast
  qed
  moreover have "cm_granted st @ cm_waiters st = [0..<cm_calls st]" using s by (simp add: cm_shared_def comp_def)
  moreover have "cm_waiters st \<noteq> [] \<longrightarrow> (\<exists>c \<in> set (cm_granted st). c \<notin> set (cm_released st))"
    using s by (auto simp: cm_shared_def)
  moreover have "\<forall>c \<in> set (cm_granted st). c \<in> set (cm_inside st) \<or> c \<in> set (cm_sending st) \<or> IsReady (cm_event st c)"
    using s by (simp add: cm_shared_def)
  ultimately show ?thesis using r by simp
qed

definition cm_demo :: cm_State where
  "cm_demo = cm_unlock 0 (cm_lock (cm_lock (cm_lock new_CooperativeMutex)))"

theorem cooperative_mutex_refines_witness:
  "cm_reach cm_demo \<and> cm_granted cm_demo = [0, 1] \<and> cm_waiters cm_demo = [2] \<and> cm_sending cm_demo = [1]
   \<and> sm_reach (cm_shared cm_demo)"
proof -
  have "cm_reach cm_demo" unfolding cm_demo_def
    by (intro cm_reach.unlock cm_reach.lock cm_reach.init) (simp_all add: cm_lock_def new_CooperativeMutex_def Let_def)
  moreover have "cm_calls cm_demo = 3" "cm_granted cm_demo = [0, 1]" "cm_sending cm_demo = [1]"
    by (simp_all add: cm_demo_def cm_unlock_def cm_lock_def new_CooperativeMutex_def Let_def)
  ultimately show ?thesis using cooperative_mutex_refines [of cm_demo] by (simp add: upt_rec)
qed

subsection \<open>TaskStorage\<close>

text \<open>Counted admission: work enters, leaves, and admission is closed for good. Shared by the task storage and by the
  components that drain their activities before they are destroyed.\<close>

datatype admission_op = Enter | Leave | Close

locale admission =
  fixes enter :: "'s \<Rightarrow> 's option" and leave :: "'s \<Rightarrow> 's" and close :: "'s \<Rightarrow> 's"
    and active :: "'s \<Rightarrow> nat" and accepts :: "'s \<Rightarrow> bool" and capacity :: nat
  assumes enter_refused: "\<not> accepts s \<Longrightarrow> enter s = None"
    and enter_admitted: "accepts s \<Longrightarrow> active s < capacity \<Longrightarrow>
      \<exists>s'. enter s = Some s' \<and> active s' = active s + 1 \<and> accepts s'"
    and leave_active: "0 < active s \<Longrightarrow> active (leave s) = active s - 1 \<and> accepts (leave s) = accepts s"
    and close_closed: "\<not> accepts (close s) \<and> active (close s) = active s"
begin

definition op_step :: "admission_op \<Rightarrow> 's \<Rightarrow> 's" where
  "op_step op s =
     (case op of
        Enter \<Rightarrow> (case enter s of Some s' \<Rightarrow> s' | None \<Rightarrow> s)
      | Leave \<Rightarrow> if 0 < active s then leave s else s
      | Close \<Rightarrow> close s)"

lemma closed_step: "\<not> accepts s \<Longrightarrow> \<not> accepts (op_step op s) \<and> active (op_step op s) \<le> active s"
  using enter_refused leave_active close_closed by (auto simp: op_step_def split: admission_op.split)

lemma closed_for_good: "\<not> accepts s \<Longrightarrow> \<not> accepts (fold op_step ops s) \<and> active (fold op_step ops s) \<le> active s"
proof (induction ops arbitrary: s)
  case (Cons op ops)
  have "\<not> accepts (op_step op s)" "active (op_step op s) \<le> active s" using closed_step [OF Cons.prems] by simp_all
  then show ?case using Cons.IH [of "op_step op s"] by auto
qed simp

lemma drained_for_good:
  assumes "\<not> accepts s" "active s = 0"
  shows "active (fold op_step ops s) = 0 \<and> enter (fold op_step ops s) = None"
  using closed_for_good [OF assms(1), of ops] assms(2) enter_refused by simp

text \<open>Closing and then leaving as often as there are activities drains.\<close>

lemma drains:
  assumes "active s = n"
  shows "active (fold op_step (replicate n Leave) (close s)) = 0"
proof -
  have d: "active (fold op_step (replicate k Leave) t) = 0" if "active t = k" for k t
    using that
  proof (induction k arbitrary: t)
    case (Suc k)
    then have "active (op_step Leave t) = k" using leave_active [of t] by (simp add: op_step_def)
    then show ?case using Suc.IH by simp
  qed simp
  show ?thesis using d [of "close s" n] close_closed [of s] assms by simp
qed

end

datatype task_storage_error = TaskStorageStopped | TaskStoragePostFailed

record ts_State =
  ts_active :: u64
  ts_accepting :: bool
  ts_posted :: "nat list"
  ts_ran :: "nat list"

definition new_TaskStorage :: ts_State where
  "new_TaskStorage = \<lparr>ts_active = 0, ts_accepting = True, ts_posted = [], ts_ran = []\<rparr>"

definition ts_admit :: "ts_State \<Rightarrow> ts_State option" where
  "ts_admit st = (if \<not> ts_accepting st then None else Some (st\<lparr>ts_active := ts_active st + 1\<rparr>))"

definition ts_done :: "ts_State \<Rightarrow> ts_State" where
  "ts_done st = st\<lparr>ts_active := ts_active st - 1\<rparr>"

text \<open>\<open>CriticalAsyncDetach\<close> of a task with the given number; \<open>postFails\<close> when the executor refuses it.\<close>

definition CriticalAsyncDetach :: "bool \<Rightarrow> nat \<Rightarrow> ts_State \<Rightarrow> (task_storage_error, unit) result \<times> ts_State" where
  "CriticalAsyncDetach postFails task st =
     (case ts_admit st of
        None \<Rightarrow> (Inl TaskStorageStopped, st)
      | Some st \<Rightarrow>
          if postFails then (Inl TaskStoragePostFailed, ts_done st)
          else (Inr (), st\<lparr>ts_posted := ts_posted st @ [task]\<rparr>))"

text \<open>The executor runs a posted task; its exception, if any, is dropped.\<close>

definition ts_run :: "nat \<Rightarrow> ts_State \<Rightarrow> ts_State" where
  "ts_run task st = ts_done (st\<lparr>ts_posted := remove1 task (ts_posted st), ts_ran := ts_ran st @ [task]\<rparr>)"

text \<open>\<open>CancelAndWait\<close>: the flag, and the condition under which the wait ends.\<close>

definition CancelAndWait :: "ts_State \<Rightarrow> ts_State" where
  "CancelAndWait st = st\<lparr>ts_accepting := False\<rparr>"

definition ts_wait_over :: "ts_State \<Rightarrow> bool" where
  "ts_wait_over st \<longleftrightarrow> \<not> ts_accepting st \<and> ts_active st = 0"

interpretation ts: admission ts_admit ts_done CancelAndWait "\<lambda>st. unat (ts_active st)" ts_accepting "2 ^ 64 - 1"
proof
  fix s :: ts_State
  show "ts_admit s = None" if "\<not> ts_accepting s" using that by (simp add: ts_admit_def)
  show "\<exists>s'. ts_admit s = Some s' \<and> unat (ts_active s') = unat (ts_active s) + 1 \<and> ts_accepting s'"
    if "ts_accepting s" "unat (ts_active s) < 2 ^ 64 - 1"
    using that by (simp add: ts_admit_def unat_word_ariths)
  show "unat (ts_active (ts_done s)) = unat (ts_active s) - 1 \<and> ts_accepting (ts_done s) = ts_accepting s"
    if "0 < unat (ts_active s)"
  proof -
    have "1 \<le> ts_active s" using that by (simp add: word_le_nat_alt)
    then show ?thesis by (simp add: ts_done_def unat_sub)
  qed
  show "\<not> ts_accepting (CancelAndWait s) \<and> unat (ts_active (CancelAndWait s)) = unat (ts_active s)"
    by (simp add: CancelAndWait_def)
qed


inductive ts_reach :: "ts_State \<Rightarrow> bool" where
  init: "ts_reach new_TaskStorage"
| detach: "ts_reach st \<Longrightarrow> length (ts_posted st) < 2 ^ 64 - 1 \<Longrightarrow> CriticalAsyncDetach f t st = (r, st') \<Longrightarrow> ts_reach st'"
| run: "ts_reach st \<Longrightarrow> t \<in> set (ts_posted st) \<Longrightarrow> ts_reach (ts_run t st)"
| cancel: "ts_reach st \<Longrightarrow> ts_reach (CancelAndWait st)"

lemma ts_active_posted: "ts_reach st \<Longrightarrow> unat (ts_active st) = length (ts_posted st)"
proof (induction rule: ts_reach.induct)
  case (detach st f t r st')
  then show ?case
    by (auto simp: CriticalAsyncDetach_def ts_admit_def ts_done_def unat_word_ariths split: if_splits)
next
  case (run st t)
  then have "0 < unat (ts_active st)" by (cases "ts_posted st") auto
  then have "unat (ts_active (ts_done st)) = unat (ts_active st) - 1" using ts.leave_active [of st] by simp
  then show ?case using run by (simp add: ts_run_def ts_done_def length_remove1)
qed (simp_all add: new_TaskStorage_def CancelAndWait_def)

lemma task_storage_drained:
  assumes "ts_reach st" "ts_wait_over st"
  shows "ts_posted st = [] \<and> CriticalAsyncDetach f t st = (Inl TaskStorageStopped, st)
    \<and> ts_wait_over (fold ts.op_step ops st)"
  using assms ts_active_posted [OF assms(1)] ts.closed_for_good [of st ops]
  by (auto simp: ts_wait_over_def CriticalAsyncDetach_def ts_admit_def unat_eq_0)

end
