(* ===== verification/StreamingLifecycle.thy ===== *)
theory StreamingLifecycle
  imports Sync
begin

section \<open>Lifecycle of streaming sessions (datasink/grpc/streaming_lifecycle.hpp)\<close>

text \<open>
  \<open>StreamingActivity\<close> counts the users of an endpoint and reports when it is closed and unused;
  \<open>StreamingCell\<close> brings together the readiness of a session and a request to cancel it;
  \<open>StreamingRegistry\<close> cancels the sessions that are open when the endpoint stops. Sections under a mutex and
  accesses to one atomic are single steps; everything the code does after unlocking is a step of its own.
\<close>

subsection \<open>StreamingActivity\<close>

text \<open>\<open>sa_sending\<close> are the calls of \<open>Send()\<close> decided under the mutex and not yet made, \<open>sa_sent\<close> those
  made, \<open>sa_tokens\<close> the tokens handed out (or under construction) and not destroyed.\<close>

record sa_State =
  sa_count :: u64
  sa_closed :: bool
  sa_drained :: SingleUseEvent
  sa_sending :: nat
  sa_sent :: nat
  sa_tokens :: nat

definition new_StreamingActivity :: sa_State where
  "new_StreamingActivity = \<lparr>sa_count = 0, sa_closed = False, sa_drained = new_SingleUseEvent,
     sa_sending = 0, sa_sent = 0, sa_tokens = 0\<rparr>"

definition sa_release :: "sa_State \<Rightarrow> sa_State" where
  "sa_release st =
     (let st = st\<lparr>sa_count := sa_count st - 1, sa_tokens := sa_tokens st - 1\<rparr>
      in if sa_closed st \<and> sa_count st = 0 then st\<lparr>sa_sending := sa_sending st + 1\<rparr> else st)"

text \<open>\<open>acquire()\<close>: no token once closed. When the allocation of the token throws, \<open>sa_release\<close> follows.\<close>

definition sa_acquire :: "sa_State \<Rightarrow> sa_State option" where
  "sa_acquire st =
     (if sa_closed st then None
      else Some (st\<lparr>sa_count := sa_count st + 1, sa_tokens := sa_tokens st + 1\<rparr>))"

definition sa_close :: "sa_State \<Rightarrow> bool \<times> sa_State" where
  "sa_close st =
     (if sa_closed st then (False, st)
      else let st = st\<lparr>sa_closed := True\<rparr>
           in (True, if sa_count st = 0 then st\<lparr>sa_sending := sa_sending st + 1\<rparr> else st))"

definition sa_send :: "sa_State \<Rightarrow> sa_State" where
  "sa_send st = st\<lparr>sa_drained := snd (Send (sa_drained st)), sa_sending := sa_sending st - 1, sa_sent := sa_sent st + 1\<rparr>"

text \<open>\<open>wait()\<close> and \<open>asyncWait()\<close> return when the event is ready.\<close>

definition sa_wait_over :: "sa_State \<Rightarrow> bool" where
  "sa_wait_over st = IsReady (sa_drained st)"

inductive sa_reach :: "sa_State \<Rightarrow> bool" where
  init: "sa_reach new_StreamingActivity"
| acquire: "sa_reach st \<Longrightarrow> sa_tokens st < 2 ^ 64 - 1 \<Longrightarrow> sa_acquire st = Some st' \<Longrightarrow> sa_reach st'"
| release: "sa_reach st \<Longrightarrow> 0 < sa_tokens st \<Longrightarrow> sa_reach (sa_release st)"
| close: "sa_reach st \<Longrightarrow> sa_reach (snd (sa_close st))"
| wait: "sa_reach st \<Longrightarrow> sa_reach (st\<lparr>sa_drained := snd (Wait w (sa_drained st))\<rparr>)"
| send: "sa_reach st \<Longrightarrow> 0 < sa_sending st \<Longrightarrow> sa_reach (sa_send st)"

interpretation sa: admission sa_acquire sa_release "\<lambda>st. snd (sa_close st)" "\<lambda>st. unat (sa_count st)"
  "\<lambda>st. \<not> sa_closed st" "2 ^ 64 - 1"
proof
  fix s :: sa_State
  show "sa_acquire s = None" if "\<not> \<not> sa_closed s" using that by (simp add: sa_acquire_def)
  show "\<exists>s'. sa_acquire s = Some s' \<and> unat (sa_count s') = unat (sa_count s) + 1 \<and> \<not> sa_closed s'"
    if "\<not> sa_closed s" "unat (sa_count s) < 2 ^ 64 - 1"
    using that by (simp add: sa_acquire_def unat_word_ariths)
  show "unat (sa_count (sa_release s)) = unat (sa_count s) - 1 \<and> (\<not> sa_closed (sa_release s)) = (\<not> sa_closed s)"
    if "0 < unat (sa_count s)"
  proof -
    have "1 \<le> sa_count s" using that by (simp add: word_le_nat_alt)
    then show ?thesis by (simp add: sa_release_def Let_def unat_sub)
  qed
  show "\<not> \<not> sa_closed (snd (sa_close s)) \<and> unat (sa_count (snd (sa_close s))) = unat (sa_count s)"
    by (simp add: sa_close_def Let_def)
qed

definition sa_inv :: "sa_State \<Rightarrow> bool" where
  "sa_inv st \<longleftrightarrow> unat (sa_count st) = sa_tokens st
     \<and> sa_sent st + sa_sending st = (if sa_closed st \<and> sa_tokens st = 0 then 1 else 0)
     \<and> (IsReady (sa_drained st) \<longleftrightarrow> 0 < sa_sent st)"

lemma sa_reach_inv: "sa_reach st \<Longrightarrow> sa_inv st"
proof (induction rule: sa_reach.induct)
  case init
  then show ?case by (simp add: sa_inv_def new_StreamingActivity_def)
next
  case (acquire st st')
  then show ?case by (auto simp: sa_inv_def sa_acquire_def unat_word_ariths split: if_splits)
next
  case (release st)
  then have "unat (sa_count (sa_release st)) = unat (sa_count st) - 1" using sa.leave_active [of st] by (simp add: sa_inv_def)
  then have "unat (sa_count st - 1) = sa_tokens st - 1" using release by (simp add: sa_inv_def sa_release_def Let_def split: if_splits)
  moreover from this have "sa_count st - 1 = 0 \<longleftrightarrow> sa_tokens st = 1" using release.hyps(2) by (simp add: unat_eq_0 [symmetric]) arith
  ultimately show ?case using release by (auto simp: sa_inv_def sa_release_def Let_def)
next
  case (close st)
  then have "sa_count st = 0 \<longleftrightarrow> sa_tokens st = 0" using unat_eq_0 [of "sa_count st"] by (simp add: sa_inv_def)
  then show ?case using close by (auto simp: sa_inv_def sa_close_def Let_def)
next
  case (wait st w)
  then show ?case by (simp add: sa_inv_def)
next
  case (send st)
  then show ?case by (auto simp: sa_inv_def sa_send_def split: if_splits)
qed

text \<open>C25. Draining. Waiting for an activity ends only when it is closed and every token is gone; when it is closed and
  every token is gone the one notification has been sent or is about to be, and there is never a second; a closed
  activity hands out no token, and stays drained whatever is called afterwards.\<close>

theorem streaming_activity_drains:
  assumes "sa_reach st"
  shows "(sa_wait_over st \<longrightarrow> sa_closed st \<and> sa_tokens st = 0)
    \<and> (sa_closed st \<and> sa_tokens st = 0 \<longrightarrow> sa_wait_over st \<or> sa_sending st = 1)
    \<and> sa_sent st + sa_sending st \<le> 1
    \<and> (sa_closed st \<longrightarrow> sa_acquire st = None \<and> fst (sa_close st) = False)
    \<and> (sa_wait_over st \<longrightarrow> sa_count (fold sa.op_step ops st) = 0 \<and> sa_acquire (fold sa.op_step ops st) = None)"
proof -
  have inv: "sa_inv st" by (rule sa_reach_inv [OF assms])
  have w: "sa_closed st \<and> sa_tokens st = 0" if "sa_wait_over st"
    using inv that by (auto simp: sa_inv_def sa_wait_over_def split: if_splits)
  have "sa_count (fold sa.op_step ops st) = 0 \<and> sa_acquire (fold sa.op_step ops st) = None" if "sa_wait_over st"
    using sa.drained_for_good [of st ops] w [OF that] inv by (auto simp: sa_inv_def unat_eq_0)
  then show ?thesis using w inv by (auto simp: sa_inv_def sa_wait_over_def sa_acquire_def sa_close_def split: if_splits)
qed

definition sa_demo :: sa_State where
  "sa_demo = sa_send (sa_release (snd (sa_close (the (sa_acquire new_StreamingActivity)))))"

theorem streaming_activity_drains_witness:
  "sa_reach sa_demo \<and> sa_wait_over sa_demo \<and> sa_closed sa_demo \<and> sa_tokens sa_demo = 0 \<and> sa_acquire sa_demo = None"
proof -
  have a: "sa_acquire new_StreamingActivity = Some (the (sa_acquire new_StreamingActivity))"
    by (simp add: sa_acquire_def new_StreamingActivity_def)
  have r: "sa_reach sa_demo" unfolding sa_demo_def
    by (rule sa_reach.send [OF sa_reach.release [OF sa_reach.close [OF sa_reach.acquire [OF sa_reach.init _ a]]]])
      (simp_all add: sa_release_def sa_close_def sa_acquire_def new_StreamingActivity_def Let_def)
  have "sa_wait_over sa_demo"
    by (simp add: sa_demo_def sa_send_def sa_wait_over_def)
  then show ?thesis using r streaming_activity_drains [OF r, of "[]"] by simp
qed


subsection \<open>StreamingCell\<close>

text \<open>Where a thread is inside \<open>cancelIfReady\<close>: before the test of \<open>ready\<close>, before the load of \<open>cancelled\<close>,
  before the exchange of \<open>cancelSent\<close>.\<close>

datatype cell_pc = AtReady | AtCancelled | AtExchange

text \<open>\<open>ce_hasRpc\<close> says whether the session that is set before \<open>markReady\<close> has an RPC; \<open>ce_rpcCancels\<close> counts the
  calls of \<open>rpc->cancel()\<close>, \<open>ce_threads\<close> are the threads inside \<open>cancelIfReady\<close>.\<close>

record ce_State =
  ce_ready :: SingleUseEvent
  ce_hasRpc :: bool
  ce_cancelled :: bool
  ce_cancelSent :: bool
  ce_rpcCancels :: nat
  ce_threads :: "cell_pc list"

definition new_StreamingCell :: "bool \<Rightarrow> ce_State" where
  "new_StreamingCell hasRpc = \<lparr>ce_ready = new_SingleUseEvent, ce_hasRpc = hasRpc, ce_cancelled = False,
     ce_cancelSent = False, ce_rpcCancels = 0, ce_threads = []\<rparr>"

definition ce_markReady :: "ce_State \<Rightarrow> ce_State" where
  "ce_markReady st = st\<lparr>ce_ready := snd (Send (ce_ready st)), ce_threads := AtReady # ce_threads st\<rparr>"

definition ce_cancel :: "ce_State \<Rightarrow> ce_State" where
  "ce_cancel st = st\<lparr>ce_cancelled := True, ce_threads := AtReady # ce_threads st\<rparr>"

definition ce_cancelIfReady :: "nat \<Rightarrow> ce_State \<Rightarrow> ce_State" where
  "ce_cancelIfReady i st =
     (let goto = (\<lambda>pc st. st\<lparr>ce_threads := (ce_threads st)[i := pc]\<rparr>);
          leave = (\<lambda>st. st\<lparr>ce_threads := take i (ce_threads st) @ drop (i + 1) (ce_threads st)\<rparr>)
      in case ce_threads st ! i of
           AtReady \<Rightarrow> if IsReady (ce_ready st) then goto AtCancelled st else leave st
         | AtCancelled \<Rightarrow> if ce_cancelled st \<and> ce_hasRpc st then goto AtExchange st else leave st
         | AtExchange \<Rightarrow>
             if ce_cancelSent st then leave st
             else leave (st\<lparr>ce_cancelSent := True, ce_rpcCancels := ce_rpcCancels st + 1\<rparr>))"

inductive ce_reach :: "ce_State \<Rightarrow> bool" where
  init: "ce_reach (new_StreamingCell hasRpc)"
| ready: "ce_reach st \<Longrightarrow> ce_reach (ce_markReady st)"
| cancel: "ce_reach st \<Longrightarrow> ce_reach (ce_cancel st)"
| thread: "ce_reach st \<Longrightarrow> i < length (ce_threads st) \<Longrightarrow> ce_reach (ce_cancelIfReady i st)"

definition ce_inv :: "ce_State \<Rightarrow> bool" where
  "ce_inv st \<longleftrightarrow>
     ce_rpcCancels st = (if ce_cancelSent st then 1 else 0)
     \<and> (ce_cancelSent st \<or> AtExchange \<in> set (ce_threads st) \<longrightarrow> IsReady (ce_ready st) \<and> ce_cancelled st \<and> ce_hasRpc st)
     \<and> (AtCancelled \<in> set (ce_threads st) \<longrightarrow> IsReady (ce_ready st))
     \<and> (IsReady (ce_ready st) \<and> ce_cancelled st \<and> ce_hasRpc st \<longrightarrow> ce_cancelSent st \<or> ce_threads st \<noteq> [])"

lemma set_without: "set (take i xs @ drop (Suc i) xs) \<subseteq> set xs"
  using set_take_subset [of i xs] set_drop_subset [of "Suc i" xs] by auto

lemma ce_step_inv:
  assumes inv: "ce_inv st" and i: "i < length (ce_threads st)"
  shows "ce_inv (ce_cancelIfReady i st)"
proof (cases "ce_threads st ! i")
  case AtReady
  have upd: "set ((ce_threads st)[i := AtCancelled]) \<subseteq> insert AtCancelled (set (ce_threads st))" by (rule set_update_subset_insert)
  have "(ce_threads st)[i := AtCancelled] \<noteq> []" using i by auto
  then show ?thesis using AtReady inv upd set_without [of i "ce_threads st"]
    by (auto simp: ce_inv_def ce_cancelIfReady_def Let_def)
next
  case AtCancelled
  have upd: "set ((ce_threads st)[i := AtExchange]) \<subseteq> insert AtExchange (set (ce_threads st))" by (rule set_update_subset_insert)
  have "AtCancelled \<in> set (ce_threads st)" using AtCancelled i by (metis nth_mem)
  moreover have "(ce_threads st)[i := AtExchange] \<noteq> []" using i by auto
  ultimately show ?thesis using AtCancelled inv upd set_without [of i "ce_threads st"]
    by (auto simp: ce_inv_def ce_cancelIfReady_def Let_def)
next
  case AtExchange
  have "AtExchange \<in> set (ce_threads st)" using AtExchange i by (metis nth_mem)
  then show ?thesis using AtExchange inv set_without [of i "ce_threads st"]
    by (auto simp: ce_inv_def ce_cancelIfReady_def Let_def)
qed

lemma ce_reach_inv: "ce_reach st \<Longrightarrow> ce_inv st"
proof (induction rule: ce_reach.induct)
  case (thread st i)
  then show ?case using ce_step_inv by simp
qed (auto simp: ce_inv_def new_StreamingCell_def ce_markReady_def ce_cancel_def)

subsection \<open>StreamingRegistry\<close>

text \<open>Cells are numbered and live in \<open>rg_cell\<close>; \<open>rg_cancelling\<close> are the entries that \<open>close()\<close> has taken
  out and not yet visited, \<open>rg_alive\<close> the cells whose last owner is still there, \<open>rg_added\<close> those passed to an
  \<open>add\<close> that did not throw, \<open>rg_reset\<close> those whose registration was reset, at the latest by their destructor.\<close>

datatype registry_error = AlreadyRegistered

record rg_State =
  rg_cells :: "nat list"
  rg_closed :: bool
  rg_cell :: "nat \<Rightarrow> ce_State"
  rg_cancelling :: "nat list"
  rg_alive :: "nat list"
  rg_added :: "nat list"
  rg_reset :: "nat list"

definition new_StreamingRegistry :: rg_State where
  "new_StreamingRegistry = \<lparr>rg_cells = [], rg_closed = False, rg_cell = (\<lambda>_. new_StreamingCell False), rg_cancelling = [],
     rg_alive = [], rg_added = [], rg_reset = []\<rparr>"

definition on_cell :: "nat \<Rightarrow> (ce_State \<Rightarrow> ce_State) \<Rightarrow> rg_State \<Rightarrow> rg_State" where
  "on_cell cell f st = st\<lparr>rg_cell := (rg_cell st)(cell := f (rg_cell st cell))\<rparr>"

definition rg_add :: "nat \<Rightarrow> rg_State \<Rightarrow> (registry_error, unit) result \<times> rg_State" where
  "rg_add cell st =
     (if \<not> rg_closed st
      then if cell \<in> set (rg_cells st) then (Inl AlreadyRegistered, st)
           else (Inr (), st\<lparr>rg_cells := cell # rg_cells st, rg_added := cell # rg_added st\<rparr>)
      else (Inr (), on_cell cell ce_cancel (st\<lparr>rg_added := cell # rg_added st\<rparr>)))"

definition rg_close :: "rg_State \<Rightarrow> rg_State" where
  "rg_close st = st\<lparr>rg_closed := True, rg_cancelling := rg_cancelling st @ rg_cells st, rg_cells := []\<rparr>"

text \<open>One round of the loop of \<open>close()\<close> after the swap: the cell may have died in the meantime.\<close>

definition rg_close_visit :: "nat \<Rightarrow> rg_State \<Rightarrow> rg_State" where
  "rg_close_visit cell st =
     (let st = st\<lparr>rg_cancelling := remove1 cell (rg_cancelling st)\<rparr>
      in if cell \<in> set (rg_alive st) then on_cell cell ce_cancel st else st)"

definition Registration_reset :: "nat \<Rightarrow> rg_State \<Rightarrow> rg_State" where
  "Registration_reset cell st = st\<lparr>rg_cells := removeAll cell (rg_cells st), rg_reset := cell # rg_reset st\<rparr>"

inductive rg_reach :: "rg_State \<Rightarrow> bool" where
  init: "rg_reach new_StreamingRegistry"
| create: "rg_reach st \<Longrightarrow> cell \<notin> set (rg_added st) \<Longrightarrow>
    rg_reach (on_cell cell (\<lambda>_. new_StreamingCell hasRpc) (st\<lparr>rg_alive := cell # rg_alive st\<rparr>))"
| add: "rg_reach st \<Longrightarrow> cell \<in> set (rg_alive st) \<Longrightarrow> rg_reach (snd (rg_add cell st))"
| close: "rg_reach st \<Longrightarrow> rg_reach (rg_close st)"
| visit: "rg_reach st \<Longrightarrow> cell \<in> set (rg_cancelling st) \<Longrightarrow> rg_reach (rg_close_visit cell st)"
| cell_ready: "rg_reach st \<Longrightarrow> rg_reach (on_cell cell ce_markReady st)"
| cell_cancel: "rg_reach st \<Longrightarrow> rg_reach (on_cell cell ce_cancel st)"
| cell_thread: "rg_reach st \<Longrightarrow> i < length (ce_threads (rg_cell st cell)) \<Longrightarrow> rg_reach (on_cell cell (ce_cancelIfReady i) st)"
| reset: "rg_reach st \<Longrightarrow> rg_reach (Registration_reset cell st)"
| die: "rg_reach st \<Longrightarrow> rg_reach (Registration_reset cell (st\<lparr>rg_alive := removeAll cell (rg_alive st)\<rparr>))"

lemma on_cell_simps [simp]:
  "rg_cells (on_cell c f st) = rg_cells st" "rg_closed (on_cell c f st) = rg_closed st"
  "rg_cancelling (on_cell c f st) = rg_cancelling st" "rg_alive (on_cell c f st) = rg_alive st"
  "rg_added (on_cell c f st) = rg_added st" "rg_reset (on_cell c f st) = rg_reset st"
  "rg_cell (on_cell c f st) d = (if d = c then f (rg_cell st d) else rg_cell st d)"
  by (simp_all add: on_cell_def)

lemma ce_steps_cancelled [simp]:
  "ce_cancelled (ce_markReady c) = ce_cancelled c" "ce_cancelled (ce_cancel c)"
  "ce_cancelled (ce_cancelIfReady i c) = ce_cancelled c"
  by (simp_all add: ce_markReady_def ce_cancel_def ce_cancelIfReady_def Let_def split: cell_pc.split)

lemma rg_cells_reach: "rg_reach st \<Longrightarrow> ce_reach (rg_cell st cell)"
proof (induction rule: rg_reach.induct)
  case (cell_thread st i c)
  then show ?case using ce_reach.thread [of "rg_cell st cell" i] by (cases "cell = c") simp_all
qed (auto simp: new_StreamingRegistry_def rg_add_def rg_close_def rg_close_visit_def Registration_reset_def Let_def
    intro: ce_reach.init ce_reach.ready ce_reach.cancel)

definition rg_inv :: "rg_State \<Rightarrow> bool" where
  "rg_inv st \<longleftrightarrow> (rg_closed st \<longrightarrow> rg_cells st = [])
     \<and> (\<forall>cell \<in> set (rg_added st). cell \<in> set (rg_cells st) \<or> cell \<in> set (rg_cancelling st)
          \<or> ce_cancelled (rg_cell st cell) \<or> cell \<in> set (rg_reset st))
     \<and> (\<forall>cell \<in> set (rg_cells st) \<union> set (rg_cancelling st). cell \<in> set (rg_alive st) \<or> cell \<in> set (rg_reset st))"

lemma in_remove1: "x \<in> set xs \<Longrightarrow> x = y \<or> x \<in> set (remove1 y xs)"
  by (cases "x = y") (simp_all add: in_set_remove1)

lemma rg_reach_inv: "rg_reach st \<Longrightarrow> rg_inv st"
proof (induction rule: rg_reach.induct)
  case (visit st cell)
  then show ?case
    using set_remove1_subset [of cell "rg_cancelling st"] in_remove1 [of _ "rg_cancelling st" cell]
    by (auto simp: rg_close_visit_def rg_inv_def Let_def)
qed (auto simp: new_StreamingRegistry_def rg_add_def rg_close_def Registration_reset_def rg_inv_def)

text \<open>C26. Stopping an endpoint misses no session. In every interleaving of additions, the close of the registry, sessions
  becoming ready or dying, and cancellations: the RPC of a session is cancelled at most once, and only when the
  session was ready and a cancellation was requested; and once the registry is closed and its loop has ended, every
  session ever added whose registration still stands was asked to cancel, so that its RPC has been cancelled exactly
  once as soon as it is ready and no thread is inside \<open>cancelIfReady\<close>.\<close>

theorem registry_close_cancels_all:
  assumes "rg_reach st"
  shows "ce_rpcCancels (rg_cell st cell) \<le> 1
    \<and> (ce_rpcCancels (rg_cell st cell) = 1 \<longrightarrow> IsReady (ce_ready (rg_cell st cell)) \<and> ce_cancelled (rg_cell st cell))
    \<and> (rg_closed st \<and> rg_cancelling st = [] \<and> cell \<in> set (rg_added st) \<and> cell \<notin> set (rg_reset st) \<longrightarrow>
         ce_cancelled (rg_cell st cell)
         \<and> (IsReady (ce_ready (rg_cell st cell)) \<and> ce_hasRpc (rg_cell st cell) \<and> ce_threads (rg_cell st cell) = []
              \<longrightarrow> ce_rpcCancels (rg_cell st cell) = 1))"
proof -
  have c: "ce_inv (rg_cell st cell)" by (rule ce_reach_inv [OF rg_cells_reach [OF assms]])
  have "rg_inv st" by (rule rg_reach_inv [OF assms])
  then have "ce_cancelled (rg_cell st cell)"
    if "rg_closed st" "rg_cancelling st = []" "cell \<in> set (rg_added st)" "cell \<notin> set (rg_reset st)"
    using that by (auto simp: rg_inv_def)
  then show ?thesis using c by (auto simp: ce_inv_def split: if_splits)
qed

text \<open>A session that is added, then asked to cancel by the close, then ready.\<close>

definition rg_demo :: rg_State where
  "rg_demo = on_cell 0 (ce_cancelIfReady 0) (on_cell 0 (ce_cancelIfReady 0) (on_cell 0 (ce_cancelIfReady 0) (on_cell 0 ce_markReady
     (on_cell 0 (ce_cancelIfReady 0) (rg_close_visit 0 (rg_close (snd (rg_add 0
       (on_cell 0 (\<lambda>_. new_StreamingCell True) (new_StreamingRegistry\<lparr>rg_alive := [0]\<rparr>))))))))))"

lemmas rg_demo_defs = rg_demo_def rg_close_visit_def rg_close_def rg_add_def on_cell_def new_StreamingRegistry_def
  ce_markReady_def ce_cancel_def ce_cancelIfReady_def new_StreamingCell_def new_SingleUseEvent_def Send_def IsReady_def Let_def

theorem registry_close_cancels_all_witness:
  "rg_reach rg_demo \<and> rg_closed rg_demo \<and> rg_cancelling rg_demo = [] \<and> 0 \<in> set (rg_added rg_demo)
   \<and> 0 \<notin> set (rg_reset rg_demo) \<and> ce_rpcCancels (rg_cell rg_demo 0) = 1"
proof -
  have "rg_reach (on_cell 0 (\<lambda>_. new_StreamingCell True) (new_StreamingRegistry\<lparr>rg_alive := [0]\<rparr>))"
    using rg_reach.create [OF rg_reach.init, of 0 True] by (simp add: new_StreamingRegistry_def)
  note a = rg_reach.close [OF rg_reach.add [OF this, of 0]]
  note b = rg_reach.visit [OF a, of 0]
  have r: "rg_reach rg_demo"
    unfolding rg_demo_def
    by (intro rg_reach.cell_thread rg_reach.cell_ready b) (simp_all add: rg_demo_defs)
  have "rg_closed rg_demo" "rg_cancelling rg_demo = []" "0 \<in> set (rg_added rg_demo)" "0 \<notin> set (rg_reset rg_demo)"
    "IsReady (ce_ready (rg_cell rg_demo 0))" "ce_hasRpc (rg_cell rg_demo 0)" "ce_threads (rg_cell rg_demo 0) = []"
    by (simp_all add: rg_demo_defs)
  then show ?thesis using r registry_close_cancels_all [OF r, of 0] by simp
qed

end
