(* ===== verification/MessageContexts.thy ===== *)
theory MessageContexts
  imports Prelude
begin

section \<open>Message contexts and completion of call frames (runtime/context.hpp)\<close>

text \<open>
  A \<open>MessageContext\<close> is a handle on a shared \<open>ContextState\<close>. Its setters come in two overloads: on a context
  that is kept the state is copied, on one that is given up the state is changed in place when nobody else refers to
  it. The model has an explicit store of states and the handles on them, so that this sharing is visible; a handle that
  was given up may still refer to its state until it is destroyed.

  The second half is \<open>AsyncCompletionState\<close>: a logical call frame that is completed when its last token is
  released, and that holds a token of its parent frame until then.
\<close>

subsection \<open>States\<close>

record SpanContext =
  sc_traceId :: string
  sc_spanId :: string
  sc_valid :: bool
  sc_traceState :: string
  sc_baggage :: string

definition no_SpanContext :: SpanContext where
  "no_SpanContext = \<lparr>sc_traceId = [], sc_spanId = [], sc_valid = False, sc_traceState = [], sc_baggage = []\<rparr>"

text \<open>A stop token is the number of its source, \<open>None\<close> for a token without one; time is in nanoseconds. Completion
  frames, keys and values of local bindings are numbers.\<close>

type_synonym stop_token = "nat option"

record ContextState =
  cs_stopToken :: stop_token
  cs_deadline :: "int option"
  cs_externalCancellations :: "stop_token list"
  cs_traceSamplingEnabled :: bool
  cs_streamId :: string
  cs_priority :: int
  cs_hasPriority :: bool
  cs_trace :: SpanContext
  cs_completion :: "nat option"
  cs_localValues :: "(nat \<times> nat) list"

definition new_ContextState :: ContextState where
  "new_ContextState = \<lparr>cs_stopToken = None, cs_deadline = None, cs_externalCancellations = [],
     cs_traceSamplingEnabled = False, cs_streamId = [], cs_priority = 0, cs_hasPriority = False,
     cs_trace = no_SpanContext, cs_completion = None, cs_localValues = []\<rparr>"

definition stop_requested :: "nat set \<Rightarrow> stop_token \<Rightarrow> bool" where
  "stop_requested requested token = (case token of Some source \<Rightarrow> source \<in> requested | None \<Rightarrow> False)"

definition externallyCancelled :: "nat set \<Rightarrow> ContextState \<Rightarrow> bool" where
  "externallyCancelled requested s = list_ex (stop_requested requested) (cs_externalCancellations s)"

definition cancelled :: "nat set \<Rightarrow> int \<Rightarrow> ContextState \<Rightarrow> bool" where
  "cancelled requested now s \<longleftrightarrow>
     stop_requested requested (cs_stopToken s) \<or> externallyCancelled requested s
     \<or> (case cs_deadline s of Some d \<Rightarrow> d \<le> now | None \<Rightarrow> False)"

definition withDeadline :: "int option \<Rightarrow> ContextState \<Rightarrow> ContextState" where
  "withDeadline d s = s\<lparr>cs_deadline := d\<rparr>"

definition withStopToken :: "stop_token \<Rightarrow> ContextState \<Rightarrow> ContextState" where
  "withStopToken token s = s\<lparr>cs_stopToken := token\<rparr>"

definition withExternalCancellation :: "stop_token \<Rightarrow> ContextState \<Rightarrow> ContextState" where
  "withExternalCancellation token s = s\<lparr>cs_externalCancellations := cs_externalCancellations s @ [token]\<rparr>"

definition withSampling :: "bool \<Rightarrow> ContextState \<Rightarrow> ContextState" where
  "withSampling enabled s = s\<lparr>cs_traceSamplingEnabled := enabled\<rparr>"

definition withPriority :: "int \<Rightarrow> ContextState \<Rightarrow> ContextState" where
  "withPriority p s = s\<lparr>cs_priority := p, cs_hasPriority := True\<rparr>"

definition withStreamId :: "string \<Rightarrow> ContextState \<Rightarrow> ContextState" where
  "withStreamId i s = s\<lparr>cs_streamId := i\<rparr>"

definition withTrace :: "SpanContext \<Rightarrow> ContextState \<Rightarrow> ContextState" where
  "withTrace tc s = s\<lparr>cs_trace := tc\<rparr>"

definition withCompletion :: "nat option \<Rightarrow> ContextState \<Rightarrow> ContextState" where
  "withCompletion completion s = s\<lparr>cs_completion := completion\<rparr>"

definition withLocalValue :: "nat \<Rightarrow> nat \<Rightarrow> ContextState \<Rightarrow> ContextState" where
  "withLocalValue key v s = s\<lparr>cs_localValues := (key, v) # cs_localValues s\<rparr>"

fun find_binding :: "nat \<Rightarrow> (nat \<times> nat) list \<Rightarrow> nat option" where
  "find_binding key [] = None"
| "find_binding key ((k, v) # parent) = (if k = key then Some v else find_binding key parent)"

definition localValue :: "nat \<Rightarrow> ContextState \<Rightarrow> nat option" where
  "localValue key s = find_binding key (cs_localValues s)"

text \<open>\<open>bounded\<close>: the deadline at most \<open>timeout\<close> from now, never later than the one the context has.\<close>

definition bounded :: "int \<Rightarrow> int \<Rightarrow> ContextState \<Rightarrow> ContextState" where
  "bounded now timeout s =
     (let candidate = now + max timeout 0
      in case cs_deadline s of
           Some d \<Rightarrow> if d \<le> candidate then s else withDeadline (Some candidate) s
         | None \<Rightarrow> withDeadline (Some candidate) s)"

subsection \<open>Handles\<close>

datatype handle = Live nat | GivenUp "nat option"

record contexts =
  cx_store :: "ContextState list"
  cx_handles :: "handle list"

text \<open>\<open>use_count()\<close> of a shared state.\<close>

definition use_count :: "nat \<Rightarrow> contexts \<Rightarrow> nat" where
  "use_count a st = length (filter (\<lambda>h. h = Live a \<or> h = GivenUp (Some a)) (cx_handles st))"

definition new_MessageContext :: "contexts \<Rightarrow> contexts" where
  "new_MessageContext st =
     st\<lparr>cx_store := cx_store st @ [new_ContextState], cx_handles := cx_handles st @ [Live (length (cx_store st))]\<rparr>"

text \<open>The overloads for a context that is kept (\<open>const &\<close>): \<open>cloneDerived\<close>, then the change.\<close>

definition with_const :: "(ContextState \<Rightarrow> ContextState) \<Rightarrow> nat \<Rightarrow> contexts \<Rightarrow> contexts" where
  "with_const f a st =
     st\<lparr>cx_store := cx_store st @ [f (cx_store st ! a)], cx_handles := cx_handles st @ [Live (length (cx_store st))]\<rparr>"

text \<open>The overloads for a context that is given up (\<open>&&\<close>): \<open>takeOrCloneDerived\<close>, then the change.\<close>

definition with_rvalue :: "(ContextState \<Rightarrow> ContextState) \<Rightarrow> nat \<Rightarrow> nat \<Rightarrow> contexts \<Rightarrow> contexts" where
  "with_rvalue f v a st =
     (if use_count a st = 1
      then st\<lparr>cx_store := (cx_store st)[a := f (cx_store st ! a)],
              cx_handles := (cx_handles st)[v := GivenUp None] @ [Live a]\<rparr>
      else with_const f a (st\<lparr>cx_handles := (cx_handles st)[v := GivenUp (Some a)]\<rparr>))"

datatype context_op =
    CreateContext
  | CopyContext nat
  | MoveContext nat
  | DestroyContext nat
  | ReadContext nat
  | WithConst "ContextState \<Rightarrow> ContextState" nat
  | WithRvalue "ContextState \<Rightarrow> ContextState" nat
  | WithoutCompletion bool nat

definition withoutCompletion :: "bool \<Rightarrow> nat \<Rightarrow> nat \<Rightarrow> contexts \<Rightarrow> contexts" where
  "withoutCompletion rvalue v a st =
     (if cs_completion (cx_store st ! a) = None
      then if rvalue then st\<lparr>cx_handles := (cx_handles st)[v := GivenUp None] @ [Live a]\<rparr>
           else st\<lparr>cx_handles := cx_handles st @ [Live a]\<rparr>
      else if rvalue then with_rvalue (withCompletion None) v a st else with_const (withCompletion None) a st)"

definition live_at :: "contexts \<Rightarrow> nat \<Rightarrow> nat option" where
  "live_at st v =
     (if v < length (cx_handles st) then (case cx_handles st ! v of Live a \<Rightarrow> Some a | GivenUp _ \<Rightarrow> None) else None)"

text \<open>One operation on the handle with the given number; a handle that was given up is not used again except to destroy
  it. Only \<open>ReadContext\<close> has an answer.\<close>

definition context_step :: "context_op \<Rightarrow> contexts \<Rightarrow> ContextState option \<times> contexts" where
  "context_step op st =
     (case op of
        CreateContext \<Rightarrow> (None, new_MessageContext st)
      | CopyContext v \<Rightarrow>
          (case live_at st v of Some a \<Rightarrow> (None, st\<lparr>cx_handles := cx_handles st @ [Live a]\<rparr>) | None \<Rightarrow> (None, st))
      | MoveContext v \<Rightarrow>
          (case live_at st v of
             Some a \<Rightarrow> (None, st\<lparr>cx_handles := (cx_handles st)[v := GivenUp None] @ [Live a]\<rparr>) | None \<Rightarrow> (None, st))
      | DestroyContext v \<Rightarrow> (None, st\<lparr>cx_handles := (cx_handles st)[v := GivenUp None]\<rparr>)
      | ReadContext v \<Rightarrow> (map_option (\<lambda>a. cx_store st ! a) (live_at st v), st)
      | WithConst f v \<Rightarrow> (case live_at st v of Some a \<Rightarrow> (None, with_const f a st) | None \<Rightarrow> (None, st))
      | WithRvalue f v \<Rightarrow> (case live_at st v of Some a \<Rightarrow> (None, with_rvalue f v a st) | None \<Rightarrow> (None, st))
      | WithoutCompletion rvalue v \<Rightarrow>
          (case live_at st v of Some a \<Rightarrow> (None, withoutCompletion rvalue v a st) | None \<Rightarrow> (None, st)))"

text \<open>The same operations on values: a handle is the state it shows, nothing is shared.\<close>

fun value_step :: "context_op \<Rightarrow> ContextState option list \<Rightarrow> ContextState option \<times> ContextState option list" where
  "value_step CreateContext vs = (None, vs @ [Some new_ContextState])"
| "value_step (CopyContext v) vs = (None, if v < length vs \<and> vs ! v \<noteq> None then vs @ [vs ! v] else vs)"
| "value_step (MoveContext v) vs = (None, if v < length vs \<and> vs ! v \<noteq> None then vs[v := None] @ [vs ! v] else vs)"
| "value_step (DestroyContext v) vs = (None, vs[v := None])"
| "value_step (ReadContext v) vs = (if v < length vs then vs ! v else None, vs)"
| "value_step (WithConst f v) vs = (None, if v < length vs \<and> vs ! v \<noteq> None then vs @ [map_option f (vs ! v)] else vs)"
| "value_step (WithRvalue f v) vs = (None, if v < length vs \<and> vs ! v \<noteq> None then vs[v := None] @ [map_option f (vs ! v)] else vs)"
| "value_step (WithoutCompletion rvalue v) vs =
     (None, if v < length vs \<and> vs ! v \<noteq> None
            then (if rvalue then vs[v := None] else vs) @ [map_option (withCompletion None) (vs ! v)] else vs)"

definition shown :: "contexts \<Rightarrow> handle \<Rightarrow> ContextState option" where
  "shown st h = (case h of Live a \<Rightarrow> Some (cx_store st ! a) | GivenUp _ \<Rightarrow> None)"

definition context_values :: "contexts \<Rightarrow> ContextState option list" where
  "context_values st = map (shown st) (cx_handles st)"

definition contexts_ok :: "contexts \<Rightarrow> bool" where
  "contexts_ok st \<longleftrightarrow> (\<forall>h \<in> set (cx_handles st). \<forall>a. h = Live a \<or> h = GivenUp (Some a) \<longrightarrow> a < length (cx_store st))"

lemma values_length [simp]: "length (context_values st) = length (cx_handles st)"
  by (simp add: context_values_def)

lemma shown_simps [simp]:
  "shown (st\<lparr>cx_handles := hs\<rparr>) h = shown st h" "shown st (GivenUp x) = None" "shown st (Live a) = Some (cx_store st ! a)"
  by (simp_all add: shown_def split: handle.split)

lemma live_at_Some: "live_at st v = Some a \<longleftrightarrow> v < length (cx_handles st) \<and> cx_handles st ! v = Live a"
  by (auto simp: live_at_def split: handle.splits)

lemma live_at_value:
  "live_at st v = Some a \<Longrightarrow> context_values st ! v = Some (cx_store st ! a)"
  "live_at st v = None \<Longrightarrow> v < length (cx_handles st) \<Longrightarrow> context_values st ! v = None"
  by (auto simp: live_at_def context_values_def shown_def split: handle.splits if_splits)

lemma live_at_address: "contexts_ok st \<Longrightarrow> live_at st v = Some a \<Longrightarrow> a < length (cx_store st)"
  by (auto simp: contexts_ok_def live_at_Some) (metis nth_mem)

lemma filter_one_position:
  assumes "length (filter P xs) = 1" "i < length xs" "P (xs ! i)" "j < length xs" "P (xs ! j)"
  shows "i = j"
proof (rule ccontr)
  assume "i \<noteq> j"
  moreover have "{i, j} \<subseteq> {k. k < length xs \<and> P (xs ! k)}" using assms by simp
  ultimately have "2 \<le> card {k. k < length xs \<and> P (xs ! k)}" using card_mono [of "{k. k < length xs \<and> P (xs ! k)}" "{i, j}"] by simp
  then show False using assms(1) by (simp add: length_filter_conv_card)
qed

lemma values_handles_update:
  assumes "\<And>i. i < length (cx_handles st) \<Longrightarrow> i \<noteq> v \<Longrightarrow> shown st' (cx_handles st ! i) = shown st (cx_handles st ! i)"
    and "cx_handles st' = (cx_handles st)[v := GivenUp x] @ hs"
  shows "context_values st' = (context_values st)[v := None] @ map (shown st') hs"
proof -
  have "map (shown st') ((cx_handles st)[v := GivenUp x]) = (map (shown st) (cx_handles st))[v := None]"
    by (rule nth_equalityI) (simp_all add: assms(1) nth_list_update_if)
  then show ?thesis by (simp add: context_values_def assms(2))
qed

lemma values_handles_append:
  assumes "\<And>i. i < length (cx_handles st) \<Longrightarrow> shown st' (cx_handles st ! i) = shown st (cx_handles st ! i)"
    and "cx_handles st' = cx_handles st @ hs"
  shows "context_values st' = context_values st @ map (shown st') hs"
proof -
  have "map (shown st') (cx_handles st) = map (shown st) (cx_handles st)" by (rule nth_equalityI) (simp_all add: assms(1))
  then show ?thesis by (simp add: context_values_def assms(2))
qed

lemma shown_extended:
  assumes "contexts_ok st" "i < length (cx_handles st)" "cx_store st' = cx_store st @ ss"
  shows "shown st' (cx_handles st ! i) = shown st (cx_handles st ! i)"
proof (cases "cx_handles st ! i")
  case (Live a)
  then have "a < length (cx_store st)" using assms(1,2) by (auto simp: contexts_ok_def) (metis nth_mem)
  then show ?thesis using Live assms(3) by (simp add: shown_def nth_append)
qed (simp add: shown_def)

lemma const_values:
  assumes "contexts_ok st" "a < length (cx_store st)"
  shows "context_values (with_const f a st) = context_values st @ [Some (f (cx_store st ! a))]"
proof -
  have "context_values (with_const f a st) = context_values st @ map (shown (with_const f a st)) [Live (length (cx_store st))]"
    by (rule values_handles_append, rule shown_extended [OF assms(1)]) (simp_all add: with_const_def)
  then show ?thesis using assms(2) by (simp add: shown_def with_const_def nth_append)
qed

lemma given_up_values:
  assumes "contexts_ok st"
  shows "context_values (st\<lparr>cx_handles := (cx_handles st)[v := GivenUp x]\<rparr>) = (context_values st)[v := None]"
  using values_handles_update [of st v "st\<lparr>cx_handles := (cx_handles st)[v := GivenUp x]\<rparr>" x "[]"] by simp

lemma given_up_ok:
  assumes "contexts_ok st" "live_at st v = Some a" "x = None \<or> x = Some a"
  shows "contexts_ok (st\<lparr>cx_handles := (cx_handles st)[v := GivenUp x]\<rparr>)"
  using assms live_at_address [OF assms(1,2)] set_update_subset_insert [of "cx_handles st" v "GivenUp x"]
  by (auto simp: contexts_ok_def)

lemma rvalue_values:
  assumes ok: "contexts_ok st" and live: "live_at st v = Some a"
  shows "context_values (with_rvalue f v a st) = (context_values st)[v := None] @ [Some (f (cx_store st ! a))]"
proof (cases "use_count a st = 1")
  case True
  have other: "cx_handles st ! i \<noteq> Live a" if "i < length (cx_handles st)" "i \<noteq> v" for i
    using filter_one_position [OF True [unfolded use_count_def], of i v] that live by (auto simp: live_at_Some)
  have "context_values (with_rvalue f v a st) = (context_values st)[v := None] @ map (shown (with_rvalue f v a st)) [Live a]"
    using True other
    by (intro values_handles_update) (auto simp: with_rvalue_def shown_def nth_list_update_if split: handle.split)
  then show ?thesis using True live_at_address [OF ok live] by (simp add: with_rvalue_def shown_def)
next
  case False
  let ?st = "st\<lparr>cx_handles := (cx_handles st)[v := GivenUp (Some a)]\<rparr>"
  have "context_values (with_const f a ?st) = context_values ?st @ [Some (f (cx_store ?st ! a))]"
    by (rule const_values) (simp_all add: given_up_ok [OF ok live] live_at_address [OF ok live])
  then show ?thesis using False by (simp add: with_rvalue_def given_up_values [OF ok])
qed

lemma with_ok:
  assumes ok: "contexts_ok st" and live: "live_at st v = Some a"
  shows "contexts_ok (with_const f a st)" "contexts_ok (with_rvalue f v a st)"
proof -
  have c: "contexts_ok (with_const f b t)" if "contexts_ok t" for b and t :: contexts
    using that by (auto simp: contexts_ok_def with_const_def less_Suc_eq)
  then show "contexts_ok (with_const f a st)" using ok by simp
  show "contexts_ok (with_rvalue f v a st)"
  proof (cases "use_count a st = 1")
    case True
    then show ?thesis
      using given_up_ok [OF ok live, of None] live_at_address [OF ok live] by (auto simp: with_rvalue_def contexts_ok_def)
  next
    case False
    then show ?thesis using c given_up_ok [OF ok live, of "Some a"] by (simp add: with_rvalue_def)
  qed
qed

lemma copied:
  assumes ok: "contexts_ok st" and live: "live_at st v = Some a"
  shows "contexts_ok (st\<lparr>cx_handles := cx_handles st @ [Live a]\<rparr>)"
    "context_values (st\<lparr>cx_handles := cx_handles st @ [Live a]\<rparr>) = context_values st @ [Some (cx_store st ! a)]"
  using ok live_at_address [OF ok live]
  by (auto simp: contexts_ok_def context_values_def)

lemma moved:
  assumes ok: "contexts_ok st" and live: "live_at st v = Some a"
  shows "contexts_ok (st\<lparr>cx_handles := (cx_handles st)[v := GivenUp None] @ [Live a]\<rparr>)"
    "context_values (st\<lparr>cx_handles := (cx_handles st)[v := GivenUp None] @ [Live a]\<rparr>)
       = (context_values st)[v := None] @ [Some (cx_store st ! a)]"
proof -
  let ?st = "st\<lparr>cx_handles := (cx_handles st)[v := GivenUp None] @ [Live a]\<rparr>"
  show "contexts_ok ?st"
    using given_up_ok [OF ok live, of None] live_at_address [OF ok live] by (auto simp: contexts_ok_def)
  have "context_values ?st = (context_values st)[v := None] @ map (shown ?st) [Live a]"
    by (rule values_handles_update) simp_all
  then show "context_values ?st = (context_values st)[v := None] @ [Some (cx_store st ! a)]" by (simp add: shown_def)
qed

lemma created:
  assumes "contexts_ok st"
  shows "contexts_ok (new_MessageContext st)" "context_values (new_MessageContext st) = context_values st @ [Some new_ContextState]"
proof -
  show "contexts_ok (new_MessageContext st)" using assms by (auto simp: contexts_ok_def new_MessageContext_def less_Suc_eq)
  have "context_values (new_MessageContext st) = context_values st @ map (shown (new_MessageContext st)) [Live (length (cx_store st))]"
    by (rule values_handles_append, rule shown_extended [OF assms]) (simp_all add: new_MessageContext_def)
  then show "context_values (new_MessageContext st) = context_values st @ [Some new_ContextState]"
    by (simp add: shown_def new_MessageContext_def)
qed

lemma destroyed: "contexts_ok st \<Longrightarrow> contexts_ok (st\<lparr>cx_handles := (cx_handles st)[v := GivenUp None]\<rparr>)"
  using set_update_subset_insert [of "cx_handles st" v "GivenUp None"] by (auto simp: contexts_ok_def)

lemma withCompletion_None: "cs_completion s = None \<Longrightarrow> withCompletion None s = s"
  by (simp add: withCompletion_def)

lemma without_completion:
  assumes ok: "contexts_ok st" and live: "live_at st v = Some a"
  shows "contexts_ok (withoutCompletion rvalue v a st)"
    "context_values (withoutCompletion rvalue v a st)
       = (if rvalue then (context_values st)[v := None] else context_values st) @ [Some (withCompletion None (cx_store st ! a))]"
  using copied [OF ok live] moved [OF ok live] with_ok [OF ok live] const_values [OF ok live_at_address [OF ok live]] rvalue_values [OF ok live]
  by (simp_all add: withoutCompletion_def withCompletion_None)

lemma step_ok: "contexts_ok st \<Longrightarrow> contexts_ok (snd (context_step op st))"
  by (cases op)
    (auto simp: context_step_def split: option.split intro: created(1) destroyed copied(1) moved(1) with_ok without_completion(1))

lemma step_values_at:
  assumes ok: "contexts_ok st" and op: "op \<in> {CopyContext v, MoveContext v, WithConst f v, WithRvalue f v, WithoutCompletion rvalue v}"
  shows "value_step op (context_values st) = (fst (context_step op st), context_values (snd (context_step op st)))"
proof (cases "live_at st v")
  case None
  then have "\<not> (v < length (context_values st) \<and> context_values st ! v \<noteq> None)" using live_at_value(2) [OF None] by auto
  then show ?thesis using op None by (auto simp: context_step_def)
next
  case (Some a)
  then have v: "v < length (cx_handles st)" "context_values st ! v = Some (cx_store st ! a)"
    using live_at_value(1) [OF Some] by (simp_all add: live_at_Some)
  consider "op = CopyContext v" | "op = MoveContext v" | "op = WithConst f v" | "op = WithRvalue f v"
    | "op = WithoutCompletion rvalue v" using op by blast
  then show ?thesis
  proof cases
    case 1
    then show ?thesis using v by (simp add: context_step_def Some copied(2) [OF ok Some])
  next
    case 2
    then show ?thesis using v by (simp add: context_step_def Some moved(2) [OF ok Some])
  next
    case 3
    then show ?thesis using v by (simp add: context_step_def Some const_values [OF ok live_at_address [OF ok Some]])
  next
    case 4
    then show ?thesis using v by (simp add: context_step_def Some rvalue_values [OF ok Some])
  next
    case 5
    then show ?thesis using v by (simp add: context_step_def Some without_completion(2) [OF ok Some])
  qed
qed

lemma step_values:
  assumes ok: "contexts_ok st"
  shows "value_step op (context_values st) = (fst (context_step op st), context_values (snd (context_step op st)))"
proof (cases op)
  case CreateContext
  then show ?thesis using created(2) [OF ok] by (simp add: context_step_def)
next
  case (DestroyContext v)
  then show ?thesis using given_up_values [OF ok] by (simp add: context_step_def)
next
  case (ReadContext v)
  show ?thesis
  proof (cases "live_at st v")
    case None
    then show ?thesis using live_at_value(2) [OF None] ReadContext by (simp add: context_step_def)
  next
    case (Some a)
    then have "v < length (cx_handles st)" by (simp add: live_at_Some)
    then show ?thesis using live_at_value(1) [OF Some] Some ReadContext by (simp add: context_step_def)
  qed
next
  case (CopyContext v)
  show ?thesis unfolding CopyContext by (rule step_values_at [OF ok]) simp
next
  case (MoveContext v)
  show ?thesis unfolding MoveContext by (rule step_values_at [OF ok]) simp
next
  case (WithConst f v)
  show ?thesis unfolding WithConst by (rule step_values_at [OF ok]) simp
next
  case (WithRvalue f v)
  show ?thesis unfolding WithRvalue by (rule step_values_at [OF ok]) simp
next
  case (WithoutCompletion rvalue v)
  show ?thesis unfolding WithoutCompletion by (rule step_values_at [OF ok]) simp
qed

interpretation cx: refinement contexts_ok context_values context_step value_step
  by unfold_locales (simp_all add: step_ok step_values)


text \<open>C17. Contexts behave as values. Whatever is created, copied, moved, changed through either overload and destroyed,
  every read gives what it would give if each context had a state of its own: changing a state in place when it is not
  shared is never seen through another context.\<close>

theorem context_value_semantics:
  "run_ops value_step ops [] = (fst (run_ops context_step ops \<lparr>cx_store = [], cx_handles = []\<rparr>),
     context_values (snd (run_ops context_step ops \<lparr>cx_store = [], cx_handles = []\<rparr>)))"
  using cx.run_spec [of "\<lparr>cx_store = [], cx_handles = []\<rparr>" ops] by (simp add: contexts_ok_def context_values_def)

lemma bounded_deadline:
  "cs_deadline (bounded now timeout s) =
     Some (case cs_deadline s of Some d \<Rightarrow> min d (now + max timeout 0) | None \<Rightarrow> now + max timeout 0)"
  by (auto simp: bounded_def withDeadline_def Let_def split: option.split)

lemma localValue_bound:
  "localValue k (withLocalValue k' v s) = (if k = k' then Some v else localValue k s)"
  by (simp add: localValue_def withLocalValue_def)

subsection \<open>Call frames\<close>

text \<open>Where a frame is: open; its last token released and the completion not yet run; completion run and the parent's
  token not yet given back; over.\<close>

datatype frame_phase = FrameOpen | FrameCompleting | FrameCompleted | FrameOver

record frame =
  fr_pending :: u64
  fr_parent :: "nat option"
  fr_phase :: frame_phase

text \<open>\<open>fs_tokens\<close> are the tokens held outside, by the frame they belong to; \<open>fs_log\<close> are the frames whose completion
  has run, in order.\<close>

record frames =
  fs_frames :: "frame list"
  fs_tokens :: "nat list"
  fs_log :: "nat list"

definition no_frames :: frames where
  "no_frames = \<lparr>fs_frames = [], fs_tokens = [], fs_log = []\<rparr>"

definition on_frame :: "nat \<Rightarrow> (frame \<Rightarrow> frame) \<Rightarrow> frames \<Rightarrow> frames" where
  "on_frame i f st = st\<lparr>fs_frames := (fs_frames st)[i := f (fs_frames st ! i)]\<rparr>"

text \<open>\<open>make\<close>: a new frame that takes over a token of its parent, if it has one; its creator has the first token.\<close>

definition make_frame :: "nat option \<Rightarrow> frames \<Rightarrow> frames" where
  "make_frame parent st =
     st\<lparr>fs_frames := fs_frames st @ [\<lparr>fr_pending = 1, fr_parent = parent, fr_phase = FrameOpen\<rparr>],
        fs_tokens := length (fs_frames st) # (case parent of Some p \<Rightarrow> remove1 p (fs_tokens st) | None \<Rightarrow> fs_tokens st)\<rparr>"

definition retainToken :: "nat \<Rightarrow> frames \<Rightarrow> bool \<times> frames" where
  "retainToken i st =
     (if fr_pending (fs_frames st ! i) \<noteq> 0
      then (True, on_frame i (\<lambda>f. f\<lparr>fr_pending := fr_pending f + 1\<rparr>) (st\<lparr>fs_tokens := i # fs_tokens st\<rparr>))
      else (False, st))"

text \<open>\<open>release()\<close> in the order of its steps: the count under the mutex, the completion, the parent's token.\<close>

definition release_count :: "nat \<Rightarrow> frames \<Rightarrow> frames" where
  "release_count i st =
     on_frame i (\<lambda>f. let f = f\<lparr>fr_pending := fr_pending f - 1\<rparr>
                       in if fr_pending f \<noteq> 0 then f else f\<lparr>fr_phase := FrameCompleting\<rparr>) st"

definition release_complete :: "nat \<Rightarrow> frames \<Rightarrow> frames" where
  "release_complete i st =
     on_frame i (\<lambda>f. f\<lparr>fr_phase := FrameCompleted\<rparr>) (st\<lparr>fs_log := fs_log st @ [i]\<rparr>)"

definition release_parent :: "nat \<Rightarrow> frames \<Rightarrow> frames" where
  "release_parent i st =
     (let st' = on_frame i (\<lambda>f. f\<lparr>fr_phase := FrameOver\<rparr>) st
      in case fr_parent (fs_frames st ! i) of Some p \<Rightarrow> release_count p st' | None \<Rightarrow> st')"

inductive frame_reach :: "frames \<Rightarrow> bool" where
  init: "frame_reach no_frames"
| make: "frame_reach st \<Longrightarrow> (case parent of Some p \<Rightarrow> p \<in> set (fs_tokens st) | None \<Rightarrow> True) \<Longrightarrow>
    frame_reach (make_frame parent st)"
| retain: "frame_reach st \<Longrightarrow> i < length (fs_frames st) \<Longrightarrow> unat (fr_pending (fs_frames st ! i)) < 2 ^ 64 - 1 \<Longrightarrow>
    frame_reach (snd (retainToken i st))"
| release: "frame_reach st \<Longrightarrow> i \<in> set (fs_tokens st) \<Longrightarrow> frame_reach (release_count i (st\<lparr>fs_tokens := remove1 i (fs_tokens st)\<rparr>))"
| complete: "frame_reach st \<Longrightarrow> i < length (fs_frames st) \<Longrightarrow> fr_phase (fs_frames st ! i) = FrameCompleting \<Longrightarrow>
    frame_reach (release_complete i st)"
| parent: "frame_reach st \<Longrightarrow> i < length (fs_frames st) \<Longrightarrow> fr_phase (fs_frames st ! i) = FrameCompleted \<Longrightarrow>
    frame_reach (release_parent i st)"

definition open_kids :: "frames \<Rightarrow> nat \<Rightarrow> nat set" where
  "open_kids st p = {c. c < length (fs_frames st) \<and> fr_parent (fs_frames st ! c) = Some p \<and> fr_phase (fs_frames st ! c) \<noteq> FrameOver}"

text \<open>\<open>excess\<close> is a frame that still counts a token which has just been given up.\<close>

definition frame_counts :: "nat option \<Rightarrow> frames \<Rightarrow> bool" where
  "frame_counts excess st \<longleftrightarrow>
     (\<forall>i < length (fs_frames st).
        unat (fr_pending (fs_frames st ! i))
          = count_list (fs_tokens st) i + card (open_kids st i) + (if excess = Some i then 1 else 0)
        \<and> (fr_phase (fs_frames st ! i) = FrameOpen \<longleftrightarrow> fr_pending (fs_frames st ! i) \<noteq> 0)
        \<and> (\<forall>p. fr_parent (fs_frames st ! i) = Some p \<longrightarrow> p < i))
     \<and> set (fs_tokens st) \<subseteq> {..<length (fs_frames st)}"

definition frame_log_ok :: "frames \<Rightarrow> bool" where
  "frame_log_ok st \<longleftrightarrow>
     distinct (fs_log st)
     \<and> set (fs_log st) = {i. i < length (fs_frames st) \<and> fr_phase (fs_frames st ! i) \<in> {FrameCompleted, FrameOver}}
     \<and> (\<forall>k < length (fs_log st). \<forall>c < length (fs_frames st).
          fr_parent (fs_frames st ! c) = Some (fs_log st ! k) \<longrightarrow> c \<in> set (take k (fs_log st)))"

lemma on_frame_simps [simp]:
  "fs_tokens (on_frame i f st) = fs_tokens st" "fs_log (on_frame i f st) = fs_log st"
  "length (fs_frames (on_frame i f st)) = length (fs_frames st)"
  "fs_frames (on_frame i f st) ! j = (if j = i \<and> i < length (fs_frames st) then f (fs_frames st ! i) else fs_frames st ! j)"
  by (auto simp: on_frame_def nth_list_update_if)

lemma finite_kids [simp]: "finite (open_kids st p)"
  by (simp add: open_kids_def)

lemma kids_same:
  assumes "length (fs_frames st') = length (fs_frames st)"
    and "\<And>c. c < length (fs_frames st) \<Longrightarrow> fr_parent (fs_frames st' ! c) = fr_parent (fs_frames st ! c)
           \<and> (fr_phase (fs_frames st' ! c) = FrameOver \<longleftrightarrow> fr_phase (fs_frames st ! c) = FrameOver)"
  shows "open_kids st' p = open_kids st p"
  using assms by (auto simp: open_kids_def)

lemma unat_pred: "(x :: u64) \<noteq> 0 \<Longrightarrow> unat (x - 1) = unat x - 1"
  by (simp add: unat_sub word_le_nat_alt unat_gt_0 Suc_leI)

lemma release_count_counts:
  assumes inv: "frame_counts (Some i) st" and i: "i < length (fs_frames st)"
  shows "frame_counts None (release_count i st)"
proof -
  have p: "unat (fr_pending (fs_frames st ! i)) = count_list (fs_tokens st) i + card (open_kids st i) + 1"
    using inv i by (simp add: frame_counts_def)
  then have nz: "fr_pending (fs_frames st ! i) \<noteq> 0" by auto
  have pred: "unat (fr_pending (fs_frames st ! i) - 1) = count_list (fs_tokens st) i + card (open_kids st i)"
    using unat_pred [OF nz] p by simp
  have kids: "open_kids (release_count i st) q = open_kids st q" for q
    using inv i nz by (intro kids_same) (auto simp: release_count_def Let_def frame_counts_def)
  show ?thesis
    using inv nz pred unfolding frame_counts_def kids
    by (auto simp: release_count_def Let_def)
qed

lemma release_count_log: "frame_log_ok st \<Longrightarrow> fr_phase (fs_frames st ! i) = FrameOpen \<Longrightarrow> frame_log_ok (release_count i st)"
  by (auto simp: frame_log_ok_def release_count_def Let_def)

lemma count_remove1: "count_list (remove1 x xs) y = count_list xs y - (if x = y \<and> x \<in> set xs then 1 else 0)"
  by (induction xs) auto

lemma count_pos: "x \<in> set xs \<Longrightarrow> 0 < count_list xs x"
  by (induction xs) auto

lemma give_up_token:
  assumes "frame_counts None st" "i \<in> set (fs_tokens st)"
  shows "frame_counts (Some i) (st\<lparr>fs_tokens := remove1 i (fs_tokens st)\<rparr>)"
proof -
  have kids: "open_kids (st\<lparr>fs_tokens := remove1 i (fs_tokens st)\<rparr>) q = open_kids st q" for q by (simp add: open_kids_def)
  show ?thesis
    using assms count_pos [OF assms(2)] set_remove1_subset [of i "fs_tokens st"]
    unfolding frame_counts_def kids by (auto simp: count_remove1)
qed

lemma token_open: "frame_counts None st \<Longrightarrow> i \<in> set (fs_tokens st) \<Longrightarrow> i < length (fs_frames st) \<and> fr_phase (fs_frames st ! i) = FrameOpen"
  using count_pos [of i "fs_tokens st"] by (auto simp: frame_counts_def dest!: subsetD)

lemma make_frame_sel:
  "fs_frames (make_frame parent st) = fs_frames st @ [\<lparr>fr_pending = 1, fr_parent = parent, fr_phase = FrameOpen\<rparr>]"
  "fs_tokens (make_frame parent st)
     = length (fs_frames st) # (case parent of Some p \<Rightarrow> remove1 p (fs_tokens st) | None \<Rightarrow> fs_tokens st)"
  "fs_log (make_frame parent st) = fs_log st"
  by (simp_all add: make_frame_def)

lemma make_kids:
  "open_kids (make_frame parent st) q = (if parent = Some q then insert (length (fs_frames st)) (open_kids st q) else open_kids st q)"
  by (auto simp: open_kids_def make_frame_def nth_append less_Suc_eq)

lemma make_counts:
  assumes inv: "frame_counts None st" and p: "case parent of Some p \<Rightarrow> p \<in> set (fs_tokens st) | None \<Rightarrow> True"
  shows "frame_counts None (make_frame parent st)"
proof -
  let ?n = "length (fs_frames st)"
  have tn: "?n \<notin> set (fs_tokens st)" using inv by (auto simp: frame_counts_def)
  have nk: "open_kids st ?n = {}" using inv by (fastforce simp: open_kids_def frame_counts_def)
  have fresh: "?n \<notin> open_kids st q" for q by (simp add: open_kids_def)
  have "set (fs_tokens (make_frame parent st)) \<subseteq> {..<length (fs_frames (make_frame parent st))}"
    using inv set_remove1_subset by (fastforce simp: make_frame_sel frame_counts_def split: option.splits)
  moreover have "unat (fr_pending (fs_frames (make_frame parent st) ! i))
      = count_list (fs_tokens (make_frame parent st)) i + card (open_kids (make_frame parent st) i)
    \<and> (fr_phase (fs_frames (make_frame parent st) ! i) = FrameOpen \<longleftrightarrow> fr_pending (fs_frames (make_frame parent st) ! i) \<noteq> 0)
    \<and> (\<forall>q. fr_parent (fs_frames (make_frame parent st) ! i) = Some q \<longrightarrow> q < i)" if i: "i < Suc ?n" for i
  proof (cases "i = ?n")
    case True
    have "parent \<noteq> Some ?n" using p tn by auto
    moreover have "count_list (fs_tokens st) ?n = 0" "count_list (remove1 q (fs_tokens st)) ?n = 0" for q
      using tn by (simp_all add: count_list_0_iff count_remove1)
    ultimately show ?thesis
      using True p inv nk by (auto simp: make_kids make_frame_sel frame_counts_def split: option.splits)
  next
    case False
    then have "i < ?n" using i by simp
    moreover have "parent = Some i \<Longrightarrow> 0 < count_list (fs_tokens st) i" using p by (auto intro: count_pos)
    ultimately show ?thesis
      using inv p fresh by (auto simp: make_kids make_frame_sel frame_counts_def nth_append count_remove1 split: option.splits)
  qed
  ultimately show ?thesis by (simp add: frame_counts_def make_frame_sel)
qed


lemma make_log:
  assumes "frame_log_ok st" "frame_counts None st" "case parent of Some p \<Rightarrow> p \<in> set (fs_tokens st) | None \<Rightarrow> True"
  shows "frame_log_ok (make_frame parent st)"
proof -
  have "p \<notin> set (fs_log st)" if "parent = Some p" for p
    using assms token_open [of st p] that by (auto simp: frame_log_ok_def)
  then have "parent \<noteq> Some (fs_log st ! k)" if "k < length (fs_log st)" for k using that by (metis nth_mem)
  then show ?thesis using assms(1) by (auto simp: frame_log_ok_def make_frame_sel nth_append less_Suc_eq)
qed

lemma retain_counts:
  assumes "frame_counts None st" "i < length (fs_frames st)" "unat (fr_pending (fs_frames st ! i)) < 2 ^ 64 - 1"
  shows "frame_counts None (snd (retainToken i st))"
proof (cases "fr_pending (fs_frames st ! i) = 0")
  case True
  then show ?thesis using assms by (simp add: retainToken_def)
next
  case False
  let ?st = "snd (retainToken i st)"
  have kids: "open_kids ?st q = open_kids st q" for q by (rule kids_same) (auto simp: retainToken_def)
  have u: "unat (fr_pending (fs_frames st ! i) + 1) = unat (fr_pending (fs_frames st ! i)) + 1"
    using assms(3) by (simp add: unat_word_ariths)
  then have "fr_pending (fs_frames st ! i) + 1 \<noteq> 0" by (metis add_is_0 one_neq_zero unat_0)
  then show ?thesis
    using assms(1,2) u False unfolding frame_counts_def kids by (auto simp: retainToken_def)
qed

lemma retain_log: "frame_log_ok st \<Longrightarrow> frame_log_ok (snd (retainToken i st))"
  by (auto simp: frame_log_ok_def retainToken_def)

lemma complete_counts:
  assumes "frame_counts None st" "fr_phase (fs_frames st ! i) = FrameCompleting"
  shows "frame_counts None (release_complete i st)"
proof -
  have kids: "open_kids (release_complete i st) q = open_kids st q" for q
    using assms(2) by (intro kids_same) (auto simp: release_complete_def)
  show ?thesis using assms unfolding frame_counts_def kids by (auto simp: release_complete_def)
qed

lemma complete_log:
  assumes "frame_log_ok st" "frame_counts None st" "i < length (fs_frames st)" "fr_phase (fs_frames st ! i) = FrameCompleting"
  shows "frame_log_ok (release_complete i st)"
proof -
  have z: "fr_pending (fs_frames st ! i) = 0" using assms(2-4) by (auto simp: frame_counts_def)
  then have "card (open_kids st i) = 0" using assms(2,3) by (auto simp: frame_counts_def)
  then have "open_kids st i = {}" by simp
  then have kids: "c \<in> set (fs_log st)" if "c < length (fs_frames st)" "fr_parent (fs_frames st ! c) = Some i" for c
    using that assms(1) by (auto simp: open_kids_def frame_log_ok_def)
  have i: "i \<notin> set (fs_log st)" using assms(1,4) by (auto simp: frame_log_ok_def)
  have set: "set (fs_log (release_complete i st)) = {j. j < length (fs_frames (release_complete i st))
      \<and> fr_phase (fs_frames (release_complete i st) ! j) \<in> {FrameCompleted, FrameOver}}"
    using assms(1,3) by (auto simp: frame_log_ok_def release_complete_def)
  have "fr_parent (fs_frames (release_complete i st) ! c) = fr_parent (fs_frames st ! c)" for c
    by (simp add: release_complete_def)
  then show ?thesis
    using assms(1) i kids unfolding frame_log_ok_def set
    by (auto simp: release_complete_def nth_append less_Suc_eq)
qed

lemma parent_counts:
  assumes inv: "frame_counts None st" and i: "i < length (fs_frames st)" and ph: "fr_phase (fs_frames st ! i) = FrameCompleted"
  shows "frame_counts (fr_parent (fs_frames st ! i)) (on_frame i (\<lambda>f. f\<lparr>fr_phase := FrameOver\<rparr>) st)"
proof -
  let ?st = "on_frame i (\<lambda>f. f\<lparr>fr_phase := FrameOver\<rparr>) st"
  have kids: "open_kids ?st q = open_kids st q - {i}" for q by (auto simp: open_kids_def split: if_splits)
  have mem: "i \<in> open_kids st q \<longleftrightarrow> fr_parent (fs_frames st ! i) = Some q" for q using i ph by (simp add: open_kids_def)
  have card: "card (open_kids st q) = card (open_kids st q - {i}) + (if fr_parent (fs_frames st ! i) = Some q then 1 else 0)" for q
    using mem [of q] card_Suc_Diff1 [of "open_kids st q" i] by (cases "i \<in> open_kids st q") simp_all
  show ?thesis using inv i ph unfolding frame_counts_def kids card by auto
qed

lemma over_log: "frame_log_ok st \<Longrightarrow> fr_phase (fs_frames st ! i) = FrameCompleted \<Longrightarrow>
   frame_log_ok (on_frame i (\<lambda>f. f\<lparr>fr_phase := FrameOver\<rparr>) st)"
  by (auto simp: frame_log_ok_def)

lemma parent_step:
  assumes "frame_counts None st" "frame_log_ok st" "i < length (fs_frames st)" "fr_phase (fs_frames st ! i) = FrameCompleted"
  shows "frame_counts None (release_parent i st) \<and> frame_log_ok (release_parent i st)"
proof (cases "fr_parent (fs_frames st ! i)")
  case None
  then show ?thesis using parent_counts [OF assms(1,3,4)] over_log [OF assms(2,4)] by (simp add: release_parent_def)
next
  case (Some p)
  let ?st = "on_frame i (\<lambda>f. f\<lparr>fr_phase := FrameOver\<rparr>) st"
  have c: "frame_counts (Some p) ?st" using parent_counts [OF assms(1,3,4)] Some by simp
  have p: "p < length (fs_frames st)" using assms(1,3) Some by (fastforce simp: frame_counts_def)
  have "unat (fr_pending (fs_frames ?st ! p)) \<noteq> 0" using c p by (simp add: frame_counts_def)
  then have "fr_phase (fs_frames ?st ! p) = FrameOpen" using c p by (auto simp: frame_counts_def)
  then show ?thesis
    using release_count_counts [OF c] release_count_log [OF over_log [OF assms(2,4)]] p Some by (simp add: release_parent_def Let_def)
qed

lemma frame_reach_inv: "frame_reach st \<Longrightarrow> frame_counts None st \<and> frame_log_ok st"
proof (induction rule: frame_reach.induct)
  case init
  then show ?case by (simp add: frame_counts_def frame_log_ok_def no_frames_def)
next
  case (make st parent)
  then show ?case using make_counts make_log by simp
next
  case (retain st i)
  then show ?case using retain_counts retain_log by simp
next
  case (release st i)
  then have "frame_counts (Some i) (st\<lparr>fs_tokens := remove1 i (fs_tokens st)\<rparr>)" using give_up_token by simp
  moreover have "i < length (fs_frames st)" "fr_phase (fs_frames st ! i) = FrameOpen" using token_open release by simp_all
  moreover have "frame_log_ok (st\<lparr>fs_tokens := remove1 i (fs_tokens st)\<rparr>)" using release by (simp add: frame_log_ok_def)
  ultimately show ?case
    using release_count_counts [of i "st\<lparr>fs_tokens := remove1 i (fs_tokens st)\<rparr>"] release_count_log [of "st\<lparr>fs_tokens := remove1 i (fs_tokens st)\<rparr>" i]
    by simp
next
  case (complete st i)
  then show ?case using complete_counts complete_log by simp
next
  case (parent st i)
  then show ?case using parent_step by simp
qed


lemma all_completed:
  assumes inv: "frame_counts None st" and t: "fs_tokens st = []"
    and idle: "\<forall>f \<in> set (fs_frames st). fr_phase f \<notin> {FrameCompleting, FrameCompleted}"
    and i: "i < length (fs_frames st)"
  shows "fr_phase (fs_frames st ! i) = FrameOver"
  using i
proof (induction "length (fs_frames st) - i" arbitrary: i rule: less_induct)
  case less
  have kids: "open_kids st i = {}"
  proof (rule ccontr)
    assume "open_kids st i \<noteq> {}"
    then obtain c where c: "c < length (fs_frames st)" "fr_parent (fs_frames st ! c) = Some i" "fr_phase (fs_frames st ! c) \<noteq> FrameOver"
      by (auto simp: open_kids_def)
    then have "i < c" using inv by (simp add: frame_counts_def)
    then show False using less.hyps [of c] c diff_less_mono2 [of i c "length (fs_frames st)"] by simp
  qed
  have "unat (fr_pending (fs_frames st ! i)) = count_list (fs_tokens st) i + card (open_kids st i)"
    using inv less.prems by (simp add: frame_counts_def)
  then have "fr_pending (fs_frames st ! i) = 0" using kids t by (simp add: unat_eq_0)
  then have "fr_phase (fs_frames st ! i) \<noteq> FrameOpen" using inv less.prems by (auto simp: frame_counts_def)
  moreover have "fr_phase (fs_frames st ! i) \<notin> {FrameCompleting, FrameCompleted}" using idle less.prems by simp
  ultimately show ?case by (cases "fr_phase (fs_frames st ! i)") simp_all
qed

text \<open>C18. Completion of call frames. In every interleaving the completion of a frame runs at most once, after those of
  all frames below it, and only when no token of the frame is left; a frame that was completed is never revived; and
  when all tokens have been released and no release is under way, every frame has been completed.\<close>

theorem completion_once_nested:
  assumes "frame_reach st"
  shows "distinct (fs_log st)
    \<and> (\<forall>k < length (fs_log st). \<forall>c < length (fs_frames st).
         fr_parent (fs_frames st ! c) = Some (fs_log st ! k) \<longrightarrow> c \<in> set (take k (fs_log st)))
    \<and> (\<forall>i \<in> set (fs_log st). i \<notin> set (fs_tokens st) \<and> retainToken i st = (False, st))
    \<and> (fs_tokens st = [] \<and> (\<forall>f \<in> set (fs_frames st). fr_phase f \<notin> {FrameCompleting, FrameCompleted})
         \<longrightarrow> set (fs_log st) = {..<length (fs_frames st)})"
proof -
  have c: "frame_counts None st" and l: "frame_log_ok st" using frame_reach_inv [OF assms] by simp_all
  have "\<forall>i \<in> set (fs_log st). i \<notin> set (fs_tokens st) \<and> retainToken i st = (False, st)"
  proof
    fix i assume "i \<in> set (fs_log st)"
    then have i: "i < length (fs_frames st)" "fr_phase (fs_frames st ! i) \<noteq> FrameOpen" using l by (auto simp: frame_log_ok_def)
    then have "fr_pending (fs_frames st ! i) = 0" using c by (auto simp: frame_counts_def)
    then show "i \<notin> set (fs_tokens st) \<and> retainToken i st = (False, st)" using i token_open [OF c, of i] by (auto simp: retainToken_def)
  qed
  moreover have "set (fs_log st) = {..<length (fs_frames st)}"
    if "fs_tokens st = []" "\<forall>f \<in> set (fs_frames st). fr_phase f \<notin> {FrameCompleting, FrameCompleted}"
    using l all_completed [OF c that] by (auto simp: frame_log_ok_def)
  ultimately show ?thesis using l by (simp add: frame_log_ok_def)
qed

text \<open>A frame with one frame below it, both released.\<close>

definition frame_demo :: frames where
  "frame_demo = \<lparr>fs_frames = [\<lparr>fr_pending = 0, fr_parent = None, fr_phase = FrameOver\<rparr>,
     \<lparr>fr_pending = 0, fr_parent = Some 0, fr_phase = FrameOver\<rparr>], fs_tokens = [], fs_log = [1, 0]\<rparr>"

lemma frame_demo_reach: "frame_reach frame_demo"
proof -
  have a: "frame_reach (snd (retainToken 0 (make_frame None no_frames)))"
    by (intro frame_reach.retain frame_reach.make frame_reach.init) (simp_all add: make_frame_def no_frames_def)
  have b: "frame_reach (make_frame (Some 0) (snd (retainToken 0 (make_frame None no_frames))))"
    by (rule frame_reach.make [OF a]) (simp add: make_frame_def no_frames_def retainToken_def)
  note d = frame_reach.parent [OF frame_reach.complete [OF frame_reach.release [OF b, of 1], of 1], of 1]
  note e = frame_reach.parent [OF frame_reach.complete [OF frame_reach.release [OF d, of 0], of 0], of 0]
  show ?thesis
    using e
    by (simp add: frame_demo_def make_frame_def no_frames_def retainToken_def release_count_def release_complete_def
        release_parent_def on_frame_def Let_def)
qed

theorem completion_once_nested_witness:
  "frame_reach frame_demo \<and> set (fs_log frame_demo) = {..<2} \<and> fst (retainToken 0 frame_demo) = False"
  using completion_once_nested [OF frame_demo_reach] frame_demo_reach by (simp add: frame_demo_def)

end
