(* ===== verification/HttpTypes.thy ===== *)
theory HttpTypes
  imports MessageContexts "HOL-Library.List_Lexorder"
begin

section \<open>HTTP headers, trace context and routing (runtime/detail/http_types.hpp, tracing.hpp, http/router.hpp)\<close>

text \<open>
  The header table of a request, the W3C trace context, and the two functions that carry a message context across
  HTTP: \<open>InjectContext\<close> writes it into headers, \<open>ContextFromHeaders\<close> reads it back. The last part is the table
  of routes. The clock and the counter behind \<open>NewStreamId\<close> are arguments; times are 64-bit nanosecond counts.
\<close>

subsection \<open>Trace context (environment/tracing/tracing.hpp)\<close>

definition hex :: "char \<Rightarrow> int" where
  "hex ch =
     (let n = (of_char ch :: int)
      in if 48 \<le> n \<and> n \<le> 57 then n - 48
         else if 97 \<le> n \<and> n \<le> 102 then n - 97 + 10
         else if 65 \<le> n \<and> n \<le> 70 then n - 65 + 10
         else -1)"

definition substr :: "nat \<Rightarrow> nat \<Rightarrow> string \<Rightarrow> string" where
  "substr pos n s = take n (drop pos s)"

definition nonzero :: "string \<Rightarrow> bool" where
  "nonzero s \<longleftrightarrow> list_ex (\<lambda>c. c \<noteq> CHR ''0'') s"

text \<open>The checks that both functions make: the layout, the hexadecimal digits, the version and the two identifiers.\<close>

definition trace_layout :: "string \<Rightarrow> bool" where
  "trace_layout v \<longleftrightarrow> length v = 55 \<and> v ! 2 = CHR ''-'' \<and> v ! 35 = CHR ''-'' \<and> v ! 52 = CHR ''-''"

definition trace_digits :: "string \<Rightarrow> bool" where
  "trace_digits v \<longleftrightarrow> list_all (\<lambda>i. i \<in> {2, 35, 52} \<or> 0 \<le> hex (v ! i)) [0..<length v]"

definition SampledTraceParent :: "string \<Rightarrow> bool" where
  "SampledTraceParent v =
     (if \<not> trace_layout v then False
      else if \<not> trace_digits v then False
      else if substr 0 2 v = ''ff'' then False
      else if \<not> nonzero (substr 3 32 v) \<or> \<not> nonzero (substr 36 16 v) then False
      else (hex (v ! 53) * 16 + hex (v ! 54)) mod 2 \<noteq> 0)"

definition ParseTraceParent :: "string \<Rightarrow> SpanContext option" where
  "ParseTraceParent v =
     (if \<not> trace_layout v then None
      else if \<not> trace_digits v then None
      else if substr 0 2 v = ''ff'' \<or> \<not> nonzero (substr 3 32 v) \<or> \<not> nonzero (substr 36 16 v) then None
      else Some \<lparr>sc_traceId = substr 3 32 v, sc_spanId = substr 36 16 v, sc_valid = True, sc_traceState = [], sc_baggage = []\<rparr>)"

subsection \<open>Headers\<close>

definition tolower :: "char \<Rightarrow> nat" where
  "tolower c = (let n = (of_char c :: nat) in if 65 \<le> n \<and> n \<le> 90 then n + 32 else n)"

fun CaseInsensitiveLess :: "string \<Rightarrow> string \<Rightarrow> bool" where
  "CaseInsensitiveLess left [] = False"
| "CaseInsensitiveLess [] (r # rs) = True"
| "CaseInsensitiveLess (l # ls) (r # rs) =
     (tolower l < tolower r \<or> (\<not> tolower r < tolower l \<and> CaseInsensitiveLess ls rs))"

definition same_name :: "string \<Rightarrow> string \<Rightarrow> bool" where
  "same_name a b \<longleftrightarrow> \<not> CaseInsensitiveLess a b \<and> \<not> CaseInsensitiveLess b a"

text \<open>A \<open>std::map\<close> with this comparison, in its order: \<open>m[name] = value\<close> keeps the spelling of an existing key.\<close>

type_synonym header_map = "(string \<times> string) list"

fun map_assign :: "string \<Rightarrow> string \<Rightarrow> header_map \<Rightarrow> header_map" where
  "map_assign name v [] = [(name, v)]"
| "map_assign name v ((k, w) # m) =
     (if CaseInsensitiveLess name k then (name, v) # (k, w) # m
      else if CaseInsensitiveLess k name then (k, w) # map_assign name v m
      else (k, v) # m)"

fun map_find :: "string \<Rightarrow> header_map \<Rightarrow> string option" where
  "map_find name [] = None"
| "map_find name ((k, w) # m) = (if same_name k name then Some w else map_find name m)"

fun map_erase :: "string \<Rightarrow> header_map \<Rightarrow> header_map" where
  "map_erase name [] = []"
| "map_erase name ((k, w) # m) = (if same_name k name then m else (k, w) # map_erase name m)"

record Headers =
  hd_values :: header_map
  hd_native :: "(string \<times> string) list option"
  hd_detached :: bool

definition no_Headers :: Headers where
  "no_Headers = \<lparr>hd_values = [], hd_native = None, hd_detached = False\<rparr>"

definition FromBeast :: "(string \<times> string) list \<Rightarrow> Headers" where
  "FromBeast flds = no_Headers\<lparr>hd_native := Some flds\<rparr>"

definition toMap :: "(string \<times> string) list \<Rightarrow> header_map" where
  "toMap flds = foldl (\<lambda>m (name, v). map_assign name v m) [] flds"

text \<open>The fields in use, unless a writer has detached.\<close>

definition native_fields :: "Headers \<Rightarrow> (string \<times> string) list option" where
  "native_fields h = (if hd_detached h then None else hd_native h)"

definition lookup :: "string \<Rightarrow> Headers \<Rightarrow> string option" where
  "lookup name h =
     (case native_fields h of
        None \<Rightarrow> map_find name (hd_values h)
      | Some flds \<Rightarrow> foldl (\<lambda>result (key, v). if same_name key name then Some v else result) None flds)"

definition headers_empty :: "Headers \<Rightarrow> bool" where
  "headers_empty h = (case native_fields h of Some flds \<Rightarrow> flds = [] | None \<Rightarrow> hd_values h = [])"

definition map_const :: "Headers \<Rightarrow> header_map" where
  "map_const h = (case native_fields h of None \<Rightarrow> hd_values h | Some flds \<Rightarrow> toMap flds)"

text \<open>The writable \<open>map()\<close>: the headers after detaching; their map is \<open>hd_values\<close>.\<close>

definition map_writable :: "Headers \<Rightarrow> Headers" where
  "map_writable h =
     (case native_fields h of
        None \<Rightarrow> h
      | Some flds \<Rightarrow> h\<lparr>hd_values := toMap flds, hd_detached := True\<rparr>)"

definition headers_size :: "Headers \<Rightarrow> nat" where
  "headers_size h = length (map_const h)"

definition contains :: "string \<Rightarrow> Headers \<Rightarrow> bool" where
  "contains name h \<longleftrightarrow> lookup name h \<noteq> None"

definition assign :: "string \<Rightarrow> string \<Rightarrow> Headers \<Rightarrow> Headers" where
  "assign name v h = (let h = map_writable h in h\<lparr>hd_values := map_assign name v (hd_values h)\<rparr>)"

definition erase :: "string \<Rightarrow> Headers \<Rightarrow> nat \<times> Headers" where
  "erase name h =
     (let h = map_writable h
      in if map_find name (hd_values h) = None then (0, h)
         else (1, h\<lparr>hd_values := map_erase name (hd_values h)\<rparr>))"

definition clear :: "Headers \<Rightarrow> Headers" where
  "clear h = no_Headers"

subsection \<open>Names\<close>

lemma less_iff: "CaseInsensitiveLess a b \<longleftrightarrow> map tolower a < map tolower b"
  by (induction a b rule: CaseInsensitiveLess.induct) auto

lemma same_name_iff: "same_name a b \<longleftrightarrow> map tolower a = map tolower b"
  by (auto simp: same_name_def less_iff)

definition map_ok :: "header_map \<Rightarrow> bool" where
  "map_ok m \<longleftrightarrow> sorted_wrt (<) (map (map tolower \<circ> fst) m)"

lemma map_assign_keys: "set (map (map tolower \<circ> fst) (map_assign n v m)) = insert (map tolower n) (set (map (map tolower \<circ> fst) m))"
  by (induction n v m rule: map_assign.induct) (auto simp: less_iff)

lemma map_assign_ok: "map_ok m \<Longrightarrow> map_ok (map_assign n v m)"
proof (induction n v m rule: map_assign.induct)
  case (2 n v k w m)
  have keys: "x \<in> set (map_assign n v m) \<Longrightarrow> map tolower (fst x) = map tolower n \<or> (\<exists>y \<in> set m. map tolower (fst x) = map tolower (fst y))" for x
    using map_assign_keys [of n v m] by (auto simp: set_eq_iff image_iff)
  show ?case
    using 2 keys by (fastforce simp: map_ok_def less_iff)
qed (simp add: map_ok_def)

lemma map_find_assign: "map_find x (map_assign n v m) = (if same_name n x then Some v else map_find x m)"
  by (induction n v m rule: map_assign.induct) (auto simp: same_name_iff less_iff)

lemma map_find_None: "map_find x m = None \<longleftrightarrow> (\<forall>e \<in> set m. \<not> same_name (fst e) x)"
  by (induction m) (auto split: if_splits)

lemma map_find_erase: "map_ok m \<Longrightarrow> map_find x (map_erase n m) = (if same_name n x then None else map_find x m)"
proof (induction m)
  case (Cons e m)
  obtain k w where e: "e = (k, w)" by (cases e)
  have "map_find x m = None" if "same_name k x"
    using Cons.prems that by (fastforce simp: map_find_None same_name_iff map_ok_def e)
  then show ?case using Cons e by (auto simp: same_name_iff map_ok_def)
qed simp

lemma toMap_snoc: "toMap (fs @ [(n, v)]) = map_assign n v (toMap fs)"
  by (simp add: toMap_def)

lemma toMap_ok: "map_ok (toMap fs)"
proof (induction fs rule: rev_induct)
  case (snoc e fs)
  then show ?case by (cases e) (simp add: toMap_snoc map_assign_ok)
qed (simp add: toMap_def map_ok_def)

lemma native_lookup: "foldl (\<lambda>result (key, v). if same_name key n then Some v else result) None fs = map_find n (toMap fs)"
proof (induction fs rule: rev_induct)
  case (snoc e fs)
  then show ?case by (cases e) (simp add: toMap_snoc map_find_assign)
qed (simp add: toMap_def)

lemma lookup_map: "lookup n h = map_find n (map_const h)"
  by (simp add: lookup_def map_const_def native_lookup split: option.split)

lemma map_writable_values: "native_fields (map_writable h) = None" "hd_values (map_writable h) = map_const h"
  by (auto simp: map_writable_def native_fields_def map_const_def split: option.splits if_splits)

lemma lookup_assign: "lookup x (assign n v h) = (if same_name n x then Some v else lookup x h)"
proof -
  have "native_fields (assign n v h) = None" "hd_values (assign n v h) = map_assign n v (map_const h)"
    using map_writable_values [of h] by (simp_all add: assign_def Let_def native_fields_def split: if_splits)
  then show ?thesis by (simp add: lookup_map map_const_def map_find_assign)
qed


text \<open>What the functions below rely on of a table of headers.\<close>

locale header_table =
  fixes look :: "string \<Rightarrow> 'h \<Rightarrow> string option" and put :: "string \<Rightarrow> string \<Rightarrow> 'h \<Rightarrow> 'h" and none :: 'h
  assumes look_none: "look x none = None"
    and look_put: "look x (put n v h) = (if same_name n x then Some v else look x h)"
begin

definition put_all :: "(string \<times> string option) list \<Rightarrow> 'h \<Rightarrow> 'h" where
  "put_all kvs h = fold (\<lambda>(n, v) h. case v of Some v \<Rightarrow> put n v h | None \<Rightarrow> h) kvs h"

lemma look_absent: "\<forall>(n, v) \<in> set kvs. \<not> same_name n x \<Longrightarrow> look x (put_all kvs h) = look x h"
  by (induction kvs arbitrary: h) (auto simp: put_all_def look_put split: option.split)

text \<open>With different names, each is found with its own value.\<close>

lemma look_put_all:
  assumes "distinct (map (map tolower \<circ> fst) kvs)" "(n, v) \<in> set kvs"
  shows "look n (put_all kvs none) = v"
proof -
  obtain pre post where kvs: "kvs = pre @ (n, v) # post" using assms(2) by (meson split_list)
  have other: "\<not> same_name m n" if "(m, w) \<in> set pre \<union> set post" for m w
  proof -
    have "map tolower n \<notin> (map tolower \<circ> fst) ` (set pre \<union> set post)" using assms(1) by (simp add: kvs image_Un)
    moreover have "(map tolower \<circ> fst) (m, w) \<in> (map tolower \<circ> fst) ` (set pre \<union> set post)" using that by (rule imageI)
    ultimately have "(map tolower \<circ> fst) (m, w) \<noteq> map tolower n" by metis
    then show ?thesis by (simp add: same_name_iff)
  qed
  have "look n (put_all pre none) = None" using other look_absent [of pre n none] by (auto simp: look_none)
  then have "look n (put_all (pre @ [(n, v)]) none) = v"
    by (auto simp: put_all_def look_put same_name_iff split: option.split)
  moreover have "put_all kvs none = put_all post (put_all (pre @ [(n, v)]) none)" by (simp add: kvs put_all_def)
  moreover have "\<forall>(m, w) \<in> set post. \<not> same_name m n" using other by auto
  ultimately show ?thesis by (simp add: look_absent)
qed

end

interpretation ht: header_table lookup assign no_Headers
  by unfold_locales (simp_all add: lookup_assign, simp add: lookup_def native_fields_def no_Headers_def)

subsection \<open>Contexts in headers\<close>

function to_hex :: "nat \<Rightarrow> string" where
  "to_hex n = (if n < 16 then [''0123456789abcdef'' ! n] else to_hex (n div 16) @ [''0123456789abcdef'' ! (n mod 16)])"
  by pat_completeness auto
termination
  by (relation "measure id") auto

declare to_hex.simps [simp del]

text \<open>\<open>NewStreamId\<close> from the clock and the value of the counter.\<close>

definition NewStreamId :: "u64 \<Rightarrow> u64 \<Rightarrow> string" where
  "NewStreamId now sequence = to_hex (unat now) @ ''-'' @ to_hex (unat sequence)"

text \<open>\<open>std::from_chars\<close> for an \<open>int64_t\<close> that has to take up the whole text.\<close>

definition parse_int64 :: "string \<Rightarrow> int option" where
  "parse_int64 s =
     (if s = ''-'' then None
      else case int_of_decimal s of
             Some i \<Rightarrow> if - (2 ^ 63) \<le> i \<and> i < 2 ^ 63 then Some i else None
           | None \<Rightarrow> None)"

text \<open>Nanosecond counts are 64-bit; the sum of the clock and a timeout in milliseconds is taken at that width.\<close>

definition nanoseconds :: "int \<Rightarrow> int" where
  "nanoseconds i = sint (word_of_int i :: 64 word)"

definition propagation :: "Headers \<Rightarrow> SpanContext" where
  "propagation h =
     (let p = (case lookup ''traceparent'' h of
                 Some parent \<Rightarrow> (case ParseTraceParent parent of Some trace \<Rightarrow> trace | None \<Rightarrow> no_SpanContext)
               | None \<Rightarrow> no_SpanContext);
          p = (case lookup ''tracestate'' h of Some s \<Rightarrow> p\<lparr>sc_traceState := s\<rparr> | None \<Rightarrow> p)
      in case lookup ''baggage'' h of Some b \<Rightarrow> p\<lparr>sc_baggage := b\<rparr> | None \<Rightarrow> p)"

definition ContextFromHeaders :: "int \<Rightarrow> string \<Rightarrow> Headers \<Rightarrow> bool \<Rightarrow> ContextState" where
  "ContextFromHeaders now newStreamId h tracingEnabled =
     (let context = new_ContextState;
          context = (case lookup ''x-stream-id'' h of
                       Some stream \<Rightarrow> withStreamId (if stream \<noteq> [] then stream else newStreamId) context
                     | None \<Rightarrow> withStreamId newStreamId context);
          context = (case lookup ''x-timeout-ms'' h of
                       Some timeout \<Rightarrow>
                         (case parse_int64 timeout of
                            Some milliseconds \<Rightarrow>
                              if milliseconds \<ge> 0
                              then withDeadline (Some (nanoseconds (now + milliseconds * 1000000))) context else context
                          | None \<Rightarrow> context)
                     | None \<Rightarrow> context)
      in if \<not> tracingEnabled then context
         else
           let context = (case lookup ''traceparent'' h of
                            Some parent \<Rightarrow>
                              if ParseTraceParent parent \<noteq> None \<and> SampledTraceParent parent
                              then withSampling True context else context
                          | None \<Rightarrow> context);
               p = propagation h;
               context = (if sc_valid p \<or> sc_traceState p \<noteq> [] \<or> sc_baggage p \<noteq> [] then withTrace p context else context)
           in case lookup ''x-trace'' h of
                Some marker \<Rightarrow> if marker \<noteq> [] then withSampling True context else context
              | None \<Rightarrow> context)"

definition InjectContext :: "int \<Rightarrow> ContextState \<Rightarrow> Headers \<Rightarrow> bool \<Rightarrow> Headers" where
  "InjectContext now context h tracingEnabled =
     (let h = (if cs_streamId context \<noteq> [] then assign ''x-stream-id'' (cs_streamId context) h else h);
          h = (case cs_deadline context of
                 Some deadline \<Rightarrow> assign ''x-timeout-ms'' (int_to_decimal (max (deadline - now) 0 div 1000000)) h
               | None \<Rightarrow> h);
          trace = cs_trace context
      in if \<not> tracingEnabled then h
         else
           let h = (if sc_valid trace
                    then let h = assign ''traceparent'' (''00-'' @ sc_traceId trace @ ''-'' @ sc_spanId trace
                                   @ (if cs_traceSamplingEnabled context then ''-01'' else ''-00'')) h
                         in if sc_traceState trace \<noteq> [] then assign ''tracestate'' (sc_traceState trace) h else h
                    else h);
               h = (if sc_baggage trace \<noteq> [] then assign ''baggage'' (sc_baggage trace) h else h)
           in if cs_traceSamplingEnabled context then assign ''x-trace'' ''1'' h else h)"

subsection \<open>Round trip of a context\<close>

definition trace_id_ok :: "nat \<Rightarrow> string \<Rightarrow> bool" where
  "trace_id_ok n s \<longleftrightarrow> length s = n \<and> list_all (\<lambda>c. 0 \<le> hex c) s \<and> nonzero s"

lemma trace_id_hex: "trace_id_ok n s \<Longrightarrow> i < n \<Longrightarrow> 0 \<le> hex (s ! i)"
  by (auto simp: trace_id_ok_def list_all_length)

lemma traceparent_parts:
  assumes "trace_id_ok 32 t" "trace_id_ok 16 s" "f \<in> {''-00'', ''-01''}"
  shows "trace_layout (''00-'' @ t @ ''-'' @ s @ f)" "trace_digits (''00-'' @ t @ ''-'' @ s @ f)"
    "substr 0 2 (''00-'' @ t @ ''-'' @ s @ f) = ''00''"
    "substr 3 32 (''00-'' @ t @ ''-'' @ s @ f) = t" "substr 36 16 (''00-'' @ t @ ''-'' @ s @ f) = s"
    "(''00-'' @ t @ ''-'' @ s @ f) ! 53 = CHR ''0''" "(''00-'' @ t @ ''-'' @ s @ f) ! 54 = f ! 2"
proof -
  define v where "v = ''00-'' @ t @ ''-'' @ s @ f"
  have len: "length t = 32" "length s = 16" "length f = 3" using assms by (auto simp: trace_id_ok_def)
  have n: "v ! i = (if i < 3 then ''00-'' ! i else if i < 35 then t ! (i - 3) else if i < 36 then CHR ''-''
      else if i < 52 then s ! (i - 36) else f ! (i - 52))" for i
  proof -
    obtain a m where am: "a = ''00-''" "m = ''-''" by simp
    then have "length a = 3" "length m = 1" by simp_all
    then have "(a @ t @ m @ s @ f) ! i = (if i < 3 then a ! i else if i < 35 then t ! (i - 3) else if i < 36 then m ! (i - 35)
        else if i < 52 then s ! (i - 36) else f ! (i - 52))"
      using len by (auto simp: nth_append)
    moreover have "m ! (i - 35) = CHR ''-''" if "i < 36" using that am by simp
    ultimately show ?thesis using am by (auto simp: v_def)
  qed
  have lv: "length v = 55" using len by (simp add: v_def)
  then show "trace_layout (''00-'' @ t @ ''-'' @ s @ f)" unfolding v_def [symmetric] using assms(3) by (auto simp: trace_layout_def n)
  have "i \<in> {2, 35, 52} \<or> 0 \<le> hex (v ! i)" if i: "i < 55" for i
  proof (cases "i < 3 \<or> 52 \<le> i")
    case True
    then have "i \<in> {0, 1, 2, 52, 53, 54}" using i by auto
    then show ?thesis using assms(3) by (auto simp: n hex_def)
  next
    case False
    then show ?thesis using n [of i] trace_id_hex [OF assms(1), of "i - 3"] trace_id_hex [OF assms(2), of "i - 36"] i by auto
  qed
  then show "trace_digits (''00-'' @ t @ ''-'' @ s @ f)" unfolding v_def [symmetric] using lv by (simp add: trace_digits_def list_all_iff)
  show "substr 0 2 (''00-'' @ t @ ''-'' @ s @ f) = ''00''" by (simp add: substr_def)
  show "substr 3 32 (''00-'' @ t @ ''-'' @ s @ f) = t" "substr 36 16 (''00-'' @ t @ ''-'' @ s @ f) = s" using len by (simp_all add: substr_def)
  show "(''00-'' @ t @ ''-'' @ s @ f) ! 53 = CHR ''0''" "(''00-'' @ t @ ''-'' @ s @ f) ! 54 = f ! 2"
    unfolding v_def [symmetric] using assms(3) by (auto simp: n)
qed

lemma traceparent_parses:
  assumes "trace_id_ok 32 t" "trace_id_ok 16 s" "f \<in> {''-00'', ''-01''}"
  shows "ParseTraceParent (''00-'' @ t @ ''-'' @ s @ f)
       = Some \<lparr>sc_traceId = t, sc_spanId = s, sc_valid = True, sc_traceState = [], sc_baggage = []\<rparr>"
    and "SampledTraceParent (''00-'' @ t @ ''-'' @ s @ f) \<longleftrightarrow> f = ''-01''"
proof -
  define v where "v = ''00-'' @ t @ ''-'' @ s @ f"
  note p = traceparent_parts [OF assms, folded v_def]
  have nz: "nonzero t" "nonzero s" using assms by (simp_all add: trace_id_ok_def)
  show "ParseTraceParent (''00-'' @ t @ ''-'' @ s @ f)
       = Some \<lparr>sc_traceId = t, sc_spanId = s, sc_valid = True, sc_traceState = [], sc_baggage = []\<rparr>"
    unfolding v_def [symmetric] using p nz by (simp add: ParseTraceParent_def)
  show "SampledTraceParent (''00-'' @ t @ ''-'' @ s @ f) \<longleftrightarrow> f = ''-01''"
    unfolding v_def [symmetric] using p nz assms(3) by (auto simp: SampledTraceParent_def hex_def)
qed

definition context_headers :: "int \<Rightarrow> ContextState \<Rightarrow> (string \<times> string option) list" where
  "context_headers now c =
     [(''x-stream-id'', if cs_streamId c \<noteq> [] then Some (cs_streamId c) else None),
      (''x-timeout-ms'', map_option (\<lambda>d. int_to_decimal (max (d - now) 0 div 1000000)) (cs_deadline c)),
      (''traceparent'', if sc_valid (cs_trace c)
         then Some (''00-'' @ sc_traceId (cs_trace c) @ ''-'' @ sc_spanId (cs_trace c)
                     @ (if cs_traceSamplingEnabled c then ''-01'' else ''-00'')) else None),
      (''tracestate'', if sc_valid (cs_trace c) \<and> sc_traceState (cs_trace c) \<noteq> [] then Some (sc_traceState (cs_trace c)) else None),
      (''baggage'', if sc_baggage (cs_trace c) \<noteq> [] then Some (sc_baggage (cs_trace c)) else None),
      (''x-trace'', if cs_traceSamplingEnabled c then Some ''1'' else None)]"

lemma inject_headers: "InjectContext now c no_Headers True = ht.put_all (context_headers now c) no_Headers"
  by (simp add: InjectContext_def context_headers_def ht.put_all_def Let_def split: option.split)

lemma context_headers_distinct: "distinct (map (map tolower \<circ> fst) (context_headers now c))"
  by (simp add: context_headers_def tolower_def)

lemma injected: "(n, v) \<in> set (context_headers now c) \<Longrightarrow> lookup n (InjectContext now c no_Headers True) = v"
  unfolding inject_headers by (rule ht.look_put_all [OF context_headers_distinct])

lemma injected_lookups:
  "lookup ''x-stream-id'' (InjectContext now c no_Headers True) = (if cs_streamId c \<noteq> [] then Some (cs_streamId c) else None)"
  "lookup ''x-timeout-ms'' (InjectContext now c no_Headers True)
     = map_option (\<lambda>d. int_to_decimal (max (d - now) 0 div 1000000)) (cs_deadline c)"
  "lookup ''traceparent'' (InjectContext now c no_Headers True) = (if sc_valid (cs_trace c)
     then Some (''00-'' @ sc_traceId (cs_trace c) @ ''-'' @ sc_spanId (cs_trace c)
       @ (if cs_traceSamplingEnabled c then ''-01'' else ''-00'')) else None)"
  "lookup ''tracestate'' (InjectContext now c no_Headers True)
     = (if sc_valid (cs_trace c) \<and> sc_traceState (cs_trace c) \<noteq> [] then Some (sc_traceState (cs_trace c)) else None)"
  "lookup ''baggage'' (InjectContext now c no_Headers True)
     = (if sc_baggage (cs_trace c) \<noteq> [] then Some (sc_baggage (cs_trace c)) else None)"
  "lookup ''x-trace'' (InjectContext now c no_Headers True) = (if cs_traceSamplingEnabled c then Some ''1'' else None)"
  by (rule injected, simp add: context_headers_def)+

lemma nanoseconds_small: "- (2 ^ 63) \<le> i \<Longrightarrow> i < 2 ^ 63 \<Longrightarrow> nanoseconds i = i"
  by (simp add: nanoseconds_def int_word_sint)

lemma parse_int64_decimal:
  assumes "0 \<le> i" "i < 2 ^ 63"
  shows "parse_int64 (int_to_decimal i) = Some i"
proof -
  obtain c cs where "to_decimal (nat i) = c # cs" "c \<noteq> CHR ''-''" using to_decimal_head by blast
  then have "int_to_decimal i \<noteq> ''-''" using assms(1) by (simp add: int_to_decimal_def)
  then show ?thesis using assms by (simp add: parse_int64_def)
qed

definition wire_context :: "ContextState \<Rightarrow> bool" where
  "wire_context c \<longleftrightarrow> cs_streamId c \<noteq> []
     \<and> (if sc_valid (cs_trace c) then trace_id_ok 32 (sc_traceId (cs_trace c)) \<and> trace_id_ok 16 (sc_spanId (cs_trace c))
        else sc_traceId (cs_trace c) = [] \<and> sc_spanId (cs_trace c) = [] \<and> sc_traceState (cs_trace c) = [])"

lemma propagated:
  assumes "wire_context c"
  shows "propagation (InjectContext now c no_Headers True) = cs_trace c"
proof (cases "sc_valid (cs_trace c)")
  case True
  then have "trace_id_ok 32 (sc_traceId (cs_trace c))" "trace_id_ok 16 (sc_spanId (cs_trace c))"
    using assms by (simp_all add: wire_context_def)
  note t = traceparent_parses(1) [OF this]
  show ?thesis using True t by (cases "cs_traceSamplingEnabled c") (simp_all add: propagation_def injected_lookups Let_def)
next
  case False
  then show ?thesis using assms by (simp add: propagation_def injected_lookups Let_def no_SpanContext_def wire_context_def)
qed

lemma sampled:
  assumes "wire_context c" "sc_valid (cs_trace c)"
  shows "(let p = ''00-'' @ sc_traceId (cs_trace c) @ ''-'' @ sc_spanId (cs_trace c)
            @ (if cs_traceSamplingEnabled c then ''-01'' else ''-00'')
          in ParseTraceParent p \<noteq> None \<and> SampledTraceParent p) = cs_traceSamplingEnabled c"
proof -
  have "trace_id_ok 32 (sc_traceId (cs_trace c))" "trace_id_ok 16 (sc_spanId (cs_trace c))"
    using assms by (simp_all add: wire_context_def)
  note t = traceparent_parses [OF this]
  show ?thesis using t [of "''-01''"] t [of "''-00''"] by (cases "cs_traceSamplingEnabled c") (simp_all add: Let_def)
qed


lemma deadline_restored:
  assumes "0 \<le> now'" "now' + max (d - now) 0 < 2 ^ 63"
  shows "parse_int64 (int_to_decimal (max (d - now) 0 div 1000000)) = Some (max (d - now) 0 div 1000000)"
    "nanoseconds (now' + max (d - now) 0 div 1000000 * 1000000) = now' + max (d - now) 0 div 1000000 * 1000000"
proof -
  have a: "max (d - now) 0 div 1000000 * 1000000 \<le> max (d - now) 0" by simp
  have b: "0 \<le> max (d - now) 0 div 1000000" by simp
  show "parse_int64 (int_to_decimal (max (d - now) 0 div 1000000)) = Some (max (d - now) 0 div 1000000)"
    using a b assms by (intro parse_int64_decimal) linarith+
  show "nanoseconds (now' + max (d - now) 0 div 1000000 * 1000000) = now' + max (d - now) 0 div 1000000 * 1000000"
    using a b assms by (intro nanoseconds_small) linarith+
qed

text \<open>C24. A context written into empty headers and read back keeps its stream identifier, its trace with state and baggage,
  and whether it is sampled; its deadline is the remaining time, rounded down to milliseconds, from the clock of the
  reader. Everything else (priority, cancellation, local values, completion) does not cross the wire. The identifiers
  of a valid trace are hexadecimal of the right length and not all zero, and times stay in range.\<close>

theorem http_context_round_trip:
  assumes "wire_context c" "0 \<le> now'" "\<forall>d. cs_deadline c = Some d \<longrightarrow> now' + max (d - now) 0 < 2 ^ 63"
  shows "ContextFromHeaders now' newId (InjectContext now c no_Headers True) True =
    new_ContextState\<lparr>cs_streamId := cs_streamId c,
      cs_deadline := map_option (\<lambda>d. now' + max (d - now) 0 div 1000000 * 1000000) (cs_deadline c),
      cs_traceSamplingEnabled := cs_traceSamplingEnabled c, cs_trace := cs_trace c\<rparr>"
proof -
  define h where "h = InjectContext now c no_Headers True"
  define base where "base = new_ContextState\<lparr>cs_streamId := cs_streamId c,
      cs_deadline := map_option (\<lambda>d. now' + max (d - now) 0 div 1000000 * 1000000) (cs_deadline c)\<rparr>"
  have id: "cs_streamId c \<noteq> []" using assms(1) by (simp add: wire_context_def)
  note look = injected_lookups [of now c, folded h_def]
  have pre: "(case lookup ''x-timeout-ms'' h of
               Some timeout \<Rightarrow> (case parse_int64 timeout of
                  Some ms \<Rightarrow> if ms \<ge> 0 then withDeadline (Some (nanoseconds (now' + ms * 1000000)))
                     (withStreamId (cs_streamId c) new_ContextState) else withStreamId (cs_streamId c) new_ContextState
                | None \<Rightarrow> withStreamId (cs_streamId c) new_ContextState)
             | None \<Rightarrow> withStreamId (cs_streamId c) new_ContextState) = base"
  proof (cases "cs_deadline c")
    case None
    then show ?thesis by (simp add: look(2) base_def withStreamId_def new_ContextState_def)
  next
    case (Some d)
    then have "now' + max (d - now) 0 < 2 ^ 63" using assms(3) by simp
    note r = deadline_restored [OF assms(2) this]
    show ?thesis using r
      by (simp add: look(2) base_def Some withDeadline_def withStreamId_def new_ContextState_def)
  qed
  have prg: "propagation h = cs_trace c" using propagated [OF assms(1)] by (simp add: h_def)
  have sam: "(case lookup ''traceparent'' h of
        Some parent \<Rightarrow> if ParseTraceParent parent \<noteq> None \<and> SampledTraceParent parent then withSampling True base else base
      | None \<Rightarrow> base) = (if sc_valid (cs_trace c) \<and> cs_traceSamplingEnabled c then withSampling True base else base)"
    using sampled [OF assms(1)] by (cases "sc_valid (cs_trace c)") (simp_all add: look(3) Let_def)
  have tr: "\<not> (sc_valid (cs_trace c) \<or> sc_traceState (cs_trace c) \<noteq> [] \<or> sc_baggage (cs_trace c) \<noteq> []) \<Longrightarrow> cs_trace c = no_SpanContext"
    using assms(1) by (simp add: wire_context_def no_SpanContext_def)
  have "ContextFromHeaders now' newId h True =
     (let context = (if sc_valid (cs_trace c) \<and> cs_traceSamplingEnabled c then withSampling True base else base);
          context = (if sc_valid (cs_trace c) \<or> sc_traceState (cs_trace c) \<noteq> [] \<or> sc_baggage (cs_trace c) \<noteq> []
                     then withTrace (cs_trace c) context else context)
      in if cs_traceSamplingEnabled c then withSampling True context else context)"
    using id sam pre by (simp only: ContextFromHeaders_def Let_def prg look(1) look(6) option.simps if_True if_False not_True_eq_False simp_thms) simp
  then show ?thesis
    using tr unfolding h_def [symmetric]
    by (auto simp: base_def withSampling_def withTrace_def new_ContextState_def Let_def)
qed

theorem http_context_round_trip_witness:
  "\<exists>c. wire_context c \<and> cs_deadline c = Some 5000000000 \<and> sc_valid (cs_trace c)
     \<and> cs_deadline (ContextFromHeaders 2000000000 [] (InjectContext 1000000500 c no_Headers True) True) = Some 5999000000
     \<and> cs_trace (ContextFromHeaders 2000000000 [] (InjectContext 1000000500 c no_Headers True) True) = cs_trace c"
proof -
  define c where "c = new_ContextState\<lparr>cs_streamId := ''s1'', cs_deadline := Some 5000000000,
    cs_trace := \<lparr>sc_traceId = replicate 32 (CHR ''a''), sc_spanId = replicate 16 (CHR ''b''), sc_valid = True,
      sc_traceState = ''k=v'', sc_baggage = []\<rparr>\<rparr>"
  have w: "wire_context c"
    by (simp add: c_def wire_context_def trace_id_ok_def nonzero_def hex_def list_all_iff list_ex_iff)
  have "ContextFromHeaders 2000000000 [] (InjectContext 1000000500 c no_Headers True) True =
    new_ContextState\<lparr>cs_streamId := cs_streamId c,
      cs_deadline := map_option (\<lambda>d. 2000000000 + max (d - 1000000500) 0 div 1000000 * 1000000) (cs_deadline c),
      cs_traceSamplingEnabled := cs_traceSamplingEnabled c, cs_trace := cs_trace c\<rparr>"
    by (rule http_context_round_trip [OF w]) (simp_all add: c_def)
  then show ?thesis using w by (intro exI [of _ c]) (simp add: c_def)
qed

lemma map_erase_subset: "set (map_erase n m) \<subseteq> set m"
  by (induction m) (auto split: if_splits)

lemma map_erase_ok: "map_ok m \<Longrightarrow> map_ok (map_erase n m)"
proof (induction m)
  case (Cons e m)
  then show ?case using map_erase_subset [of n m] by (cases e) (auto simp: map_ok_def)
qed (simp add: map_ok_def)

text \<open>C35. Whether the headers are the fields a server received or a table that was written to, looking up a name, in any
  spelling, gives what the table has: of repeated fields the last value counts. An assignment or a removal changes the
  lookups of that name and no other, and makes the table that iteration sees.\<close>

theorem headers_refine_table:
  assumes "map_ok (hd_values h)"
  shows "lookup x h = map_find x (map_const h)
    \<and> lookup x (assign n v h) = (if same_name n x then Some v else lookup x h)
    \<and> lookup x (snd (erase n h)) = (if same_name n x then None else lookup x h)
    \<and> fst (erase n h) = (if contains n h then 1 else 0)
    \<and> map_ok (map_const h) \<and> map_ok (hd_values (assign n v h)) \<and> map_ok (hd_values (snd (erase n h)))"
proof -
  have ok: "map_ok (map_const h)"
    using assms toMap_ok by (simp add: map_const_def split: option.split)
  have w: "native_fields (map_writable h) = None" "hd_values (map_writable h) = map_const h"
    by (rule map_writable_values)+
  have upd: "native_fields (map_writable h\<lparr>hd_values := m\<rparr>) = None" for m
    using w(1) by (simp add: native_fields_def split: if_splits)
  have e: "map_const (snd (erase n h)) = (if map_find n (map_const h) = None then map_const h else map_erase n (map_const h))"
    using w upd by (simp add: erase_def Let_def map_const_def)
  have "lookup x (snd (erase n h)) = (if same_name n x then None else lookup x h)"
  proof (cases "map_find n (map_const h) = None")
    case True
    then have "same_name n x \<Longrightarrow> map_find x (map_const h) = None" by (simp add: map_find_None same_name_iff)
    then show ?thesis using True e by (simp add: lookup_map)
  next
    case False
    then show ?thesis using e map_find_erase [OF ok] by (auto simp: lookup_map)
  qed
  moreover have "fst (erase n h) = (if contains n h then 1 else 0)" using w by (simp add: erase_def Let_def contains_def lookup_map)
  moreover have "map_ok (hd_values (snd (erase n h)))" using ok w map_erase_ok [OF ok] by (simp add: erase_def Let_def)
  moreover have "map_ok (hd_values (assign n v h))" using w map_assign_ok [OF ok] by (simp add: assign_def Let_def)
  ultimately show ?thesis using ok by (simp add: lookup_map lookup_assign [unfolded lookup_map])
qed

theorem headers_refine_table_witness:
  "lookup ''HOST'' (assign ''X-A'' ''1'' (FromBeast [(''Host'', ''a''), (''host'', ''b'')])) = Some ''b''"
proof -
  have "map_ok (hd_values (FromBeast [(''Host'', ''a''), (''host'', ''b'')]))"
    by (simp add: FromBeast_def no_Headers_def map_ok_def)
  note h = headers_refine_table [OF this, of "''HOST''" "''X-A''" "''1''"]
  have "\<not> same_name ''X-A'' ''HOST''" by (simp add: same_name_iff)
  moreover have "map_find ''HOST'' (map_const (FromBeast [(''Host'', ''a''), (''host'', ''b'')])) = Some ''b''"
    by (simp add: FromBeast_def no_Headers_def map_const_def native_fields_def toMap_def same_name_iff less_iff tolower_def)
  ultimately show ?thesis using h by simp
qed


text \<open>A timeout whose nanoseconds do not fit wraps round: the largest one gives a deadline in the past.\<close>

lemma huge_timeout_expired:
  assumes "0 \<le> now" "now < 2 ^ 62" "lookup ''x-timeout-ms'' h = Some ''9223372036854775807''"
  shows "cs_deadline (ContextFromHeaders now newId h False) = Some (now - 1000000)"
proof -
  have p: "parse_int64 ''9223372036854775807'' = Some 9223372036854775807"
    by (simp add: parse_int64_def int_of_decimal_def digit_value_def)
  have "(now + 9223372036854775807 * 1000000 + 2 ^ 63) mod 2 ^ 64 = (now - 1000000 + 2 ^ 63 + 2 ^ 64 * 500000) mod (2 ^ 64 :: int)"
    by simp
  also have "\<dots> = (now - 1000000 + 2 ^ 63) mod 2 ^ 64" by (rule mod_mult_self2)
  also have "\<dots> = now - 1000000 + 2 ^ 63" using assms(1,2) by (intro mod_pos_pos_trivial) simp_all
  finally have "nanoseconds (now + 9223372036854775807 * 1000000) = now - 1000000"
    unfolding nanoseconds_def int_word_sint by simp
  then show ?thesis using p by (simp add: ContextFromHeaders_def assms(3) withDeadline_def Let_def split: option.split)
qed

subsection \<open>Stream identifiers\<close>

lemma to_hex_digits: "c \<in> set (to_hex n) \<Longrightarrow> c \<noteq> CHR ''-''"
proof (induction n rule: to_hex.induct)
  case (1 n)
  have digit: "''0123456789abcdef'' ! d \<noteq> CHR ''-''" if "d < 16" for d
  proof -
    have "''0123456789abcdef'' ! d \<in> set ''0123456789abcdef''" using that by (intro nth_mem) simp
    then show ?thesis by auto
  qed
  show ?case
    using 1 digit [of n] digit [of "n mod 16"] by (subst (asm) to_hex.simps) (auto split: if_splits)
qed

definition hex_number :: "string \<Rightarrow> nat" where
  "hex_number s = foldl (\<lambda>acc c. acc * 16 + nat (hex c)) 0 s"

lemma hex_digit: "d < 16 \<Longrightarrow> nat (hex (''0123456789abcdef'' ! d)) = d"
proof -
  assume "d < 16"
  then have "d \<in> set [0..<16]" by simp
  then show ?thesis by (auto simp: upt_rec hex_def)
qed

lemma hex_number_to_hex: "hex_number (to_hex n) = n"
proof (induction n rule: to_hex.induct)
  case (1 n)
  then show ?case by (subst to_hex.simps) (simp add: hex_number_def hex_digit)
qed

text \<open>Two identifiers are the same only for the same clock value and the same count.\<close>

lemma NewStreamId_inject: "NewStreamId now sequence = NewStreamId now' sequence' \<longleftrightarrow> now = now' \<and> sequence = sequence'"
proof
  assume eq: "NewStreamId now sequence = NewStreamId now' sequence'"
  have cut: "takeWhile (\<lambda>c. c \<noteq> CHR ''-'') (NewStreamId a b) = to_hex (unat a)"
    "tl (dropWhile (\<lambda>c. c \<noteq> CHR ''-'') (NewStreamId a b)) = to_hex (unat b)" for a b
    using to_hex_digits [of _ "unat a"] by (auto simp: NewStreamId_def takeWhile_append dropWhile_append)
  have "to_hex (unat now) = to_hex (unat now')" "to_hex (unat sequence) = to_hex (unat sequence')" using cut eq by metis+
  then have "unat now = unat now'" "unat sequence = unat sequence'" using hex_number_to_hex by metis+
  then show "now = now' \<and> sequence = sequence'" by (simp add: word_unat_eq_iff)
qed simp

subsection \<open>Routes (datasource/http/router.hpp)\<close>

datatype router_error =
    RouteArgumentsRequired
  | HandlerRequired
  | RouterFrozen
  | DuplicateRoute string string

text \<open>A handler is a number; what it answers is outside the router. \<open>Dispatch\<close> gives the handler to run or the
  response of the router itself.\<close>

record Route =
  ro_handler :: nat
  ro_observeDisconnect :: bool
  ro_sharedHandler :: bool

record Router =
  rt_routes :: "(string, (string, Route) fmap) fmap"
  rt_frozen :: bool

definition new_Router :: Router where
  "new_Router = \<lparr>rt_routes = fmempty, rt_frozen = False\<rparr>"

datatype dispatched = RunHandler nat | Respond int string bool

definition methodRoutes :: "string \<Rightarrow> Router \<Rightarrow> (string, Route) fmap" where
  "methodRoutes meth r = (case fmlookup (rt_routes r) meth of Some m \<Rightarrow> m | None \<Rightarrow> fmempty)"

definition route_path :: "string \<Rightarrow> string" where
  "route_path path = (if hd path \<noteq> CHR ''/'' then CHR ''/'' # path else path)"

definition AddRoute ::
  "string \<Rightarrow> string \<Rightarrow> nat option \<Rightarrow> bool \<Rightarrow> bool \<Rightarrow> Router \<Rightarrow> (router_error, unit) result \<times> Router"
where
  "AddRoute meth path handler observeDisconnect sharedHandler r =
     (if meth = [] \<or> path = [] \<or> handler = None then (Inl RouteArgumentsRequired, r)
      else if rt_frozen r then (Inl RouterFrozen, r)
      else let path = route_path path;
               routes = methodRoutes meth r;
               r' = r\<lparr>rt_routes := fmupd meth routes (rt_routes r)\<rparr>
           in if fmlookup routes path \<noteq> None then (Inl (DuplicateRoute meth path), r')
              else (Inr (), r\<lparr>rt_routes := fmupd meth
                     (fmupd path \<lparr>ro_handler = the handler, ro_observeDisconnect = observeDisconnect, ro_sharedHandler = sharedHandler\<rparr> routes)
                     (rt_routes r)\<rparr>))"

definition Add :: "string \<Rightarrow> string \<Rightarrow> nat option \<Rightarrow> Router \<Rightarrow> (router_error, unit) result \<times> Router" where
  "Add meth path handler r = AddRoute meth path handler True False r"

definition AddShared :: "string \<Rightarrow> string \<Rightarrow> nat option \<Rightarrow> Router \<Rightarrow> (router_error, unit) result \<times> Router" where
  "AddShared meth path handler r = AddRoute meth path handler True True r"

definition AddSync :: "string \<Rightarrow> string \<Rightarrow> nat option \<Rightarrow> Router \<Rightarrow> (router_error, unit) result \<times> Router" where
  "AddSync meth path handler r =
     (if handler = None then (Inl HandlerRequired, r) else AddRoute meth path handler False False r)"

definition Freeze :: "Router \<Rightarrow> Router" where
  "Freeze r = r\<lparr>rt_frozen := True\<rparr>"

definition find_route :: "string \<Rightarrow> string \<Rightarrow> Router \<Rightarrow> Route option" where
  "find_route meth path r =
     (case fmlookup (rt_routes r) meth of Some routes \<Rightarrow> fmlookup routes path | None \<Rightarrow> None)"

definition RequiresDisconnectObservation :: "string \<Rightarrow> string \<Rightarrow> Router \<Rightarrow> bool" where
  "RequiresDisconnectObservation meth path r =
     (case find_route meth path r of Some route \<Rightarrow> ro_observeDisconnect route | None \<Rightarrow> False)"

definition pathExists :: "string \<Rightarrow> Router \<Rightarrow> bool" where
  "pathExists path r = fBex (fmdom (rt_routes r)) (\<lambda>meth. fmlookup (methodRoutes meth r) path \<noteq> None)"

definition Dispatch :: "string \<Rightarrow> string \<Rightarrow> bool \<Rightarrow> Router \<Rightarrow> dispatched" where
  "Dispatch meth path keepAlive r =
     (case find_route meth path r of
        Some route \<Rightarrow> RunHandler (ro_handler route)
      | None \<Rightarrow>
          if pathExists path r then Respond 405 (''method not allowed'' @ [char_of (10 :: nat)]) keepAlive
          else Respond 404 (''not found'' @ [char_of (10 :: nat)]) keepAlive)"


datatype route_op = AddOp string string "nat option" | AddSharedOp string string "nat option" | AddSyncOp string string "nat option" | FreezeOp

fun route_step :: "route_op \<Rightarrow> Router \<Rightarrow> Router" where
  "route_step (AddOp m p h) r = snd (Add m p h r)"
| "route_step (AddSharedOp m p h) r = snd (AddShared m p h r)"
| "route_step (AddSyncOp m p h) r = snd (AddSync m p h r)"
| "route_step FreezeOp r = Freeze r"

text \<open>The registrations that count, with the normalised path and whether the connection is observed.\<close>

definition registration :: "string \<Rightarrow> string \<Rightarrow> nat option \<Rightarrow> bool \<Rightarrow> (string \<times> string \<times> nat \<times> bool) list" where
  "registration m p h observe = (if m = [] \<or> p = [] \<or> h = None then [] else [(m, route_path p, the h, observe)])"

fun registrations :: "route_op list \<Rightarrow> (string \<times> string \<times> nat \<times> bool) list" where
  "registrations [] = []"
| "registrations (FreezeOp # ops) = []"
| "registrations (AddOp m p h # ops) = registration m p h True @ registrations ops"
| "registrations (AddSharedOp m p h # ops) = registration m p h True @ registrations ops"
| "registrations (AddSyncOp m p h # ops) = registration m p h False @ registrations ops"

lemma AddRoute_frozen: "rt_frozen (snd (AddRoute m p h d s r)) = rt_frozen r"
  by (simp add: AddRoute_def Let_def)

lemma AddRoute_find:
  "find_route meth path (snd (AddRoute m p h d s r)) =
     (case find_route meth path r of
        Some route \<Rightarrow> Some route
      | None \<Rightarrow> if \<not> rt_frozen r \<and> (meth, path, the h, d) \<in> set (registration m p h d)
                then Some \<lparr>ro_handler = the h, ro_observeDisconnect = d, ro_sharedHandler = s\<rparr> else None)"
  by (auto simp: AddRoute_def find_route_def methodRoutes_def registration_def Let_def split: option.splits)

lemma find_append: "List.find P (xs @ ys) = (case List.find P xs of Some x \<Rightarrow> Some x | None \<Rightarrow> List.find P ys)"
  by (induction xs) auto

lemma registrations_snoc:
  "registrations (ops @ [op]) = registrations ops @ (if FreezeOp \<in> set ops then [] else registrations [op])"
  by (induction ops rule: registrations.induct) auto

lemma routes_frozen: "rt_frozen (fold route_step ops r) \<longleftrightarrow> rt_frozen r \<or> FreezeOp \<in> set ops"
proof (induction ops arbitrary: r)
  case (Cons op ops)
  have "rt_frozen (route_step op r) \<longleftrightarrow> rt_frozen r \<or> op = FreezeOp"
    by (cases op) (simp_all add: Add_def AddShared_def AddSync_def AddRoute_frozen Freeze_def)
  then show ?case using Cons.IH by auto
qed simp

definition route_matches :: "string \<Rightarrow> string \<Rightarrow> string \<times> string \<times> nat \<times> bool \<Rightarrow> bool" where
  "route_matches meth path e \<longleftrightarrow> fst e = meth \<and> fst (snd e) = path"

definition route_view :: "Route \<Rightarrow> nat \<times> bool" where
  "route_view route = (ro_handler route, ro_observeDisconnect route)"

lemma AddRoute_view:
  "map_option route_view (find_route meth path (snd (AddRoute m p h d s r))) =
     (case find_route meth path r of
        Some route \<Rightarrow> Some (route_view route)
      | None \<Rightarrow> if rt_frozen r then None
                else map_option (\<lambda>e. snd (snd e)) (List.find (route_matches meth path) (registration m p h d)))"
proof (cases "find_route meth path r")
  case None
  then show ?thesis
    unfolding AddRoute_find None option.simps
    by (cases "m = [] \<or> p = [] \<or> h = None") (auto simp: registration_def route_matches_def route_view_def)
next
  case (Some route)
  then show ?thesis unfolding AddRoute_find by simp
qed

lemma step_find:
  "map_option route_view (find_route meth path (route_step op r)) =
     (case find_route meth path r of
        Some route \<Rightarrow> Some (route_view route)
      | None \<Rightarrow> if rt_frozen r then None
                else map_option (\<lambda>e. snd (snd e)) (List.find (route_matches meth path) (registrations [op])))"
proof (cases op)
  case (AddOp m p h)
  then show ?thesis by (simp only: route_step.simps registrations.simps append_Nil2 Add_def AddRoute_view)
next
  case (AddSharedOp m p h)
  then show ?thesis by (simp only: route_step.simps registrations.simps append_Nil2 AddShared_def AddRoute_view)
next
  case (AddSyncOp m p h)
  show ?thesis
  proof (cases "h = None")
    case True
    then show ?thesis using AddSyncOp by (simp add: AddSync_def registration_def split: option.split)
  next
    case False
    then show ?thesis using AddSyncOp by (simp only: route_step.simps registrations.simps append_Nil2 AddSync_def AddRoute_view if_False)
  qed
next
  case FreezeOp
  have "find_route meth path (Freeze r) = find_route meth path r" by (simp add: Freeze_def find_route_def)
  then show ?thesis using FreezeOp by (simp split: option.split)
qed

lemma routes_found:
  "map_option route_view (find_route meth path (fold route_step ops new_Router)) =
   map_option (\<lambda>e. snd (snd e)) (List.find (route_matches meth path) (registrations ops))"
proof (induction ops rule: rev_induct)
  case Nil
  then show ?case by (simp add: find_route_def new_Router_def)
next
  case (snoc op ops)
  let ?r = "fold route_step ops new_Router"
  have f: "rt_frozen ?r \<longleftrightarrow> FreezeOp \<in> set ops" using routes_frozen [of ops new_Router] by (simp add: new_Router_def)
  show ?case
  proof (cases "find_route meth path ?r")
    case None
    then have "List.find (route_matches meth path) (registrations ops) = None" using snoc by simp
    then show ?thesis using None f step_find [of meth path op ?r] by (simp add: registrations_snoc find_append)
  next
    case (Some route)
    then obtain e where e: "List.find (route_matches meth path) (registrations ops) = Some e" "route_view route = snd (snd e)"
      using snoc by (cases "List.find (route_matches meth path) (registrations ops)") simp_all
    then show ?thesis using Some step_find [of meth path op ?r] by (simp add: registrations_snoc find_append)
  qed
qed

lemma pathExists_iff: "pathExists path r \<longleftrightarrow> (\<exists>meth. find_route meth path r \<noteq> None)"
proof
  assume "pathExists path r"
  then obtain meth where "fmlookup (methodRoutes meth r) path \<noteq> None" unfolding pathExists_def by (elim fBexE)
  then show "\<exists>meth. find_route meth path r \<noteq> None"
    by (intro exI [of _ meth]) (auto simp: find_route_def methodRoutes_def split: option.splits)
next
  assume "\<exists>meth. find_route meth path r \<noteq> None"
  then obtain meth routes where m: "fmlookup (rt_routes r) meth = Some routes" "fmlookup routes path \<noteq> None"
    by (auto simp: find_route_def split: option.splits)
  then show "pathExists path r"
    unfolding pathExists_def by (intro fBexI [of _ meth]) (simp_all add: methodRoutes_def fmdomI)
qed

text \<open>C34. The answer of the router, after any sequence of registrations and freezes: the handler of the first registration
  before the first freeze with this method and this path (a missing leading slash is supplied); if there is none,
  status 405 when another method is registered for the path, and 404 otherwise. Refused registrations (missing
  arguments, duplicates, after the freeze) change no answer, and the connection is watched for the handlers that were
  not registered as synchronous.\<close>

theorem router_first_registration:
  "Dispatch meth path keepAlive (fold route_step ops new_Router) =
     (case List.find (route_matches meth path) (registrations ops) of
        Some e \<Rightarrow> RunHandler (fst (snd (snd e)))
      | None \<Rightarrow> if list_ex (\<lambda>e. fst (snd e) = path) (registrations ops)
                then Respond 405 (''method not allowed'' @ [char_of (10 :: nat)]) keepAlive
                else Respond 404 (''not found'' @ [char_of (10 :: nat)]) keepAlive)
   \<and> RequiresDisconnectObservation meth path (fold route_step ops new_Router) =
       (case List.find (route_matches meth path) (registrations ops) of Some e \<Rightarrow> snd (snd (snd e)) | None \<Rightarrow> False)"
proof -
  let ?r = "fold route_step ops new_Router"
  have "find_route m path ?r \<noteq> None \<longleftrightarrow> (\<exists>e \<in> set (registrations ops). fst e = m \<and> fst (snd e) = path)" for m
  proof -
    have "find_route m path ?r \<noteq> None \<longleftrightarrow> List.find (route_matches m path) (registrations ops) \<noteq> None"
      using routes_found [of m path ops] by (metis option.map_disc_iff)
    then show ?thesis by (force simp: find_None_iff route_matches_def)
  qed
  then have "pathExists path ?r \<longleftrightarrow> list_ex (\<lambda>e. fst (snd e) = path) (registrations ops)"
    by (auto simp: pathExists_iff list_ex_iff)
  moreover note routes_found [of meth path ops]
  ultimately show ?thesis
    by (cases "List.find (route_matches meth path) (registrations ops)"; cases "find_route meth path ?r")
      (auto simp: Dispatch_def RequiresDisconnectObservation_def route_view_def)
qed

end
