(* ===== verification/Callers.thy ===== *)
theory Callers
  imports ConfigRuntime MessageContexts
begin

section \<open>Callers of stream links (runtime/caller.hpp)\<close>

text \<open>
  Every link between two streams is served by one caller, which decides how the consumer is called: directly, through
  a task pool, through a priority task pool, or as a parallel task. \<open>makeCallerFromEnv\<close> chooses it from the
  configuration of the link, or from the default of the service, and fixes the names under which the link is reported.
  The environment keeps the callers in a table by the configuration ids of the two streams (\<open>prepareCaller\<close>,
  runtime/environment.hpp). Consumers are objects of the graph, denoted by their numbers.
\<close>

datatype stream_error =
    StreamException string
  | StreamRuntimeError string
  | StreamLogicError string
  | StreamInvalidArgument string

subsection \<open>The environment and the caller of a link\<close>

record environment_view =
  ev_runtimeConfig :: "RuntimeConfig option"
  ev_serviceConfig :: "ServiceConfig option"
  ev_taskPools :: "string list"
  ev_priorityTaskPools :: "string list"
  ev_metricsEnabled :: bool

datatype dispatch =
    DirectCaller bool
  | TaskPoolCaller string
  | PriorityTaskPoolCaller string int
  | ParallelCaller

record Caller =
  cl_dispatch :: dispatch
  cl_consumer :: nat
  cl_sourceName :: string
  cl_consumerName :: string
  cl_pipeline :: string
  cl_component :: string
  cl_metricsEnabled :: bool
  cl_statistics :: nat
  cl_messages :: nat

definition isAsync :: "Caller \<Rightarrow> bool" where
  "isAsync c = (case cl_dispatch c of DirectCaller async \<Rightarrow> async | _ \<Rightarrow> True)"

text \<open>The counter of the link and the exported metric; a metric that throws is ignored by the source.\<close>

definition recordMessage :: "Caller \<Rightarrow> Caller" where
  "recordMessage c =
     (let c = c\<lparr>cl_statistics := cl_statistics c + 1\<rparr>
      in if \<not> cl_metricsEnabled c then c else c\<lparr>cl_messages := cl_messages c + 1\<rparr>)"

text \<open>The semantics of the link if it has one, otherwise the default of the service; none without a configuration.\<close>

definition link_semantics :: "environment_view \<Rightarrow> LinkID \<Rightarrow> CallSemanticsGroup option" where
  "link_semantics env link =
     (case ev_runtimeConfig env of
        None \<Rightarrow> None
      | Some cfg \<Rightarrow>
          (case (case GetLink cfg (fst link) (snd link) of Some l \<Rightarrow> Link_callSemantics l | None \<Rightarrow> None) of
             Some semantics \<Rightarrow> Some semantics
           | None \<Rightarrow>
               (case ev_serviceConfig env of
                  Some service \<Rightarrow> Service_defaultCallSemantics service
                | None \<Rightarrow> None)))"

definition configured_stream :: "environment_view \<Rightarrow> int \<Rightarrow> StreamConfigRef option" where
  "configured_stream env i = (case ev_runtimeConfig env of Some cfg \<Rightarrow> GetStreamConfigByID cfg i | None \<Rightarrow> None)"

definition caller_params ::
  "environment_view \<Rightarrow> LinkID \<Rightarrow> string \<Rightarrow> string \<Rightarrow> string \<Rightarrow> nat \<Rightarrow> dispatch \<Rightarrow> Caller" where
  "caller_params env link producerName consumerName sourceNameOverride consumer d =
     (let sourceName = (case configured_stream env (fst link) of Some s \<Rightarrow> Stream_GetName s | None \<Rightarrow> producerName);
          sourceName = (if sourceNameOverride \<noteq> [] then sourceNameOverride else sourceName)
      in \<lparr>cl_dispatch = d, cl_consumer = consumer, cl_sourceName = sourceName,
          cl_consumerName = (case configured_stream env (snd link) of Some t \<Rightarrow> Stream_GetName t | None \<Rightarrow> consumerName),
          cl_pipeline = (case configured_stream env (snd link) of Some t \<Rightarrow> Stream_GetPipeline t | None \<Rightarrow> []),
          cl_component = (case configured_stream env (snd link) of Some t \<Rightarrow> Stream_GetComponent t | None \<Rightarrow> []),
          cl_metricsEnabled = ev_metricsEnabled env, cl_statistics = 0, cl_messages = 0\<rparr>)"

definition makeCallerFromEnv ::
  "environment_view \<Rightarrow> LinkID \<Rightarrow> string \<Rightarrow> string \<Rightarrow> string \<Rightarrow> nat \<Rightarrow> (stream_error, Caller) result" where
  "makeCallerFromEnv env link producerName consumerName sourceNameOverride consumer =
     (let make = caller_params env link producerName consumerName sourceNameOverride consumer
      in case link_semantics env link of
           None \<Rightarrow> Inr (make (DirectCaller False))
         | Some semantics \<Rightarrow>
             (case functionCall semantics of
                Some f \<Rightarrow> Inr (make (DirectCaller (FunctionCall_async f)))
              | None \<Rightarrow>
                  (case taskPool semantics of
                     Some p \<Rightarrow>
                       if TaskPool_poolName p \<in> set (ev_taskPools env) then Inr (make (TaskPoolCaller (TaskPool_poolName p)))
                       else Inl (StreamRuntimeError (''task pool not found: '' @ TaskPool_poolName p))
                   | None \<Rightarrow>
                       (case priorityTaskPool semantics of
                          Some p \<Rightarrow>
                            if PriorityTaskPool_poolName p \<in> set (ev_priorityTaskPools env)
                            then Inr (make (PriorityTaskPoolCaller (PriorityTaskPool_poolName p) (PriorityTaskPool_priority p)))
                            else Inl (StreamRuntimeError (''priority task pool not found: '' @ PriorityTaskPool_poolName p))
                        | None \<Rightarrow>
                            (case parallelCall semantics of
                               Some _ \<Rightarrow> Inr (make ParallelCaller)
                             | None \<Rightarrow> Inl (StreamRuntimeError ''unsupported call semantics''))))))"

subsection \<open>The table of callers (runtime/environment.hpp)\<close>

type_synonym callers = "(LinkID, Caller) fmap"

text \<open>\<open>prepareCaller\<close> between two objects with the given configuration ids: the caller that is registered for the
  link, whatever consumer it was registered with, or a new one.\<close>

definition prepareCaller ::
  "environment_view \<Rightarrow> LinkID \<Rightarrow> string \<Rightarrow> string \<Rightarrow> string \<Rightarrow> nat \<Rightarrow> callers \<Rightarrow> (stream_error, callers) result" where
  "prepareCaller env link producerName consumerName sourceNameOverride consumer callers =
     (if fst link = 0 \<or> snd link = 0
      then Inl (StreamException ''stream link has no config identity; every logical edge must use Caller'')
      else case fmlookup callers link of
             Some _ \<Rightarrow> Inr callers
           | None \<Rightarrow>
               bindR (makeCallerFromEnv env link producerName consumerName sourceNameOverride consumer)
                 (\<lambda>c. Inr (fmupd link c callers)))"

lemma caller_params_simps [simp]:
  "cl_consumer (caller_params env link p c s n d) = n" "cl_dispatch (caller_params env link p c s n d) = d"
  "cl_statistics (caller_params env link p c s n d) = 0" "cl_messages (caller_params env link p c s n d) = 0"
  by (simp_all add: caller_params_def Let_def)

lemma makeCallerFromEnv_consumer: "makeCallerFromEnv env link p c s n = Inr cl \<Longrightarrow> cl_consumer cl = n"
  by (auto simp: makeCallerFromEnv_def Let_def split: option.splits if_splits)

lemma prepareCaller_registers:
  assumes "prepareCaller env link p c s n callers = Inr callers'"
  shows "fst link \<noteq> 0 \<and> snd link \<noteq> 0"
    and "case fmlookup callers link of
           Some cl \<Rightarrow> callers' = callers
         | None \<Rightarrow> \<exists>cl. callers' = fmupd link cl callers \<and> cl_consumer cl = n"
  using assms by (auto simp: prepareCaller_def bindR_eq_Inr dest: makeCallerFromEnv_consumer split: if_splits option.splits)

text \<open>The semantics a dispatch stands for.\<close>

fun dispatch_semantics :: "dispatch \<Rightarrow> CallSemanticsGroup" where
  "dispatch_semantics (DirectCaller async) = no_semantics\<lparr>functionCall := Some \<lparr>FunctionCall_async = async\<rparr>\<rparr>"
| "dispatch_semantics (TaskPoolCaller name) = no_semantics\<lparr>taskPool := Some \<lparr>TaskPool_poolName = name\<rparr>\<rparr>"
| "dispatch_semantics (PriorityTaskPoolCaller name priority) =
     no_semantics\<lparr>priorityTaskPool := Some \<lparr>PriorityTaskPool_poolName = name, PriorityTaskPool_priority = priority\<rparr>\<rparr>"
| "dispatch_semantics ParallelCaller = no_semantics\<lparr>parallelCall := Some ParallelCallSemanticsConfig\<rparr>"

text \<open>A group that passes validation is the semantics of one dispatch.\<close>

lemma validated_dispatch:
  assumes "CallSemanticsGroup_Validate g = Inr ()"
  shows "\<exists>d. g = dispatch_semantics d"
proof -
  obtain f t q r where g: "g = \<lparr>functionCall = f, taskPool = t, priorityTaskPool = q, parallelCall = r\<rparr>" by (cases g) auto
  have n: "has_value f + has_value t + has_value q + has_value r = 1" using assms by (simp add: CallSemanticsGroup_Validate_iff g)
  have "g = dispatch_semantics (case f of Some a \<Rightarrow> DirectCaller (FunctionCall_async a)
      | None \<Rightarrow> (case t of Some a \<Rightarrow> TaskPoolCaller (TaskPool_poolName a)
         | None \<Rightarrow> (case q of Some a \<Rightarrow> PriorityTaskPoolCaller (PriorityTaskPool_poolName a) (PriorityTaskPool_priority a)
            | None \<Rightarrow> ParallelCaller)))"
    using n ParallelCallSemanticsConfig.exhaust [of "the r"]
    by (auto simp: g no_semantics_def has_value_def split: option.splits if_splits)
  then show ?thesis by blast
qed

fun pool_present :: "environment_view \<Rightarrow> dispatch \<Rightarrow> bool" where
  "pool_present env (TaskPoolCaller name) \<longleftrightarrow> name \<in> set (ev_taskPools env)"
| "pool_present env (PriorityTaskPoolCaller name priority) \<longleftrightarrow> name \<in> set (ev_priorityTaskPools env)"
| "pool_present env _ \<longleftrightarrow> True"

text \<open>The dispatches a group names, one for each member that is set, and the one that is used: a group may set several
  members, and they are asked for in the order of \<open>rank\<close>.\<close>

fun names :: "CallSemanticsGroup \<Rightarrow> dispatch \<Rightarrow> bool" where
  "names g (DirectCaller async) \<longleftrightarrow> functionCall g = Some \<lparr>FunctionCall_async = async\<rparr>"
| "names g (TaskPoolCaller name) \<longleftrightarrow> taskPool g = Some \<lparr>TaskPool_poolName = name\<rparr>"
| "names g (PriorityTaskPoolCaller name priority) \<longleftrightarrow>
     priorityTaskPool g = Some \<lparr>PriorityTaskPool_poolName = name, PriorityTaskPool_priority = priority\<rparr>"
| "names g ParallelCaller \<longleftrightarrow> parallelCall g \<noteq> None"

fun rank :: "dispatch \<Rightarrow> nat" where
  "rank (DirectCaller _) = 0"
| "rank (TaskPoolCaller _) = 1"
| "rank (PriorityTaskPoolCaller _ _) = 2"
| "rank ParallelCaller = 3"

definition chosen :: "CallSemanticsGroup \<Rightarrow> dispatch \<Rightarrow> bool" where
  "chosen g d \<longleftrightarrow> names g d \<and> (\<forall>d'. names g d' \<longrightarrow> rank d \<le> rank d')"

lemma chosen_least:
  assumes "chosen g d"
  shows "names g d" "names g d' \<Longrightarrow> rank d \<le> rank d'"
  using assms by (simp_all add: chosen_def)

lemma names_rank:
  "functionCall g = None \<Longrightarrow> names g d \<Longrightarrow> 1 \<le> rank d"
  "functionCall g = None \<Longrightarrow> taskPool g = None \<Longrightarrow> names g d \<Longrightarrow> 2 \<le> rank d"
  "functionCall g = None \<Longrightarrow> taskPool g = None \<Longrightarrow> priorityTaskPool g = None \<Longrightarrow> names g d \<Longrightarrow> 3 \<le> rank d"
  by (cases d; simp)+

lemma chosen_rank:
  assumes "chosen g d"
  shows "1 \<le> rank d \<Longrightarrow> functionCall g = None" "2 \<le> rank d \<Longrightarrow> taskPool g = None" "3 \<le> rank d \<Longrightarrow> priorityTaskPool g = None"
proof -
  show "functionCall g = None" if "1 \<le> rank d"
  proof (cases "functionCall g")
    case (Some x)
    then show ?thesis using chosen_least(2) [OF assms, of "DirectCaller (FunctionCall_async x)"] that by simp
  qed
  show "taskPool g = None" if "2 \<le> rank d"
  proof (cases "taskPool g")
    case (Some x)
    then show ?thesis using chosen_least(2) [OF assms, of "TaskPoolCaller (TaskPool_poolName x)"] that by simp
  qed
  show "priorityTaskPool g = None" if "3 \<le> rank d"
  proof (cases "priorityTaskPool g")
    case (Some x)
    then show ?thesis
      using chosen_least(2) [OF assms, of "PriorityTaskPoolCaller (PriorityTaskPool_poolName x) (PriorityTaskPool_priority x)"] that by simp
  qed
qed

lemma chosen_simps:
  "chosen g (DirectCaller async) \<longleftrightarrow> functionCall g = Some \<lparr>FunctionCall_async = async\<rparr>"
  "chosen g (TaskPoolCaller name) \<longleftrightarrow> functionCall g = None \<and> taskPool g = Some \<lparr>TaskPool_poolName = name\<rparr>"
  "chosen g (PriorityTaskPoolCaller name priority) \<longleftrightarrow> functionCall g = None \<and> taskPool g = None
     \<and> priorityTaskPool g = Some \<lparr>PriorityTaskPool_poolName = name, PriorityTaskPool_priority = priority\<rparr>"
  "chosen g ParallelCaller \<longleftrightarrow> functionCall g = None \<and> taskPool g = None \<and> priorityTaskPool g = None \<and> parallelCall g \<noteq> None"
proof -
  show "chosen g (DirectCaller async) \<longleftrightarrow> functionCall g = Some \<lparr>FunctionCall_async = async\<rparr>"
    by (simp add: chosen_def)
  show "chosen g (TaskPoolCaller name) \<longleftrightarrow> functionCall g = None \<and> taskPool g = Some \<lparr>TaskPool_poolName = name\<rparr>" (is "chosen g ?d \<longleftrightarrow> ?X")
  proof
    assume "chosen g ?d"
    then show ?X using chosen_rank [of g ?d] chosen_least(1) [of g ?d] by simp
  next
    assume ?X
    then show "chosen g ?d" unfolding chosen_def rank.simps using names_rank(1) by (simp only: names.simps) blast
  qed
  show "chosen g (PriorityTaskPoolCaller name priority) \<longleftrightarrow> functionCall g = None \<and> taskPool g = None
     \<and> priorityTaskPool g = Some \<lparr>PriorityTaskPool_poolName = name, PriorityTaskPool_priority = priority\<rparr>" (is "chosen g ?d \<longleftrightarrow> ?X")
  proof
    assume "chosen g ?d"
    then show ?X using chosen_rank [of g ?d] chosen_least(1) [of g ?d] by simp
  next
    assume ?X
    then show "chosen g ?d" unfolding chosen_def rank.simps using names_rank(2) by (simp only: names.simps) blast
  qed
  show "chosen g ParallelCaller \<longleftrightarrow> functionCall g = None \<and> taskPool g = None \<and> priorityTaskPool g = None \<and> parallelCall g \<noteq> None" (is "chosen g ?d \<longleftrightarrow> ?X")
  proof
    assume "chosen g ?d"
    then show ?X using chosen_rank [of g ?d] chosen_least(1) [of g ?d] by simp
  next
    assume ?X
    then show "chosen g ?d" unfolding chosen_def rank.simps using names_rank(3) by (simp only: names.simps) blast
  qed
qed

lemma chosen_semantics: "chosen (dispatch_semantics d) d' \<Longrightarrow> d' = d"
  by (cases d; cases d') (simp_all add: chosen_simps no_semantics_def)

lemma caller_of_semantics:
  assumes "link_semantics env link = Some g"
  shows "case makeCallerFromEnv env link producerName consumerName override n of
           Inr cl \<Rightarrow> cl_consumer cl = n \<and> chosen g (cl_dispatch cl) \<and> pool_present env (cl_dispatch cl)
         | Inl e \<Rightarrow> (\<exists>d msg. chosen g d \<and> \<not> pool_present env d \<and> e = StreamRuntimeError msg)
             \<or> g = no_semantics \<and> e = StreamRuntimeError ''unsupported call semantics''"
proof -
  obtain f t q r where g: "g = \<lparr>functionCall = f, taskPool = t, priorityTaskPool = q, parallelCall = r\<rparr>" by (cases g) auto
  consider (direct) x where "f = Some x" | (pool) x where "f = None" "t = Some x"
    | (priority) x where "f = None" "t = None" "q = Some x" | (rest) "f = None" "t = None" "q = None"
    by (cases f; cases t; cases q) auto
  then show ?thesis
  proof cases
    case (pool x)
    then have "chosen g (TaskPoolCaller (TaskPool_poolName x))" by (simp add: g chosen_simps)
    then show ?thesis using assms pool g by (auto simp: makeCallerFromEnv_def Let_def)
  next
    case (priority x)
    then have "chosen g (PriorityTaskPoolCaller (PriorityTaskPool_poolName x) (PriorityTaskPool_priority x))"
      by (simp add: g chosen_simps)
    then show ?thesis using assms priority g by (auto simp: makeCallerFromEnv_def Let_def)
  qed (use assms g in \<open>simp_all add: makeCallerFromEnv_def Let_def chosen_simps no_semantics_def split: option.split\<close>)
qed


text \<open>A default that names nothing: every link without its own semantics fails.\<close>

lemma empty_default_fails:
  assumes "link_semantics env link = Some no_semantics"
  shows "makeCallerFromEnv env link p c s n = Inl (StreamRuntimeError ''unsupported call semantics'')"
  using assms by (simp add: makeCallerFromEnv_def Let_def no_semantics_def)

definition pool_link :: LinkConfig where
  "pool_link = \<lparr>Link_from = 1, Link_to = 2, Link_callSemantics = Some (no_semantics\<lparr>taskPool := Some \<lparr>TaskPool_poolName = ''p''\<rparr>\<rparr>),
     Link_properties = fmempty\<rparr>"

definition pool_config :: IConfig where
  "pool_config = example_config\<lparr>GetLinks := [pool_link]\<rparr>"


end
