(* ===== verification/StreamGraph.thy ===== *)
theory StreamGraph
  imports Callers
begin

section \<open>The graph of streams (runtime/stream.hpp, runtime/base.hpp, operators)\<close>

text \<open>
  A graph is a list of nodes; a node is denoted by its position. Streams own their consumer, a split or a case owns its
  branch links, the links into a merge or a join and the links behind an error stream refer to a node that somebody else
  owns. The construction operations are those of \<open>Stream\<close>; each edge between two configured streams gets its caller
  when it is made. The theory TopologyNumbering continues with \<open>buildTopology\<close>, which numbers the nodes and prepares the
  branches of the splits.

  Not modelled: the serializers of the streams, tracing, and the link operator of link.inl, which no operation of
  \<open>Stream\<close> creates; the environment's check of link targets is about these links only.
\<close>

subsection \<open>Nodes\<close>

datatype node_kind =
    TransformNode
  | InputNode nat
  | InputErrorNode
  | SubStreamNode
  | CycleLinkNode
  | ProcessNode nat
  | SinkNode nat
  | SinkWithResultNode nat
  | ErrorStreamNode
  | SplitNode "nat list"
  | SplitLinkNode
  | CaseNode "nat list"
  | WhenLinkNode
  | MergeNode
  | MergeLinkNode nat
  | JoinLinkNode nat nat
  | ErrorLinkNode nat
  | SourceLinkNode nat
  | ResultLinkNode nat

record node =
  nd_id :: int
  nd_configId :: int
  nd_name :: string
  nd_kind :: node_kind
  nd_consumer :: "nat option"
  nd_prepared :: "LinkID option"
  nd_dispatchers :: "LinkID list"
  nd_asyncBranches :: "bool list"
  nd_source :: "nat option"

definition new_node :: "node_kind \<Rightarrow> int \<Rightarrow> string \<Rightarrow> node" where
  "new_node kind configId name =
     \<lparr>nd_id = 0, nd_configId = configId, nd_name = name, nd_kind = kind, nd_consumer = None, nd_prepared = None,
      nd_dispatchers = [], nd_asyncBranches = [], nd_source = None\<rparr>"

record graph =
  gr_env :: environment_view
  gr_nodes :: "node list"
  gr_callers :: callers
  gr_streams :: "nat list"

definition new_graph :: "environment_view \<Rightarrow> graph" where
  "new_graph env = \<lparr>gr_env = env, gr_nodes = [], gr_callers = fmempty, gr_streams = []\<rparr>"

definition add_node :: "node \<Rightarrow> graph \<Rightarrow> graph" where
  "add_node nd g = g\<lparr>gr_nodes := gr_nodes g @ [nd]\<rparr>"

definition set_node :: "nat \<Rightarrow> (node \<Rightarrow> node) \<Rightarrow> graph \<Rightarrow> graph" where
  "set_node n f g = g\<lparr>gr_nodes := (gr_nodes g)[n := f (gr_nodes g ! n)]\<rparr>"

text \<open>\<open>getConfigId()\<close>: links answer with the id of the node they lead to, a stream without an id of its own with
  that of its consumer. The recursion is bounded by the number of nodes: a longer chain runs in a circle, where the
  source does not return.\<close>

fun configId_chain :: "nat \<Rightarrow> graph \<Rightarrow> nat \<Rightarrow> int" where
  "configId_chain 0 g n = 0"
| "configId_chain (Suc k) g n =
     (let nd = gr_nodes g ! n
      in case nd_kind nd of
           MergeLinkNode m \<Rightarrow> configId_chain k g m
         | JoinLinkNode j i \<Rightarrow> configId_chain k g j
         | ErrorLinkNode t \<Rightarrow> configId_chain k g t
         | SourceLinkNode t \<Rightarrow> configId_chain k g t
         | SplitNode links \<Rightarrow> nd_configId nd
         | CaseNode whens \<Rightarrow> nd_configId nd
         | SinkNode e \<Rightarrow> nd_configId nd
         | ResultLinkNode i \<Rightarrow> nd_configId nd
         | _ \<Rightarrow> if nd_configId nd \<noteq> 0 then nd_configId nd
                else (case nd_consumer nd of Some c \<Rightarrow> configId_chain k g c | None \<Rightarrow> 0))"

definition getConfigId :: "graph \<Rightarrow> nat \<Rightarrow> int" where
  "getConfigId g n = configId_chain (length (gr_nodes g)) g n"

subsection \<open>Edges\<close>

definition prepare_edge :: "nat \<Rightarrow> nat \<Rightarrow> string \<Rightarrow> graph \<Rightarrow> (stream_error, LinkID \<times> graph) result" where
  "prepare_edge producer consumer sourceNameOverride g =
     (let link = (getConfigId g producer, getConfigId g consumer)
      in bindR (prepareCaller (gr_env g) link (nd_name (gr_nodes g ! producer)) (nd_name (gr_nodes g ! consumer))
                  sourceNameOverride consumer (gr_callers g))
           (\<lambda>callers. Inr (link, g\<lparr>gr_callers := callers\<rparr>)))"

definition prepareConsumerCaller :: "nat \<Rightarrow> graph \<Rightarrow> (stream_error, graph) result" where
  "prepareConsumerCaller n g =
     (let nd = gr_nodes g ! n
      in case nd_consumer nd of
           None \<Rightarrow> Inr g
         | Some c \<Rightarrow>
             if nd_configId nd = 0 then Inr g
             else bindR (prepare_edge n c [] g) (\<lambda>(link, g). Inr (set_node n (\<lambda>nd. nd\<lparr>nd_prepared := Some link\<rparr>) g)))"

definition setConsumer :: "nat \<Rightarrow> nat \<Rightarrow> graph \<Rightarrow> (stream_error, graph) result" where
  "setConsumer n c g =
     (if nd_consumer (gr_nodes g ! n) \<noteq> None
      then Inl (StreamException ''stream already has a consumer; add an explicit Split operator'')
      else
        let g = set_node n (\<lambda>nd. nd\<lparr>nd_consumer := Some c\<rparr>) g
        in if nd_configId (gr_nodes g ! n) \<noteq> 0 then prepareConsumerCaller n g else Inr g)"

subsection \<open>Construction\<close>

datatype build_op =
    AddInput int string
  | AddSubStream int string
  | AddCycleLink int string
  | AddTransform nat int string
  | AddProcess nat int string
  | AddSink nat int string
  | AddSinkWithResult nat int string
  | AddSplit nat int string nat
  | AddCase nat int string "(int \<times> string) list"
  | AddMerge nat "nat list" int string
  | AddJoin nat "nat list" int string
  | SetErrorConsumer nat nat
  | SetCycleSource nat nat
  | SetResultSource nat nat

abbreviation next_node :: "graph \<Rightarrow> nat" where
  "next_node g \<equiv> length (gr_nodes g)"

definition registerStream :: "nat \<Rightarrow> graph \<Rightarrow> graph" where
  "registerStream n g = g\<lparr>gr_streams := gr_streams g @ [n]\<rparr>"

text \<open>The error stream is a member of its operator; it is made first and shares the configuration id.\<close>

definition add_with_error :: "(nat \<Rightarrow> node_kind) \<Rightarrow> node_kind \<Rightarrow> int \<Rightarrow> string \<Rightarrow> graph \<Rightarrow> nat \<times> graph" where
  "add_with_error kind errorKind configId name g =
     (next_node g + 1,
      add_node (new_node (kind (next_node g)) configId name) (add_node (new_node errorKind configId (name @ ''Error'')) g))"

definition split_links :: "string \<Rightarrow> nat \<Rightarrow> node list" where
  "split_links name n = map (\<lambda>i. new_node SplitLinkNode 0 (name @ ''SplitLink'' @ to_decimal i)) [0..<n]"

definition add_split :: "int \<Rightarrow> string \<Rightarrow> nat \<Rightarrow> graph \<Rightarrow> nat \<times> graph" where
  "add_split configId name n g =
     (next_node g + n,
      add_node (new_node (SplitNode [next_node g..<next_node g + n]) configId name)
        (g\<lparr>gr_nodes := gr_nodes g @ split_links name n\<rparr>))"

definition add_case :: "int \<Rightarrow> string \<Rightarrow> (int \<times> string) list \<Rightarrow> graph \<Rightarrow> nat \<times> graph" where
  "add_case configId name whens g =
     (next_node g + length whens,
      add_node (new_node (CaseNode [next_node g..<next_node g + length whens]) configId name)
        (g\<lparr>gr_nodes := gr_nodes g @ map (\<lambda>(i, nm). new_node WhenLinkNode i nm) whens\<rparr>))"

text \<open>\<open>ErrorStream::setConsumer\<close>: a link to a node that is owned elsewhere.\<close>

definition setErrorConsumer :: "nat \<Rightarrow> nat \<Rightarrow> graph \<Rightarrow> (stream_error, graph) result" where
  "setErrorConsumer e target g =
     (let link = next_node g
      in bindR (setConsumer e link (add_node (new_node (ErrorLinkNode target) 0 []) g)) (prepareConsumerCaller e))"

text \<open>The error streams of operators are bound through an error link, every other source through a merge link.\<close>

definition connectAdditionalSource :: "nat \<Rightarrow> graph \<Rightarrow> nat \<Rightarrow> (stream_error, graph) result" where
  "connectAdditionalSource merge g source =
     (if nd_kind (gr_nodes g ! source) = ErrorStreamNode then setErrorConsumer source merge g
      else setConsumer source (next_node g) (add_node (new_node (MergeLinkNode merge) 0 []) g))"

definition connect_right :: "nat \<Rightarrow> graph \<times> nat \<Rightarrow> nat \<Rightarrow> (stream_error, graph \<times> nat) result" where
  "connect_right join = (\<lambda>(g, i) source.
     bindR (setConsumer source (next_node g) (add_node (new_node (JoinLinkNode join i) 0 []) g)) (\<lambda>g. Inr (g, i + 1)))"

definition setCycleSource :: "nat \<Rightarrow> nat \<Rightarrow> graph \<Rightarrow> (stream_error, graph) result" where
  "setCycleSource cycle source g =
     (if nd_source (gr_nodes g ! cycle) \<noteq> None then Inl (StreamException ''cycle link source is already set'')
      else setConsumer source (next_node g)
             (add_node (new_node (SourceLinkNode cycle) 0 []) (set_node cycle (\<lambda>nd. nd\<lparr>nd_source := Some source\<rparr>) g)))"

text \<open>\<open>InputStream::setSource\<close> and \<open>SubStream::setSource\<close>: results return to the node they belong to.\<close>

definition setResultSource :: "nat \<Rightarrow> nat \<Rightarrow> graph \<Rightarrow> (stream_error, graph) result" where
  "setResultSource n source g =
     (let nd = gr_nodes g ! n
      in case nd_kind nd of
           SubStreamNode \<Rightarrow>
             if nd_source nd \<noteq> None then Inl (StreamLogicError ''SubStream result source is already set'')
             else if source = n then Inl (StreamLogicError ''SubStream cannot return itself'')
             else bindR (setConsumer source (next_node g)
                           (add_node (new_node (ResultLinkNode n) (nd_configId nd) (nd_name nd)) g))
                    (\<lambda>g. Inr (set_node n (\<lambda>nd. nd\<lparr>nd_source := Some source\<rparr>) g))
         | _ \<Rightarrow>
             if nd_source nd \<noteq> None then Inl (StreamException ''InputStream result source is already set'')
             else setConsumer source (next_node g)
                    (add_node (new_node (ResultLinkNode n) (nd_configId nd) [])
                      (set_node n (\<lambda>nd. nd\<lparr>nd_source := Some source\<rparr>) g)))"

fun build_step :: "graph \<Rightarrow> build_op \<Rightarrow> (stream_error, graph) result" where
  "build_step g (AddInput i name) =
     (let (n, g) = add_with_error InputNode InputErrorNode i name g in Inr (registerStream n g))"
| "build_step g (AddSubStream i name) = Inr (registerStream (next_node g) (add_node (new_node SubStreamNode i name) g))"
| "build_step g (AddCycleLink i name) = Inr (registerStream (next_node g) (add_node (new_node CycleLinkNode i name) g))"
| "build_step g (AddTransform up i name) = setConsumer up (next_node g) (add_node (new_node TransformNode i name) g)"
| "build_step g (AddProcess up i name) =
     (let (n, g) = add_with_error ProcessNode ErrorStreamNode i name g in setConsumer up n g)"
| "build_step g (AddSink up i name) =
     (let (n, g) = add_with_error SinkNode ErrorStreamNode i name g in setConsumer up n g)"
| "build_step g (AddSinkWithResult up i name) =
     (let (n, g) = add_with_error SinkWithResultNode ErrorStreamNode i name g in setConsumer up n g)"
| "build_step g (AddSplit up i name k) = (let (n, g) = add_split i name k g in setConsumer up n g)"
| "build_step g (AddCase up i name whens) = (let (n, g) = add_case i name whens g in setConsumer up n g)"
| "build_step g (AddMerge up others i name) =
     (let merge = next_node g;
          g = add_node (new_node (MergeLinkNode merge) 0 []) (add_node (new_node MergeNode i name) g)
      in bindR (setConsumer up (merge + 1) g) (\<lambda>g. foldR (connectAdditionalSource merge) g others))"
| "build_step g (AddJoin up others i name) =
     (let join = next_node g
      in bindR (foldR (connect_right join) (add_node (new_node TransformNode i name) g, 0) others)
           (\<lambda>(g, _). setConsumer up join g))"
| "build_step g (SetErrorConsumer e target) = setErrorConsumer e target g"
| "build_step g (SetCycleSource cycle source) = setCycleSource cycle source g"
| "build_step g (SetResultSource n source) = setResultSource n source g"

text \<open>What the types of the source guarantee: references are to existing nodes, consumers are set on streams, error
  consumers on error streams, and sources on the streams that have one.\<close>

fun is_stream :: "node_kind \<Rightarrow> bool" where
  "is_stream (SinkNode e) = False"
| "is_stream (SplitNode links) = False"
| "is_stream (CaseNode whens) = False"
| "is_stream (MergeLinkNode m) = False"
| "is_stream (JoinLinkNode j i) = False"
| "is_stream (ErrorLinkNode t) = False"
| "is_stream (SourceLinkNode t) = False"
| "is_stream (ResultLinkNode i) = False"
| "is_stream _ = True"

definition stream_at :: "graph \<Rightarrow> nat \<Rightarrow> bool" where
  "stream_at g n \<longleftrightarrow> n < next_node g \<and> is_stream (nd_kind (gr_nodes g ! n))"

fun op_ok :: "graph \<Rightarrow> build_op \<Rightarrow> bool" where
  "op_ok g (AddTransform up i name) = stream_at g up"
| "op_ok g (AddProcess up i name) = stream_at g up"
| "op_ok g (AddSink up i name) = stream_at g up"
| "op_ok g (AddSinkWithResult up i name) = stream_at g up"
| "op_ok g (AddSplit up i name k) = stream_at g up"
| "op_ok g (AddCase up i name whens) = stream_at g up"
| "op_ok g (AddMerge up others i name) = (stream_at g up \<and> list_all (stream_at g) others)"
| "op_ok g (AddJoin up others i name) = (stream_at g up \<and> list_all (stream_at g) others)"
| "op_ok g (SetErrorConsumer e target) = (e < next_node g \<and> nd_kind (gr_nodes g ! e) = ErrorStreamNode \<and> target < next_node g)"
| "op_ok g (SetCycleSource cycle source) =
     (cycle < next_node g \<and> nd_kind (gr_nodes g ! cycle) = CycleLinkNode \<and> stream_at g source)"
| "op_ok g (SetResultSource n source) = (n < next_node g \<and> stream_at g source)"
| "op_ok g _ = True"

definition checked_step :: "graph \<Rightarrow> build_op \<Rightarrow> (stream_error, graph) result" where
  "checked_step g op = (if op_ok g op then build_step g op else Inl (StreamInvalidArgument ''dangling reference''))"

definition build_graph :: "environment_view \<Rightarrow> build_op list \<Rightarrow> (stream_error, graph) result" where
  "build_graph env ops = foldR checked_step (new_graph env) ops"


subsection \<open>Edges of a constructed graph\<close>

fun kind_targets :: "node_kind \<Rightarrow> nat list" where
  "kind_targets (MergeLinkNode m) = [m]"
| "kind_targets (JoinLinkNode j i) = [j]"
| "kind_targets (ErrorLinkNode t) = [t]"
| "kind_targets (SourceLinkNode t) = [t]"
| "kind_targets _ = []"

definition nodes_ok :: "graph \<Rightarrow> bool" where
  "nodes_ok g \<longleftrightarrow> (\<forall>nd \<in> set (gr_nodes g). (\<forall>t \<in> set (kind_targets (nd_kind nd)). t < next_node g)
     \<and> (\<forall>c. nd_consumer nd = Some c \<longrightarrow> c < next_node g \<and> is_stream (nd_kind nd)))"

definition extends :: "graph \<Rightarrow> graph \<Rightarrow> bool" where
  "extends g g' \<longleftrightarrow> next_node g \<le> next_node g' \<and> gr_env g' = gr_env g
     \<and> (\<forall>n < next_node g. nd_kind (gr_nodes g' ! n) = nd_kind (gr_nodes g ! n)
          \<and> nd_configId (gr_nodes g' ! n) = nd_configId (gr_nodes g ! n)
          \<and> (nd_consumer (gr_nodes g ! n) \<noteq> None \<longrightarrow> nd_consumer (gr_nodes g' ! n) = nd_consumer (gr_nodes g ! n)))"

lemma extends_refl: "extends g g"
  by (simp add: extends_def)

lemma extends_trans: "extends g g' \<Longrightarrow> extends g' g'' \<Longrightarrow> extends g g''"
  by (fastforce simp: extends_def)

lemma nodes_okD:
  assumes "nodes_ok g" "n < next_node g"
  shows "t \<in> set (kind_targets (nd_kind (gr_nodes g ! n))) \<Longrightarrow> t < next_node g"
    "nd_consumer (gr_nodes g ! n) = Some c \<Longrightarrow> c < next_node g"
    "nd_consumer (gr_nodes g ! n) = Some c \<Longrightarrow> is_stream (nd_kind (gr_nodes g ! n))"
  using assms nth_mem unfolding nodes_ok_def by blast+

text \<open>A configuration id that has been found does not change while the graph grows.\<close>

lemma configId_chain_mono:
  assumes "nodes_ok g" "extends g g'"
  shows "configId_chain k g n = i \<Longrightarrow> i \<noteq> 0 \<Longrightarrow> n < next_node g \<Longrightarrow> k \<le> k' \<Longrightarrow> configId_chain k' g' n = i"
proof (induction k arbitrary: n k')
  case (Suc k)
  then obtain m where k': "k' = Suc m" "k \<le> m" by (cases k') auto
  note n = nodes_okD [OF assms(1) \<open>n < next_node g\<close>]
  have e: "nd_kind (gr_nodes g' ! n) = nd_kind (gr_nodes g ! n)" "nd_configId (gr_nodes g' ! n) = nd_configId (gr_nodes g ! n)"
    "nd_consumer (gr_nodes g ! n) \<noteq> None \<Longrightarrow> nd_consumer (gr_nodes g' ! n) = nd_consumer (gr_nodes g ! n)"
    using assms(2) \<open>n < next_node g\<close> by (simp_all add: extends_def)
  show ?case
  proof (cases "nd_kind (gr_nodes g ! n)")
    case (MergeLinkNode x)
    then show ?thesis using Suc.prems Suc.IH [of x m] n(1) e k' by simp
  next
    case (JoinLinkNode x y)
    then show ?thesis using Suc.prems Suc.IH [of x m] n(1) e k' by simp
  next
    case (ErrorLinkNode x)
    then show ?thesis using Suc.prems Suc.IH [of x m] n(1) e k' by simp
  next
    case (SourceLinkNode x)
    then show ?thesis using Suc.prems Suc.IH [of x m] n(1) e k' by simp
  qed (use Suc.prems Suc.IH [of _ m] n(2) e k' in \<open>auto simp: Let_def split: option.splits if_splits\<close>)
qed simp

lemma getConfigId_mono:
  assumes "nodes_ok g" "extends g g'" "n < next_node g" "getConfigId g n \<noteq> 0"
  shows "getConfigId g' n = getConfigId g n"
  using configId_chain_mono [OF assms(1,2) refl _ assms(3), of "next_node g" "next_node g'"] assms
  by (simp add: getConfigId_def extends_def)

lemma getConfigId_own:
  assumes "stream_at g n" "nd_configId (gr_nodes g ! n) \<noteq> 0"
  shows "getConfigId g n = nd_configId (gr_nodes g ! n)"
proof -
  obtain k where "next_node g = Suc k" using assms(1) by (cases "next_node g") (simp_all add: stream_at_def)
  then show ?thesis using assms
    by (cases "nd_kind (gr_nodes g ! n)") (simp_all add: getConfigId_def stream_at_def)
qed

definition callers_ok :: "graph \<Rightarrow> bool" where
  "callers_ok g \<longleftrightarrow> (\<forall>link cl. fmlookup (gr_callers g) link = Some cl \<longrightarrow>
     cl_consumer cl < next_node g \<and> snd link \<noteq> 0 \<and> getConfigId g (cl_consumer cl) = snd link)"

definition edge_ok :: "graph \<Rightarrow> nat \<Rightarrow> bool" where
  "edge_ok g n \<longleftrightarrow>
     (case nd_consumer (gr_nodes g ! n) of
        None \<Rightarrow> True
      | Some c \<Rightarrow>
          nd_configId (gr_nodes g ! n) \<noteq> 0 \<longrightarrow>
            getConfigId g c \<noteq> 0 \<and> nd_prepared (gr_nodes g ! n) = Some (nd_configId (gr_nodes g ! n), getConfigId g c)
            \<and> fmlookup (gr_callers g) (nd_configId (gr_nodes g ! n), getConfigId g c) \<noteq> None)"

definition edges_ok :: "nat set \<Rightarrow> graph \<Rightarrow> bool" where
  "edges_ok open g \<longleftrightarrow> nodes_ok g \<and> callers_ok g \<and> (\<forall>n < next_node g. n \<notin> open \<longrightarrow> edge_ok g n)"

lemma set_node_simps [simp]:
  "gr_env (set_node n f g) = gr_env g" "gr_callers (set_node n f g) = gr_callers g"
  "length (gr_nodes (set_node n f g)) = length (gr_nodes g)" "gr_streams (set_node n f g) = gr_streams g"
  by (simp_all add: set_node_def)

lemma set_node_nth: "m < next_node g \<Longrightarrow> gr_nodes (set_node n f g) ! m = (if n = m then f (gr_nodes g ! m) else gr_nodes g ! m)"
  by (simp add: set_node_def nth_list_update)

lemma add_node_simps [simp]:
  "gr_env (add_node nd g) = gr_env g" "gr_callers (add_node nd g) = gr_callers g"
  "length (gr_nodes (add_node nd g)) = Suc (length (gr_nodes g))" "gr_streams (add_node nd g) = gr_streams g"
  by (simp_all add: add_node_def)

lemma add_node_nth: "m < Suc (next_node g) \<Longrightarrow> gr_nodes (add_node nd g) ! m = (if m = next_node g then nd else gr_nodes g ! m)"
  by (auto simp: add_node_def nth_append)

text \<open>Growing the graph keeps what is known about its callers and edges.\<close>

lemma callers_ok_extends:
  assumes "nodes_ok g" "callers_ok g" "extends g g'" "gr_callers g' = gr_callers g"
  shows "callers_ok g'"
proof -
  have "cl_consumer cl < next_node g' \<and> snd link \<noteq> 0 \<and> getConfigId g' (cl_consumer cl) = snd link"
    if "fmlookup (gr_callers g) link = Some cl" for link cl
  proof -
    have "cl_consumer cl < next_node g" "snd link \<noteq> 0" "getConfigId g (cl_consumer cl) = snd link"
      using assms(2) that by (simp_all add: callers_ok_def del: split_paired_All)
    then show ?thesis using getConfigId_mono [OF assms(1,3)] assms(3) by (simp add: extends_def)
  qed
  then show ?thesis using assms(4) by (simp add: callers_ok_def)
qed

lemma edge_ok_extends:
  assumes "nodes_ok g" "edge_ok g n" "extends g g'" "n < next_node g"
    and "nd_consumer (gr_nodes g' ! n) = nd_consumer (gr_nodes g ! n)" "nd_prepared (gr_nodes g' ! n) = nd_prepared (gr_nodes g ! n)"
    and "\<And>link. fmlookup (gr_callers g) link \<noteq> None \<Longrightarrow> fmlookup (gr_callers g') link \<noteq> None"
  shows "edge_ok g' n"
proof (cases "nd_consumer (gr_nodes g ! n)")
  case (Some c)
  have "c < next_node g" by (rule nodes_okD(2) [OF assms(1,4) Some])
  then have "getConfigId g c \<noteq> 0 \<Longrightarrow> getConfigId g' c = getConfigId g c" using getConfigId_mono [OF assms(1,3)] by blast
  moreover have "nd_configId (gr_nodes g' ! n) = nd_configId (gr_nodes g ! n)" using assms(3,4) by (simp add: extends_def)
  ultimately show ?thesis using assms(2,5,6,7) Some by (auto simp: edge_ok_def)
qed (use assms in \<open>simp add: edge_ok_def\<close>)

lemma edges_ok_extends:
  assumes "edges_ok X g" "extends g g'" "gr_callers g' = gr_callers g" "nodes_ok g'"
    and "\<And>n. n < next_node g \<Longrightarrow> n \<notin> Y \<Longrightarrow> n \<notin> X \<and> nd_consumer (gr_nodes g' ! n) = nd_consumer (gr_nodes g ! n)
           \<and> nd_prepared (gr_nodes g' ! n) = nd_prepared (gr_nodes g ! n)"
    and "\<And>n. next_node g \<le> n \<Longrightarrow> n < next_node g' \<Longrightarrow> nd_consumer (gr_nodes g' ! n) = None"
  shows "edges_ok Y g'"
proof -
  have ok: "nodes_ok g" "callers_ok g" using assms(1) by (simp_all add: edges_ok_def)
  have "edge_ok g' n" if n: "n < next_node g'" "n \<notin> Y" for n
  proof (cases "n < next_node g")
    case True
    then have "edge_ok g n" using assms(1,5) n by (simp add: edges_ok_def)
    then show ?thesis using edge_ok_extends [OF ok(1) _ assms(2) True] assms(3) assms(5) [OF True n(2)] by simp
  next
    case False
    then show ?thesis using assms(6) n by (simp add: edge_ok_def)
  qed
  then show ?thesis using assms(4) callers_ok_extends [OF ok assms(2,3)] by (simp add: edges_ok_def)
qed

lemma edges_ok_add:
  assumes "edges_ok X g" "nd_consumer nd = None" "\<forall>t \<in> set (kind_targets (nd_kind nd)). t < Suc (next_node g)"
  shows "edges_ok X (add_node nd g)" "extends g (add_node nd g)"
proof -
  show e: "extends g (add_node nd g)" by (simp add: extends_def add_node_nth)
  have no: "nodes_ok (add_node nd g)" using assms by (fastforce simp: nodes_ok_def edges_ok_def add_node_def)
  show "edges_ok X (add_node nd g)"
    by (rule edges_ok_extends [OF assms(1) e _ no]) (use assms(2) in \<open>auto simp: add_node_nth\<close>)
qed

lemma edges_ok_set:
  assumes "edges_ok X g" "n < next_node g" "\<And>nd. nd_kind (f nd) = nd_kind nd" "\<And>nd. nd_configId (f nd) = nd_configId nd"
    and "nd_consumer (gr_nodes g ! n) \<noteq> None \<Longrightarrow> nd_consumer (f (gr_nodes g ! n)) = nd_consumer (gr_nodes g ! n)"
    and "\<And>c. nd_consumer (f (gr_nodes g ! n)) = Some c \<Longrightarrow> c < next_node g \<and> is_stream (nd_kind (gr_nodes g ! n))"
    and "n \<notin> Y \<Longrightarrow> nd_consumer (f (gr_nodes g ! n)) = nd_consumer (gr_nodes g ! n)
           \<and> nd_prepared (f (gr_nodes g ! n)) = nd_prepared (gr_nodes g ! n)"
    and "X \<subseteq> Y"
  shows "edges_ok Y (set_node n f g)" "extends g (set_node n f g)"
proof -
  show e: "extends g (set_node n f g)" using assms(3-5) by (simp add: extends_def set_node_nth)
  have "nodes_ok g" using assms(1) by (simp add: edges_ok_def)
  then have "(\<forall>t \<in> set (kind_targets (nd_kind nd)). t < next_node g) \<and> (\<forall>c. nd_consumer nd = Some c \<longrightarrow> c < next_node g \<and> is_stream (nd_kind nd))"
    if "nd \<in> set (gr_nodes (set_node n f g))" for nd
    using that assms(2,3,6) set_update_subset_insert [of "gr_nodes g" n "f (gr_nodes g ! n)"] nodes_okD(1) [of g n]
    by (auto simp: nodes_ok_def set_node_def)
  then have no: "nodes_ok (set_node n f g)" by (simp add: nodes_ok_def)
  show "edges_ok Y (set_node n f g)"
    by (rule edges_ok_extends [OF assms(1) e _ no]) (use assms(7,8) in \<open>auto simp: set_node_nth\<close>)
qed

lemma configId_chain_nodes: "gr_nodes g' = gr_nodes g \<Longrightarrow> configId_chain k g' n = configId_chain k g n"
  by (induction k arbitrary: n) (auto simp: Let_def split: node_kind.split option.split)

lemma getConfigId_nodes: "gr_nodes g' = gr_nodes g \<Longrightarrow> getConfigId g' n = getConfigId g n"
  unfolding getConfigId_def using configId_chain_nodes [of g' g "next_node g"] by simp

lemma prepare_edge_ok:
  assumes "edges_ok X g" "consumer < next_node g" "prepare_edge producer consumer s g = Inr (link, g')"
  shows "edges_ok X g'" "extends g g'" "gr_nodes g' = gr_nodes g" "gr_streams g' = gr_streams g"
    "link = (getConfigId g producer, getConfigId g consumer)"
    "fst link \<noteq> 0" "snd link \<noteq> 0" "fmlookup (gr_callers g') link \<noteq> None"
proof -
  obtain callers where p: "prepareCaller (gr_env g) link (nd_name (gr_nodes g ! producer)) (nd_name (gr_nodes g ! consumer)) s
      consumer (gr_callers g) = Inr callers" and g': "g' = g\<lparr>gr_callers := callers\<rparr>"
    and link: "link = (getConfigId g producer, getConfigId g consumer)"
    using assms(3) by (auto simp: prepare_edge_def Let_def bindR_eq_Inr)
  note r = prepareCaller_registers [OF p]
  show nodes: "gr_nodes g' = gr_nodes g" and "gr_streams g' = gr_streams g" by (simp_all add: g')
  show "extends g g'" by (simp add: g' extends_def)
  show "link = (getConfigId g producer, getConfigId g consumer)" by (rule link)
  show "fst link \<noteq> 0" and n0: "snd link \<noteq> 0" using r(1) by simp_all
  show "fmlookup (gr_callers g') link \<noteq> None" using r(2) by (auto simp: g' split: option.splits)
  have keep: "fmlookup callers l \<noteq> None" if "fmlookup (gr_callers g) l \<noteq> None" for l
    using r(2) that by (auto split: option.splits)
  have "cl_consumer cl < next_node g \<and> snd l \<noteq> 0 \<and> getConfigId g (cl_consumer cl) = snd l" if "fmlookup callers l = Some cl" for l cl
  proof (cases "fmlookup (gr_callers g) l = Some cl")
    case True
    then show ?thesis using assms(1) by (simp add: edges_ok_def callers_ok_def del: split_paired_All)
  next
    case False
    then have "l = link" "cl_consumer cl = consumer" using r(2) that by (auto split: option.splits if_splits)
    then show ?thesis using link n0 assms(2) by simp
  qed
  then have "callers_ok g'" by (simp add: callers_ok_def g' getConfigId_nodes [of "g\<lparr>gr_callers := callers\<rparr>" g])
  moreover have "nodes_ok g'" using assms(1) by (simp add: edges_ok_def nodes_ok_def g')
  moreover have "edge_ok g' n" if "edge_ok g n" for n
    using that keep by (auto simp: edge_ok_def getConfigId_nodes [OF nodes] nodes split: option.splits) (simp_all add: g')
  ultimately show "edges_ok X g'" using assms(1) by (simp add: edges_ok_def nodes)
qed

lemma prepareConsumerCaller_ok:
  assumes "edges_ok X g" "n < next_node g" "prepareConsumerCaller n g = Inr g'"
  shows "edges_ok (X - {n}) g'" "extends g g'" "next_node g' = next_node g" "gr_streams g' = gr_streams g"
proof -
  have r: "edges_ok (X - {n}) g' \<and> extends g g' \<and> next_node g' = next_node g \<and> gr_streams g' = gr_streams g"
  proof (cases "nd_consumer (gr_nodes g ! n) = None \<or> nd_configId (gr_nodes g ! n) = 0")
    case True
    then have "g' = g" using assms(3) by (auto simp: prepareConsumerCaller_def Let_def split: option.splits)
    moreover have "edge_ok g n" using True by (auto simp: edge_ok_def split: option.split)
    ultimately show ?thesis using assms(1) by (auto simp: edges_ok_def extends_refl)
  next
    case False
    then obtain c where c: "nd_consumer (gr_nodes g ! n) = Some c" and n0: "nd_configId (gr_nodes g ! n) \<noteq> 0" by auto
    have cl: "c < next_node g" and st: "stream_at g n"
      using assms(1,2) nodes_okD(2,3) [of g n c] c by (auto simp: edges_ok_def stream_at_def)
    obtain link h where p: "prepare_edge n c [] g = Inr (link, h)"
      and g': "g' = set_node n (\<lambda>nd. nd\<lparr>nd_prepared := Some link\<rparr>) h"
      using assms(3) c n0 by (auto simp: prepareConsumerCaller_def Let_def bindR_eq_Inr)
    note e = prepare_edge_ok [OF assms(1) cl p]
    have nodes: "nodes_ok g" using assms(1) by (simp add: edges_ok_def)
    have s: "edges_ok (insert n X) g'" "extends h g'"
      unfolding g' by (rule edges_ok_set [where Y = "insert n X", OF e(1)]; use assms(2) c cl st e(3) in \<open>auto simp: stream_at_def\<close>)+
    have ext: "extends g g'" using extends_trans [OF e(2) s(2)] .
    have k: "getConfigId g' c = getConfigId g c" using getConfigId_mono [OF nodes ext cl] e(5,7) by simp
    have "edge_ok g' n"
      using e(5-8) k getConfigId_own [OF st n0] c assms(2) by (simp add: edge_ok_def g' set_node_nth e(3))
    then have "edges_ok (X - {n}) g'" using s(1) by (auto simp: edges_ok_def)
    then show ?thesis using ext e(3,4) by (simp add: g')
  qed
  then show "edges_ok (X - {n}) g'" "extends g g'" "next_node g' = next_node g" "gr_streams g' = gr_streams g" by simp_all
qed

lemma setConsumer_ok:
  assumes "edges_ok {} g" "stream_at g n" "c < next_node g" "setConsumer n c g = Inr g'"
  shows "edges_ok {} g'" "extends g g'" "next_node g' = next_node g" "gr_streams g' = gr_streams g"
proof -
  define h where "h = set_node n (\<lambda>nd. nd\<lparr>nd_consumer := Some c\<rparr>) g"
  have free: "nd_consumer (gr_nodes g ! n) = None" and n: "n < next_node g" "is_stream (nd_kind (gr_nodes g ! n))"
    using assms(2,4) by (auto simp: setConsumer_def stream_at_def split: if_splits)
  have h: "edges_ok {n} h" "extends g h"
    unfolding h_def by (rule edges_ok_set [where Y = "{n}", OF assms(1) n(1)]; use free n assms(3) in simp)+
  have r: "edges_ok {} g' \<and> extends g g' \<and> next_node g' = next_node g \<and> gr_streams g' = gr_streams g"
  proof (cases "nd_configId (gr_nodes h ! n) = 0")
    case True
    then have "g' = h" using assms(4) free by (simp add: setConsumer_def Let_def flip: h_def)
    moreover have "edge_ok h n" using True by (simp add: edge_ok_def split: option.split)
    ultimately show ?thesis using h by (auto simp: edges_ok_def) (simp_all add: h_def)
  next
    case False
    then have p: "prepareConsumerCaller n h = Inr g'" using assms(4) free by (simp add: setConsumer_def Let_def flip: h_def)
    have "n < next_node h" using n by (simp add: h_def)
    note q = prepareConsumerCaller_ok [OF h(1) this p]
    show ?thesis using q extends_trans [OF h(2) q(2)] by (simp add: h_def)
  qed
  then show "edges_ok {} g'" "extends g g'" "next_node g' = next_node g" "gr_streams g' = gr_streams g" by simp_all
qed

lemma stream_at_extends: "stream_at g n \<Longrightarrow> extends g g' \<Longrightarrow> stream_at g' n"
  by (auto simp: stream_at_def extends_def)

definition grown :: "graph \<Rightarrow> graph \<Rightarrow> bool" where
  "grown g g' \<longleftrightarrow> edges_ok {} g' \<and> extends g g'"

lemma grownD: "grown g g' \<Longrightarrow> edges_ok {} g'" "grown g g' \<Longrightarrow> extends g g'"
  by (simp_all add: grown_def)

lemma grown_trans: "grown g g' \<Longrightarrow> grown g' g'' \<Longrightarrow> grown g g''"
  by (auto simp: grown_def intro: extends_trans)

lemma grown_add:
  assumes "edges_ok {} g" "nd_consumer nd = None" "\<forall>t \<in> set (kind_targets (nd_kind nd)). t < Suc (next_node g)"
  shows "grown g (add_node nd g)"
  using edges_ok_add [OF assms] by (simp add: grown_def)

lemma grown_append:
  assumes "edges_ok {} g" "\<forall>nd \<in> set nds. nd_consumer nd = None \<and> kind_targets (nd_kind nd) = []"
  shows "grown g (g\<lparr>gr_nodes := gr_nodes g @ nds\<rparr>)"
  using assms
proof (induction nds arbitrary: g)
  case Nil
  then show ?case by (simp add: grown_def extends_refl)
next
  case (Cons nd nds)
  then have a: "grown g (add_node nd g)" by (intro grown_add) simp_all
  have "grown (add_node nd g) ((add_node nd g)\<lparr>gr_nodes := gr_nodes (add_node nd g) @ nds\<rparr>)"
    using Cons grownD(1) [OF a] by simp
  then show ?case using grown_trans [OF a] by (simp add: add_node_def)
qed

lemma grown_setConsumer:
  assumes "edges_ok {} g" "stream_at g n" "c < next_node g" "setConsumer n c g = Inr g'"
  shows "grown g g'"
  using setConsumer_ok [OF assms] by (simp add: grown_def)

text \<open>A new link or stream with its upstream set to it.\<close>

lemma grown_connect:
  assumes "edges_ok {} g" "stream_at g up" "\<forall>t \<in> set (kind_targets kind). t < Suc (next_node g)"
    and "setConsumer up (next_node g) (add_node (new_node kind i name) g) = Inr g'"
  shows "grown g g'"
proof -
  have a: "grown g (add_node (new_node kind i name) g)" using assms(1,3) by (intro grown_add) (simp_all add: new_node_def)
  have "grown (add_node (new_node kind i name) g) g'"
    using grown_setConsumer [OF grownD(1) [OF a] stream_at_extends [OF assms(2) grownD(2) [OF a]] _ assms(4)] by simp
  then show ?thesis by (rule grown_trans [OF a])
qed

lemma grown_with_error:
  assumes "edges_ok {} g" "kind_targets (kind (next_node g)) = []" "kind_targets errorKind = []"
    and "add_with_error kind errorKind i name g = (n, g')"
  shows "grown g g' \<and> n < next_node g'"
proof -
  let ?e = "add_node (new_node errorKind i (name @ ''Error'')) g"
  have a: "grown g ?e" using assms by (intro grown_add) (simp_all add: new_node_def)
  have "grown ?e (add_node (new_node (kind (next_node g)) i name) ?e)"
    using assms by (intro grown_add grownD(1) [OF a]) (simp_all add: new_node_def)
  then show ?thesis using assms(4) grown_trans [OF a] by (auto simp: add_with_error_def)
qed

lemma grown_links:
  assumes "edges_ok {} g" "\<forall>nd \<in> set nds. nd_consumer nd = None \<and> kind_targets (nd_kind nd) = []"
    and "g' = add_node (new_node kind i name) (g\<lparr>gr_nodes := gr_nodes g @ nds\<rparr>)" "kind_targets kind = []"
  shows "grown g g' \<and> next_node g + length nds < next_node g'"
proof -
  note a = grown_append [OF assms(1,2)]
  have "grown (g\<lparr>gr_nodes := gr_nodes g @ nds\<rparr>) g'"
    unfolding assms(3) by (rule grown_add [OF grownD(1) [OF a]]) (simp_all add: new_node_def assms(4))
  then show ?thesis using grown_trans [OF a] by (simp add: assms(3))
qed

lemma grown_upstream:
  assumes "grown g g' \<and> n < next_node g'" "stream_at g up" "setConsumer up n g' = Inr g''"
  shows "grown g g''"
  using grown_setConsumer [OF grownD(1) stream_at_extends [OF assms(2) grownD(2)] _ assms(3)] assms(1) grown_trans by blast

lemma grown_set_source:
  assumes "edges_ok {} g" "n < next_node g"
  shows "grown g (set_node n (\<lambda>nd. nd\<lparr>nd_source := s\<rparr>) g)"
proof -
  have "nodes_ok g" using assms(1) by (simp add: edges_ok_def)
  then show ?thesis
    unfolding grown_def using nodes_okD(2,3) [OF _ assms(2)]
    by (intro conjI; intro edges_ok_set [where Y = "{}", OF assms]) auto
qed

lemma grown_setErrorConsumer:
  assumes "edges_ok {} g" "stream_at g e" "target < next_node g" "setErrorConsumer e target g = Inr g'"
  shows "grown g g'"
proof -
  obtain h where h: "setConsumer e (next_node g) (add_node (new_node (ErrorLinkNode target) 0 []) g) = Inr h"
    and p: "prepareConsumerCaller e h = Inr g'"
    using assms(4) by (auto simp: setErrorConsumer_def Let_def bindR_eq_Inr)
  have gh: "grown g h" using grown_connect [OF assms(1,2) _ h] assms(3) by simp
  have "e < next_node h" using stream_at_extends [OF assms(2) grownD(2) [OF gh]] by (simp add: stream_at_def)
  then have "grown h g'" using prepareConsumerCaller_ok [OF grownD(1) [OF gh] _ p] by (simp add: grown_def)
  then show ?thesis by (rule grown_trans [OF gh])
qed

lemma grown_sources:
  assumes "edges_ok {} g" "list_all (stream_at g) others" "merge < next_node g"
    and "foldR (connectAdditionalSource merge) g others = Inr g'"
  shows "grown g g'"
  using assms
proof (induction others arbitrary: g)
  case Nil
  then show ?case by (simp add: grown_def extends_refl)
next
  case (Cons s others)
  obtain h where h: "connectAdditionalSource merge g s = Inr h" and r: "foldR (connectAdditionalSource merge) h others = Inr g'"
    using Cons.prems(4) by (auto simp: bindR_eq_Inr)
  have gh: "grown g h"
    using h grown_setErrorConsumer [OF Cons.prems(1), of s merge h] grown_connect [OF Cons.prems(1), of s "MergeLinkNode merge" 0 "[]" h]
      Cons.prems(2,3) by (auto simp: connectAdditionalSource_def split: if_splits)
  have "list_all (stream_at h) others"
    using Cons.prems(2) stream_at_extends [OF _ grownD(2) [OF gh]] by (auto simp: list_all_iff)
  moreover have "merge < next_node h" using Cons.prems(3) grownD(2) [OF gh] by (simp add: extends_def)
  ultimately show ?case using Cons.IH [OF grownD(1) [OF gh] _ _ r] grown_trans [OF gh] by blast
qed

lemma grown_right:
  assumes "edges_ok {} g" "list_all (stream_at g) others" "join < next_node g"
    and "foldR (connect_right join) (g, i) others = Inr (g', i')"
  shows "grown g g'"
  using assms
proof (induction others arbitrary: g i)
  case Nil
  then show ?case by (simp add: grown_def extends_refl)
next
  case (Cons s others)
  obtain h where h: "setConsumer s (next_node g) (add_node (new_node (JoinLinkNode join i) 0 []) g) = Inr h"
    and r: "foldR (connect_right join) (h, i + 1) others = Inr (g', i')"
    using Cons.prems(4) by (auto simp: bindR_eq_Inr connect_right_def)
  have gh: "grown g h" using grown_connect [OF Cons.prems(1) _ _ h] Cons.prems(2,3) by simp
  have "list_all (stream_at h) others"
    using Cons.prems(2) stream_at_extends [OF _ grownD(2) [OF gh]] by (auto simp: list_all_iff)
  moreover have "join < next_node h" using Cons.prems(3) grownD(2) [OF gh] by (simp add: extends_def)
  ultimately show ?case using Cons.IH [OF grownD(1) [OF gh] _ _ r] grown_trans [OF gh] by blast
qed

lemma grown_register: "edges_ok {} g \<Longrightarrow> grown g (registerStream n g)"
proof -
  assume g: "edges_ok {} g"
  have e: "extends g (registerStream n g)" by (simp add: extends_def registerStream_def)
  have "nodes_ok (registerStream n g)" using g by (simp add: edges_ok_def nodes_ok_def registerStream_def)
  then have "edges_ok {} (registerStream n g)"
    by (rule edges_ok_extends [OF g e, rotated]) (simp_all add: registerStream_def)
  then show ?thesis using e by (simp add: grown_def)
qed

lemma grown_merge:
  assumes "edges_ok {} g" "op_ok g (AddMerge up others i name)" "build_step g (AddMerge up others i name) = Inr g'"
  shows "grown g g'"
proof -
  let ?m = "next_node g"
  let ?h = "add_node (new_node (MergeLinkNode ?m) 0 []) (add_node (new_node MergeNode i name) g)"
  obtain k where k: "setConsumer up (?m + 1) ?h = Inr k" and r: "foldR (connectAdditionalSource ?m) k others = Inr g'"
    using assms(3) by (auto simp: Let_def bindR_eq_Inr)
  have a: "grown g (add_node (new_node MergeNode i name) g)" by (rule grown_add [OF assms(1)]) (simp_all add: new_node_def)
  have b: "grown (add_node (new_node MergeNode i name) g) ?h" by (rule grown_add [OF grownD(1) [OF a]]) (simp_all add: new_node_def)
  have gk: "grown g k" by (rule grown_upstream [OF _ _ k]) (use grown_trans [OF a b] assms(2) in simp_all)
  have "list_all (stream_at k) others"
    using assms(2) stream_at_extends [OF _ grownD(2) [OF gk]] by (auto simp: list_all_iff)
  moreover have "?m < next_node k" using setConsumer_ok(3) [OF grownD(1) [OF b] _ _ k] stream_at_extends [OF _ grownD(2) [OF grown_trans [OF a b]], of up]
      assms(2) by simp
  ultimately show ?thesis using grown_sources [OF grownD(1) [OF gk] _ _ r] grown_trans [OF gk] by blast
qed

lemma grown_join:
  assumes "edges_ok {} g" "op_ok g (AddJoin up others i name)" "build_step g (AddJoin up others i name) = Inr g'"
  shows "grown g g'"
proof -
  let ?h = "add_node (new_node TransformNode i name) g"
  obtain k j where r: "foldR (connect_right (next_node g)) (?h, 0) others = Inr (k, j)" and s: "setConsumer up (next_node g) k = Inr g'"
    using assms(3) by (auto simp: Let_def bindR_eq_Inr)
  have a: "grown g ?h" by (rule grown_add [OF assms(1)]) (simp_all add: new_node_def)
  have "list_all (stream_at ?h) others"
    using assms(2) stream_at_extends [OF _ grownD(2) [OF a]] by (auto simp: list_all_iff)
  then have b: "grown ?h k" using grown_right [OF grownD(1) [OF a] _ _ r] by simp
  then have "next_node g < next_node k" by (simp add: grown_def extends_def)
  then show ?thesis using grown_upstream [OF _ _ s, of g] grown_trans [OF a b] assms(2) by simp
qed

lemma grown_result:
  assumes "edges_ok {} g" "op_ok g (SetResultSource n source)" "build_step g (SetResultSource n source) = Inr g'"
  shows "grown g g'"
proof -
  let ?nd = "gr_nodes g ! n"
  have n: "n < next_node g" and st: "stream_at g source" using assms(2) by simp_all
  show ?thesis
  proof (cases "nd_kind ?nd = SubStreamNode")
    case True
    then obtain k where k: "setConsumer source (next_node g) (add_node (new_node (ResultLinkNode n) (nd_configId ?nd) (nd_name ?nd)) g) = Inr k"
      and g': "g' = set_node n (\<lambda>nd. nd\<lparr>nd_source := Some source\<rparr>) k"
      using assms(3) by (auto simp: setResultSource_def Let_def bindR_eq_Inr split: if_splits)
    have gk: "grown g k" using grown_connect [OF assms(1) st _ k] by simp
    have "n < next_node k" using n grownD(2) [OF gk] by (simp add: extends_def)
    then show ?thesis using grown_trans [OF gk grown_set_source [OF grownD(1) [OF gk]]] by (simp add: g')
  next
    case False
    let ?h = "set_node n (\<lambda>nd. nd\<lparr>nd_source := Some source\<rparr>) g"
    have a: "grown g ?h" using grown_set_source [OF assms(1) n] .
    have "setConsumer source (next_node ?h) (add_node (new_node (ResultLinkNode n) (nd_configId ?nd) []) ?h) = Inr g'"
      using assms(3) False by (auto simp: setResultSource_def Let_def split: node_kind.splits if_splits)
    then have "grown ?h g'"
      using grown_connect [OF grownD(1) [OF a] stream_at_extends [OF st grownD(2) [OF a]], of "ResultLinkNode n"] by simp
    then show ?thesis by (rule grown_trans [OF a])
  qed
qed

lemma grown_step:
  assumes "edges_ok {} g" "op_ok g op" "build_step g op = Inr g'"
  shows "grown g g'"
proof (cases op)
  case (AddInput i name)
  obtain n h where h: "add_with_error InputNode InputErrorNode i name g = (n, h)" by fastforce
  then have gh: "grown g h" using grown_with_error [OF assms(1) _ _ h] by simp
  show ?thesis using assms(3) h AddInput grown_trans [OF gh grown_register [OF grownD(1) [OF gh], of n]] by simp
next
  case (AddSubStream i name)
  have gh: "grown g (add_node (new_node SubStreamNode i name) g)" by (rule grown_add [OF assms(1)]) (simp_all add: new_node_def)
  show ?thesis using assms(3) AddSubStream grown_trans [OF gh grown_register [OF grownD(1) [OF gh], of "next_node g"]] by simp
next
  case (AddCycleLink i name)
  have gh: "grown g (add_node (new_node CycleLinkNode i name) g)" by (rule grown_add [OF assms(1)]) (simp_all add: new_node_def)
  show ?thesis using assms(3) AddCycleLink grown_trans [OF gh grown_register [OF grownD(1) [OF gh], of "next_node g"]] by simp
next
  case (AddTransform up i name)
  then show ?thesis using assms grown_connect [OF assms(1), of up TransformNode i name g'] by simp
next
  case (AddProcess up i name)
  obtain n h where h: "add_with_error ProcessNode ErrorStreamNode i name g = (n, h)" by fastforce
  then show ?thesis using grown_upstream [OF grown_with_error [OF assms(1) _ _ h]] assms AddProcess by simp
next
  case (AddSink up i name)
  obtain n h where h: "add_with_error SinkNode ErrorStreamNode i name g = (n, h)" by fastforce
  then show ?thesis using grown_upstream [OF grown_with_error [OF assms(1) _ _ h]] assms AddSink by simp
next
  case (AddSinkWithResult up i name)
  obtain n h where h: "add_with_error SinkWithResultNode ErrorStreamNode i name g = (n, h)" by fastforce
  then show ?thesis using grown_upstream [OF grown_with_error [OF assms(1) _ _ h]] assms AddSinkWithResult by simp
next
  case (AddSplit up i name k)
  have "grown g (snd (add_split i name k g)) \<and> next_node g + length (split_links name k) < next_node (snd (add_split i name k g))"
    by (rule grown_links [OF assms(1), where nds = "split_links name k" and kind = "SplitNode [next_node g..<next_node g + k]" and i = i and name = name])
       (auto simp: split_links_def new_node_def add_split_def)
  then show ?thesis using grown_upstream [of g "snd (add_split i name k g)" "next_node g + k" up g'] assms AddSplit
    by (simp add: add_split_def split_links_def)
next
  case (AddCase up i name whens)
  have "grown g (snd (add_case i name whens g))
      \<and> next_node g + length (map (\<lambda>(i, nm). new_node WhenLinkNode i nm) whens) < next_node (snd (add_case i name whens g))"
    by (rule grown_links [OF assms(1), where kind = "CaseNode [next_node g..<next_node g + length whens]" and i = i and name = name])
       (auto simp: new_node_def add_case_def)
  then show ?thesis using grown_upstream [of g "snd (add_case i name whens g)" "next_node g + length whens" up g'] assms AddCase
    by (simp add: add_case_def)
next
  case (AddMerge up others i name)
  show ?thesis by (rule grown_merge [OF assms(1) assms(2,3) [unfolded AddMerge]])
next
  case (AddJoin up others i name)
  show ?thesis by (rule grown_join [OF assms(1) assms(2,3) [unfolded AddJoin]])
next
  case (SetErrorConsumer e target)
  then show ?thesis using assms grown_setErrorConsumer [OF assms(1), of e target g'] by (simp add: stream_at_def)
next
  case (SetCycleSource cycle source)
  let ?h = "set_node cycle (\<lambda>nd. nd\<lparr>nd_source := Some source\<rparr>) g"
  have a: "grown g ?h" using grown_set_source [OF assms(1)] assms(2) SetCycleSource by simp
  have "grown ?h g'"
    by (rule grown_connect [OF grownD(1) [OF a], where up = source and kind = "SourceLinkNode cycle" and i = 0 and name = "[]"])
       (use assms SetCycleSource stream_at_extends [OF _ grownD(2) [OF a]] in \<open>auto simp: setCycleSource_def split: if_splits\<close>)
  then show ?thesis by (rule grown_trans [OF a])
next
  case (SetResultSource n source)
  show ?thesis by (rule grown_result [OF assms(1) assms(2,3) [unfolded SetResultSource]])
qed

lemma build_graph_ok: "build_graph env ops = Inr g \<Longrightarrow> edges_ok {} g"
proof -
  have "foldR checked_step h ops = Inr g \<Longrightarrow> edges_ok {} h \<Longrightarrow> edges_ok {} g" for h
  proof (induction ops arbitrary: h)
    case (Cons op ops)
    then obtain k where k: "checked_step h op = Inr k" and r: "foldR checked_step k ops = Inr g" by (auto simp: bindR_eq_Inr)
    have "grown h k" using grown_step [OF Cons.prems(2)] k by (auto simp: checked_step_def split: if_splits)
    then show ?case using Cons.IH [OF r] grownD(1) by blast
  qed simp
  moreover have "edges_ok {} (new_graph env)" by (simp add: edges_ok_def new_graph_def nodes_ok_def callers_ok_def)
  ultimately show "build_graph env ops = Inr g \<Longrightarrow> edges_ok {} g" unfolding build_graph_def by blast
qed

text \<open>C8. Every edge of a constructed graph has its caller. Whatever sequence of operations built the graph, a configured
  stream with a consumer has been given the caller that is registered for the configuration ids of the two; the caller
  calls a node with the configuration id of the consumer, so that no message path has to make or look up a caller.\<close>

theorem constructed_edges_prepared:
  assumes "build_graph env ops = Inr g" "n < next_node g" "nd_consumer (gr_nodes g ! n) = Some c" "nd_configId (gr_nodes g ! n) \<noteq> 0"
  shows "\<exists>cl. nd_prepared (gr_nodes g ! n) = Some (getConfigId g n, getConfigId g c)
    \<and> fmlookup (gr_callers g) (getConfigId g n, getConfigId g c) = Some cl
    \<and> getConfigId g n \<noteq> 0 \<and> getConfigId g c \<noteq> 0 \<and> cl_consumer cl < next_node g \<and> getConfigId g (cl_consumer cl) = getConfigId g c"
proof -
  have ok: "nodes_ok g" "callers_ok g" "edge_ok g n" using build_graph_ok [OF assms(1)] assms(2) by (simp_all add: edges_ok_def)
  have "getConfigId g n = nd_configId (gr_nodes g ! n)"
    using getConfigId_own [OF _ assms(4)] nodes_okD(3) [OF ok(1) assms(2,3)] assms(2) by (simp add: stream_at_def)
  then have e: "getConfigId g c \<noteq> 0" "nd_prepared (gr_nodes g ! n) = Some (getConfigId g n, getConfigId g c)"
      "fmlookup (gr_callers g) (getConfigId g n, getConfigId g c) \<noteq> None" "getConfigId g n \<noteq> 0"
    using ok(3) assms(3,4) by (simp_all add: edge_ok_def)
  then obtain cl where cl: "fmlookup (gr_callers g) (getConfigId g n, getConfigId g c) = Some cl" by blast
  then have "cl_consumer cl < next_node g" "getConfigId g (cl_consumer cl) = getConfigId g c"
    using ok(2) by (simp_all add: callers_ok_def)
  then show ?thesis using e cl by blast
qed

definition plain_env :: environment_view where
  "plain_env = \<lparr>ev_runtimeConfig = None, ev_serviceConfig = None, ev_taskPools = [], ev_priorityTaskPools = [], ev_metricsEnabled = True\<rparr>"

lemmas graph_eval = build_graph_def checked_step_def stream_at_def new_graph_def add_node_def set_node_def new_node_def
  setConsumer_def prepareConsumerCaller_def prepare_edge_def prepareCaller_def makeCallerFromEnv_def link_semantics_def
  getConfigId_def add_with_error_def registerStream_def plain_env_def caller_params_def configured_stream_def Let_def
  add_split_def split_links_def add_case_def setErrorConsumer_def connectAdditionalSource_def connect_right_def
  setCycleSource_def setResultSource_def numeral_eq_Suc

theorem constructed_edges_prepared_witness:
  "\<exists>g cl. build_graph plain_env [AddInput 1 ''in'', AddTransform 1 2 ''map''] = Inr g
     \<and> nd_prepared (gr_nodes g ! 1) = Some (1, 2) \<and> fmlookup (gr_callers g) (1, 2) = Some cl"
proof -
  define g where "g = (case build_graph plain_env [AddInput 1 ''in'', AddTransform 1 2 ''map''] of Inr g \<Rightarrow> g)"
  have b: "build_graph plain_env [AddInput 1 ''in'', AddTransform 1 2 ''map''] = Inr g"
    unfolding g_def by (simp add: graph_eval)
  have "1 < next_node g" "nd_consumer (gr_nodes g ! 1) = Some 2" "nd_configId (gr_nodes g ! 1) \<noteq> 0" "getConfigId g 1 = 1" "getConfigId g 2 = 2"
    unfolding g_def by (simp_all add: graph_eval)
  then show ?thesis using b constructed_edges_prepared [OF b, of 1 2] by auto
qed

end
