(* ===== verification/TopologyNumbering.thy ===== *)
theory TopologyNumbering
  imports StreamGraph
begin

section \<open>Numbering the graph (buildTopology of the streams and of the environment)\<close>

text \<open>
  Once the graph is built, \<open>StreamExecutionEnvironment::buildTopology\<close> walks it from the registered streams, gives each node
  it meets an id, the error stream of an operator the negated id of its owner, and prepares the callers of the branches of
  a split. The walk is recursive and the graph may have cycles; it is bounded by fuel, twice the number of nodes plus
  two, which \<open>topo_total_buildTopology\<close> shows to be enough. The relation \<open>numbered\<close> describes what one call of the walk does to
  the ids, with the set of nodes whose successors are still to be visited.
\<close>

subsection \<open>Numbering the nodes\<close>

text \<open>A computation that may run out of its bound, may throw, or returns.\<close>

definition bindT :: "('e, 'a) result option \<Rightarrow> ('a \<Rightarrow> ('e, 'b) result option) \<Rightarrow> ('e, 'b) result option" where
  "bindT m f = (case m of None \<Rightarrow> None | Some (Inl e) \<Rightarrow> Some (Inl e) | Some (Inr x) \<Rightarrow> f x)"

fun foldT :: "('s \<Rightarrow> 'a \<Rightarrow> ('e, 's) result option) \<Rightarrow> 's \<Rightarrow> 'a list \<Rightarrow> ('e, 's) result option" where
  "foldT f s [] = Some (Inr s)"
| "foldT f s (x # xs) = bindT (f s x) (\<lambda>s. foldT f s xs)"

definition getId :: "graph \<Rightarrow> nat \<Rightarrow> int" where
  "getId g n = (case nd_kind (gr_nodes g ! n) of SourceLinkNode t \<Rightarrow> nd_id (gr_nodes g ! t) | _ \<Rightarrow> nd_id (gr_nodes g ! n))"

text \<open>Ids are the signed values of \<open>size_t\<close>. The assertion of the source is an error here.\<close>

definition setId :: "nat \<Rightarrow> int \<Rightarrow> graph \<Rightarrow> (stream_error, graph) result" where
  "setId n i g =
     (if nd_id (gr_nodes g ! n) = 0 \<and> i \<noteq> 0 then Inr (set_node n (\<lambda>nd. nd\<lparr>nd_id := i\<rparr>) g)
      else Inl (StreamLogicError ''assertion failed: id_ == 0 && id != 0''))"

text \<open>\<open>buildTopologyCommon\<close>, given the virtual \<open>buildTopology\<close> of the consumers.\<close>

definition buildTopologyCommon ::
  "(nat \<Rightarrow> int \<Rightarrow> graph \<Rightarrow> (stream_error, int \<times> graph) result option) \<Rightarrow> nat \<Rightarrow> int \<Rightarrow> graph
    \<Rightarrow> (stream_error, int \<times> graph) result option"
where
  "buildTopologyCommon build n i g =
     bindT (Some (if nd_id (gr_nodes g ! n) = 0 then setId n i g else Inr g)) (\<lambda>g.
       case nd_consumer (gr_nodes g ! n) of
         Some c \<Rightarrow>
           bindT (if getId g c = 0 then build c (i + 1) g else Some (Inr (i, g))) (\<lambda>(nextid, g).
           bindT (Some (prepareConsumerCaller n g)) (\<lambda>g. Some (Inr (nextid, g))))
       | None \<Rightarrow> Some (Inr (i, g)))"

text \<open>\<open>SplitLink::callerTarget\<close> and \<open>SplitBase::prepareBranch\<close>.\<close>

definition callerTarget :: "graph \<Rightarrow> nat \<Rightarrow> (stream_error, nat) result" where
  "callerTarget g link =
     (case nd_consumer (gr_nodes g ! link) of
        None \<Rightarrow> Inl (StreamException ''Split branch must not have an empty consumer.'')
      | Some c \<Rightarrow> Inr (case nd_kind (gr_nodes g ! c) of MergeLinkNode m \<Rightarrow> m | _ \<Rightarrow> c))"

definition prepareBranch :: "nat \<Rightarrow> graph \<Rightarrow> nat \<Rightarrow> (stream_error, graph) result" where
  "prepareBranch split g link =
     bindR (callerTarget g link) (\<lambda>target.
     bindR (prepare_edge split target (nd_name (gr_nodes g ! link)) g) (\<lambda>(l, g).
       Inr (set_node split (\<lambda>nd. nd\<lparr>nd_dispatchers := nd_dispatchers nd @ [l],
              nd_asyncBranches := nd_asyncBranches nd
                @ [case fmlookup (gr_callers g) l of Some cl \<Rightarrow> isAsync cl | None \<Rightarrow> False]\<rparr>) g)))"

text \<open>The error stream of an operator gets the negated id of its owner.\<close>

definition prepare_error :: "nat \<Rightarrow> nat \<Rightarrow> graph \<Rightarrow> (stream_error, graph) result" where
  "prepare_error n e g = bindR (setId e (0 - getId g n) g) (prepareConsumerCaller e)"

primrec buildTopology :: "nat \<Rightarrow> nat \<Rightarrow> int \<Rightarrow> graph \<Rightarrow> (stream_error, int \<times> graph) result option" where
  "buildTopology 0 n i g = None"
| "buildTopology (Suc k) n i g =
     (case nd_kind (gr_nodes g ! n) of
        MergeNode \<Rightarrow>
          if getId g n = 0 then buildTopologyCommon (buildTopology k) n i g else Some (Inr (i - 1, g))
      | MergeLinkNode m \<Rightarrow>
          bindT (Some (setId n i g)) (\<lambda>g.
          bindT (buildTopology k m (i + 1) g) (\<lambda>(nextid, g).
            if getId g m = 0 then Some (Inl (StreamException ''Build stream logic error. Merge link id isn't assigned.''))
            else Some (Inr (nextid, g))))
      | JoinLinkNode j index \<Rightarrow>
          bindT (Some (setId n i g)) (\<lambda>g. if getId g j = 0 then buildTopology k j (i + 1) g else Some (Inr (i, g)))
      | ErrorLinkNode t \<Rightarrow>
          bindT (Some (setId n i g)) (\<lambda>g. if getId g t = 0 then buildTopology k t (i + 1) g else Some (Inr (i, g)))
      | SourceLinkNode t \<Rightarrow>
          if getId g n = 0 then Some (Inl (StreamException ''cycle target must be registered before its source''))
          else Some (Inr (getId g n, g))
      | ResultLinkNode r \<Rightarrow>
          bindT (Some (if getId g n = 0 then setId n i g else Inr g)) (\<lambda>g. Some (Inr (i, g)))
      | SinkNode e \<Rightarrow>
          bindT (Some (if getId g n = 0 then setId n i g else Inr g)) (\<lambda>g.
          bindT (Some (prepare_error n e g)) (\<lambda>g. Some (Inr (i, g))))
      | ProcessNode e \<Rightarrow>
          bindT (buildTopologyCommon (buildTopology k) n i g) (\<lambda>(nextId, g).
          bindT (Some (prepare_error n e g)) (\<lambda>g. Some (Inr (nextId, g))))
      | SinkWithResultNode e \<Rightarrow>
          bindT (buildTopologyCommon (buildTopology k) n i g) (\<lambda>(nextId, g).
          bindT (Some (prepare_error n e g)) (\<lambda>g. Some (Inr (nextId, g))))
      | InputNode e \<Rightarrow>
          bindT (buildTopologyCommon (buildTopology k) n i g) (\<lambda>(nextId, g).
            buildTopologyCommon (buildTopology k) e (nextId + 1) g)
      | SplitNode links \<Rightarrow>
          bindT (Some (setId n i g)) (\<lambda>g.
          bindT (foldT (\<lambda>(next_id, g) link. buildTopologyCommon (buildTopology k) link (next_id + 1) g) (i, g) links)
            (\<lambda>(next_id, g).
          bindT (Some (foldR (prepareBranch n) g links)) (\<lambda>g. Some (Inr (next_id, g)))))
      | CaseNode whens \<Rightarrow>
          bindT (Some (setId n i g)) (\<lambda>g.
            foldT (\<lambda>(next_id, g) link. buildTopologyCommon (buildTopology k) link (next_id + 1) g) (i, g) whens)
      | _ \<Rightarrow> buildTopologyCommon (buildTopology k) n i g)"

text \<open>\<open>StreamExecutionEnvironment::buildTopology\<close> over the registered streams. The bound is enough for every graph.\<close>

definition buildAll :: "graph \<Rightarrow> (stream_error, int \<times> graph) result option" where
  "buildAll g =
     foldT (\<lambda>(nextId, g) s. buildTopology (2 * length (gr_nodes g) + 2) s (nextId + 1) g) (0, g) (gr_streams g)"

lemma bindT_simps [simp]:
  "bindT None f = None" "bindT (Some (Inl e)) f = Some (Inl e)" "bindT (Some (Inr x)) f = f x"
  by (simp_all add: bindT_def)

lemma bindT_eq_Inr: "bindT m f = Some (Inr y) \<longleftrightarrow> (\<exists>x. m = Some (Inr x) \<and> f x = Some (Inr y))"
  by (cases m rule: option.exhaust) (auto simp: bindT_def split: sum.splits)

lemma bindT_eq_None: "bindT m f = None \<longleftrightarrow> m = None \<or> (\<exists>x. m = Some (Inr x) \<and> f x = None)"
  by (cases m rule: option.exhaust) (auto simp: bindT_def split: sum.splits)

definition same_shape :: "graph \<Rightarrow> graph \<Rightarrow> bool" where
  "same_shape g g' \<longleftrightarrow> next_node g' = next_node g \<and> gr_streams g' = gr_streams g
     \<and> (\<forall>n < next_node g. nd_kind (gr_nodes g' ! n) = nd_kind (gr_nodes g ! n)
          \<and> nd_consumer (gr_nodes g' ! n) = nd_consumer (gr_nodes g ! n))"

definition ids_kept :: "graph \<Rightarrow> graph \<Rightarrow> bool" where
  "ids_kept g g' \<longleftrightarrow> same_shape g g'
     \<and> (\<forall>n < next_node g. nd_id (gr_nodes g ! n) \<noteq> 0 \<longrightarrow> nd_id (gr_nodes g' ! n) = nd_id (gr_nodes g ! n))
     \<and> (\<forall>n < next_node g. nd_id (gr_nodes g ! n) = 0 \<longrightarrow> nd_id (gr_nodes g' ! n) < 0 \<longrightarrow> nd_kind (gr_nodes g ! n) = ErrorStreamNode)"

definition ids_below :: "int \<Rightarrow> graph \<Rightarrow> bool" where
  "ids_below b g \<longleftrightarrow> (\<forall>n < next_node g. nd_id (gr_nodes g ! n) < b)
     \<and> (\<forall>n < next_node g. \<forall>m < next_node g. 0 < nd_id (gr_nodes g ! n) \<longrightarrow> nd_id (gr_nodes g ! n) = nd_id (gr_nodes g ! m) \<longrightarrow> n = m)"

fun kind_owned :: "node_kind \<Rightarrow> nat list" where
  "kind_owned (InputNode e) = [e]"
| "kind_owned (ProcessNode e) = [e]"
| "kind_owned (SinkNode e) = [e]"
| "kind_owned (SinkWithResultNode e) = [e]"
| "kind_owned (SplitNode links) = links"
| "kind_owned (CaseNode whens) = whens"
| "kind_owned (MergeLinkNode m) = [m]"
| "kind_owned (JoinLinkNode j i) = [j]"
| "kind_owned (ErrorLinkNode t) = [t]"
| "kind_owned _ = []"

text \<open>Everything a node leads to has an id.\<close>

definition node_closed :: "graph \<Rightarrow> nat \<Rightarrow> bool" where
  "node_closed g n \<longleftrightarrow> (\<forall>c. nd_consumer (gr_nodes g ! n) = Some c \<longrightarrow> getId g c \<noteq> 0)
     \<and> (\<forall>m \<in> set (kind_owned (nd_kind (gr_nodes g ! n))). getId g m \<noteq> 0)"

text \<open>References stay inside the graph.\<close>

definition refs_ok :: "graph \<Rightarrow> bool" where
  "refs_ok g \<longleftrightarrow> (\<forall>n < next_node g. (\<forall>c. nd_consumer (gr_nodes g ! n) = Some c \<longrightarrow> c < next_node g)
     \<and> (\<forall>m \<in> set (kind_owned (nd_kind (gr_nodes g ! n))). m < next_node g)
     \<and> (\<forall>t. nd_kind (gr_nodes g ! n) = SourceLinkNode t \<longrightarrow> t < next_node g))"

definition numbered :: "nat set \<Rightarrow> int \<Rightarrow> graph \<Rightarrow> int \<Rightarrow> graph \<Rightarrow> bool" where
  "numbered open b g nextid g' \<longleftrightarrow> ids_kept g g' \<and> b \<le> nextid + 1
     \<and> (ids_below b g \<longrightarrow> ids_below (nextid + 1) g')
     \<and> (\<forall>n < next_node g. n \<notin> open \<longrightarrow> nd_id (gr_nodes g ! n) = 0 \<longrightarrow> 0 < nd_id (gr_nodes g' ! n) \<longrightarrow> node_closed g' n)"

lemma ids_kept_refl: "ids_kept g g"
  by (simp add: ids_kept_def same_shape_def)

lemma ids_kept_trans:
  assumes "ids_kept g g'" "ids_kept g' g''" shows "ids_kept g g''"
proof -
  have s: "same_shape g g''" using assms by (simp add: ids_kept_def same_shape_def)
  have "nd_id (gr_nodes g ! n) \<noteq> 0 \<Longrightarrow> nd_id (gr_nodes g'' ! n) = nd_id (gr_nodes g ! n)"
    "nd_id (gr_nodes g ! n) = 0 \<Longrightarrow> nd_id (gr_nodes g'' ! n) < 0 \<Longrightarrow> nd_kind (gr_nodes g ! n) = ErrorStreamNode"
    if n: "n < next_node g" for n
    using assms n by (cases "nd_id (gr_nodes g' ! n) = 0"; simp add: ids_kept_def same_shape_def)+
  then show ?thesis using s by (simp add: ids_kept_def)
qed

lemma ids_below_mono: "ids_below b g \<Longrightarrow> b \<le> b' \<Longrightarrow> ids_below b' g"
  by (fastforce simp: ids_below_def)

lemma same_shapeD:
  "same_shape g g' \<Longrightarrow> next_node g' = next_node g"
  "same_shape g g' \<Longrightarrow> n < next_node g \<Longrightarrow> nd_kind (gr_nodes g' ! n) = nd_kind (gr_nodes g ! n)"
  "same_shape g g' \<Longrightarrow> n < next_node g \<Longrightarrow> nd_consumer (gr_nodes g' ! n) = nd_consumer (gr_nodes g ! n)"
  unfolding same_shape_def by blast+

lemma refs_ok_kept:
  assumes "ids_kept g g'" "refs_ok g" shows "refs_ok g'"
proof -
  have s: "same_shape g g'" using assms(1) by (simp add: ids_kept_def)
  show ?thesis unfolding refs_ok_def same_shapeD(1) [OF s]
  proof (intro allI impI)
    fix n assume n: "n < next_node g"
    show "(\<forall>c. nd_consumer (gr_nodes g' ! n) = Some c \<longrightarrow> c < next_node g)
        \<and> (\<forall>m \<in> set (kind_owned (nd_kind (gr_nodes g' ! n))). m < next_node g)
        \<and> (\<forall>t. nd_kind (gr_nodes g' ! n) = SourceLinkNode t \<longrightarrow> t < next_node g)"
      unfolding same_shapeD(2,3) [OF s n] using assms(2) n unfolding refs_ok_def by blast
  qed
qed

lemma getId_kept:
  assumes "ids_kept g g'" "refs_ok g" "n < next_node g" "getId g n \<noteq> 0"
  shows "getId g' n = getId g n"
proof -
  have s: "same_shape g g'" and k: "\<And>m. m < next_node g \<Longrightarrow> nd_id (gr_nodes g ! m) \<noteq> 0 \<Longrightarrow> nd_id (gr_nodes g' ! m) = nd_id (gr_nodes g ! m)"
    using assms(1) unfolding ids_kept_def by blast+
  show ?thesis
  proof (cases "\<exists>t. nd_kind (gr_nodes g ! n) = SourceLinkNode t")
    case True
    then obtain t where t: "nd_kind (gr_nodes g ! n) = SourceLinkNode t" by blast
    then have "t < next_node g" using assms(2,3) unfolding refs_ok_def by blast
    then show ?thesis using assms(4) k [of t] t same_shapeD(2) [OF s assms(3)] by (simp add: getId_def)
  next
    case False
    then have "getId g n = nd_id (gr_nodes g ! n)" by (simp add: getId_def split: node_kind.split)
    moreover have "getId g' n = nd_id (gr_nodes g' ! n)"
      using False unfolding getId_def same_shapeD(2) [OF s assms(3)] by (simp split: node_kind.split)
    ultimately show ?thesis using k [OF assms(3)] assms(4) by simp
  qed
qed

lemma node_closed_kept:
  assumes "ids_kept g g'" "refs_ok g" "n < next_node g" "node_closed g n"
  shows "node_closed g' n"
proof -
  have s: "same_shape g g'" using assms(1) by (simp add: ids_kept_def)
  have "m < next_node g" if "nd_consumer (gr_nodes g ! n) = Some m \<or> m \<in> set (kind_owned (nd_kind (gr_nodes g ! n)))" for m
    using assms(2,3) that unfolding refs_ok_def by blast
  then have "getId g' m = getId g m" if "nd_consumer (gr_nodes g ! n) = Some m \<or> m \<in> set (kind_owned (nd_kind (gr_nodes g ! n)))" "getId g m \<noteq> 0" for m
    using getId_kept [OF assms(1,2)] that by blast
  then show ?thesis using assms(4) unfolding node_closed_def same_shapeD(2,3) [OF s assms(3)] by metis
qed

lemma numbered_refl: "numbered X b g (b - 1) g"
  by (simp add: numbered_def ids_kept_refl)

lemma numbered_stay: "b \<le> nextid + 1 \<Longrightarrow> numbered X b g nextid g"
  using ids_below_mono [of b g] by (auto simp: numbered_def ids_kept_refl)

lemma numbered_trans:
  assumes "refs_ok g" "numbered X b g k g'" "numbered Y (k + 1) g' l g''"
  shows "numbered (X \<union> Y) b g l g''"
proof -
  have kept: "ids_kept g g'" "ids_kept g' g''" using assms(2,3) by (simp_all add: numbered_def)
  have r: "refs_ok g'" and len: "next_node g' = next_node g"
    using refs_ok_kept [OF kept(1) assms(1)] kept(1) by (simp_all add: ids_kept_def same_shape_def)
  have "node_closed g'' n"
    if n: "n < next_node g" "n \<notin> X \<union> Y" "nd_id (gr_nodes g ! n) = 0" "0 < nd_id (gr_nodes g'' ! n)" for n
  proof (cases "nd_id (gr_nodes g' ! n) = 0")
    case True
    then show ?thesis using assms(3) n len by (simp add: numbered_def)
  next
    case False
    then have "nd_id (gr_nodes g' ! n) = nd_id (gr_nodes g'' ! n)" using kept(2) n len by (simp add: ids_kept_def)
    then have "node_closed g' n" using assms(2) n by (simp add: numbered_def)
    then show ?thesis using node_closed_kept [OF kept(2) r] n len by simp
  qed
  moreover have "b \<le> l + 1" "ids_below b g \<longrightarrow> ids_below (l + 1) g''" using assms(2,3) by (auto simp: numbered_def)
  ultimately show ?thesis using ids_kept_trans [OF kept] by (simp add: numbered_def)
qed

lemma numbered_weaken: "numbered X b g k g' \<Longrightarrow> X \<subseteq> Y \<Longrightarrow> numbered Y b g k g'"
  by (auto simp: numbered_def)

text \<open>Changes of a graph that leave the ids alone.\<close>

definition ids_same :: "graph \<Rightarrow> graph \<Rightarrow> bool" where
  "ids_same g g' \<longleftrightarrow> same_shape g g' \<and> (\<forall>n < next_node g. nd_id (gr_nodes g' ! n) = nd_id (gr_nodes g ! n))"

lemma ids_same_trans: "ids_same g g' \<Longrightarrow> ids_same g' g'' \<Longrightarrow> ids_same g g''"
  by (simp add: ids_same_def same_shape_def)

lemma ids_same_numbered:
  assumes "ids_same g g'" "b \<le> nextid + 1" shows "numbered X b g nextid g'"
proof -
  have "ids_below b g \<Longrightarrow> ids_below (nextid + 1) g'"
    using assms(1) ids_below_mono [OF _ assms(2)] by (fastforce simp: ids_below_def ids_same_def same_shape_def)
  then show ?thesis using assms by (auto simp: numbered_def ids_same_def ids_kept_def)
qed

lemma prepare_edge_same: "prepare_edge p c s g = Inr (l, g') \<Longrightarrow> ids_same g g'"
  by (auto simp: prepare_edge_def Let_def bindR_eq_Inr ids_same_def same_shape_def)

lemma set_node_same:
  assumes "\<And>nd. nd_kind (f nd) = nd_kind nd \<and> nd_consumer (f nd) = nd_consumer nd \<and> nd_id (f nd) = nd_id nd"
  shows "ids_same g (set_node n f g)"
  using assms by (simp add: ids_same_def same_shape_def set_node_nth)

lemma ids_same_refl: "ids_same g g"
  by (simp add: ids_same_def same_shape_def)

lemma prepareConsumerCaller_same: "prepareConsumerCaller n g = Inr g' \<Longrightarrow> ids_same g g'"
  by (auto simp: prepareConsumerCaller_def Let_def bindR_eq_Inr ids_same_refl dest!: prepare_edge_same
      intro!: ids_same_trans [OF _ set_node_same] split: option.splits if_splits)

lemma prepareBranch_same: "prepareBranch n g l = Inr g' \<Longrightarrow> ids_same g g'"
  by (auto simp: prepareBranch_def bindR_eq_Inr dest!: prepare_edge_same intro!: ids_same_trans [OF _ set_node_same])

lemma prepareBranches_same: "foldR (prepareBranch n) g links = Inr g' \<Longrightarrow> ids_same g g'"
proof (induction links arbitrary: g)
  case (Cons l links)
  obtain h where h: "prepareBranch n g l = Inr h" and r: "foldR (prepareBranch n) h links = Inr g'"
    using Cons.prems by (auto simp: bindR_eq_Inr)
  show ?case by (rule ids_same_trans [OF prepareBranch_same [OF h] Cons.IH [OF r]])
qed (simp add: ids_same_refl)

lemma setId_numbered:
  assumes "setId n i g = Inr g'" "n < next_node g" "0 < i"
  shows "numbered {n} i g i g'" "nd_id (gr_nodes g' ! n) = i"
proof -
  have z: "nd_id (gr_nodes g ! n) = 0" and g': "g' = set_node n (\<lambda>nd. nd\<lparr>nd_id := i\<rparr>) g"
    using assms(1) by (auto simp: setId_def split: if_splits)
  show "nd_id (gr_nodes g' ! n) = i" using assms(2) by (simp add: g' set_node_nth)
  have ids: "nd_id (gr_nodes g' ! m) = (if m = n then i else nd_id (gr_nodes g ! m))" if "m < next_node g" for m
    using that by (simp add: g' set_node_nth)
  have len: "next_node g' = next_node g" by (simp add: g')
  have "ids_below (i + 1) g'" if b: "ids_below i g"
    unfolding ids_below_def len
  proof (intro conjI allI impI)
    fix m assume m: "m < next_node g"
    then show "nd_id (gr_nodes g' ! m) < i + 1" using b ids [OF m] by (auto simp: ids_below_def)
    fix k assume k: "k < next_node g" and "0 < nd_id (gr_nodes g' ! m)" "nd_id (gr_nodes g' ! m) = nd_id (gr_nodes g' ! k)"
    then show "m = k" using b m ids [OF m] ids [OF k] unfolding ids_below_def by (metis order_less_irrefl)
  qed
  moreover have "ids_kept g g'" using z ids assms(3) by (auto simp: ids_kept_def same_shape_def g' set_node_nth)
  moreover have "node_closed g' m" if "m < next_node g" "m \<notin> {n}" "nd_id (gr_nodes g ! m) = 0" "0 < nd_id (gr_nodes g' ! m)" for m
    using that ids [of m] by simp
  ultimately show "numbered {n} i g i g'" unfolding numbered_def by simp
qed

lemma setId_error_numbered:
  assumes "setId e i g = Inr g'" "e < next_node g" "i < 0" "0 < b" "nd_kind (gr_nodes g ! e) = ErrorStreamNode"
  shows "numbered {} b g (b - 1) g'" "nd_id (gr_nodes g' ! e) = i"
proof -
  have z: "nd_id (gr_nodes g ! e) = 0" and g': "g' = set_node e (\<lambda>nd. nd\<lparr>nd_id := i\<rparr>) g"
    using assms(1) by (auto simp: setId_def split: if_splits)
  show "nd_id (gr_nodes g' ! e) = i" using assms(2) by (simp add: g' set_node_nth)
  have ids: "nd_id (gr_nodes g' ! m) = (if m = e then i else nd_id (gr_nodes g ! m))" if "m < next_node g" for m
    using that by (simp add: g' set_node_nth)
  have len: "next_node g' = next_node g" by (simp add: g')
  have "ids_below b g'" if b: "ids_below b g"
    unfolding ids_below_def len
  proof (intro conjI allI impI)
    fix m assume m: "m < next_node g"
    then show "nd_id (gr_nodes g' ! m) < b" using b ids [OF m] assms(3,4) by (auto simp: ids_below_def)
    fix k assume k: "k < next_node g" and "0 < nd_id (gr_nodes g' ! m)" "nd_id (gr_nodes g' ! m) = nd_id (gr_nodes g' ! k)"
    then show "m = k" using b m ids [OF m] ids [OF k] assms(3) unfolding ids_below_def by (metis not_less_iff_gr_or_eq)
  qed
  moreover have "ids_kept g g'" using z ids assms(5) by (auto simp: ids_kept_def same_shape_def g' set_node_nth)
  moreover have "node_closed g' m" if "m < next_node g" "nd_id (gr_nodes g ! m) = 0" "0 < nd_id (gr_nodes g' ! m)" for m
    using that ids [of m] assms(3) by (simp split: if_splits)
  ultimately show "numbered {} b g (b - 1) g'" unfolding numbered_def by simp
qed

text \<open>What a node owns is a plain stream; only the links into a join or behind an error stream lead to any node.\<close>

fun owned_ok :: "node_kind \<Rightarrow> node_kind \<Rightarrow> bool" where
  "owned_ok (ProcessNode e) k = (k = ErrorStreamNode)"
| "owned_ok (SinkNode e) k = (k = ErrorStreamNode)"
| "owned_ok (SinkWithResultNode e) k = (k = ErrorStreamNode)"
| "owned_ok (JoinLinkNode j i) k = True"
| "owned_ok (ErrorLinkNode t) k = True"
| "owned_ok _ k = (is_stream k \<and> kind_owned k = [])"

definition graph_refs :: "graph \<Rightarrow> bool" where
  "graph_refs g \<longleftrightarrow> refs_ok g
     \<and> (\<forall>n < next_node g. nd_consumer (gr_nodes g ! n) \<noteq> None \<longrightarrow> is_stream (nd_kind (gr_nodes g ! n)))
     \<and> (\<forall>n < next_node g. nd_id (gr_nodes g ! n) < 0 \<longrightarrow> nd_kind (gr_nodes g ! n) = ErrorStreamNode)
     \<and> (\<forall>n < next_node g. \<forall>m \<in> set (kind_owned (nd_kind (gr_nodes g ! n))). owned_ok (nd_kind (gr_nodes g ! n)) (nd_kind (gr_nodes g ! m)))"

lemma graph_refsD:
  assumes "graph_refs g" "n < next_node g" "m \<in> set (kind_owned (nd_kind (gr_nodes g ! n)))"
  shows "m < next_node g" "owned_ok (nd_kind (gr_nodes g ! n)) (nd_kind (gr_nodes g ! m))"
  using assms unfolding graph_refs_def refs_ok_def by blast+

lemma graph_refs_kept:
  assumes "ids_kept g g'" "graph_refs g" shows "graph_refs g'"
proof -
  have s: "same_shape g g'" using assms(1) by (simp add: ids_kept_def)
  have ro: "refs_ok g" using assms(2) by (simp add: graph_refs_def)
  have "owned_ok (nd_kind (gr_nodes g' ! n)) (nd_kind (gr_nodes g' ! m))"
    if n: "n < next_node g" and m: "m \<in> set (kind_owned (nd_kind (gr_nodes g' ! n)))" for n m
  proof -
    have m': "m \<in> set (kind_owned (nd_kind (gr_nodes g ! n)))" using m unfolding same_shapeD(2) [OF s n] .
    note d = graph_refsD [OF assms(2) n m']
    show ?thesis unfolding same_shapeD(2) [OF s n] same_shapeD(2) [OF s d(1)] by (rule d(2))
  qed
  moreover have "nd_kind (gr_nodes g' ! n) = ErrorStreamNode" if n: "n < next_node g" and i: "nd_id (gr_nodes g' ! n) < 0" for n
    unfolding same_shapeD(2) [OF s n] using assms n i unfolding ids_kept_def graph_refs_def by (cases "nd_id (gr_nodes g ! n) = 0") auto
  moreover have "is_stream (nd_kind (gr_nodes g' ! n))" if n: "n < next_node g" and i: "nd_consumer (gr_nodes g' ! n) \<noteq> None" for n
    using i assms(2) n unfolding same_shapeD(2,3) [OF s n] graph_refs_def by blast
  ultimately show ?thesis using refs_ok_kept [OF assms(1) ro] unfolding graph_refs_def same_shapeD(1) [OF s] by blast
qed

definition topo_spec :: "(nat \<Rightarrow> int \<Rightarrow> graph \<Rightarrow> (stream_error, int \<times> graph) result option) \<Rightarrow> bool" where
  "topo_spec build \<longleftrightarrow> (\<forall>n b g nextid g'. build n b g = Some (Inr (nextid, g')) \<longrightarrow> graph_refs g \<longrightarrow> n < next_node g \<longrightarrow> 0 < b
     \<longrightarrow> is_stream (nd_kind (gr_nodes g ! n)) \<or> getId g n = 0 \<longrightarrow> numbered {} b g nextid g' \<and> getId g' n \<noteq> 0)"

lemma getId_stream: "is_stream (nd_kind (gr_nodes g ! n)) \<Longrightarrow> getId g n = nd_id (gr_nodes g ! n)"
  by (cases "nd_kind (gr_nodes g ! n)") (simp_all add: getId_def)

lemma numbered_kept: "numbered X b g k g' \<Longrightarrow> ids_kept g g'"
  by (simp add: numbered_def)

lemma id_kept: "ids_kept g g' \<Longrightarrow> n < next_node g \<Longrightarrow> nd_id (gr_nodes g ! n) \<noteq> 0 \<Longrightarrow> nd_id (gr_nodes g' ! n) = nd_id (gr_nodes g ! n)"
  unfolding ids_kept_def by blast

lemma kept_length: "ids_kept g g' \<Longrightarrow> next_node g' = next_node g"
  unfolding ids_kept_def same_shape_def by blast

lemma common_numbered:
  assumes "topo_spec build" "buildTopologyCommon build n b g = Some (Inr (nextid, g'))"
    and "graph_refs g" "n < next_node g" "0 < b"
  shows "numbered {n} b g nextid g'" "nd_id (gr_nodes g' ! n) \<noteq> 0"
    "nd_consumer (gr_nodes g ! n) = Some c \<Longrightarrow> getId g' c \<noteq> 0"
proof -
  obtain h where h: "(if nd_id (gr_nodes g ! n) = 0 then setId n b g else Inr g) = Inr h"
    and rest: "(case nd_consumer (gr_nodes h ! n) of
         Some c \<Rightarrow>
           bindT (if getId h c = 0 then build c (b + 1) h else Some (Inr (b, h))) (\<lambda>(nextid, g).
           bindT (Some (prepareConsumerCaller n g)) (\<lambda>g. Some (Inr (nextid, g))))
       | None \<Rightarrow> Some (Inr (b, h))) = Some (Inr (nextid, g'))"
    using assms(2) by (auto simp: buildTopologyCommon_def bindT_eq_Inr)
  have nh: "numbered {n} b g b h" and idh: "nd_id (gr_nodes h ! n) \<noteq> 0"
    using h setId_numbered [of n b g h] assms(4,5) numbered_stay [of b b "{n}" g] by (auto split: if_splits)
  have kept: "ids_kept g h" by (rule numbered_kept [OF nh])
  have s: "same_shape g h" using kept by (simp add: ids_kept_def)
  have cons: "nd_consumer (gr_nodes h ! n) = nd_consumer (gr_nodes g ! n)" by (rule same_shapeD(3) [OF s assms(4)])
  have refs: "graph_refs h" "refs_ok g" using graph_refs_kept [OF kept assms(3)] assms(3) by (simp_all add: graph_refs_def)
  have goal: "numbered {n} b g nextid g' \<and> nd_id (gr_nodes g' ! n) \<noteq> 0 \<and> (\<forall>c. nd_consumer (gr_nodes g ! n) = Some c \<longrightarrow> getId g' c \<noteq> 0)"
  proof (cases "nd_consumer (gr_nodes g ! n)")
    case None
    then show ?thesis using rest cons nh idh by simp
  next
    case (Some c)
    have "c < next_node g" using refs(2) Some assms(4) unfolding refs_ok_def by blast
    then have c: "c < next_node h" using same_shapeD(1) [OF s] by simp
    obtain k where b: "(if getId h c = 0 then build c (b + 1) h else Some (Inr (b, h))) = Some (Inr (nextid, k))"
      and p: "prepareConsumerCaller n k = Inr g'"
      using rest cons Some by (auto simp: bindT_eq_Inr)
    have k: "numbered {} (b + 1) h nextid k \<and> getId k c \<noteq> 0"
    proof (cases "getId h c = 0")
      case True
      then have "build c (b + 1) h = Some (Inr (nextid, k))" using b by simp
      then show ?thesis using assms(1,5) refs(1) c True unfolding topo_spec_def by simp
    qed (use b numbered_stay [of "b + 1" b "{}" h] in simp)
    have pk: "numbered {} (nextid + 1) k nextid g'" by (rule ids_same_numbered [OF prepareConsumerCaller_same [OF p]]) simp
    have nk: "numbered {n} b g nextid k" using numbered_trans [OF refs(2) nh] k by fastforce
    have rk: "refs_ok k" "next_node k = next_node g" "next_node h = next_node g"
      using refs_ok_kept [OF numbered_kept [OF nk] refs(2)] kept_length [OF numbered_kept [OF nk]] same_shapeD(1) [OF s] by blast+
    have hk: "ids_kept h g'" using ids_kept_trans [OF _ numbered_kept [OF pk]] numbered_kept k by blast
    have "numbered {n} b g nextid g'" using numbered_trans [OF refs(2) nk pk] by simp
    moreover have "nd_id (gr_nodes g' ! n) \<noteq> 0"
      using id_kept [OF hk, of n] idh assms(4) rk(3) by simp
    moreover have "getId g' c \<noteq> 0" using getId_kept [OF numbered_kept [OF pk] rk(1), of c] k c rk(2,3) by simp
    ultimately show ?thesis using Some by simp
  qed
  then show "numbered {n} b g nextid g'" "nd_id (gr_nodes g' ! n) \<noteq> 0"
    "nd_consumer (gr_nodes g ! n) = Some c \<Longrightarrow> getId g' c \<noteq> 0" by simp_all
qed

lemma numbered_close:
  assumes "numbered {n} b g k g'" "n < next_node g"
    and "\<And>c. nd_consumer (gr_nodes g ! n) = Some c \<Longrightarrow> getId g' c \<noteq> 0"
    and "\<And>m. m \<in> set (kind_owned (nd_kind (gr_nodes g ! n))) \<Longrightarrow> getId g' m \<noteq> 0"
  shows "numbered {} b g k g'"
proof -
  have s: "same_shape g g'" using assms(1) by (simp add: numbered_def ids_kept_def)
  have "node_closed g' n" using assms(3,4) unfolding node_closed_def same_shapeD(2,3) [OF s assms(2)] by blast
  then show ?thesis using assms(1) unfolding numbered_def by blast
qed

lemma numbered_step:
  assumes "graph_refs g" "numbered X b g k h" "0 < b"
  shows "graph_refs h" "next_node h = next_node g" "0 < k + 1"
    "n < next_node g \<Longrightarrow> nd_kind (gr_nodes h ! n) = nd_kind (gr_nodes g ! n)"
    "numbered Y (k + 1) h l g' \<Longrightarrow> numbered (X \<union> Y) b g l g'"
    "n < next_node g \<Longrightarrow> nd_consumer (gr_nodes h ! n) = nd_consumer (gr_nodes g ! n)"
proof -
  have k: "ids_kept g h" and s: "same_shape g h" using assms(2) by (simp_all add: numbered_def ids_kept_def)
  show "graph_refs h" by (rule graph_refs_kept [OF k assms(1)])
  show "next_node h = next_node g" by (rule kept_length [OF k])
  show "0 < k + 1" using assms(2,3) unfolding numbered_def by linarith
  show "n < next_node g \<Longrightarrow> nd_kind (gr_nodes h ! n) = nd_kind (gr_nodes g ! n)"
    "n < next_node g \<Longrightarrow> nd_consumer (gr_nodes h ! n) = nd_consumer (gr_nodes g ! n)" using same_shapeD [OF s] by blast+
  show "numbered (X \<union> Y) b g l g'" if "numbered Y (k + 1) h l g'"
    using numbered_trans [OF _ assms(2) that] assms(1) by (simp add: graph_refs_def)
qed

lemma common_plain:
  assumes "topo_spec build" "buildTopologyCommon build n b g = Some (Inr (nextid, g'))"
    and "graph_refs g" "n < next_node g" "0 < b" "kind_owned (nd_kind (gr_nodes g ! n)) = []"
  shows "numbered {} b g nextid g'" "nd_id (gr_nodes g' ! n) \<noteq> 0"
  using numbered_close [OF common_numbered(1) [OF assms(1-5)] assms(4) common_numbered(3) [OF assms(1-5)]] common_numbered(2) [OF assms(1-5)] assms(6)
  by simp_all

lemma links_numbered:
  assumes "topo_spec build"
  shows "foldT (\<lambda>(next_id, g) link. buildTopologyCommon build link (next_id + 1) g) (i, g) links = Some (Inr (nextid, g')) \<Longrightarrow>
    graph_refs g \<Longrightarrow> 0 < i + 1 \<Longrightarrow> (\<forall>l \<in> set links. l < next_node g \<and> kind_owned (nd_kind (gr_nodes g ! l)) = []) \<Longrightarrow>
    numbered {} (i + 1) g nextid g' \<and> (\<forall>l \<in> set links. nd_id (gr_nodes g' ! l) \<noteq> 0)"
proof (induction links arbitrary: i g)
  case Nil
  then show ?case using numbered_refl [of "{}" "i + 1" g] by simp
next
  case (Cons l links)
  obtain j h where c: "buildTopologyCommon build l (i + 1) g = Some (Inr (j, h))"
    and r: "foldT (\<lambda>(next_id, g) link. buildTopologyCommon build link (next_id + 1) g) (j, h) links = Some (Inr (nextid, g'))"
    using Cons.prems(1) by (auto simp: bindT_eq_Inr)
  have l: "l < next_node g" "kind_owned (nd_kind (gr_nodes g ! l)) = []" using Cons.prems(4) by simp_all
  note n = common_plain [OF assms c Cons.prems(2) l(1) Cons.prems(3) l(2)]
  note st = numbered_step [OF Cons.prems(2) n(1) Cons.prems(3)]
  have IH: "numbered {} (j + 1) h nextid g' \<and> (\<forall>l \<in> set links. nd_id (gr_nodes g' ! l) \<noteq> 0)"
    using Cons.prems(4) by (intro Cons.IH [OF r st(1,3)]) (simp add: st(2,4))
  then have "nd_id (gr_nodes g' ! l) \<noteq> 0" using n(2) id_kept [OF numbered_kept, of "{}" "j + 1" h nextid g' l] l(1) st(2) by simp
  then show ?case using IH st(5) [of "{}" nextid g'] by simp
qed

lemma prepare_error_numbered:
  assumes "prepare_error n e g = Inr g'" "0 < getId g n" "e < next_node g" "nd_kind (gr_nodes g ! e) = ErrorStreamNode" "0 < b" "graph_refs g"
  shows "numbered {} b g (b - 1) g'" "getId g' e \<noteq> 0"
proof -
  obtain h where h: "setId e (0 - getId g n) g = Inr h" and p: "prepareConsumerCaller e h = Inr g'"
    using assms(1) by (auto simp: prepare_error_def bindR_eq_Inr)
  have neg: "0 - getId g n < 0" using assms(2) by simp
  note s = setId_error_numbered [OF h assms(3) neg assms(5,4)]
  note st = numbered_step [OF assms(6) s(1) assms(5)]
  have pk: "numbered {} (b - 1 + 1) h (b - 1) g'" by (rule ids_same_numbered [OF prepareConsumerCaller_same [OF p]]) simp
  show "numbered {} b g (b - 1) g'" using st(5) [OF pk] by simp
  have "getId h e \<noteq> 0" using s(2) neg assms(3,4) st(4) by (simp add: getId_def)
  then show "getId g' e \<noteq> 0"
    using getId_kept [OF numbered_kept [OF pk], of e] st(1,2) assms(3) by (simp add: graph_refs_def)
qed

lemma own_id_first:
  assumes "(if nd_id (gr_nodes g ! n) = 0 then setId n b g else Inr g) = Inr h" "n < next_node g" "0 < b"
  shows "numbered {n} b g b h" "nd_id (gr_nodes h ! n) \<noteq> 0"
  using assms setId_numbered [of n b g h] numbered_stay [of b b "{n}" g] by (auto split: if_splits)

lemma number_then:
  assumes "numbered {n} b g b h" "nd_id (gr_nodes h ! n) \<noteq> 0" "numbered {} (b + 1) h nextid g'"
    and "graph_refs g" "n < next_node g" "0 < b" "\<not> is_stream (nd_kind (gr_nodes g ! n))"
    and "\<And>m. m \<in> set (kind_owned (nd_kind (gr_nodes g ! n))) \<Longrightarrow> getId g' m \<noteq> 0"
  shows "numbered {} b g nextid g'" "nd_id (gr_nodes g' ! n) \<noteq> 0"
proof -
  note st = numbered_step [OF assms(4,1,6)]
  have "nd_consumer (gr_nodes g ! n) = None" using assms(4,5,7) unfolding graph_refs_def by blast
  then show "numbered {} b g nextid g'"
    using st(5) [OF assms(3)] by (intro numbered_close [OF _ assms(5) _ assms(8)]) simp_all
  show "nd_id (gr_nodes g' ! n) \<noteq> 0" using id_kept [OF numbered_kept [OF assms(3)], of n] assms(2,5) st(2) by simp
qed

lemma getId_plain: "\<forall>t. nd_kind (gr_nodes g ! n) \<noteq> SourceLinkNode t \<Longrightarrow> getId g n = nd_id (gr_nodes g ! n)"
  by (simp add: getId_def split: node_kind.split)

lemma link_numbered:
  assumes "topo_spec build" "setId n b g = Inr h" "(if getId h t = 0 then build t (b + 1) h else Some (Inr (b, h))) = Some (Inr (nextid, g'))"
    and "graph_refs g" "n < next_node g" "0 < b" "\<not> is_stream (nd_kind (gr_nodes g ! n))" "kind_owned (nd_kind (gr_nodes g ! n)) = [t]"
  shows "numbered {} b g nextid g'" "nd_id (gr_nodes g' ! n) \<noteq> 0"
proof -
  note s = setId_numbered [OF assms(2,5,6)]
  note st = numbered_step [OF assms(4) s(1) assms(6)]
  have t: "t < next_node h" using graph_refsD(1) [OF assms(4,5), of t] assms(8) st(2) by simp
  have k: "numbered {} (b + 1) h nextid g' \<and> getId g' t \<noteq> 0"
  proof (cases "getId h t = 0")
    case True
    then have "build t (b + 1) h = Some (Inr (nextid, g'))" using assms(3) by simp
    then show ?thesis using assms(1,6) st(1) t True unfolding topo_spec_def by simp
  qed (use assms(3) numbered_stay [of "b + 1" b "{}" h] in simp)
  have i: "nd_id (gr_nodes h ! n) \<noteq> 0" using s(2) assms(6) by simp
  show "numbered {} b g nextid g'" "nd_id (gr_nodes g' ! n) \<noteq> 0"
    using number_then [OF s(1) i _ assms(4-7), of nextid g'] k assms(8) by simp_all
qed

lemma merge_link_numbered:
  assumes "topo_spec build" "setId n b g = Inr h" "build t (b + 1) h = Some (Inr (nextid, g'))"
    and "graph_refs g" "n < next_node g" "0 < b" "nd_kind (gr_nodes g ! n) = MergeLinkNode t"
  shows "numbered {} b g nextid g'" "nd_id (gr_nodes g' ! n) \<noteq> 0"
proof -
  note s = setId_numbered [OF assms(2,5,6)]
  note st = numbered_step [OF assms(4) s(1) assms(6)]
  have t: "t < next_node g" "is_stream (nd_kind (gr_nodes g ! t))" using graph_refsD [OF assms(4,5), of t] assms(7) by simp_all
  have k: "numbered {} (b + 1) h nextid g' \<and> getId g' t \<noteq> 0"
    using assms(1,3) st(1,2) st(4) [OF t(1)] t assms(6) unfolding topo_spec_def by simp
  have i: "nd_id (gr_nodes h ! n) \<noteq> 0" using s(2) assms(6) by simp
  show "numbered {} b g nextid g'" "nd_id (gr_nodes g' ! n) \<noteq> 0"
    using number_then [OF s(1) i _ assms(4-6), of nextid g'] k assms(7) by simp_all
qed

lemma positive_id:
  assumes "graph_refs g" "n < next_node g" "nd_id (gr_nodes g ! n) \<noteq> 0" "nd_kind (gr_nodes g ! n) \<in> {ProcessNode e, SinkWithResultNode e, SinkNode e}"
  shows "0 < getId g n"
proof -
  have "\<not> nd_id (gr_nodes g ! n) < 0" using assms unfolding graph_refs_def by auto
  then show ?thesis using getId_plain [of g n] assms(3,4) by auto
qed

lemma consumer_id_kept:
  assumes "graph_refs g" "n < next_node g" "nd_consumer (gr_nodes g ! n) = Some c" "ids_kept g g'" "getId g c \<noteq> 0"
  shows "getId g' c \<noteq> 0"
proof -
  have "refs_ok g" "c < next_node g" using assms(1-3) unfolding graph_refs_def refs_ok_def by blast+
  then show ?thesis using getId_kept [OF assms(4) _ _ assms(5)] assms(5) by simp
qed

lemma error_owner_numbered:
  assumes "topo_spec build" "buildTopologyCommon build n b g = Some (Inr (nextid, h))" "prepare_error n e h = Inr g'"
    and "graph_refs g" "n < next_node g" "0 < b" "nd_kind (gr_nodes g ! n) \<in> {ProcessNode e, SinkWithResultNode e}"
  shows "numbered {} b g nextid g'" "nd_id (gr_nodes g' ! n) \<noteq> 0"
proof -
  note c = common_numbered [OF assms(1,2,4-6)]
  note st = numbered_step [OF assms(4) c(1) assms(6)]
  have e: "e < next_node g" "nd_kind (gr_nodes g ! e) = ErrorStreamNode" using graph_refsD [OF assms(4,5), of e] assms(7) by auto
  have nh: "n < next_node h" "nd_kind (gr_nodes h ! n) \<in> {ProcessNode e, SinkWithResultNode e, SinkNode e}"
    using assms(5,7) st(2) st(4) [OF assms(5)] by simp_all blast
  note g = positive_id [OF st(1) nh(1) c(2) nh(2)]
  have e': "e < next_node h" "nd_kind (gr_nodes h ! e) = ErrorStreamNode" using e st(2,4) by simp_all
  note p = prepare_error_numbered [OF assms(3) g e' st(3,1)]
  have pk: "numbered {} (nextid + 1) h nextid g'" using p(1) by simp
  have "getId g' c \<noteq> 0" if "nd_consumer (gr_nodes g ! n) = Some c" for c
    using consumer_id_kept [OF st(1) _ _ numbered_kept [OF pk] c(3) [OF that]] that assms(5) st(2) st(6) [OF assms(5)] by simp
  moreover have "getId g' m \<noteq> 0" if "m \<in> set (kind_owned (nd_kind (gr_nodes g ! n)))" for m using that assms(7) p(2) by auto
  moreover have "numbered {n} b g nextid g'" using st(5) [OF pk] by simp
  ultimately show "numbered {} b g nextid g'" using numbered_close [OF _ assms(5)] by blast
  show "nd_id (gr_nodes g' ! n) \<noteq> 0" using id_kept [OF numbered_kept [OF pk], of n] c(2) assms(5) st(2) by simp
qed

lemma input_numbered:
  assumes "topo_spec build" "buildTopologyCommon build n b g = Some (Inr (k, h))" "buildTopologyCommon build e (k + 1) h = Some (Inr (nextid, g'))"
    and "graph_refs g" "n < next_node g" "0 < b" "nd_kind (gr_nodes g ! n) = InputNode e"
  shows "numbered {} b g nextid g'" "nd_id (gr_nodes g' ! n) \<noteq> 0"
proof -
  note c = common_numbered [OF assms(1,2,4-6)]
  note st = numbered_step [OF assms(4) c(1) assms(6)]
  have e: "e < next_node g" "is_stream (nd_kind (gr_nodes g ! e))" "kind_owned (nd_kind (gr_nodes g ! e)) = []"
    using graph_refsD [OF assms(4,5), of e] assms(7) by auto
  have e': "e < next_node h" "kind_owned (nd_kind (gr_nodes h ! e)) = []" using e st(2,4) by simp_all
  note p = common_plain [OF assms(1,3) st(1) e'(1) st(3) e'(2)]
  have "nd_kind (gr_nodes g' ! e) = nd_kind (gr_nodes g ! e)" using numbered_step(4) [OF st(1) p(1) st(3) e'(1)] st(4) [OF e(1)] by simp
  then have ge: "getId g' e \<noteq> 0" using p(2) getId_stream [of g' e] e(2) by simp
  have "getId g' c \<noteq> 0" if "nd_consumer (gr_nodes g ! n) = Some c" for c
    using consumer_id_kept [OF st(1) _ _ numbered_kept [OF p(1)] c(3) [OF that]] that assms(5) st(2) st(6) [OF assms(5)] by simp
  moreover have "getId g' m \<noteq> 0" if "m \<in> set (kind_owned (nd_kind (gr_nodes g ! n)))" for m using that assms(7) ge by auto
  moreover have "numbered {n} b g nextid g'" using st(5) [OF p(1)] by simp
  ultimately show "numbered {} b g nextid g'" using numbered_close [OF _ assms(5)] by blast
  show "nd_id (gr_nodes g' ! n) \<noteq> 0" using id_kept [OF numbered_kept [OF p(1)], of n] c(2) assms(5) st(2) by simp
qed

lemma branches_numbered:
  assumes "topo_spec build" "setId n b g = Inr h"
    and "foldT (\<lambda>(next_id, g) link. buildTopologyCommon build link (next_id + 1) g) (b, h) links = Some (Inr (nextid, k))" "ids_same k g'"
    and "graph_refs g" "n < next_node g" "0 < b" "nd_kind (gr_nodes g ! n) \<in> {SplitNode links, CaseNode links}"
  shows "numbered {} b g nextid g'" "nd_id (gr_nodes g' ! n) \<noteq> 0"
proof -
  note s = setId_numbered [OF assms(2,6,7)]
  note st = numbered_step [OF assms(5) s(1) assms(7)]
  have l: "l < next_node g \<and> is_stream (nd_kind (gr_nodes g ! l)) \<and> kind_owned (nd_kind (gr_nodes g ! l)) = []" if "l \<in> set links" for l
    using graph_refsD [OF assms(5,6), of l] assms(8) that by auto
  then have "\<forall>l \<in> set links. l < next_node h \<and> kind_owned (nd_kind (gr_nodes h ! l)) = []" using st(2,4) by simp
  then have f: "numbered {} (b + 1) h nextid k \<and> (\<forall>l \<in> set links. nd_id (gr_nodes k ! l) \<noteq> 0)"
    using links_numbered [OF assms(1,3) st(1,3)] by blast
  note st2 = numbered_step [OF st(1) conjunct1 [OF f] st(3)]
  have kk: "numbered {} (nextid + 1) k nextid g'" by (rule ids_same_numbered [OF assms(4)]) simp
  have hg: "numbered {} (b + 1) h nextid g'" using st2(5) [OF kk] by simp
  have "getId g' m \<noteq> 0" if m: "m \<in> set (kind_owned (nd_kind (gr_nodes g ! n)))" for m
  proof -
    have ml: "m \<in> set links" using m assms(8) by auto
    have "nd_kind (gr_nodes k ! m) = nd_kind (gr_nodes g ! m)" using l [OF ml] st(2,4) st2(4) by simp
    then have "getId k m \<noteq> 0" using getId_stream [of k m] l [OF ml] f ml by simp
    then show ?thesis using getId_kept [OF numbered_kept [OF kk], of m] st2(1,2) st(2) l [OF ml] by (simp add: graph_refs_def)
  qed
  then show "numbered {} b g nextid g'" "nd_id (gr_nodes g' ! n) \<noteq> 0"
    using number_then [OF s(1) _ hg assms(5-7)] s(2) assms(7,8) by auto
qed

lemma sink_numbered:
  assumes "(if nd_id (gr_nodes g ! n) = 0 then setId n b g else Inr g) = Inr h" "prepare_error n e h = Inr g'"
    and "graph_refs g" "n < next_node g" "0 < b" "nd_kind (gr_nodes g ! n) = SinkNode e"
  shows "numbered {} b g b g'" "nd_id (gr_nodes g' ! n) \<noteq> 0"
proof -
  note s = own_id_first [OF assms(1,4,5)]
  note st = numbered_step [OF assms(3) s(1) assms(5)]
  have e: "e < next_node g" "nd_kind (gr_nodes g ! e) = ErrorStreamNode" using graph_refsD [OF assms(3,4), of e] assms(6) by auto
  have e': "e < next_node h" "nd_kind (gr_nodes h ! e) = ErrorStreamNode" using e st(2,4) by simp_all
  have nh: "n < next_node h" "nd_kind (gr_nodes h ! n) \<in> {ProcessNode e, SinkWithResultNode e, SinkNode e}"
    using assms(4,6) st(2) st(4) [OF assms(4)] by simp_all
  note g = positive_id [OF st(1) nh(1) s(2) nh(2)]
  note p = prepare_error_numbered [OF assms(2) g e' st(3,1)]
  have pk: "numbered {} (b + 1) h b g'" using p(1) by simp
  show "numbered {} b g b g'" "nd_id (gr_nodes g' ! n) \<noteq> 0"
    using number_then [OF s pk assms(3-5)] p(2) assms(6) by simp_all
qed

subsection \<open>Owned nodes of a constructed graph\<close>

definition sound :: "graph \<Rightarrow> bool" where
  "sound g \<longleftrightarrow> (\<forall>n < next_node g. nd_id (gr_nodes g ! n) = 0
       \<and> (\<forall>m \<in> set (kind_owned (nd_kind (gr_nodes g ! n))). m < next_node g \<and> owned_ok (nd_kind (gr_nodes g ! n)) (nd_kind (gr_nodes g ! m))))
     \<and> (\<forall>s \<in> set (gr_streams g). stream_at g s \<and> nd_kind (gr_nodes g ! s) \<noteq> ErrorStreamNode)"

definition shape :: "graph \<Rightarrow> (node_kind \<times> int) list \<times> nat list" where
  "shape g = (map (\<lambda>nd. (nd_kind nd, nd_id nd)) (gr_nodes g), gr_streams g)"

lemma shapeD:
  assumes "shape g' = shape g"
  shows "next_node g' = next_node g" "gr_streams g' = gr_streams g"
    "n < next_node g \<Longrightarrow> nd_kind (gr_nodes g' ! n) = nd_kind (gr_nodes g ! n)" "n < next_node g \<Longrightarrow> nd_id (gr_nodes g' ! n) = nd_id (gr_nodes g ! n)"
proof -
  have m: "map (\<lambda>nd. (nd_kind nd, nd_id nd)) (gr_nodes g') = map (\<lambda>nd. (nd_kind nd, nd_id nd)) (gr_nodes g)" using assms by (simp add: shape_def)
  show l: "next_node g' = next_node g" by (rule map_eq_imp_length_eq [OF m])
  show "gr_streams g' = gr_streams g" using assms by (simp add: shape_def)
  show "n < next_node g \<Longrightarrow> nd_kind (gr_nodes g' ! n) = nd_kind (gr_nodes g ! n)" "n < next_node g \<Longrightarrow> nd_id (gr_nodes g' ! n) = nd_id (gr_nodes g ! n)"
    using arg_cong [OF m, of "\<lambda>xs. xs ! n"] l by simp_all
qed

lemma shape_set_node: "(\<And>nd. nd_kind (f nd) = nd_kind nd \<and> nd_id (f nd) = nd_id nd) \<Longrightarrow> shape (set_node n f g) = shape g"
  unfolding shape_def set_node_def
  by (cases "n < next_node g") (auto simp: nth_list_update list_update_beyond intro!: nth_equalityI)

lemma shape_callers: "shape (g\<lparr>gr_callers := c\<rparr>) = shape g"
  by (simp add: shape_def)

lemma shape_prepare: "prepareConsumerCaller n g = Inr g' \<Longrightarrow> shape g' = shape g"
  by (auto simp: prepareConsumerCaller_def prepare_edge_def Let_def bindR_eq_Inr shape_set_node shape_callers split: option.splits if_splits)

lemma shape_setConsumer: "setConsumer n c g = Inr g' \<Longrightarrow> shape g' = shape g"
  by (auto simp: setConsumer_def Let_def shape_set_node dest: shape_prepare split: if_splits)

lemma sound_shape:
  assumes "shape g' = shape g" "sound g" shows "sound g'"
proof -
  note d = shapeD [OF assms(1)]
  have "m < next_node g \<and> owned_ok (nd_kind (gr_nodes g' ! n)) (nd_kind (gr_nodes g' ! m))"
    if n: "n < next_node g" and "m \<in> set (kind_owned (nd_kind (gr_nodes g' ! n)))" for n m
  proof -
    have "m \<in> set (kind_owned (nd_kind (gr_nodes g ! n)))" using that(2) unfolding d(3) [OF n] .
    then have m: "m < next_node g" "owned_ok (nd_kind (gr_nodes g ! n)) (nd_kind (gr_nodes g ! m))"
      using assms(2) n unfolding sound_def by blast+
    then show ?thesis unfolding d(3) [OF n] d(3) [OF m(1)] by blast
  qed
  moreover have "stream_at g' s \<and> nd_kind (gr_nodes g' ! s) \<noteq> ErrorStreamNode" if "s \<in> set (gr_streams g')" for s
  proof -
    have "stream_at g s \<and> nd_kind (gr_nodes g ! s) \<noteq> ErrorStreamNode" using that assms(2) unfolding d(2) sound_def by blast
    then show ?thesis using d(3) [of s] unfolding stream_at_def d(1) by simp
  qed
  moreover have "nd_id (gr_nodes g' ! n) = 0" if "n < next_node g" for n
    using that assms(2) unfolding d(4) [OF that] sound_def by blast
  ultimately show ?thesis unfolding sound_def d(1) by blast
qed

lemma sound_add:
  assumes "sound g" "\<And>m. m \<in> set (kind_owned kind) \<Longrightarrow> m < next_node g \<and> owned_ok kind (nd_kind (gr_nodes g ! m))"
  shows "sound (add_node (new_node kind i name) g)"
proof -
  let ?h = "add_node (new_node kind i name) g"
  have old: "gr_nodes ?h ! n = gr_nodes g ! n" if "n < next_node g" for n using that by (simp add: add_node_nth)
  have new: "gr_nodes ?h ! next_node g = new_node kind i name" by (simp add: add_node_nth)
  have "nd_id (gr_nodes ?h ! n) = 0
       \<and> (\<forall>m \<in> set (kind_owned (nd_kind (gr_nodes ?h ! n))). m < next_node ?h \<and> owned_ok (nd_kind (gr_nodes ?h ! n)) (nd_kind (gr_nodes ?h ! m)))"
    if "n < next_node ?h" for n
  proof (cases "n = next_node g")
    case True
    then show ?thesis using assms(2) new old by (simp add: new_node_def less_SucI)
  next
    case False
    then have n: "n < next_node g" using that by simp
    have "\<forall>m \<in> set (kind_owned (nd_kind (gr_nodes g ! n))). m < next_node g \<and> owned_ok (nd_kind (gr_nodes g ! n)) (nd_kind (gr_nodes g ! m))"
      "nd_id (gr_nodes g ! n) = 0" using assms(1) n unfolding sound_def by blast+
    then show ?thesis unfolding old [OF n] using old by (simp add: less_SucI)
  qed
  moreover have "stream_at ?h s \<and> nd_kind (gr_nodes ?h ! s) \<noteq> ErrorStreamNode" if "s \<in> set (gr_streams ?h)" for s
    using that assms(1) old [of s] unfolding sound_def stream_at_def by auto
  ultimately show ?thesis unfolding sound_def by blast
qed

lemma sound_connect:
  assumes "sound g" "\<And>m. m \<in> set (kind_owned kind) \<Longrightarrow> m < next_node g \<and> owned_ok kind (nd_kind (gr_nodes g ! m))"
    and "setConsumer up c (add_node (new_node kind i name) g) = Inr g'"
  shows "sound g'"
  by (rule sound_shape [OF shape_setConsumer [OF assms(3)] sound_add [OF assms(1,2)]])

lemma sound_append:
  assumes "sound g" "\<forall>nd \<in> set nds. \<exists>kind i name. nd = new_node kind i name \<and> kind_owned kind = []"
  shows "sound (g\<lparr>gr_nodes := gr_nodes g @ nds\<rparr>)"
  using assms
proof (induction nds arbitrary: g)
  case (Cons nd nds)
  have "sound (add_node nd g)" using Cons.prems sound_add [OF Cons.prems(1)] by fastforce
  then show ?case using Cons.IH [of "add_node nd g"] Cons.prems(2) by (simp add: add_node_def)
qed simp

lemma sound_with_error:
  assumes "sound g" "add_with_error kind errorKind i name g = (n, g')" "kind_owned errorKind = []" "kind_owned (kind (next_node g)) = [next_node g]"
    and "owned_ok (kind (next_node g)) errorKind"
  shows "sound g'" "n < next_node g'" "nd_kind (gr_nodes g' ! n) = kind (next_node g)"
proof -
  let ?e = "add_node (new_node errorKind i (name @ ''Error'')) g"
  have e: "sound ?e" using assms(3) by (intro sound_add [OF assms(1)]) simp
  have "nd_kind (gr_nodes ?e ! next_node g) = errorKind" by (simp add: add_node_nth new_node_def)
  then have "sound (add_node (new_node (kind (next_node g)) i name) ?e)" using assms(4,5) by (intro sound_add [OF e]) simp
  then show "sound g'" "n < next_node g'" "nd_kind (gr_nodes g' ! n) = kind (next_node g)"
    using assms(2) by (auto simp: add_with_error_def add_node_nth new_node_def)
qed

lemma sound_links:
  assumes "sound g" "nds = map (\<lambda>(i, nm). new_node link i nm) xs" "kind_owned link = []" "is_stream link"
    and "kind_owned kind = [next_node g..<next_node g + length xs]" "\<And>k. owned_ok kind k \<longleftrightarrow> is_stream k \<and> kind_owned k = []"
  shows "sound (add_node (new_node kind i name) (g\<lparr>gr_nodes := gr_nodes g @ nds\<rparr>))"
proof -
  have a: "sound (g\<lparr>gr_nodes := gr_nodes g @ nds\<rparr>)"
    using assms(3) unfolding assms(2) by (intro sound_append [OF assms(1)]) auto
  show ?thesis
    using assms(3,4) by (intro sound_add [OF a]) (auto simp: assms(2,5,6) nth_append new_node_def split: prod.split)
qed

lemma sound_register: "sound g \<Longrightarrow> stream_at g n \<Longrightarrow> nd_kind (gr_nodes g ! n) \<noteq> ErrorStreamNode \<Longrightarrow> sound (registerStream n g)"
  by (auto simp: sound_def registerStream_def stream_at_def)

lemma sound_setErrorConsumer:
  assumes "sound g" "target < next_node g" "setErrorConsumer e target g = Inr g'"
  shows "sound g'" "\<exists>h. shape h = shape g' \<and> h = add_node (new_node (ErrorLinkNode target) 0 []) g"
proof -
  let ?h = "add_node (new_node (ErrorLinkNode target) 0 []) g"
  obtain k where k: "setConsumer e (next_node g) ?h = Inr k" and p: "prepareConsumerCaller e k = Inr g'"
    using assms(3) by (auto simp: setErrorConsumer_def Let_def bindR_eq_Inr)
  have s: "shape g' = shape ?h" using shape_prepare [OF p] shape_setConsumer [OF k] by simp
  then show "\<exists>h. shape h = shape g' \<and> h = add_node (new_node (ErrorLinkNode target) 0 []) g" by auto
  show "sound g'" using assms(2) by (intro sound_shape [OF s] sound_add [OF assms(1)]) simp
qed

lemma shape_add_kind:
  assumes "shape g' = shape (add_node nd g)" "n < next_node g"
  shows "n < next_node g'" "nd_kind (gr_nodes g' ! n) = nd_kind (gr_nodes g ! n)"
  using shapeD(1) [OF assms(1)] shapeD(3) [OF assms(1), of n] assms(2) by (simp_all add: add_node_nth)

lemma sound_sources:
  assumes "sound g" "merge < next_node g" "nd_kind (gr_nodes g ! merge) = MergeNode"
    and "foldR (connectAdditionalSource merge) g others = Inr g'"
  shows "sound g'"
  using assms
proof (induction others arbitrary: g)
  case (Cons s others)
  obtain h where h: "connectAdditionalSource merge g s = Inr h" and r: "foldR (connectAdditionalSource merge) h others = Inr g'"
    using Cons.prems(4) by (auto simp: bindR_eq_Inr)
  have "sound h \<and> merge < next_node h \<and> nd_kind (gr_nodes h ! merge) = MergeNode"
  proof (cases "nd_kind (gr_nodes g ! s) = ErrorStreamNode")
    case True
    then have e: "setErrorConsumer s merge g = Inr h" using h by (simp add: connectAdditionalSource_def)
    note d = sound_setErrorConsumer [OF Cons.prems(1,2) e]
    then have "shape h = shape (add_node (new_node (ErrorLinkNode merge) 0 []) g)" by simp
    then show ?thesis using d(1) shape_add_kind [OF _ Cons.prems(2)] Cons.prems(3) by metis
  next
    case False
    then have c: "setConsumer s (next_node g) (add_node (new_node (MergeLinkNode merge) 0 []) g) = Inr h" using h by (simp add: connectAdditionalSource_def)
    have "sound h" by (rule sound_connect [OF Cons.prems(1) _ c]) (use Cons.prems(2,3) in simp)
    then show ?thesis using shape_add_kind [OF shape_setConsumer [OF c] Cons.prems(2)] Cons.prems(3) by simp
  qed
  then show ?case using Cons.IH [OF _ _ _ r] by blast
qed simp

lemma sound_right:
  assumes "sound g" "join < next_node g" "foldR (connect_right join) (g, i) others = Inr (g', i')"
  shows "sound g'"
  using assms
proof (induction others arbitrary: g i)
  case (Cons s others)
  obtain h where h: "setConsumer s (next_node g) (add_node (new_node (JoinLinkNode join i) 0 []) g) = Inr h"
    and r: "foldR (connect_right join) (h, i + 1) others = Inr (g', i')"
    using Cons.prems(3) by (auto simp: bindR_eq_Inr connect_right_def)
  have "sound h" by (rule sound_connect [OF Cons.prems(1) _ h]) (use Cons.prems(2) in simp)
  then show ?case using Cons.IH [OF _ _ r] shape_add_kind(1) [OF shape_setConsumer [OF h] Cons.prems(2)] by blast
qed simp

lemma sound_merge:
  assumes "sound g" "build_step g (AddMerge up others i name) = Inr g'"
  shows "sound g'"
proof -
  let ?m = "next_node g"
  let ?a = "add_node (new_node MergeNode i name) g"
  let ?h = "add_node (new_node (MergeLinkNode ?m) 0 []) ?a"
  obtain k where k: "setConsumer up (?m + 1) ?h = Inr k" and r: "foldR (connectAdditionalSource ?m) k others = Inr g'"
    using assms(2) by (auto simp: Let_def bindR_eq_Inr)
  have a: "sound ?a" by (rule sound_add [OF assms(1)]) simp
  have m: "?m < next_node ?a" "nd_kind (gr_nodes ?a ! ?m) = MergeNode" by (simp_all add: add_node_nth new_node_def)
  have "sound k" by (rule sound_connect [OF a _ k]) (use m in simp)
  then show ?thesis using sound_sources [OF _ _ _ r] shape_add_kind [OF shape_setConsumer [OF k] m(1)] m(2) by simp
qed

lemma sound_join:
  assumes "sound g" "build_step g (AddJoin up others i name) = Inr g'"
  shows "sound g'"
proof -
  let ?h = "add_node (new_node TransformNode i name) g"
  obtain k j where r: "foldR (connect_right (next_node g)) (?h, 0) others = Inr (k, j)" and s: "setConsumer up (next_node g) k = Inr g'"
    using assms(2) by (auto simp: Let_def bindR_eq_Inr)
  have "sound ?h" by (rule sound_add [OF assms(1)]) simp
  then have "sound k" using sound_right [OF _ _ r] by simp
  then show ?thesis by (rule sound_shape [OF shape_setConsumer [OF s]])
qed

lemma sound_result:
  assumes "sound g" "setResultSource n source g = Inr g'"
  shows "sound g'"
proof -
  obtain h c where c: "c = next_node g" "sound h" "\<exists>i nm k. setConsumer source c (add_node (new_node (ResultLinkNode n) i nm) h) = Inr k \<and> shape g' = shape k"
  proof (cases "nd_kind (gr_nodes g ! n) = SubStreamNode")
    case True
    then have "\<exists>i nm k. setConsumer source (next_node g) (add_node (new_node (ResultLinkNode n) i nm) g) = Inr k \<and> shape g' = shape k"
      using assms(2) by (fastforce simp: setResultSource_def Let_def bindR_eq_Inr shape_set_node split: if_splits)
    then show ?thesis using that [of "next_node g" g] assms(1) by blast
  next
    case False
    let ?h = "set_node n (\<lambda>nd. nd\<lparr>nd_source := Some source\<rparr>) g"
    have "sound ?h" by (rule sound_shape [OF shape_set_node assms(1)]) simp
    moreover have "setConsumer source (next_node g) (add_node (new_node (ResultLinkNode n) (nd_configId (gr_nodes g ! n)) []) ?h) = Inr g'"
      using assms(2) False by (auto simp: setResultSource_def Let_def split: node_kind.splits if_splits)
    ultimately show ?thesis using that [of "next_node g" ?h] by blast
  qed
  then obtain i nm k where k: "setConsumer source c (add_node (new_node (ResultLinkNode n) i nm) h) = Inr k" "shape g' = shape k" by blast
  have "sound k" by (rule sound_connect [OF c(2) _ k(1)]) simp
  then show ?thesis by (rule sound_shape [OF k(2)])
qed

lemma sound_owner:
  assumes "sound g" "kind \<in> {ProcessNode, SinkNode, SinkWithResultNode}"
    and "(case add_with_error kind ErrorStreamNode i name g of (n, g) \<Rightarrow> setConsumer up n g) = Inr g'"
  shows "sound g'"
proof -
  obtain n h where h: "add_with_error kind ErrorStreamNode i name g = (n, h)" by fastforce
  then have s: "setConsumer up n h = Inr g'" using assms(3) by simp
  have "sound h" using sound_with_error(1) [OF assms(1) h] assms(2) by auto
  then show ?thesis by (rule sound_shape [OF shape_setConsumer [OF s]])
qed

lemma sound_step:
  assumes "sound g" "op_ok g op" "build_step g op = Inr g'"
  shows "sound g'"
proof (cases op)
  case (AddInput i name)
  obtain n h where h: "add_with_error InputNode InputErrorNode i name g = (n, h)" by fastforce
  have "sound h \<and> n < next_node h \<and> nd_kind (gr_nodes h ! n) = InputNode (next_node g)" using sound_with_error [OF assms(1) h] by simp
  then show ?thesis using assms(3) h AddInput sound_register [of h n] by (auto simp: stream_at_def)
next
  case (AddSubStream i name)
  have "sound (add_node (new_node SubStreamNode i name) g)" by (rule sound_add [OF assms(1)]) simp
  then show ?thesis using sound_register [of _ "next_node g"] assms(3) AddSubStream by (auto simp: stream_at_def add_node_nth new_node_def)
next
  case (AddCycleLink i name)
  have "sound (add_node (new_node CycleLinkNode i name) g)" by (rule sound_add [OF assms(1)]) simp
  then show ?thesis using sound_register [of _ "next_node g"] assms(3) AddCycleLink by (auto simp: stream_at_def add_node_nth new_node_def)
next
  case (AddTransform up i name)
  then show ?thesis using assms(3) sound_connect [OF assms(1), where kind = TransformNode and up = up] by simp
next
  case (AddProcess up i name)
  then show ?thesis using sound_owner [OF assms(1), where kind = ProcessNode and up = up] assms(3) by simp
next
  case (AddSink up i name)
  then show ?thesis using sound_owner [OF assms(1), where kind = SinkNode and up = up] assms(3) by simp
next
  case (AddSinkWithResult up i name)
  then show ?thesis using sound_owner [OF assms(1), where kind = SinkWithResultNode and up = up] assms(3) by simp
next
  case (AddSplit up i name k)
  let ?xs = "map (\<lambda>i. (0, name @ ''SplitLink'' @ to_decimal i)) [0..<k]"
  have "split_links name k = map (\<lambda>(i, nm). new_node SplitLinkNode i nm) ?xs" by (simp add: split_links_def)
  then have "sound (snd (add_split i name k g))"
    unfolding add_split_def snd_conv by (rule sound_links [OF assms(1)]) simp_all
  then show ?thesis using assms(3) AddSplit sound_shape [OF shape_setConsumer] by (simp add: add_split_def)
next
  case (AddCase up i name whens)
  have "sound (snd (add_case i name whens g))"
    unfolding add_case_def snd_conv by (rule sound_links [OF assms(1) refl]) simp_all
  then show ?thesis using assms(3) AddCase sound_shape [OF shape_setConsumer] by (simp add: add_case_def)
next
  case (AddMerge up others i name)
  then show ?thesis using sound_merge [OF assms(1)] assms(3) by simp
next
  case (AddJoin up others i name)
  then show ?thesis using sound_join [OF assms(1)] assms(3) by simp
next
  case (SetErrorConsumer e target)
  then show ?thesis using sound_setErrorConsumer(1) [OF assms(1), of target e g'] assms(2,3) by simp
next
  case (SetCycleSource cycle source)
  let ?h = "set_node cycle (\<lambda>nd. nd\<lparr>nd_source := Some source\<rparr>) g"
  have a: "sound ?h" by (rule sound_shape [OF shape_set_node assms(1)]) simp
  show ?thesis
    by (rule sound_connect [OF a, where kind = "SourceLinkNode cycle" and i = 0 and name = "[]" and up = source and c = "next_node g"])
       (use assms(3) SetCycleSource in \<open>auto simp: setCycleSource_def split: if_splits\<close>)
next
  case (SetResultSource n source)
  then show ?thesis using sound_result [OF assms(1)] assms(3) by simp
qed

lemma build_graph_sound: "build_graph env ops = Inr g \<Longrightarrow> sound g"
proof -
  have "foldR checked_step h ops = Inr g \<Longrightarrow> sound h \<Longrightarrow> sound g" for h
  proof (induction ops arbitrary: h)
    case (Cons op ops)
    then obtain k where k: "checked_step h op = Inr k" and r: "foldR checked_step k ops = Inr g" by (auto simp: bindR_eq_Inr)
    have "sound k" using sound_step [OF Cons.prems(2)] k by (auto simp: checked_step_def split: if_splits)
    then show ?case by (rule Cons.IH [OF r])
  qed simp
  moreover have "sound (new_graph env)" by (simp add: sound_def new_graph_def)
  ultimately show "build_graph env ops = Inr g \<Longrightarrow> sound g" unfolding build_graph_def by blast
qed

lemma build_graph_refs:
  assumes "build_graph env ops = Inr g" shows "graph_refs g"
proof -
  have s: "sound g" and no: "nodes_ok g" using build_graph_sound [OF assms] build_graph_ok [OF assms] by (simp_all add: edges_ok_def)
  have "t < next_node g" if "n < next_node g" "nd_kind (gr_nodes g ! n) = SourceLinkNode t" for n t
    using nodes_okD(1) [OF no that(1), of t] that(2) by simp
  then have "refs_ok g" using nodes_okD(2) [OF no] s unfolding refs_ok_def sound_def by blast
  moreover have "is_stream (nd_kind (gr_nodes g ! n))" if "n < next_node g" "nd_consumer (gr_nodes g ! n) \<noteq> None" for n
    using nodes_okD(3) [OF no that(1)] that(2) by blast
  ultimately show ?thesis using s unfolding graph_refs_def sound_def by fastforce
qed

lemma merge_numbered:
  assumes "topo_spec build" "(if getId g n = 0 then buildTopologyCommon build n b g else Some (Inr (b - 1, g))) = Some (Inr (nextid, g'))"
    and "graph_refs g" "n < next_node g" "0 < b" "nd_kind (gr_nodes g ! n) = MergeNode"
  shows "numbered {} b g nextid g'" "nd_id (gr_nodes g' ! n) \<noteq> 0"
proof -
  have k: "kind_owned (nd_kind (gr_nodes g ! n)) = []" "getId g n = nd_id (gr_nodes g ! n)" using assms(6) getId_plain [of g n] by simp_all
  show "numbered {} b g nextid g'" "nd_id (gr_nodes g' ! n) \<noteq> 0"
    using common_plain [OF assms(1) _ assms(3-5) k(1)] numbered_refl [of "{}" b g] assms(2) k(2) by (auto split: if_splits)
qed

lemma result_numbered:
  assumes "(if getId g n = 0 then setId n b g else Inr g) = Inr g'" "graph_refs g" "n < next_node g" "0 < b"
    and "nd_kind (gr_nodes g ! n) = ResultLinkNode r"
  shows "numbered {} b g b g'" "nd_id (gr_nodes g' ! n) \<noteq> 0"
proof -
  have k: "getId g n = nd_id (gr_nodes g ! n)" using assms(5) getId_plain [of g n] by simp
  note s = own_id_first [OF assms(1) [unfolded k] assms(3,4)]
  show "numbered {} b g b g'" "nd_id (gr_nodes g' ! n) \<noteq> 0"
    using number_then [OF s numbered_stay [of "b + 1" b "{}" g'] assms(2-4)] assms(5) by simp_all
qed

lemma topo_case:
  assumes "topo_spec (buildTopology k)" "buildTopology (Suc k) n b g = Some (Inr (nextid, g'))"
    and "graph_refs g" "n < next_node g" "0 < b" "\<forall>t. nd_kind (gr_nodes g ! n) \<noteq> SourceLinkNode t"
  shows "numbered {} b g nextid g' \<and> nd_id (gr_nodes g' ! n) \<noteq> 0"
proof -
  have gid: "getId g n = nd_id (gr_nodes g ! n)" by (rule getId_plain [OF assms(6)])
  note r = assms(2) [unfolded buildTopology.simps]
  have plain: ?thesis if "buildTopologyCommon (buildTopology k) n b g = Some (Inr (nextid, g'))" "kind_owned (nd_kind (gr_nodes g ! n)) = []"
    using common_plain [OF assms(1) that(1) assms(3-5) that(2)] by simp
  show ?thesis
  proof (cases "nd_kind (gr_nodes g ! n)")
    case (InputNode e)
    then obtain j h where "buildTopologyCommon (buildTopology k) n b g = Some (Inr (j, h))" "buildTopologyCommon (buildTopology k) e (j + 1) h = Some (Inr (nextid, g'))"
      using r by (auto simp: bindT_eq_Inr)
    then show ?thesis using input_numbered [OF assms(1) _ _ assms(3-5) InputNode] by blast
  next
    case (ProcessNode e)
    then obtain h where "buildTopologyCommon (buildTopology k) n b g = Some (Inr (nextid, h))" "prepare_error n e h = Inr g'"
      using r by (auto simp: bindT_eq_Inr)
    then show ?thesis using error_owner_numbered [OF assms(1) _ _ assms(3-5)] ProcessNode by blast
  next
    case (SinkWithResultNode e)
    then obtain h where "buildTopologyCommon (buildTopology k) n b g = Some (Inr (nextid, h))" "prepare_error n e h = Inr g'"
      using r by (auto simp: bindT_eq_Inr)
    then show ?thesis using error_owner_numbered [OF assms(1) _ _ assms(3-5)] SinkWithResultNode by blast
  next
    case (SinkNode e)
    then obtain h where "(if nd_id (gr_nodes g ! n) = 0 then setId n b g else Inr g) = Inr h" "prepare_error n e h = Inr g'" "nextid = b"
      using r gid by (auto simp: bindT_eq_Inr)
    then show ?thesis using sink_numbered [OF _ _ assms(3-5) SinkNode] by blast
  next
    case (SplitNode links)
    then obtain h l where "setId n b g = Inr h" "foldR (prepareBranch n) l links = Inr g'"
      "foldT (\<lambda>(next_id, g) link. buildTopologyCommon (buildTopology k) link (next_id + 1) g) (b, h) links = Some (Inr (nextid, l))"
      using r by (auto simp: bindT_eq_Inr)
    then show ?thesis using branches_numbered [OF assms(1) _ _ prepareBranches_same assms(3-5)] SplitNode by blast
  next
    case (CaseNode links)
    then obtain h where "setId n b g = Inr h"
      "foldT (\<lambda>(next_id, g) link. buildTopologyCommon (buildTopology k) link (next_id + 1) g) (b, h) links = Some (Inr (nextid, g'))"
      using r by (auto simp: bindT_eq_Inr)
    then show ?thesis using branches_numbered [OF assms(1) _ _ ids_same_refl assms(3-5)] CaseNode by blast
  next
    case MergeNode
    then show ?thesis using r merge_numbered [OF assms(1) _ assms(3-5) MergeNode] by simp
  next
    case (MergeLinkNode m)
    then obtain h where "setId n b g = Inr h" "buildTopology k m (b + 1) h = Some (Inr (nextid, g'))"
      using r by (auto simp: bindT_eq_Inr split: if_splits)
    then show ?thesis using merge_link_numbered [OF assms(1) _ _ assms(3-5) MergeLinkNode] by blast
  next
    case (JoinLinkNode j i)
    then obtain h where "setId n b g = Inr h" "(if getId h j = 0 then buildTopology k j (b + 1) h else Some (Inr (b, h))) = Some (Inr (nextid, g'))"
      using r by (auto simp: bindT_eq_Inr)
    then show ?thesis using link_numbered [OF assms(1) _ _ assms(3-5)] JoinLinkNode by simp
  next
    case (ErrorLinkNode t)
    then obtain h where "setId n b g = Inr h" "(if getId h t = 0 then buildTopology k t (b + 1) h else Some (Inr (b, h))) = Some (Inr (nextid, g'))"
      using r by (auto simp: bindT_eq_Inr)
    then show ?thesis using link_numbered [OF assms(1) _ _ assms(3-5)] ErrorLinkNode by simp
  next
    case (ResultLinkNode x)
    then have "(if getId g n = 0 then setId n b g else Inr g) = Inr g'" "nextid = b" using r by (auto simp: bindT_eq_Inr)
    then show ?thesis using result_numbered [OF _ assms(3-5) ResultLinkNode] by blast
  qed (use assms(6) r plain in simp_all)
qed

lemma numbered_getId:
  assumes "numbered X b g k g'" "n < next_node g" "\<forall>t. nd_kind (gr_nodes g ! n) \<noteq> SourceLinkNode t"
  shows "getId g' n = nd_id (gr_nodes g' ! n)"
proof -
  have "same_shape g g'" using assms(1) by (simp add: numbered_def ids_kept_def)
  then show ?thesis using getId_plain [of g' n] assms(3) same_shapeD(2) [OF _ assms(2)] by simp
qed

lemma topo_spec_buildTopology: "topo_spec (buildTopology k)"
proof (induction k)
  case (Suc k)
  show ?case unfolding topo_spec_def
  proof (intro allI impI)
    fix n b g nextid g'
    assume a: "buildTopology (Suc k) n b g = Some (Inr (nextid, g'))" "graph_refs g" "n < next_node g" "0 < b"
      and c: "is_stream (nd_kind (gr_nodes g ! n)) \<or> getId g n = 0"
    have ns: "\<forall>t. nd_kind (gr_nodes g ! n) \<noteq> SourceLinkNode t" using a(1) c by (auto split: if_splits)
    show "numbered {} b g nextid g' \<and> getId g' n \<noteq> 0"
      using topo_case [OF Suc.IH a ns] numbered_getId [OF _ a(3) ns] by metis
  qed
qed (simp add: topo_spec_def)

subsubsection \<open>The traversal ends\<close>

definition unnumbered :: "graph \<Rightarrow> nat" where
  "unnumbered g = card {n. n < next_node g \<and> nd_id (gr_nodes g ! n) = 0}"

lemma unnumbered_le: "unnumbered g \<le> next_node g"
  unfolding unnumbered_def using card_mono [of "{..<next_node g}" "{n. n < next_node g \<and> nd_id (gr_nodes g ! n) = 0}"] by auto

lemma unnumbered_kept: 
  assumes "ids_kept g g'" shows "unnumbered g' \<le> unnumbered g"
proof -
  have "{n. n < next_node g' \<and> nd_id (gr_nodes g' ! n) = 0} \<subseteq> {n. n < next_node g \<and> nd_id (gr_nodes g ! n) = 0}"
    using kept_length [OF assms] id_kept [OF assms] by fastforce
  then show ?thesis unfolding unnumbered_def by (intro card_mono) simp_all
qed

lemma unnumbered_less:
  assumes "ids_kept g g'" "n < next_node g" "nd_id (gr_nodes g ! n) = 0" "nd_id (gr_nodes g' ! n) \<noteq> 0"
  shows "unnumbered g' < unnumbered g"
proof -
  have "{n. n < next_node g' \<and> nd_id (gr_nodes g' ! n) = 0} \<subset> {n. n < next_node g \<and> nd_id (gr_nodes g ! n) = 0}"
    using kept_length [OF assms(1)] id_kept [OF assms(1)] assms(2-4) by fastforce
  then show ?thesis unfolding unnumbered_def by (intro psubset_card_mono) simp_all
qed

lemma unnumbered_setId:
  assumes "setId n i g = Inr h" "n < next_node g" "0 < i" shows "unnumbered h < unnumbered g"
proof -
  have "nd_id (gr_nodes g ! n) = 0" using assms(1) by (simp add: setId_def split: if_splits)
  then show ?thesis using unnumbered_less [OF numbered_kept [OF setId_numbered(1) [OF assms]] assms(2)] setId_numbered(2) [OF assms] assms(3) by simp
qed

definition topo_total :: "nat \<Rightarrow> (nat \<Rightarrow> int \<Rightarrow> graph \<Rightarrow> (stream_error, int \<times> graph) result option) \<Rightarrow> bool" where
  "topo_total k build \<longleftrightarrow> (\<forall>n b g. graph_refs g \<longrightarrow> n < next_node g \<longrightarrow> 0 < b
     \<longrightarrow> 2 * unnumbered g + (if getId g n = 0 then 1 else 2) \<le> k \<longrightarrow> build n b g \<noteq> None)"

lemma common_total:
  assumes "topo_total k build" "graph_refs g" "n < next_node g" "0 < b"
    and "2 * unnumbered g + (if nd_id (gr_nodes g ! n) = 0 then 0 else 1) \<le> k"
  shows "buildTopologyCommon build n b g \<noteq> None"
proof -
  have no: "\<not> build c (b + 1) h = None"
    if h: "(if nd_id (gr_nodes g ! n) = 0 then setId n b g else Inr g) = Inr h" and c: "nd_consumer (gr_nodes h ! n) = Some c" "getId h c = 0" for h c
  proof -
    note s = own_id_first [OF h assms(3,4)]
    note st = numbered_step [OF assms(2) s(1) assms(4)]
    have "n < next_node h" using assms(3) st(2) by simp
    then have "c < next_node h" using st(1) c(1) unfolding graph_refs_def refs_ok_def by blast
    moreover have "2 * unnumbered h + 1 \<le> k"
      using unnumbered_setId [of n b g h] h assms(3,4,5) by (auto split: if_splits)
    ultimately show ?thesis using assms(1,4) st(1) c(2) unfolding topo_total_def by simp
  qed
  show ?thesis
  proof
    assume "buildTopologyCommon build n b g = None"
    then obtain h where h: "(if nd_id (gr_nodes g ! n) = 0 then setId n b g else Inr g) = Inr h"
      and r: "(case nd_consumer (gr_nodes h ! n) of
         Some c \<Rightarrow>
           bindT (if getId h c = 0 then build c (b + 1) h else Some (Inr (b, h))) (\<lambda>(nextid, g).
           bindT (Some (prepareConsumerCaller n g)) (\<lambda>g. Some (Inr (nextid, g))))
       | None \<Rightarrow> Some (Inr (b, h))) = None"
      unfolding buildTopologyCommon_def bindT_eq_None by auto
    from r obtain c where "nd_consumer (gr_nodes h ! n) = Some c" "getId h c = 0" "build c (b + 1) h = None"
      by (auto simp: bindT_eq_None split: option.splits if_splits)
    then show False using no [OF h] by blast
  qed
qed

lemma links_total:
  assumes "topo_spec build" "topo_total k build"
  shows "graph_refs g \<Longrightarrow> 0 < i + 1 \<Longrightarrow> (\<forall>l \<in> set links. l < next_node g \<and> kind_owned (nd_kind (gr_nodes g ! l)) = []) \<Longrightarrow>
    2 * unnumbered g + 1 \<le> k \<Longrightarrow>
    foldT (\<lambda>(next_id, g) link. buildTopologyCommon build link (next_id + 1) g) (i, g) links \<noteq> None"
proof (induction links arbitrary: i g)
  case (Cons l links)
  have l: "l < next_node g" "kind_owned (nd_kind (gr_nodes g ! l)) = []" using Cons.prems(3) by simp_all
  have "buildTopologyCommon build l (i + 1) g \<noteq> None" using common_total [OF assms(2) Cons.prems(1) l(1) Cons.prems(2)] Cons.prems(4) by simp
  moreover have "foldT (\<lambda>(next_id, g) link. buildTopologyCommon build link (next_id + 1) g) (j, h) links \<noteq> None"
    if c: "buildTopologyCommon build l (i + 1) g = Some (Inr (j, h))" for j h
  proof -
    note n = common_plain [OF assms(1) c Cons.prems(1) l(1) Cons.prems(2) l(2)]
    note st = numbered_step [OF Cons.prems(1) n(1) Cons.prems(2)]
    show ?thesis
      using Cons.prems(3,4) unnumbered_kept [OF numbered_kept [OF n(1)]] by (intro Cons.IH [OF st(1,3)]) (simp_all add: st(2,4))
  qed
  ultimately show ?case by (auto simp: bindT_eq_None)
qed simp

lemma after_setId_total:
  assumes "topo_total k (buildTopology k)" "setId n b g = Inr h" "graph_refs g" "n < next_node g" "0 < b"
    and "2 * unnumbered g \<le> k" "t \<in> set (kind_owned (nd_kind (gr_nodes g ! n)))"
  shows "buildTopology k t (b + 1) h \<noteq> None"
proof -
  note s = setId_numbered [OF assms(2,4,5)]
  note st = numbered_step [OF assms(3) s(1) assms(5)]
  have "t < next_node h" using graph_refsD(1) [OF assms(3,4,7)] st(2) by simp
  moreover have "2 * unnumbered h + 2 \<le> k" using unnumbered_setId [OF assms(2,4,5)] assms(6) by simp
  ultimately show ?thesis using assms(1,5) st(1) unfolding topo_total_def by (simp split: if_splits)
qed

lemma branches_total:
  assumes "topo_total k (buildTopology k)" "setId n b g = Inr h" "graph_refs g" "n < next_node g" "0 < b"
    and "2 * unnumbered g \<le> k" "nd_kind (gr_nodes g ! n) \<in> {SplitNode links, CaseNode links}"
  shows "foldT (\<lambda>(next_id, g) link. buildTopologyCommon (buildTopology k) link (next_id + 1) g) (b, h) links \<noteq> None"
proof -
  note s = setId_numbered [OF assms(2,4,5)]
  note st = numbered_step [OF assms(3) s(1) assms(5)]
  have "l < next_node g \<and> kind_owned (nd_kind (gr_nodes g ! l)) = []" if "l \<in> set links" for l
    using graph_refsD [OF assms(3,4), of l] assms(7) that by auto
  then show ?thesis
    using unnumbered_setId [OF assms(2,4,5)] assms(6)
    by (intro links_total [OF topo_spec_buildTopology assms(1) st(1,3)]) (simp_all add: st(2,4))
qed

lemma input_total:
  assumes "topo_total k (buildTopology k)" "graph_refs g" "n < next_node g" "0 < b" "nd_kind (gr_nodes g ! n) = InputNode e"
    and "2 * unnumbered g + (if nd_id (gr_nodes g ! n) = 0 then 0 else 1) \<le> k" "buildTopologyCommon (buildTopology k) n b g = Some (Inr (j, h))"
  shows "buildTopologyCommon (buildTopology k) e (j + 1) h \<noteq> None"
proof -
  note c = common_numbered [OF topo_spec_buildTopology assms(7,2-4)]
  note st = numbered_step [OF assms(2) c(1) assms(4)]
  have e: "e < next_node h" using graph_refsD(1) [OF assms(2,3), of e] assms(5) st(2) by simp
  have "2 * unnumbered h + 1 \<le> k"
  proof (cases "nd_id (gr_nodes g ! n) = 0")
    case True
    then show ?thesis using unnumbered_less [OF numbered_kept [OF c(1)] assms(3) True c(2)] assms(6) by simp
  next
    case False
    then show ?thesis using unnumbered_kept [OF numbered_kept [OF c(1)]] assms(6) by simp
  qed
  then show ?thesis using common_total [OF assms(1) st(1) e st(3)] by simp
qed

lemma total_case:
  assumes "topo_total k (buildTopology k)" "graph_refs g" "n < next_node g" "0 < b"
    and "2 * unnumbered g + (if getId g n = 0 then 0 else 1) \<le> k" "\<forall>t. nd_kind (gr_nodes g ! n) \<noteq> SourceLinkNode t"
  shows "\<not> buildTopology (Suc k) n b g = None"
proof
  assume "buildTopology (Suc k) n b g = None"
  note r = this [unfolded buildTopology.simps]
  have gid: "getId g n = nd_id (gr_nodes g ! n)" by (rule getId_plain [OF assms(6)])
  have c: "\<not> buildTopologyCommon (buildTopology k) n b g = None"
    using common_total [OF assms(1-4)] assms(5) gid by simp
  have two: "2 * unnumbered g \<le> k" using assms(5) by (simp split: if_splits)
  have t: "\<not> buildTopology k t (b + 1) h = None" if "setId n b g = Inr h" "t \<in> set (kind_owned (nd_kind (gr_nodes g ! n)))" for h t
    using after_setId_total [OF assms(1) that(1) assms(2-4) two that(2)] by simp
  have f: "\<not> foldT (\<lambda>(next_id, g) link. buildTopologyCommon (buildTopology k) link (next_id + 1) g) (b, h) links = None"
    if "setId n b g = Inr h" "nd_kind (gr_nodes g ! n) \<in> {SplitNode links, CaseNode links}" for h links
    using branches_total [OF assms(1) that(1) assms(2-4) two that(2)] by simp
  show False
  proof (cases "nd_kind (gr_nodes g ! n)")
    case (InputNode e)
    then show ?thesis using r c input_total [OF assms(1-4) InputNode assms(5) [unfolded gid]] by (auto simp: bindT_eq_None)
  next
    case (SplitNode links)
    then show ?thesis using r f [of _ links] by (auto simp: bindT_eq_None)
  next
    case (CaseNode links)
    then show ?thesis using r f [of _ links] by (auto simp: bindT_eq_None)
  next
    case (MergeLinkNode m)
    then show ?thesis using r t [of _ m] by (auto simp: bindT_eq_None split: if_splits)
  next
    case (JoinLinkNode j i)
    then show ?thesis using r t [of _ j] by (auto simp: bindT_eq_None split: if_splits)
  next
    case (ErrorLinkNode j)
    then show ?thesis using r t [of _ j] by (auto simp: bindT_eq_None split: if_splits)
  qed (use r c assms(6) in \<open>auto simp: bindT_eq_None split: if_splits\<close>)
qed

lemma topo_total_buildTopology: "topo_total k (buildTopology k)"
proof (induction k)
  case 0
  show ?case by (simp add: topo_total_def split: if_splits)
next
  case (Suc k)
  show ?case unfolding topo_total_def
  proof (intro allI impI)
    fix n b g
    assume a: "graph_refs g" "n < next_node g" "0 < (b :: int)" "2 * unnumbered g + (if getId g n = 0 then 1 else 2) \<le> Suc k"
    show "buildTopology (Suc k) n b g \<noteq> None"
    proof (cases "\<exists>t. nd_kind (gr_nodes g ! n) = SourceLinkNode t")
      case True
      then show ?thesis by auto
    next
      case False
      then show ?thesis using total_case [OF Suc.IH a(1-3)] a(4) by (simp split: if_splits)
    qed
  qed
qed

lemma buildAll_step:
  assumes "graph_refs g" "0 \<le> i" "\<forall>s \<in> set ss. stream_at g s"
  shows "\<not> foldT (\<lambda>(nextId, g) s. buildTopology (2 * length (gr_nodes g) + 2) s (nextId + 1) g) (i, g) ss = None"
    "foldT (\<lambda>(nextId, g) s. buildTopology (2 * length (gr_nodes g) + 2) s (nextId + 1) g) (i, g) ss = Some (Inr (nextid, g')) \<Longrightarrow>
     numbered {} (i + 1) g nextid g' \<and> (\<forall>s \<in> set ss. getId g' s \<noteq> 0)"
proof -
  let ?f = "\<lambda>(nextId, g) s. buildTopology (2 * length (gr_nodes g) + 2) s (nextId + 1) g"
  have "\<not> foldT ?f (i, g) ss = None \<and> (foldT ?f (i, g) ss = Some (Inr (nextid, g')) \<longrightarrow>
     numbered {} (i + 1) g nextid g' \<and> (\<forall>s \<in> set ss. getId g' s \<noteq> 0))"
    using assms
  proof (induction ss arbitrary: i g)
    case Nil
    then show ?case using numbered_refl [of "{}" "i + 1" g] by auto
  next
    case (Cons s ss)
    let ?b = "buildTopology (2 * next_node g + 2) s (i + 1) g"
    have s: "s < next_node g" "is_stream (nd_kind (gr_nodes g ! s))" using Cons.prems(3) by (simp_all add: stream_at_def)
    have tot: "\<not> ?b = None"
      using topo_total_buildTopology [of "2 * next_node g + 2"] Cons.prems(1,2) s(1) unnumbered_le [of g]
      unfolding topo_total_def by (simp del: buildTopology.simps split: if_splits)
    have rest: "\<not> foldT ?f (j, h) ss = None \<and> (foldT ?f (j, h) ss = Some (Inr (nextid, g')) \<longrightarrow>
        numbered {} (i + 1) g nextid g' \<and> (\<forall>s \<in> set (s # ss). getId g' s \<noteq> 0))" if b: "?b = Some (Inr (j, h))" for j h
    proof -
      have n: "numbered {} (i + 1) g j h" "getId h s \<noteq> 0"
        using topo_spec_buildTopology Cons.prems(1,2) s b unfolding topo_spec_def by (meson zle_add1_eq_le add_increasing zless_add1_eq le_less_trans)+
      have p: "0 < i + 1" using Cons.prems(2) by simp
      note st = numbered_step [OF Cons.prems(1) n(1) p]
      have "\<forall>s \<in> set ss. stream_at h s" using Cons.prems(3) st(2,4) by (simp add: stream_at_def)
      then have IH: "\<not> foldT ?f (j, h) ss = None" "foldT ?f (j, h) ss = Some (Inr (nextid, g')) \<Longrightarrow>
          numbered {} (j + 1) h nextid g' \<and> (\<forall>s \<in> set ss. getId g' s \<noteq> 0)"
        using Cons.IH [OF st(1), of j] st(3) by simp_all
      have "getId g' s \<noteq> 0" if "numbered {} (j + 1) h nextid g'"
        using getId_kept [OF numbered_kept [OF that], of s] st(1,2) s(1) n(2) by (simp add: graph_refs_def)
      then show ?thesis using IH st(5) [of "{}" nextid g'] by auto
    qed
    then show ?case using tot by (auto simp: bindT_eq_None bindT_eq_Inr simp del: buildTopology.simps)
  qed
  then show "\<not> foldT ?f (i, g) ss = None"
    "foldT ?f (i, g) ss = Some (Inr (nextid, g')) \<Longrightarrow> numbered {} (i + 1) g nextid g' \<and> (\<forall>s \<in> set ss. getId g' s \<noteq> 0)" by blast+
qed

lemma numbered_from_scratch:
  assumes "\<forall>n < next_node g. nd_id (gr_nodes g ! n) = 0" "graph_refs g" "\<forall>s \<in> set ss. stream_at g s"
    and "numbered {} 1 g nextid g'" "\<forall>s \<in> set ss. getId g' s \<noteq> 0" "\<forall>s \<in> set ss. nd_kind (gr_nodes g ! s) \<noteq> ErrorStreamNode"
  shows "(\<forall>n < next_node g'. nd_id (gr_nodes g' ! n) \<le> nextid
        \<and> (nd_id (gr_nodes g' ! n) < 0 \<longrightarrow> nd_kind (gr_nodes g' ! n) = ErrorStreamNode)
        \<and> (0 < nd_id (gr_nodes g' ! n) \<longrightarrow> node_closed g' n
            \<and> (\<forall>m < next_node g'. nd_id (gr_nodes g' ! m) = nd_id (gr_nodes g' ! n) \<longrightarrow> m = n)))
      \<and> (\<forall>s \<in> set ss. 0 < nd_id (gr_nodes g' ! s))"
proof -
  note st = numbered_step [OF assms(2,4) zero_less_one]
  have "ids_below 1 g" using assms(1) by (simp add: ids_below_def)
  then have b: "ids_below (nextid + 1) g'" using assms(4) by (simp add: numbered_def)
  have err: "nd_kind (gr_nodes g' ! n) = ErrorStreamNode" if "n < next_node g'" "nd_id (gr_nodes g' ! n) < 0" for n
    using st(1) that unfolding graph_refs_def by blast
  have closed: "node_closed g' n" if "n < next_node g'" "0 < nd_id (gr_nodes g' ! n)" for n
    using assms(1,4) that st(2) unfolding numbered_def by simp
  have "nd_id (gr_nodes g' ! n) \<le> nextid" if "n < next_node g'" for n using b that unfolding ids_below_def by fastforce
  moreover have "m = n" if "n < next_node g'" "m < next_node g'" "0 < nd_id (gr_nodes g' ! n)" "nd_id (gr_nodes g' ! m) = nd_id (gr_nodes g' ! n)" for n m
    using b that unfolding ids_below_def by metis
  moreover have "0 < nd_id (gr_nodes g' ! s)" if s: "s \<in> set ss" for s
  proof -
    have sl: "s < next_node g" "is_stream (nd_kind (gr_nodes g ! s))" using assms(3) s by (simp_all add: stream_at_def)
    have k: "nd_kind (gr_nodes g' ! s) = nd_kind (gr_nodes g ! s)" by (rule st(4) [OF sl(1)])
    have "nd_id (gr_nodes g' ! s) \<noteq> 0" using bspec [OF assms(5) s] getId_stream [of g' s] k sl(2) by simp
    moreover have "\<not> nd_id (gr_nodes g' ! s) < 0" using err [of s] sl(1) st(2) k assms(6) s by auto
    ultimately show ?thesis by simp
  qed
  ultimately show ?thesis using err closed by blast
qed


lemmas topology_eval = graph_eval buildAll_def buildTopologyCommon_def getId_def setId_def prepare_error_def prepareBranch_def callerTarget_def


text \<open>The nodes behind the error stream of an operator are not visited: they keep the id 0.\<close>

lemma behind_error_unnumbered:
  "\<exists>g g'. build_graph plain_env [AddInput 1 ''in'', AddProcess 1 2 ''p'', AddTransform 2 3 ''a''] = Inr g
     \<and> buildAll g = Some (Inr (3, g')) \<and> nd_consumer (gr_nodes g' ! 2) = Some 4 \<and> nd_id (gr_nodes g' ! 2) = - 2 \<and> nd_id (gr_nodes g' ! 4) = 0"
  by (simp add: topology_eval)

text \<open>The caller table is keyed by configuration ids. A join and its right link have the same id, so a split that feeds
  both sides of one join calls the left side twice.\<close>

lemma split_into_both_sides:
  "\<exists>g g' cl. build_graph plain_env [AddInput 1 ''in'', AddSplit 1 2 ''s'' 2, AddJoin 2 [3] 3 ''j''] = Inr g
     \<and> nd_kind (gr_nodes g ! 6) = JoinLinkNode 5 0 \<and> nd_consumer (gr_nodes g ! 2) = Some 5 \<and> nd_consumer (gr_nodes g ! 3) = Some 6
     \<and> (\<exists>i. buildAll g = Some (Inr (i, g'))) \<and> nd_dispatchers (gr_nodes g' ! 4) = [(2, 3), (2, 3)]
     \<and> fmlookup (gr_callers g') (2, 3) = Some cl \<and> cl_consumer cl = 5"
  by (simp add: topology_eval)

end
