(* ===== verification/Spec2Isabelle.thy ===== *)
theory Spec2Isabelle
  imports Serde RotatingMap JoinStore QueuedPool DelayPool ConfigLoading CommandLine StreamingLifecycle HttpTypes TopologyNumbering
begin

text \<open>
  \<^bold>\<open>A verification library of the streaming-service runtime (cppboostservicelib).\<close>

  \<^bold>\<open>The program.\<close> A service is a graph of streams. A YAML configuration describes the streams, the endpoints they read
  from and write to, the links between them and how each link calls its consumer. At start the command line is parsed,
  the configuration is loaded (two documents merged, variables substituted, every struct parsed, the whole indexed and
  checked), the graph is built stream by stream and its nodes are numbered. Messages then travel along the links:
  directly, through a task pool, through a priority task pool, or as a parallel task. They carry a message context
  (deadline, cancellation, propagated values, completion token). Joins wait for their values in a storage with expiry,
  delays in a delay pool. On a change of the files the configuration is reloaded; on shutdown pools, registries and
  storages drain. Paths below are relative to src/include/servicelib.

  \<^bold>\<open>Conventions.\<close> A function that may throw returns \<open>('e, 'a) result\<close>, with the error type of its component; \<open>bindR\<close> and
  \<open>foldR\<close> are sequencing and the loop over a container. Integers whose width matters are words; where the source uses a
  signed quantity far from its limits it is an \<open>int\<close>. A class is a record whose fields carry a prefix per class, a
  variant or enumeration is a datatype, a table is a finite map or a list of entries where order matters. Code that runs
  concurrently is a machine: each critical section, handler or atomic access is one function on the state, and an inductive
  predicate (\<open>..._reach\<close>) interleaves them in any order. yaml-cpp, the file system, clocks, the metrics back end and user
  callbacks are arguments; what is assumed of yaml-cpp is \<open>yaml_cpp_laws\<close>, and \<open>plain_yaml\<close> satisfies it.

  \<^bold>\<open>Theories, in the order of the layers.\<close>

  \<^item> Prelude: results, integer types, generic lemmas on lists, options and maps, and the locale \<open>refinement\<close> (a step function
    that preserves an invariant and simulates an abstract step also does so for sequences of steps).

  \<^item> Serde (runtime/serde/serde.hpp, serdeimpl.hpp): the byte primitives, framing and every serializer. The locale
    \<open>serde_codec\<close> is the contract of a serializer (what is written is read back and the cursor stands behind it);
    \<open>fixed_codec\<close>, \<open>pair_codec\<close> and \<open>map_codec\<close> extend it, and each serializer of the source is an interpretation. Shown:
    round trips of scalars, strings, arrays and maps, the order of the signed encodings, the exact domain of the string
    decoder, and how a hostile element count fails.

  \<^item> RotatingMap (runtime/store/rotatingmap.hpp): the sharded map of two generations. Every operation refines one operation
    of a finite map; rotation moves the tables and keeps every entry.

  \<^item> JoinStore (runtime/store/hashmap.hpp, joinstore.hpp, storage.hpp): the storage of waiting join values as a machine over
    the sections under its mutexes. A join completes at most once, the gauge is exact, \<open>stop()\<close> drains, and a single call of
    \<open>joinValue\<close> is described by its effect on the live values.

  \<^item> PoolContract, QueuedPool, DelayPool (runtime/pool): the locale \<open>draining_pool\<close> (nothing accepted is lost, \<open>stop()\<close> is
    released only when nothing is in flight) and its two interpretations. Further: order of the priority queue, number of
    running callbacks, no callback before its time, progress of \<open>stop()\<close>.

  \<^item> Sync (runtime/detail/sync.hpp, storage.hpp): the cooperative mutexes, exclusive and fair, the single-use event and the
    task storage. The locale \<open>admission\<close> is the contract of a counter that can be closed; it is interpreted on the task
    storage and on the activity of StreamingLifecycle (datasink/grpc/streaming_lifecycle.hpp), whose registry cancels every
    session that is open when it closes.

  \<^item> MessageContexts (runtime/context.hpp): copy-on-write contexts over an explicit store with the sharing of states, shown to
    behave as values, and the nested completion frames, each completed once.

  \<^item> HttpTypes (runtime/detail/http_types.hpp, environment/tracing/tracing.hpp, datasource/http/router.hpp): headers in their
    native and detached forms (the locale \<open>header_table\<close>), the round trip of a context through headers, the router.

  \<^item> ServiceApi (api): the enumerations of the service description and their parsers (the locale \<open>enum_spellings\<close>). Yaml
    (runtime/config/yaml.hpp, yaml_value.hpp, config_parse_common.hpp): the document tree, reads and DeepMerge. ConfigStreams,
    ConfigConnectors, ConfigLinks, ConfigRuntime (runtime/config): every configuration struct with its parser, and
    RuntimeConfig; parsers read back any document that spells a configuration, RuntimeConfig is accepted exactly for
    consistent configurations and its lookups are correct. Substitution (substitution.hpp), ConfigLoading (loader.hpp): a
    published configuration is always valid and polling converges to the files. CommandLine (command_line.hpp).

  \<^item> Callers (runtime/caller.hpp): how the caller of a link is chosen from the configuration. StreamGraph (runtime/stream.hpp,
    base.hpp, operators): the graph as a list of nodes (\<open>graph\<close>, \<open>node\<close>, \<open>node_kind\<close>), one constructor of \<open>build_op\<close> per
    operation of Stream; whatever sequence of them built the graph, every edge has its caller. TopologyNumbering
    (buildTopology of the streams and of runtime/environment.hpp): the walk over the graph ends and assigns ids correctly.

  \<^bold>\<open>How the components meet.\<close> StreamGraph uses Callers, which uses the lookups of ConfigRuntime, which is built from the
  parsers over Yaml and ServiceApi; ConfigLoading composes Yaml, Substitution and the construction of a configuration. HttpTypes
  reads and writes the contexts of MessageContexts. The pools share PoolContract, the closable counters share Sync.

  \<^bold>\<open>Bounds and fuel.\<close> \<open>hs_joinValue\<close> is bounded by rounds of its retry loop; two are enough for a thread that runs alone,
  and the machine of JoinStore, which has no bound, covers the concurrent case. \<open>SubstituteNode\<close> is bounded by recursion
  depth, since a variable may refer to itself: more than the size of the document is enough for a plain document, and
  no bound is enough for a variable that names itself. \<open>buildTopology\<close> is bounded by twice the number of nodes plus two: every
  second level of the recursion numbers a node. \<open>configId_chain\<close> is bounded by the number of nodes. All other recursions are
  structural or have a termination proof.

  \<^bold>\<open>Not modelled.\<close> The transports (HTTP over Boost.Beast, gRPC, Kafka over librdkafka), cron scheduling over libcron and the
  user-supplied local connectors are adapters between callbacks of libraries outside the repository and the interfaces above.
  The Asio runtime, coroutine suspension and thread creation appear only as the freedom of the machines to take steps in
  any order. The operators' user functions and the delivery of values along the links (consume of the callers and
  operators), verification and printing of the topology, and the program text that \<open>buildTopology\<close> also writes are not
  modelled; of the execution environment only registration, the table of callers and the numbering are. Logging, metrics and
  tracing exporters, the status page and the generated web page only write output. The application lifecycle
  (serviceapp.hpp) sequences these parts. Template deduction and typed accessors have no run-time behaviour of their own.
\<close>

end
